(* ===== verification/Corus_Prelude.thy ===== *)
theory Corus_Prelude
  imports Main "HOL-Library.Word" "HOL-Library.Monad_Syntax"
begin

text \<open>
  Shared vocabulary of the development: machine bytes and words, little-endian
  encoding, the C string literals of the source as byte lists, buffers handed to
  the kernel, and generic lemmas on lists and the option monad that the component
  theories use.

  \<^item> \<open>le_nat\<close> and \<open>nat_le\<close> write and read an unsigned number of a given number of
    bytes, least significant byte first (the byte order of x86\_64 and aarch64
    Linux).
  \<^item> \<open>buf\<close> is what the source passes as \<open>(const void *, size_t)\<close> to \<open>write()\<close>: a
    local object (its bytes) or a range of the address space of the dumped process.
\<close>

type_synonym byte = "8 word"
type_synonym u16 = "16 word"
type_synonym u32 = "32 word"
type_synonym u64 = "64 word"

text \<open>The address space the dump is taken from: the byte at every address.\<close>

type_synonym memory = "u64 \<Rightarrow> byte"

named_theorems le_simps \<open>lengths and round trips of byte encodings\<close>
named_theorems buf_simps \<open>lengths and contents of buffers\<close>

subsection \<open>Characters and strings\<close>

definition str :: "string \<Rightarrow> byte list" where
  "str s = map (\<lambda>c. of_nat (of_char c)) s"

lemma length_str [simp]: "length (str s) = length s"
  by (simp add: str_def)

lemma str_Nil [simp]: "str [] = []"
  by (simp add: str_def)

lemma str_Cons [simp]: "str (c # s) = of_nat (of_char c) # str s"
  by (simp add: str_def)

lemma str_append [simp]: "str (s @ t) = str s @ str t"
  by (simp add: str_def)

subsection \<open>Little-endian numbers\<close>

fun le_nat :: "nat \<Rightarrow> nat \<Rightarrow> byte list" where
  "le_nat 0 x = []"
| "le_nat (Suc n) x = of_nat x # le_nat n (x div 256)"

fun nat_le :: "byte list \<Rightarrow> nat" where
  "nat_le [] = 0"
| "nat_le (b # bs) = unat b + 256 * nat_le bs"

lemma length_le_nat [simp, le_simps]: "length (le_nat n x) = n"
  by (induction n arbitrary: x) auto

lemma unat_of_nat_byte: "unat (of_nat x :: byte) = x mod 256"
  by (simp add: unat_of_nat)

lemma nat_le_le_nat [le_simps]: "nat_le (le_nat n x) = x mod 256 ^ n"
proof (induction n arbitrary: x)
  case 0
  then show ?case by simp
next
  case (Suc n)
  have "x mod 256 + 256 * (x div 256 mod 256 ^ n) = x mod (256 * 256 ^ n)"
    by (simp add: mod_mult2_eq)
  with Suc show ?case by (simp add: unat_of_nat_byte)
qed

lemma nat_le_bound: "nat_le bs < 256 ^ length bs"
proof (induction bs)
  case Nil
  then show ?case by simp
next
  case (Cons b bs)
  have "unat b < 256" using unsigned_less [of b, where 'a = nat] by simp
  moreover have "nat_le bs + 1 \<le> 256 ^ length bs" using Cons by simp
  then have "256 * (nat_le bs + 1) \<le> 256 * 256 ^ length bs" by (rule mult_left_mono) simp
  ultimately show ?case by simp
qed

lemma unat_of_nat_u64: "x < 2 ^ 64 \<Longrightarrow> unat (of_nat x :: u64) = x"
  by (simp add: unat_of_nat)

definition le16 :: "u16 \<Rightarrow> byte list" where
  "le16 w = le_nat 2 (unat w)"

definition le32 :: "u32 \<Rightarrow> byte list" where
  "le32 w = le_nat 4 (unat w)"

definition le64 :: "u64 \<Rightarrow> byte list" where
  "le64 w = le_nat 8 (unat w)"

definition of_le16 :: "byte list \<Rightarrow> u16" where
  "of_le16 bs = of_nat (nat_le bs)"

definition of_le32 :: "byte list \<Rightarrow> u32" where
  "of_le32 bs = of_nat (nat_le bs)"

definition of_le64 :: "byte list \<Rightarrow> u64" where
  "of_le64 bs = of_nat (nat_le bs)"

lemma length_le16 [simp, le_simps]: "length (le16 w) = 2"
  by (simp add: le16_def)

lemma length_le32 [simp, le_simps]: "length (le32 w) = 4"
  by (simp add: le32_def)

lemma length_le64 [simp, le_simps]: "length (le64 w) = 8"
  by (simp add: le64_def)

lemma of_le16_le16 [simp, le_simps]: "of_le16 (le16 w) = w"
  using unsigned_less [of w, where 'a = nat] by (simp add: of_le16_def le16_def nat_le_le_nat)

lemma of_le32_le32 [simp, le_simps]: "of_le32 (le32 w) = w"
  using unsigned_less [of w, where 'a = nat] by (simp add: of_le32_def le32_def nat_le_le_nat)

lemma of_le64_le64 [simp, le_simps]: "of_le64 (le64 w) = w"
  using unsigned_less [of w, where 'a = nat] by (simp add: of_le64_def le64_def nat_le_le_nat)

lemma unat_plus_u64: "unat a + unat b < 2 ^ 64 \<Longrightarrow> unat (a + b :: u64) = unat a + unat b"
  by (simp add: unat_word_ariths)

lemma unat_exp_u64: "k < 64 \<Longrightarrow> unat (2 ^ k :: u64) = 2 ^ k"
  using unat_of_nat_u64 [of "2 ^ k"] power_strict_increasing [of k 64 "2::nat"] by simp

lemma le_nat_nat_le: "le_nat (length bs) (nat_le bs) = bs"
proof (induction bs)
  case (Cons b bs)
  have "unat b < 256" using unsigned_less [of b, where 'a = nat] by simp
  then have "(of_nat (unat b + 256 * nat_le bs) :: byte) = b"
    by (simp only: word_unat_eq_iff unat_of_nat) simp
  with Cons \<open>unat b < 256\<close> show ?case by (simp del: of_nat_add)
qed simp

lemma le64_of_le64: "length bs = 8 \<Longrightarrow> le64 (of_le64 bs) = bs"
  using nat_le_bound [of bs] le_nat_nat_le [of bs]
  by (simp add: le64_def of_le64_def unat_of_nat_u64)

subsection \<open>Reading the address space\<close>

definition mem_bytes :: "memory \<Rightarrow> u64 \<Rightarrow> nat \<Rightarrow> byte list" where
  "mem_bytes m a n = map (\<lambda>i. m (a + of_nat i)) [0..<n]"

lemma length_mem_bytes [simp, buf_simps]: "length (mem_bytes m a n) = n"
  by (simp add: mem_bytes_def)

lemma mem_bytes_0 [simp, buf_simps]: "mem_bytes m a 0 = []"
  by (simp add: mem_bytes_def)

lemma nth_mem_bytes: "i < n \<Longrightarrow> mem_bytes m a n ! i = m (a + of_nat i)"
  by (simp add: mem_bytes_def)

lemma take_mem_bytes [buf_simps]: "take k (mem_bytes m a n) = mem_bytes m a (min k n)"
  by (rule nth_equalityI) (auto simp: nth_mem_bytes)

lemma drop_mem_bytes [buf_simps]:
  "drop k (mem_bytes m a n) = mem_bytes m (a + of_nat k) (n - k)"
  by (rule nth_equalityI) (auto simp: nth_mem_bytes add.assoc)

subsection \<open>Buffers\<close>

datatype buf =
  Local "byte list"        \<comment> \<open>an object of the dumper itself\<close>
| Mem u64 nat              \<comment> \<open>\<open>len\<close> bytes of the address space from \<open>addr\<close>\<close>

fun buf_len :: "buf \<Rightarrow> nat" where
  "buf_len (Local bs) = length bs"
| "buf_len (Mem a n) = n"

text \<open>\<open>buf + n\<close>, with the length reduced accordingly.\<close>

fun buf_drop :: "nat \<Rightarrow> buf \<Rightarrow> buf" where
  "buf_drop k (Local bs) = Local (drop k bs)"
| "buf_drop k (Mem a n) = Mem (a + of_nat k) (n - k)"

fun buf_take :: "nat \<Rightarrow> buf \<Rightarrow> buf" where
  "buf_take k (Local bs) = Local (take k bs)"
| "buf_take k (Mem a n) = Mem a (min k n)"

fun buf_bytes :: "memory \<Rightarrow> buf \<Rightarrow> byte list" where
  "buf_bytes m (Local bs) = bs"
| "buf_bytes m (Mem a n) = mem_bytes m a n"

lemma length_buf_bytes [simp, buf_simps]: "length (buf_bytes m b) = buf_len b"
  by (cases b) simp_all

lemma buf_bytes_Nil [simp, buf_simps]: "buf_bytes m b = [] \<longleftrightarrow> buf_len b = 0"
  by (metis length_0_conv length_buf_bytes)

lemma buf_len_drop [simp, buf_simps]: "buf_len (buf_drop k b) = buf_len b - k"
  by (cases b) simp_all

lemma buf_len_take [simp, buf_simps]: "buf_len (buf_take k b) = min k (buf_len b)"
  by (cases b) simp_all

lemma buf_bytes_drop [simp, buf_simps]: "buf_bytes m (buf_drop k b) = drop k (buf_bytes m b)"
  by (cases b) (simp_all add: drop_mem_bytes)

lemma buf_bytes_take [simp, buf_simps]: "buf_bytes m (buf_take k b) = take k (buf_bytes m b)"
  by (cases b) (simp_all add: take_mem_bytes)

lemma buf_drop_0 [simp, buf_simps]: "buf_drop 0 b = b"
  by (cases b) simp_all

lemma buf_drop_drop [simp, buf_simps]: "buf_drop j (buf_drop k b) = buf_drop (k + j) b"
  by (cases b) (simp_all add: add.commute add.left_commute)

subsection \<open>Lists\<close>

lemma take_then_take_drop: "take k xs @ take j (drop k xs) = take (k + j) xs"
  by (simp add: take_add)

lemma length_concat_replicate: "(\<And>x. x \<in> set xs \<Longrightarrow> length (f x) = n) \<Longrightarrow>
  length (concat (map f xs)) = n * length xs"
  by (induction xs) simp_all

text \<open>The part of a byte sequence from an offset on, as a file reader sees it.\<close>

definition file_slice :: "nat \<Rightarrow> nat \<Rightarrow> 'a list \<Rightarrow> 'a list" where
  "file_slice off n xs = take n (drop off xs)"

lemma file_slice_append1: "off + n \<le> length xs \<Longrightarrow> file_slice off n (xs @ ys) = file_slice off n xs"
  by (simp add: file_slice_def)

lemma file_slice_append2: "file_slice (length xs + off) n (xs @ ys) = file_slice off n ys"
  by (simp add: file_slice_def)

lemma file_slice_exact: "length ys = n \<Longrightarrow> file_slice (length xs) n (xs @ ys @ zs) = ys"
  by (simp add: file_slice_def)

subsection \<open>Padding to a multiple\<close>

definition pad_to :: "nat \<Rightarrow> nat \<Rightarrow> nat" where
  "pad_to k n = (if n mod k = 0 then 0 else k - n mod k)"

lemma pad_to_dvd: "0 < k \<Longrightarrow> k dvd (n + pad_to k n)"
proof -
  assume k: "0 < k"
  show ?thesis
  proof (cases "n mod k = 0")
    case True
    then show ?thesis by (simp add: pad_to_def dvd_eq_mod_eq_0)
  next
    case False
    have "n mod k < k" using k by simp
    have "n + (k - n mod k) = k * (n div k) + k"
      using \<open>n mod k < k\<close> mult_div_mod_eq [of k n] by linarith
    then have "k dvd n + (k - n mod k)" by simp
    with False show ?thesis by (simp add: pad_to_def)
  qed
qed

lemma pad_to_less: "0 < k \<Longrightarrow> pad_to k n < k"
  by (simp add: pad_to_def)

end
