(* ===== verification/Syscall_Support.thy ===== *)
theory Syscall_Support
  imports Corus_Prelude
begin

text \<open>
  The system call layer, from \<open>coredumper/linux_syscall_support.h\<close> (the x86\_64
  configuration: 64 bit \<open>long\<close>, \<open>KERNEL_NSIG\<close> 64).

  The Linux kernel is not part of the repository: it is the parameter \<open>K\<close> of every
  definition that makes a system call. A kernel maps a call and the state of the
  world to the raw contents of the result register, the bytes and integers it stored
  through pointers of the call, and the new world. The state \<open>'w st\<close> of the program
  is \<open>errno\<close>, the world, and the sequence of system calls made so far (a ghost field
  that the properties speak about; no definition reads it).

  \<open>LSS_RETURN\<close> turns a raw result into the return value and \<open>errno\<close>; \<open>no_intr\<close> is the
  retry loop of the macros \<open>NO_INTR\<close> and \<open>MY_NO_INTR\<close>, whose result is \<open>None\<close> when it
  never stops.
\<close>

unbundle bit_operations_syntax

subsection \<open>Calls and replies\<close>

text \<open>Signal sets: \<open>struct kernel_sigset_t\<close>, an array of \<open>unsigned long\<close>.\<close>

record kernel_sigset_t =
  sig :: "u64 list"

datatype (plugins only: code) syscall =
  NR_read int nat
| NR_write int buf
| NR_open "byte list" int int
| NR_close int
| NR_pipe
| NR_poll "(int \<times> int) list" int
| NR_fcntl int int int
| NR_dup int
| NR_dup2 int int
| NR_execve "byte list" "byte list list"
| NR_exit int
| NR_fork
| NR_clone int
| NR_ptrace int int u64
| NR_peekdata int u64 int   \<comment> \<open>\<open>PTRACE_PEEKDATA\<close>; last, the word at this address of the caller\<close>
| NR_wait4 int int
| NR_kill int int
| NR_tkill int int
| NR_sched_yield
| NR_gettid
| NR_getpid
| NR_getppid
| NR_getpriority int int
| NR_geteuid
| NR_getegid
| NR_getpgrp
| NR_getsid int
| NR_readlink "byte list" nat
| NR_socket int int int
| NR_socketpair int int int
| NR_sendmsg int "byte list" int
| NR_recvmsg int nat
| NR_shutdown int int
| NR_stat "byte list"
| NR_fstat int
| NR_getdents int nat
| NR_lseek int int int
| NR_prctl int int
| NR_sigaltstack
| NR_rt_sigaction int u64 kernel_sigset_t nat
| NR_rt_sigprocmask int "kernel_sigset_t option" nat

record kreply =
  kret   :: u64            \<comment> \<open>the result register\<close>
  kbytes :: "byte list"    \<comment> \<open>what was stored in the caller's buffer\<close>
  kints  :: "int list"     \<comment> \<open>what was stored through integer pointers\<close>

type_synonym 'w kern = "syscall \<Rightarrow> 'w \<Rightarrow> kreply \<times> 'w"

record 'w st =
  errno :: int
  calls :: "(syscall \<times> kreply) list"
  world :: 'w

subsection \<open>Error numbers and other constants of the system headers\<close>

abbreviation (input) "EPERM \<equiv> (1::int)"
abbreviation (input) "EINTR \<equiv> (4::int)"
abbreviation (input) "ECHILD \<equiv> (10::int)"
abbreviation (input) "EAGAIN \<equiv> (11::int)"
abbreviation (input) "EFAULT \<equiv> (14::int)"
abbreviation (input) "EINVAL \<equiv> (22::int)"
abbreviation (input) "ENOSYS \<equiv> (38::int)"

abbreviation (input) "SIGILL \<equiv> (4::int)"
abbreviation (input) "SIGABRT \<equiv> (6::int)"
abbreviation (input) "SIGBUS \<equiv> (7::int)"
abbreviation (input) "SIGFPE \<equiv> (8::int)"
abbreviation (input) "SIGSEGV \<equiv> (11::int)"
abbreviation (input) "SIGCHLD \<equiv> (17::int)"
abbreviation (input) "SIGCONT \<equiv> (18::int)"
abbreviation (input) "SIGXCPU \<equiv> (24::int)"
abbreviation (input) "SIGXFSZ \<equiv> (25::int)"

abbreviation (input) "PTRACE_PEEKUSER \<equiv> (3::int)"
abbreviation (input) "PTRACE_KILL \<equiv> (8::int)"
abbreviation (input) "PTRACE_GETREGS \<equiv> (12::int)"
abbreviation (input) "PTRACE_GETFPREGS \<equiv> (14::int)"
abbreviation (input) "PTRACE_ATTACH \<equiv> (16::int)"
abbreviation (input) "PTRACE_DETACH \<equiv> (17::int)"

subsection \<open>Results of system calls\<close>

text \<open>
  \<open>_LSS_RETURN\<close>: a result in \<open>-4095 .. -1\<close>, compared as an unsigned number, is an
  error number with the sign inverted. The first version is for results of type
  \<open>long\<close> and \<open>ssize_t\<close>, the second for \<open>int\<close> and \<open>pid_t\<close>, where the cast keeps the low
  32 bits.
\<close>

definition LSS_RETURN :: "u64 \<Rightarrow> int \<Rightarrow> int \<times> int" where
  "LSS_RETURN res e = (if res \<ge> - 4095 then (-1, sint (- res)) else (sint res, e))"

definition LSS_RETURN_int :: "u64 \<Rightarrow> int \<Rightarrow> int \<times> int" where
  "LSS_RETURN_int res e =
     (if res \<ge> - 4095 then (-1, sint (- res)) else (sint (ucast res :: 32 word), e))"

text \<open>The trap into the kernel (\<open>LSS_BODY\<close>).\<close>

definition lss_syscall :: "'w kern \<Rightarrow> syscall \<Rightarrow> 'w st \<Rightarrow> kreply \<times> 'w st" where
  "lss_syscall K c s =
     (case K c (world s) of (r, w) \<Rightarrow> (r, s\<lparr>calls := calls s @ [(c, r)], world := w\<rparr>))"

text \<open>
  A call through the default macros stores the error number in \<open>errno\<close>; one through
  the private copy of the macros (\<open>SYS_ERRNO\<close> \<open>my_errno\<close>) stores it in a local variable.
\<close>

definition sys_long :: "'w kern \<Rightarrow> syscall \<Rightarrow> 'w st \<Rightarrow> (int \<times> kreply) \<times> 'w st" where
  "sys_long K c s =
     (case lss_syscall K c s of (r, s) \<Rightarrow>
      case LSS_RETURN (kret r) (errno s) of (rc, e) \<Rightarrow> ((rc, r), s\<lparr>errno := e\<rparr>))"

definition sys_int :: "'w kern \<Rightarrow> syscall \<Rightarrow> 'w st \<Rightarrow> (int \<times> kreply) \<times> 'w st" where
  "sys_int K c s =
     (case lss_syscall K c s of (r, s) \<Rightarrow>
      case LSS_RETURN_int (kret r) (errno s) of (rc, e) \<Rightarrow> ((rc, r), s\<lparr>errno := e\<rparr>))"

definition sys0_long :: "'w kern \<Rightarrow> syscall \<Rightarrow> int \<Rightarrow> 'w st \<Rightarrow> (int \<times> kreply \<times> int) \<times> 'w st" where
  "sys0_long K c my_errno s =
     (case lss_syscall K c s of (r, s) \<Rightarrow>
      case LSS_RETURN (kret r) my_errno of (rc, e) \<Rightarrow> ((rc, r, e), s))"

definition sys0_int :: "'w kern \<Rightarrow> syscall \<Rightarrow> int \<Rightarrow> 'w st \<Rightarrow> (int \<times> kreply \<times> int) \<times> 'w st" where
  "sys0_int K c my_errno s =
     (case lss_syscall K c s of (r, s) \<Rightarrow>
      case LSS_RETURN_int (kret r) my_errno of (rc, e) \<Rightarrow> ((rc, r, e), s))"

subsection \<open>The retry loop\<close>

text \<open>\<open>do {} while ((fn) < 0 && errno == EINTR)\<close>, with the test as a parameter.\<close>

partial_function (option) no_intr ::
    "('a \<Rightarrow> 's \<Rightarrow> bool) \<Rightarrow> ('s \<Rightarrow> 'a \<times> 's) \<Rightarrow> 's \<Rightarrow> ('a \<times> 's) option" where
  "no_intr again fn s =
     (case fn s of (a, s') \<Rightarrow> if again a s' then no_intr again fn s' else Some (a, s'))"

definition NO_INTR :: "('w st \<Rightarrow> (int \<times> 'r) \<times> 'w st) \<Rightarrow> 'w st \<Rightarrow> ((int \<times> 'r) \<times> 'w st) option" where
  "NO_INTR = no_intr (\<lambda>(rc, _) s. rc < 0 \<and> errno s = EINTR)"

definition MY_NO_INTR ::
    "('s \<Rightarrow> (int \<times> 'r \<times> int) \<times> 's) \<Rightarrow> 's \<Rightarrow> ((int \<times> 'r \<times> int) \<times> 's) option" where
  "MY_NO_INTR = no_intr (\<lambda>(rc, _, my_errno) s. rc < 0 \<and> my_errno = EINTR)"

lemma no_intr_result:
  assumes ret: "no_intr again fn s = Some (a, s')"
    and init: "P s"
    and keep: "\<And>s a s'. P s \<Longrightarrow> fn s = (a, s') \<Longrightarrow> again a s' \<Longrightarrow> P s'"
  shows "\<exists>s0. P s0 \<and> fn s0 = (a, s') \<and> \<not> again a s'"
proof -
  let ?Q = "\<lambda>again fn s r. P s \<longrightarrow> (\<forall>s a s'. P s \<longrightarrow> fn s = (a, s') \<longrightarrow> again a s' \<longrightarrow> P s') \<longrightarrow>
     (\<exists>s0. P s0 \<and> fn s0 = r \<and> \<not> again (fst r) (snd r))"
  have "?Q again fn s (a, s')"
  proof (rule no_intr.raw_induct [where P = ?Q, OF _ ret])
    fix f again fn s r
    assume IH: "\<And>again fn s y. f again fn s = Some y \<Longrightarrow> ?Q again fn s y"
      and eq: "(case fn s of (a, s') \<Rightarrow> if again a s' then f again fn s' else Some (a, s')) = Some r"
    show "?Q again fn s r"
    proof (intro impI)
      assume P: "P s" and step: "\<forall>s a s'. P s \<longrightarrow> fn s = (a, s') \<longrightarrow> again a s' \<longrightarrow> P s'"
      obtain b t where bt: "fn s = (b, t)" by force
      show "\<exists>s0. P s0 \<and> fn s0 = r \<and> \<not> again (fst r) (snd r)"
      proof (cases "again b t")
        case True
        with eq bt have "f again fn t = Some r" by simp
        moreover have "P t" using P step bt True by blast
        ultimately show ?thesis using IH [of again fn t r] step by blast
      next
        case False
        with eq bt have "r = (b, t)" by simp
        with bt False P show ?thesis by auto
      qed
    qed
  qed
  with init keep show ?thesis by auto
qed

lemma no_intr_returns:
  assumes "\<And>s a s'. P s \<Longrightarrow> fn s = (a, s') \<Longrightarrow> again a s' \<Longrightarrow> P s' \<and> m s' < (m s :: nat)"
  shows "P s \<Longrightarrow> \<exists>r. no_intr again fn s = Some r"
proof (induction "m s" arbitrary: s rule: less_induct)
  case less
  obtain a t where at: "fn s = (a, t)" by force
  show ?case
  proof (cases "again a t")
    case True
    with assms [OF less.prems at] less.hyps [of t]
    have "\<exists>r. no_intr again fn t = Some r" by blast
    with True at show ?thesis by (subst no_intr.simps) simp
  next
    case False
    with at show ?thesis by (subst no_intr.simps) simp
  qed
qed


lemma calls_lss_syscall:
  "lss_syscall K c s = (r, s') \<Longrightarrow> calls s' = calls s @ [(c, r)] \<and> errno s' = errno s"
  by (auto simp: lss_syscall_def split: prod.splits)

lemmas sys_defs = sys_long_def sys_int_def sys0_long_def sys0_int_def lss_syscall_def

lemma calls_sys_int: "sys_int K c s = ((rc, r), s') \<Longrightarrow> calls s' = calls s @ [(c, r)]"
  by (auto simp: sys_defs split: prod.splits)

lemma calls_sys_long: "sys_long K c s = ((rc, r), s') \<Longrightarrow> calls s' = calls s @ [(c, r)]"
  by (auto simp: sys_defs split: prod.splits)

subsection \<open>Individual calls\<close>

definition sys_close :: "'w kern \<Rightarrow> int \<Rightarrow> 'w st \<Rightarrow> (int \<times> kreply) \<times> 'w st" where
  "sys_close K f = sys_int K (NR_close f)"

definition sys_read :: "'w kern \<Rightarrow> int \<Rightarrow> nat \<Rightarrow> 'w st \<Rightarrow> (int \<times> kreply) \<times> 'w st" where
  "sys_read K f n = sys_long K (NR_read f n)"

definition sys_write :: "'w kern \<Rightarrow> int \<Rightarrow> buf \<Rightarrow> 'w st \<Rightarrow> (int \<times> kreply) \<times> 'w st" where
  "sys_write K f b = sys_long K (NR_write f b)"

definition sys_open :: "'w kern \<Rightarrow> byte list \<Rightarrow> int \<Rightarrow> int \<Rightarrow> 'w st \<Rightarrow> (int \<times> kreply) \<times> 'w st" where
  "sys_open K p f m = sys_int K (NR_open p f m)"

definition sys_fcntl :: "'w kern \<Rightarrow> int \<Rightarrow> int \<Rightarrow> int \<Rightarrow> 'w st \<Rightarrow> (int \<times> kreply) \<times> 'w st" where
  "sys_fcntl K f c a = sys_int K (NR_fcntl f c a)"

definition sys_poll :: "'w kern \<Rightarrow> (int \<times> int) list \<Rightarrow> int \<Rightarrow> 'w st \<Rightarrow> (int \<times> kreply) \<times> 'w st" where
  "sys_poll K fds t = sys_int K (NR_poll fds t)"

text \<open>The two descriptors of a pipe arrive through \<open>int *p\<close>.\<close>

definition sys_pipe :: "'w kern \<Rightarrow> 'w st \<Rightarrow> (int \<times> kreply) \<times> 'w st" where
  "sys_pipe K = sys_int K NR_pipe"

definition sys_ptrace :: "'w kern \<Rightarrow> int \<Rightarrow> int \<Rightarrow> u64 \<Rightarrow> 'w st \<Rightarrow> (int \<times> kreply) \<times> 'w st" where
  "sys_ptrace K r p a = sys_long K (NR_ptrace r p a)"

text \<open>\<open>waitpid\<close> does not exist on x86\_64; it is made from \<open>wait4\<close>.\<close>

definition sys_waitpid :: "'w kern \<Rightarrow> int \<Rightarrow> int \<Rightarrow> 'w st \<Rightarrow> (int \<times> kreply) \<times> 'w st" where
  "sys_waitpid K p opts = sys_int K (NR_wait4 p opts)"

definition sys_gettid :: "'w kern \<Rightarrow> 'w st \<Rightarrow> int \<times> 'w st" where
  "sys_gettid K s =
     (case sys_int K NR_gettid s of ((tid, _), s) \<Rightarrow>
      if tid \<noteq> -1 then (tid, s)
      else case sys_int K NR_getpid s of ((pid, _), s) \<Rightarrow> (pid, s))"

definition sys_ptrace_detach :: "'w kern \<Rightarrow> int \<Rightarrow> 'w st \<Rightarrow> int \<times> 'w st" where
  "sys_ptrace_detach K pid s =
     (let (_, s) = sys_int K NR_sched_yield s;
          ((rc, _), s) = sys_ptrace K PTRACE_DETACH pid 0 s;
          err = errno s;
          (_, s) = sys_int K (NR_tkill pid SIGCONT) s;
          s = (if errno s = ENOSYS then snd (sys_int K (NR_kill pid SIGCONT) s) else s)
      in (rc, s\<lparr>errno := err\<rparr>))"

subsection \<open>Signal sets\<close>

abbreviation sigset_bits :: "kernel_sigset_t \<Rightarrow> int" where
  "sigset_bits ss \<equiv> 64 * int (length (sig ss))"   \<comment> \<open>\<open>8*sizeof(set->sig)\<close>\<close>

text \<open>\<open>memset\<close> with 0 and with -1 over the array.\<close>

definition sys_sigemptyset :: "kernel_sigset_t \<Rightarrow> kernel_sigset_t" where
  "sys_sigemptyset ss = ss\<lparr>sig := map (\<lambda>_. 0) (sig ss)\<rparr>"

definition sys_sigfillset :: "kernel_sigset_t \<Rightarrow> kernel_sigset_t" where
  "sys_sigfillset ss = ss\<lparr>sig := map (\<lambda>_. - 1) (sig ss)\<rparr>"

text \<open>Result, the changed set, and \<open>errno\<close> (the argument \<open>e\<close> is its old value).\<close>

definition sys_sigaddset :: "kernel_sigset_t \<Rightarrow> int \<Rightarrow> int \<Rightarrow> int \<times> kernel_sigset_t \<times> int" where
  "sys_sigaddset ss signum e =
     (if signum < 1 \<or> signum > sigset_bits ss then (-1, ss, EINVAL)
      else let k = nat (signum - 1); i = k div 64 in
        (0, ss\<lparr>sig := (sig ss)[i := (sig ss ! i) OR push_bit (k mod 64) 1]\<rparr>, e))"

definition sys_sigdelset :: "kernel_sigset_t \<Rightarrow> int \<Rightarrow> int \<Rightarrow> int \<times> kernel_sigset_t \<times> int" where
  "sys_sigdelset ss signum e =
     (if signum < 1 \<or> signum > sigset_bits ss then (-1, ss, EINVAL)
      else let k = nat (signum - 1); i = k div 64 in
        (0, ss\<lparr>sig := (sig ss)[i := (sig ss ! i) AND NOT (push_bit (k mod 64) 1)]\<rparr>, e))"

definition sys_sigismember :: "kernel_sigset_t \<Rightarrow> int \<Rightarrow> int \<Rightarrow> int \<times> int" where
  "sys_sigismember ss signum e =
     (if signum < 1 \<or> signum > sigset_bits ss then (-1, EINVAL)
      else let k = nat (signum - 1); i = k div 64 in
        (if (sig ss ! i) AND push_bit (k mod 64) 1 \<noteq> 0 then 1 else 0, e))"

text \<open>What a signal set is: the signals whose bit is set.\<close>

definition sigset_members :: "kernel_sigset_t \<Rightarrow> int set" where
  "sigset_members ss =
     {n. 1 \<le> n \<and> n \<le> sigset_bits ss \<and> bit (sig ss ! (nat (n - 1) div 64)) (nat (n - 1) mod 64)}"

lemma bit_exp_u64: "bit (2 ^ k :: u64) j \<longleftrightarrow> j = k \<and> k < 64"
  by (auto simp: bit_exp_iff)

lemma and_exp_u64: "w AND 2 ^ k \<noteq> 0 \<longleftrightarrow> bit w k" if "k < 64" for w :: u64
proof -
  have "bit (w AND 2 ^ k) i \<longleftrightarrow> i = k \<and> bit w k" for i
    using that by (auto simp: bit_and_iff bit_exp_u64)
  then show ?thesis by (metis bit_0_eq bot_apply bot_bool_def bit_eqI)
qed

lemma sig_index: "1 \<le> n \<Longrightarrow> n \<le> sigset_bits ss \<Longrightarrow> nat (n - 1) div 64 < length (sig ss)"
  by (simp add: less_mult_imp_div_less nat_less_iff)

lemma sig_index_eq:
  assumes "1 \<le> (m::int)" "1 \<le> n"
  shows "nat (m - 1) div 64 = nat (n - 1) div 64 \<and> nat (m - 1) mod 64 = nat (n - 1) mod 64 \<longleftrightarrow> m = n"
proof
  assume *: "nat (m - 1) div 64 = nat (n - 1) div 64 \<and> nat (m - 1) mod 64 = nat (n - 1) mod 64"
  have "nat (m - 1) = nat (n - 1)"
    using * div_mult_mod_eq [of "nat (m - 1)" 64] div_mult_mod_eq [of "nat (n - 1)" 64] by metis
  with assms show "m = n" by simp
qed simp

lemma sigismember_iff:
  "1 \<le> n \<Longrightarrow> n \<le> sigset_bits ss \<Longrightarrow>
   sys_sigismember ss n e = (if n \<in> sigset_members ss then 1 else 0, e)"
  by (simp add: sys_sigismember_def sigset_members_def Let_def and_exp_u64)

lemma members_sigemptyset: "sigset_members (sys_sigemptyset ss) = {}"
proof -
  have "n \<notin> sigset_members (sys_sigemptyset ss)" for n
    using sig_index [of n ss] by (simp add: sigset_members_def sys_sigemptyset_def)
  then show ?thesis by blast
qed

lemma members_sigfillset: "sigset_members (sys_sigfillset ss) = {1..sigset_bits ss}"
proof -
  have "n \<in> sigset_members (sys_sigfillset ss) \<longleftrightarrow> n \<in> {1..sigset_bits ss}" for n
    using sig_index [of n ss] by (simp add: sigset_members_def sys_sigfillset_def) fastforce
  then show ?thesis by blast
qed

lemma members_sigaddset:
  assumes n: "1 \<le> n" "n \<le> sigset_bits ss"
  shows "sigset_members (fst (snd (sys_sigaddset ss n e))) = insert n (sigset_members ss)"
proof -
  let ?i = "nat (n - 1) div 64" and ?b = "nat (n - 1) mod 64"
  have i: "?i < length (sig ss)" using sig_index [OF n] .
  have eq: "bit ((sig ss)[?i := (sig ss ! ?i) OR 2 ^ ?b] ! (nat (m - 1) div 64)) (nat (m - 1) mod 64)
        \<longleftrightarrow> m = n \<or> bit (sig ss ! (nat (m - 1) div 64)) (nat (m - 1) mod 64)"
    if "1 \<le> m" for m
    using i sig_index_eq [OF that n(1)]
    by (cases "nat (m - 1) div 64 = ?i") (auto simp: bit_or_iff bit_exp_u64)
  show ?thesis
    using n by (auto simp: sys_sigaddset_def sigset_members_def Let_def eq bit_or_iff bit_exp_u64)
qed

lemma members_sigdelset:
  assumes n: "1 \<le> n" "n \<le> sigset_bits ss"
  shows "sigset_members (fst (snd (sys_sigdelset ss n e))) = sigset_members ss - {n}"
proof -
  let ?i = "nat (n - 1) div 64" and ?b = "nat (n - 1) mod 64"
  have i: "?i < length (sig ss)" using sig_index [OF n] .
  have eq: "bit ((sig ss)[?i := (sig ss ! ?i) AND NOT (2 ^ ?b)] ! (nat (m - 1) div 64)) (nat (m - 1) mod 64)
        \<longleftrightarrow> m \<noteq> n \<and> bit (sig ss ! (nat (m - 1) div 64)) (nat (m - 1) mod 64)"
    if "1 \<le> m" for m
    using i sig_index_eq [OF that n(1)]
    by (cases "nat (m - 1) div 64 = ?i") (auto simp: bit_and_iff bit_not_iff bit_exp_u64)
  show ?thesis
    using n by (auto simp: sys_sigdelset_def sigset_members_def Let_def eq bit_and_iff bit_not_iff bit_exp_u64)
qed

lemma length_sig_del [simp]: "length (sig (fst (snd (sys_sigdelset ss n e)))) = length (sig ss)"
  by (simp add: sys_sigdelset_def Let_def)

lemma length_sig_fill [simp]: "length (sig (sys_sigfillset ss)) = length (sig ss)"
  by (simp add: sys_sigfillset_def)

subsection \<open>What the results mean\<close>

lemma sint_u64: "sint (w :: u64) = (if uint w < 2^63 then uint w else uint w - 2^64)"
proof -
  have "sint w = (uint w + 2^63) mod 2^64 - 2^63"
    by (simp add: sint_uint signed_take_bit_eq_take_bit_shift take_bit_eq_mod)
  moreover have "0 \<le> uint w" "uint w < 2^64" using unsigned_less [of w, where 'a=int] by simp_all
  moreover have "(x + 2^63) mod 2^64 = x + 2^63 - 2^64" if "\<not> x < 2^63" "x < 2^64" for x :: int
  proof -
    have "(x + 2^63 - 2^64) mod 2^64 = x + 2^63 - 2^64" using that by (intro mod_pos_pos_trivial) auto
    then show ?thesis by (metis minus_mod_self2)
  qed
  ultimately show ?thesis by (cases "uint w < 2^63") simp_all
qed

lemma LSS_error_range: "(- 4095 :: u64) \<le> res \<longleftrightarrow> - 4095 \<le> sint res \<and> sint res < 0"
proof -
  have "(- 4095 :: u64) \<le> res \<longleftrightarrow> 2 ^ 64 - 4095 \<le> uint res"
    by (simp add: word_le_def)
  moreover have "0 \<le> uint res" "uint res < 2^64" using unsigned_less [of res, where 'a=int] by simp_all
  ultimately show ?thesis unfolding sint_u64 by (simp split: if_split)
qed

lemma sint_minus_u64: "- 4095 \<le> sint (w :: u64) \<Longrightarrow> sint w < 0 \<Longrightarrow> sint (- w) = - sint w"
proof -
  assume a: "- 4095 \<le> sint w" "sint w < 0"
  have "- w = word_of_int (- sint w)" by simp
  then have "sint (- w) = (- sint w + 2 ^ 63) mod 2 ^ 64 - 2 ^ 63"
    using int_word_sint [where 'a = 64, of "- sint w"] by simp
  then show ?thesis using a by simp
qed

text \<open>
  A raw result is reported as an error exactly when it is, as a signed number, in
  \<open>-4095 .. -1\<close>: then the caller sees -1 and \<open>errno\<close> is the negated result; every other
  result, negative ones below \<open>-4095\<close> included, is returned as it is and leaves \<open>errno\<close> alone.
\<close>

lemma LSS_RETURN_spec:
  "LSS_RETURN res e =
     (if - 4095 \<le> sint res \<and> sint res \<le> - 1 then (-1, - sint res) else (sint res, e))"
  using LSS_error_range [of res] sint_minus_u64 [of res] by (auto simp: LSS_RETURN_def)

lemma sys_intE:
  assumes "sys_int K c s = ((rc, r), s')"
  shows "calls s' = calls s @ [(c, r)]" "(rc, errno s') = LSS_RETURN_int (kret r) (errno s)"
    "K c (world s) = (r, world s')"
  using assms by (auto simp: sys_int_def lss_syscall_def split: prod.splits)

lemma sys_longE:
  assumes "sys_long K c s = ((rc, r), s')"
  shows "calls s' = calls s @ [(c, r)]" "(rc, errno s') = LSS_RETURN (kret r) (errno s)"
    "K c (world s) = (r, world s')"
  using assms by (auto simp: sys_long_def lss_syscall_def split: prod.splits)

lemma sys0_longE:
  assumes "sys0_long K c e0 s = ((rc, r, e), s')"
  shows "calls s' = calls s @ [(c, r)]" "(rc, e) = LSS_RETURN (kret r) e0"
    "K c (world s) = (r, world s')" "errno s' = errno s"
  using assms by (auto simp: sys0_long_def lss_syscall_def split: prod.splits)

text \<open>
  Detaching from a thread yields, issues one \<open>PTRACE_DETACH\<close> for it and then one
  \<open>SIGCONT\<close> by \<open>tkill\<close>, followed at most by one by \<open>kill\<close>; the return value and \<open>errno\<close> are
  those of the \<open>PTRACE_DETACH\<close>, whatever the signals did.
\<close>

lemma sys_ptrace_detach_spec:
  "case sys_ptrace_detach K pid s of (rc, s') \<Rightarrow>
     \<exists>y d t rest e. calls s' = calls s @
       [(NR_sched_yield, y), (NR_ptrace PTRACE_DETACH pid 0, d), (NR_tkill pid SIGCONT, t)] @ rest
     \<and> (rest = [] \<or> (\<exists>k. rest = [(NR_kill pid SIGCONT, k)]))
     \<and> (rc, errno s') = LSS_RETURN (kret d) e"
proof -
  obtain rc s' where det: "sys_ptrace_detach K pid s = (rc, s')" by (rule prod.exhaust)
  note assms = det
  obtain y s1 where 1: "sys_int K NR_sched_yield s = (y, s1)" by (rule prod.exhaust)
  obtain d s2 where 2: "sys_ptrace K PTRACE_DETACH pid 0 s1 = ((rc, d), s2)"
    using assms 1 by (auto simp: sys_ptrace_detach_def split: prod.splits)
  obtain t s3 where 3: "sys_int K (NR_tkill pid SIGCONT) s2 = (t, s3)" by (rule prod.exhaust)
  obtain k s4 where 4: "sys_int K (NR_kill pid SIGCONT) s3 = (k, s4)" by (rule prod.exhaust)
  have s': "s' = (if errno s3 = ENOSYS then s4 else s3)\<lparr>errno := errno s2\<rparr>"
    using assms 1 2 3 4 by (auto simp: sys_ptrace_detach_def)
  obtain y1 y2 t1 t2 k1 k2 where p: "y = (y1, y2)" "t = (t1, t2)" "k = (k1, k2)" by (metis surj_pair)
  note facts = sys_intE [OF 1 [unfolded p]] sys_longE [OF 2 [unfolded sys_ptrace_def]]
    sys_intE [OF 3 [unfolded p]] sys_intE [OF 4 [unfolded p]]
  show ?thesis
    using facts(1,4,7,10) facts(5) unfolding det s'
    by (cases "errno s3 = ENOSYS") (auto intro!: exI [of _ y2] exI [of _ d] exI [of _ t2])
qed

end
