(* ===== verification/Core_Params.thy ===== *)
theory Core_Params
  imports Syscall_Support
begin

text \<open>
  The parameters of a dump: \<open>struct CoreDumpParameters\<close> and its macros from
  \<open>coredumper/google/coredumper.h\<close>, the functions that set them and the tables of
  compressors from \<open>coredumper/coredumper.c\<close>.

  Pointers are addresses, and a structure is a record of machine words. The field \<open>size\<close> says how
  much of the structure the caller knows; setting a field beyond it aborts the program
  (the result \<open>None\<close>), reading one yields 0. \<open>memset(params, 0, size)\<close> may end inside a field:
  \<open>memset_field\<close> clears exactly the bytes below \<open>size\<close> (little-endian).

  The lemmas show that no order of setter calls reaches a combination of settings that the
  dumper does not support, that a refused call changes nothing, and that memory beyond
  \<open>size\<close> is never written.
\<close>

subsection \<open>Structures\<close>

record CoredumperCompressor =
  compressor :: "byte list option"        \<comment> \<open>\<open>None\<close> is the null pointer\<close>
  cargs      :: "byte list list option"
  suffix     :: "byte list option"

record CoreDumpParameters =
  cp_size                :: u64
  cp_flags               :: u32
  cp_max_length          :: u64
  cp_compressors         :: u64
  cp_selected_compressor :: u64
  cp_notes               :: u64
  cp_note_count          :: u32
  cp_callback_fn         :: u64
  cp_callback_arg        :: u64

datatype field =
  F_size | F_flags | F_max_length | F_compressors | F_selected_compressor | F_notes
| F_note_count | F_callback_fn | F_callback_arg

fun offsetof :: "field \<Rightarrow> nat" where
  "offsetof F_size = 0"
| "offsetof F_flags = 8"
| "offsetof F_max_length = 16"
| "offsetof F_compressors = 24"
| "offsetof F_selected_compressor = 32"
| "offsetof F_notes = 40"
| "offsetof F_note_count = 48"
| "offsetof F_callback_fn = 56"
| "offsetof F_callback_arg = 64"

fun sizeof_field :: "field \<Rightarrow> nat" where
  "sizeof_field F_flags = 4"
| "sizeof_field F_note_count = 4"
| "sizeof_field _ = 8"

abbreviation (input) "sizeof_CoreDumpParameters \<equiv> (72::u64)"

abbreviation (input) "COREDUMPER_FLAG_LIMITED \<equiv> (1::u32)"
abbreviation (input) "COREDUMPER_FLAG_LIMITED_BY_PRIORITY \<equiv> (2::u32)"
abbreviation (input) "SIZE_MAX \<equiv> (- 1 :: u64)"

subsection \<open>Access by field\<close>

definition CoreDumpParametersHas :: "CoreDumpParameters \<Rightarrow> field \<Rightarrow> bool" where
  "CoreDumpParametersHas p f \<longleftrightarrow> cp_size p \<ge> of_nat (offsetof f + sizeof_field f)"

text \<open>\<open>abort()\<close> is \<open>None\<close>.\<close>

definition SetCoreDumpParameter ::
    "field \<Rightarrow> (CoreDumpParameters \<Rightarrow> CoreDumpParameters) \<Rightarrow> CoreDumpParameters \<Rightarrow> CoreDumpParameters option" where
  "SetCoreDumpParameter f assign p = (if CoreDumpParametersHas p f then Some (assign p) else None)"

definition GetCoreDumpParameter :: "field \<Rightarrow> (CoreDumpParameters \<Rightarrow> 'a::zero) \<Rightarrow> CoreDumpParameters \<Rightarrow> 'a" where
  "GetCoreDumpParameter f sel p = (if CoreDumpParametersHas p f then sel p else 0)"

subsection \<open>Setting parameters\<close>

text \<open>What \<open>memset(params, 0, n)\<close> leaves of a field at the offset \<open>off\<close>.\<close>

definition memset_field :: "nat \<Rightarrow> field \<Rightarrow> 'a::len word \<Rightarrow> 'a word" where
  "memset_field n f v = v AND NOT (mask (8 * (n - offsetof f)))"

definition memset_params :: "nat \<Rightarrow> CoreDumpParameters \<Rightarrow> CoreDumpParameters" where
  "memset_params n p =
     \<lparr>cp_size = memset_field n F_size (cp_size p), cp_flags = memset_field n F_flags (cp_flags p),
      cp_max_length = memset_field n F_max_length (cp_max_length p),
      cp_compressors = memset_field n F_compressors (cp_compressors p),
      cp_selected_compressor = memset_field n F_selected_compressor (cp_selected_compressor p),
      cp_notes = memset_field n F_notes (cp_notes p), cp_note_count = memset_field n F_note_count (cp_note_count p),
      cp_callback_fn = memset_field n F_callback_fn (cp_callback_fn p),
      cp_callback_arg = memset_field n F_callback_arg (cp_callback_arg p)\<rparr>"

definition ClearCoreDumpParametersInternal :: "CoreDumpParameters \<Rightarrow> u64 \<Rightarrow> CoreDumpParameters option" where
  "ClearCoreDumpParametersInternal p n =
     SetCoreDumpParameter F_max_length (cp_max_length_update (\<lambda>_. SIZE_MAX))
       ((memset_params (unat n) p)\<lparr>cp_size := n\<rparr>)"

definition ClearCoreDumpParameters :: "CoreDumpParameters \<Rightarrow> CoreDumpParameters option" where
  "ClearCoreDumpParameters p = ClearCoreDumpParametersInternal p sizeof_CoreDumpParameters"

text \<open>
  The setters take the parameters and \<open>errno\<close> and return the result with both; \<open>None\<close> is
  \<open>abort()\<close>.
\<close>

type_synonym set_result = "(int \<times> CoreDumpParameters \<times> int) option"

definition SetCoreDumpLimited :: "CoreDumpParameters \<Rightarrow> u64 \<Rightarrow> int \<Rightarrow> set_result" where
  "SetCoreDumpLimited p max_length e =
     (if cp_flags p AND COREDUMPER_FLAG_LIMITED_BY_PRIORITY \<noteq> 0 then Some (-1, p, EINVAL)
      else do {
        p \<leftarrow> SetCoreDumpParameter F_max_length (cp_max_length_update (\<lambda>_. max_length))
               (p\<lparr>cp_flags := cp_flags p OR COREDUMPER_FLAG_LIMITED\<rparr>);
        Some (0, p, e)
      })"

definition SetCoreDumpCompressed :: "CoreDumpParameters \<Rightarrow> u64 \<Rightarrow> u64 \<Rightarrow> int \<Rightarrow> set_result" where
  "SetCoreDumpCompressed p compressors selected_compressor e =
     (if cp_flags p AND COREDUMPER_FLAG_LIMITED_BY_PRIORITY \<noteq> 0 then Some (-1, p, EINVAL)
      else do {
        p \<leftarrow> SetCoreDumpParameter F_compressors (cp_compressors_update (\<lambda>_. compressors)) p;
        p \<leftarrow> SetCoreDumpParameter F_selected_compressor
               (cp_selected_compressor_update (\<lambda>_. selected_compressor)) p;
        Some (0, p, e)
      })"

definition SetCoreDumpLimitedByPriority :: "CoreDumpParameters \<Rightarrow> u64 \<Rightarrow> int \<Rightarrow> set_result" where
  "SetCoreDumpLimitedByPriority p max_length e =
     (if (cp_flags p AND COREDUMPER_FLAG_LIMITED \<noteq> 0 \<and>
          \<not> cp_flags p AND COREDUMPER_FLAG_LIMITED_BY_PRIORITY \<noteq> 0) \<or> cp_compressors p \<noteq> 0
      then Some (-1, p, EINVAL)
      else do {
        p \<leftarrow> SetCoreDumpParameter F_flags
               (cp_flags_update (\<lambda>fl. fl OR COREDUMPER_FLAG_LIMITED OR COREDUMPER_FLAG_LIMITED_BY_PRIORITY)) p;
        p \<leftarrow> SetCoreDumpParameter F_max_length (cp_max_length_update (\<lambda>_. max_length)) p;
        Some (0, p, e)
      })"

definition SetCoreDumpNotes :: "CoreDumpParameters \<Rightarrow> u64 \<Rightarrow> u32 \<Rightarrow> int \<Rightarrow> set_result" where
  "SetCoreDumpNotes p notes note_count e = do {
     p \<leftarrow> SetCoreDumpParameter F_notes (cp_notes_update (\<lambda>_. notes)) p;
     p \<leftarrow> SetCoreDumpParameter F_note_count (cp_note_count_update (\<lambda>_. note_count)) p;
     Some (0, p, e)
   }"

definition SetCoreDumpCallback :: "CoreDumpParameters \<Rightarrow> u64 \<Rightarrow> u64 \<Rightarrow> int \<Rightarrow> set_result" where
  "SetCoreDumpCallback p fn arg e = do {
     p \<leftarrow> SetCoreDumpParameter F_callback_fn (cp_callback_fn_update (\<lambda>_. fn)) p;
     p \<leftarrow> SetCoreDumpParameter F_callback_arg (cp_callback_arg_update (\<lambda>_. arg)) p;
     Some (0, p, e)
   }"

subsection \<open>Compressors\<close>

definition entry :: "string \<Rightarrow> string \<Rightarrow> string \<Rightarrow> CoredumperCompressor" where
  "entry path prog sfx =
     \<lparr>compressor = Some (str path), cargs = Some [str prog], suffix = Some (str sfx)\<rparr>"

definition uncompressed_entry :: CoredumperCompressor where
  "uncompressed_entry = \<lparr>compressor = Some [], cargs = None, suffix = Some []\<rparr>"

definition end_entry :: CoredumperCompressor where
  "end_entry = \<lparr>compressor = None, cargs = None, suffix = None\<rparr>"

definition bzip2_entries :: "CoredumperCompressor list" where
  "bzip2_entries = [entry ''/bin/bzip2'' ''bzip2'' ''.bz2'', entry ''/usr/bin/bzip2'' ''bzip2'' ''.bz2'',
     entry ''bzip2'' ''bzip2'' ''.bz2'']"

definition gzip_entries :: "CoredumperCompressor list" where
  "gzip_entries = [entry ''/bin/gzip'' ''gzip'' ''.gz'', entry ''/usr/bin/gzip'' ''gzip'' ''.gz'',
     entry ''gzip'' ''gzip'' ''.gz'']"

definition compress_entries :: "CoredumperCompressor list" where
  "compress_entries = [entry ''/bin/compress'' ''compress'' ''.Z'', entry ''/usr/bin/compress'' ''compress'' ''.Z'',
     entry ''compress'' ''compress'' ''.Z'']"

definition COREDUMPER_COMPRESSED :: "CoredumperCompressor list" where
  "COREDUMPER_COMPRESSED = bzip2_entries @ gzip_entries @ compress_entries @ [uncompressed_entry, end_entry]"

definition COREDUMPER_BZIP2_COMPRESSED :: "CoredumperCompressor list" where
  "COREDUMPER_BZIP2_COMPRESSED = bzip2_entries @ [end_entry]"

definition COREDUMPER_GZIP_COMPRESSED :: "CoredumperCompressor list" where
  "COREDUMPER_GZIP_COMPRESSED = gzip_entries @ [end_entry]"

definition COREDUMPER_COMPRESS_COMPRESSED :: "CoredumperCompressor list" where
  "COREDUMPER_COMPRESS_COMPRESSED = compress_entries @ [end_entry]"

definition COREDUMPER_TRY_BZIP2_COMPRESSED :: "CoredumperCompressor list" where
  "COREDUMPER_TRY_BZIP2_COMPRESSED = bzip2_entries @ [uncompressed_entry, end_entry]"

definition COREDUMPER_TRY_GZIP_COMPRESSED :: "CoredumperCompressor list" where
  "COREDUMPER_TRY_GZIP_COMPRESSED = gzip_entries @ [uncompressed_entry, end_entry]"

definition COREDUMPER_TRY_COMPRESS_COMPRESSED :: "CoredumperCompressor list" where
  "COREDUMPER_TRY_COMPRESS_COMPRESSED = compress_entries @ [uncompressed_entry, end_entry]"

definition COREDUMPER_UNCOMPRESSED :: "CoredumperCompressor list" where
  "COREDUMPER_UNCOMPRESSED = [uncompressed_entry, end_entry]"

text \<open>The memory that holds compressor tables, and one table placed in it.\<close>

type_synonym compressor_heap = "u64 \<Rightarrow> CoredumperCompressor"

abbreviation (input) "sizeof_CoredumperCompressor \<equiv> (24::u64)"

definition table_at :: "u64 \<Rightarrow> CoredumperCompressor list \<Rightarrow> compressor_heap" where
  "table_at base tab a =
     (let i = unat ((a - base) div sizeof_CoredumperCompressor)
      in if i < length tab then tab ! i else end_entry)"

subsection \<open>Sequences of setter calls\<close>

datatype setter =
  Limited u64 | Compressed u64 u64 | LimitedByPriority u64 | Notes u64 u32 | Callback u64 u64

fun apply_setter :: "setter \<Rightarrow> CoreDumpParameters \<Rightarrow> int \<Rightarrow> set_result" where
  "apply_setter (Limited n) p e = SetCoreDumpLimited p n e"
| "apply_setter (Compressed c sel) p e = SetCoreDumpCompressed p c sel e"
| "apply_setter (LimitedByPriority n) p e = SetCoreDumpLimitedByPriority p n e"
| "apply_setter (Notes n k) p e = SetCoreDumpNotes p n k e"
| "apply_setter (Callback fn arg) p e = SetCoreDumpCallback p fn arg e"

text \<open>Parameters a caller can hold: cleared with a given size, then set in any order.\<close>

inductive reachable_params :: "u64 \<Rightarrow> CoreDumpParameters \<Rightarrow> CoreDumpParameters \<Rightarrow> bool" for n p0 where
  clear: "ClearCoreDumpParametersInternal p0 n = Some p \<Longrightarrow> reachable_params n p0 p"
| set: "reachable_params n p0 p \<Longrightarrow> apply_setter c p e = Some (rc, p', e') \<Longrightarrow> reachable_params n p0 p'"

text \<open>The value of a field as a number.\<close>

fun field_val :: "field \<Rightarrow> CoreDumpParameters \<Rightarrow> nat" where
  "field_val F_size p = unat (cp_size p)"
| "field_val F_flags p = unat (cp_flags p)"
| "field_val F_max_length p = unat (cp_max_length p)"
| "field_val F_compressors p = unat (cp_compressors p)"
| "field_val F_selected_compressor p = unat (cp_selected_compressor p)"
| "field_val F_notes p = unat (cp_notes p)"
| "field_val F_note_count p = unat (cp_note_count p)"
| "field_val F_callback_fn p = unat (cp_callback_fn p)"
| "field_val F_callback_arg p = unat (cp_callback_arg p)"

lemmas setter_defs = SetCoreDumpLimited_def SetCoreDumpCompressed_def SetCoreDumpLimitedByPriority_def
  SetCoreDumpNotes_def SetCoreDumpCallback_def SetCoreDumpParameter_def

abbreviation limited :: "CoreDumpParameters \<Rightarrow> bool" where
  "limited p \<equiv> cp_flags p AND COREDUMPER_FLAG_LIMITED \<noteq> 0"

abbreviation by_priority :: "CoreDumpParameters \<Rightarrow> bool" where
  "by_priority p \<equiv> cp_flags p AND COREDUMPER_FLAG_LIMITED_BY_PRIORITY \<noteq> 0"

text \<open>What the dumper relies on.\<close>

definition params_ok :: "CoreDumpParameters \<Rightarrow> bool" where
  "params_ok p \<longleftrightarrow>
     (by_priority p \<longrightarrow> limited p \<and> cp_compressors p = 0) \<and>
     (\<not> limited p \<longrightarrow> cp_max_length p = SIZE_MAX)"

subsection \<open>Lemmas\<close>

lemma and_1_iff: "(w :: 'a::len word) AND 1 \<noteq> 0 \<longleftrightarrow> bit w 0"
  by (simp add: and_one_eq bit_0 mod_2_eq_odd)

lemma and_2_iff: "(w :: u32) AND 2 \<noteq> 0 \<longleftrightarrow> bit w 1"
proof
  assume "w AND 2 \<noteq> 0"
  then obtain n where "bit (w AND 2) n" using bit_eqI by (metis bit_0_eq bot_apply bot_bool_def)
  then have "bit w n" "bit (2::u32) n" by (auto simp: bit_and_iff)
  then show "bit w 1" by (metis bit_2_iff)
next
  assume "bit w 1"
  then have "bit (w AND 2) 1" by (simp add: bit_and_iff bit_2_iff)
  then show "w AND 2 \<noteq> 0" by force
qed

lemma bit_1_0: "bit (1 :: u32) 0" "\<not> bit (1 :: u32) (Suc 0)" "\<not> bit (2 :: u32) 0" "bit (2 :: u32) (Suc 0)"
  by (simp_all add: bit_1_iff bit_2_iff)

lemma flag_simps [simp]:
  "((w :: u32) OR 1) AND 1 \<noteq> 0" "((w :: u32) OR 1) AND 2 \<noteq> 0 \<longleftrightarrow> w AND 2 \<noteq> 0"
  "((w :: u32) OR 3) AND 1 \<noteq> 0" "((w :: u32) OR 3) AND 2 \<noteq> 0"
  unfolding and_1_iff and_2_iff by (simp_all add: bit_or_iff bit_1_0 bit_numeral_rec)

lemma apply_setter_cp_size: "apply_setter c p e = Some (rc, p', e') \<Longrightarrow> cp_size p' = cp_size p"
  by (cases c) (auto simp: setter_defs split: if_splits)

lemma apply_setter_params_ok:
  "apply_setter c p e = Some (rc, p', e') \<Longrightarrow> params_ok p \<Longrightarrow> params_ok p'"
  by (cases c) (auto simp: setter_defs params_ok_def split: if_splits)

lemma SetCoreDumpParameter_Some:
  "SetCoreDumpParameter f upd p = Some q \<longleftrightarrow> CoreDumpParametersHas p f \<and> q = upd p"
  by (auto simp: SetCoreDumpParameter_def)

lemma Has_full: "cp_size p = sizeof_CoreDumpParameters \<Longrightarrow> CoreDumpParametersHas p f"
  by (cases f) (simp_all add: CoreDumpParametersHas_def)

lemma apply_setter_total:
  assumes "cp_size p = sizeof_CoreDumpParameters"
  shows "\<exists>r. apply_setter c p e = Some r"
  using assms by (cases c) (auto simp: setter_defs Has_full)

lemma Clear_full: "\<exists>p'. ClearCoreDumpParameters p = Some p'"
  by (simp add: ClearCoreDumpParameters_def ClearCoreDumpParametersInternal_def SetCoreDumpParameter_def Has_full)

lemma Clear_fields:
  assumes "ClearCoreDumpParametersInternal p n = Some p'"
  shows "p' = (memset_params (unat n) p)\<lparr>cp_size := n, cp_max_length := SIZE_MAX\<rparr>" "24 \<le> unat n"
  using assms
  by (auto simp: ClearCoreDumpParametersInternal_def SetCoreDumpParameter_Some CoreDumpParametersHas_def word_le_nat_alt)

text \<open>A mask longer than the word clears it; one of length 0 keeps it.\<close>

lemma memset_field_inside:
  "8 * (n - offsetof f) \<ge> LENGTH('a) \<Longrightarrow> memset_field n f (v :: 'a::len word) = 0"
  by (rule bit_word_eqI) (simp add: memset_field_def bit_and_iff bit_not_iff bit_mask_iff)

lemma memset_field_outside: "n \<le> offsetof f \<Longrightarrow> memset_field n f v = v"
  by (simp add: memset_field_def)

lemma Clear_params_ok:
  assumes "ClearCoreDumpParametersInternal p n = Some p'" "32 \<le> unat n"
  shows "params_ok p'"
proof -
  have "memset_field (unat n) F_flags (cp_flags p) = 0"
    "memset_field (unat n) F_compressors (cp_compressors p) = 0"
    using assms(2) by (simp_all add: memset_field_inside)
  then show ?thesis
    using Clear_fields [OF assms(1)] by (simp add: params_ok_def memset_params_def)
qed

lemma reachable_params_size: "reachable_params n p0 p \<Longrightarrow> cp_size p = n \<and> 24 \<le> unat n"
  by (induction rule: reachable_params.induct) (auto dest: Clear_fields apply_setter_cp_size)

lemma reachable_params_ok: "reachable_params n p0 p \<Longrightarrow> 32 \<le> unat n \<Longrightarrow> params_ok p"
  by (induction rule: reachable_params.induct) (blast dest: Clear_params_ok apply_setter_params_ok)+

text \<open>A setter only assigns fields that \<open>size\<close> covers.\<close>

lemma Has_inside: "CoreDumpParametersHas p f \<Longrightarrow> offsetof f < unat (cp_size p)"
  by (cases f) (auto simp: CoreDumpParametersHas_def word_le_nat_alt)

lemma apply_setter_outside:
  assumes "apply_setter c p e = Some (rc, p', e')" "24 \<le> unat (cp_size p)" "unat (cp_size p) \<le> offsetof f"
  shows "field_val f p' = field_val f p"
  using assms
  by (cases c; cases f)
    (auto simp: setter_defs CoreDumpParametersHas_def word_le_nat_alt split: if_splits)

lemma Clear_outside:
  assumes "ClearCoreDumpParametersInternal p n = Some p'" "unat n \<le> offsetof f"
  shows "field_val f p' = field_val f p"
  using Clear_fields [OF assms(1)] assms(2)
  by (cases f) (simp_all add: memset_params_def memset_field_outside)

lemma reachable_params_outside:
  "reachable_params n p0 p \<Longrightarrow> unat n \<le> offsetof f \<Longrightarrow> field_val f p = field_val f p0"
proof (induction rule: reachable_params.induct)
  case (clear p)
  then show ?case by (rule Clear_outside)
next
  case (set p c e rc p' e')
  then show ?case using apply_setter_outside [of c p e rc p' e' f] reachable_params_size by metis
qed

text \<open>When a setter refuses.\<close>

fun refused :: "setter \<Rightarrow> CoreDumpParameters \<Rightarrow> bool" where
  "refused (Limited n) p \<longleftrightarrow> by_priority p"
| "refused (Compressed c sel) p \<longleftrightarrow> by_priority p"
| "refused (LimitedByPriority n) p \<longleftrightarrow> limited p \<and> \<not> by_priority p \<or> cp_compressors p \<noteq> 0"
| "refused (Notes n k) p \<longleftrightarrow> False"
| "refused (Callback fn arg) p \<longleftrightarrow> False"

lemma apply_setter_result:
  "apply_setter c p e = Some (rc, p', e') \<Longrightarrow>
   if refused c p then rc = -1 \<and> p' = p \<and> e' = EINVAL else rc = 0 \<and> e' = e"
  by (cases c) (auto simp: setter_defs split: if_splits)

subsection \<open>Properties\<close>

text \<open>
  C21: no order of calls reaches an unsupported combination. Whatever a caller does with
  parameters cleared by this version of the library, a size limit by priority always comes
  with the plain limit and without compression, and parameters without a limit have the
  maximal length; no setter aborts. A refused setter leaves the parameters as they are and sets
  \<open>EINVAL\<close>, and it refuses exactly in the documented conflicts.
\<close>

theorem setters_consistent:
  assumes "reachable_params sizeof_CoreDumpParameters p0 p"
  shows "params_ok p \<and>
    (\<exists>rc p' e'. apply_setter c p e = Some (rc, p', e') \<and>
      (if refused c p then rc = -1 \<and> p' = p \<and> e' = EINVAL else rc = 0 \<and> e' = e))"
proof -
  have "cp_size p = sizeof_CoreDumpParameters" using reachable_params_size [OF assms] by simp
  then obtain rc p' e' where "apply_setter c p e = Some (rc, p', e')"
    using apply_setter_total [of p c e] by auto
  then show ?thesis
    using apply_setter_result [of c p e rc p' e'] reachable_params_ok [OF assms] by auto
qed

definition demo_params :: CoreDumpParameters where
  "demo_params = \<lparr>cp_size = 1, cp_flags = 2, cp_max_length = 3, cp_compressors = 4,
     cp_selected_compressor = 5, cp_notes = 6, cp_note_count = 7, cp_callback_fn = 8, cp_callback_arg = 9\<rparr>"

lemma demo_params_cleared:
  "n = 48 \<or> n = 72 \<Longrightarrow>
   ClearCoreDumpParametersInternal demo_params n =
   Some ((memset_params (unat n) demo_params)\<lparr>cp_size := n, cp_max_length := SIZE_MAX\<rparr>)"
  by (auto simp: ClearCoreDumpParametersInternal_def SetCoreDumpParameter_def CoreDumpParametersHas_def)

lemma setters_consistent_witness:
  "params_ok ((memset_params 72 demo_params)\<lparr>cp_size := 72, cp_max_length := SIZE_MAX\<rparr>) \<and>
   reachable_params 72 demo_params ((memset_params 72 demo_params)\<lparr>cp_size := 72, cp_max_length := SIZE_MAX\<rparr>)"
proof -
  have r: "reachable_params 72 demo_params ((memset_params 72 demo_params)\<lparr>cp_size := 72, cp_max_length := SIZE_MAX\<rparr>)"
    using demo_params_cleared [of 72] by (intro reachable_params.clear) simp
  show ?thesis using setters_consistent [OF r, of "Limited 5" 0] r by blast
qed



end
