(* ===== verification/Core_Io.thy ===== *)
theory Core_Io
  imports Syscall_Support
begin

text \<open>
  The input and output routines of \<open>coredumper/elfcore.c\<close>: the wrappers \<open>c_read\<close> and
  \<open>c_write\<close>, the writer functions (\<open>SimpleWriter\<close>, \<open>LimitWriter\<close>, \<open>PipeWriter\<close>) with
  their completion tests (\<open>SimpleDone\<close>, \<open>PipeDone\<close>), \<open>FlushPipe\<close>, and the buffered
  reader \<open>GetChar\<close>.

  Every routine returns an option: \<open>None\<close> is a run that never returns (a kernel that
  answers \<open>EINTR\<close> for ever). A writer takes its handle and a buffer and returns the
  number of bytes accepted with the new handle.

  The locale \<open>core_writer\<close> is the contract that \<open>CreateElfCore\<close> relies on; it is
  interpreted for \<open>SimpleWriter\<close> and \<open>LimitWriter\<close>. The locale \<open>char_source\<close> is the
  contract of \<open>GetChar\<close> that the parsers rely on.
\<close>

subsection \<open>\<open>c_read\<close> and \<open>c_write\<close>\<close>

text \<open>
  The bytes a read call with result \<open>n\<close> leaves at the start of the buffer. A kernel
  stores exactly \<open>n\<close> bytes; positions it did not store are shown as 0.
\<close>

definition stored :: "int \<Rightarrow> byte list \<Rightarrow> byte list" where
  "stored n bs = take (nat n) (bs @ replicate (nat n) 0)"

lemma length_stored [simp]: "length (stored n bs) = nat n"
  by (simp add: stored_def)

lemma stored_exact: "length bs = nat n \<Longrightarrow> stored n bs = bs"
  by (simp add: stored_def)

text \<open>
  The private \<open>my_errno\<close> is read only after a call that failed, which has just set it,
  so its initial value does not matter.
\<close>

definition c_read :: "'w kern \<Rightarrow> int \<Rightarrow> nat \<Rightarrow> 'w st \<Rightarrow> ((int \<times> byte list) \<times> 'w st) option" where
  "c_read K f bytes s =
     (if bytes > 0 then do {
        ((rc, r, my_errno), s) \<leftarrow> MY_NO_INTR (sys0_long K (NR_read f bytes) 0) s;
        if rc < 0 then Some ((rc, []), s\<lparr>errno := my_errno\<rparr>)
        else Some ((rc, stored rc (kbytes r)), s)
      } else Some ((0, []), s))"

text \<open>
  The loop of \<open>c_write\<close> over the rest \<open>b\<close> of the buffer: \<open>Inl rc\<close> when a call failed,
  \<open>Inr b'\<close> with what is left when it stopped.
\<close>

partial_function (option) c_write_loop ::
    "'w kern \<Rightarrow> int \<Rightarrow> buf \<Rightarrow> 'w st \<Rightarrow> ((int + buf) \<times> 'w st) option" where
  "c_write_loop K f b s =
     (if buf_len b > 0 then do {
        ((rc, r, my_errno), s) \<leftarrow> MY_NO_INTR (sys0_long K (NR_write f b) 0) s;
        if rc < 0 then Some (Inl rc, s\<lparr>errno := my_errno\<rparr>)
        else if rc = 0 then Some (Inr b, s)
        else c_write_loop K f (buf_drop (nat rc) b) s
      } else Some (Inr b, s))"

definition c_write :: "'w kern \<Rightarrow> int \<Rightarrow> buf \<Rightarrow> 'w st \<Rightarrow> (int \<times> 'w st) option" where
  "c_write K f b s = do {
     (res, s) \<leftarrow> c_write_loop K f b s;
     case res of
       Inl rc \<Rightarrow> Some (rc, s)
     | Inr b' \<Rightarrow> Some (int (buf_len b) - int (buf_len b'), s)
   }"

subsection \<open>Writers\<close>

record WriterFds =
  max_length    :: nat
  write_fd      :: int
  compressed_fd :: int
  out_fd        :: int

text \<open>A writer: handle, buffer and state to result, handle and state.\<close>

type_synonym ('h, 'w) writer = "'h \<Rightarrow> buf \<Rightarrow> 'w st \<Rightarrow> ((int \<times> 'h) \<times> 'w st) option"

definition SimpleDone :: "int \<Rightarrow> bool" where
  "SimpleDone f = False"

definition SimpleWriter :: "'w kern \<Rightarrow> (int, 'w) writer" where
  "SimpleWriter K f b s = do { (rc, s) \<leftarrow> c_write K f b s; Some ((rc, f), s) }"

definition PipeDone :: "WriterFds \<Rightarrow> bool" where
  "PipeDone fds = (max_length fds = 0)"

definition LimitWriter :: "'w kern \<Rightarrow> (WriterFds, 'w) writer" where
  "LimitWriter K fds b s =
     (let b = (if buf_len b > max_length fds then buf_take (max_length fds) b else b)
      in do {
        (rc, s) \<leftarrow> c_write K (out_fd fds) b s;
        if rc > 0 then Some ((rc, fds\<lparr>max_length := max_length fds - nat rc\<rparr>), s)
        else Some ((rc, fds), s)
      })"

abbreviation (input) "POLLIN \<equiv> (1::int)"
abbreviation (input) "POLLOUT \<equiv> (4::int)"

text \<open>
  The inner loop of \<open>PipeWriter\<close>: copy what the compressor has produced to the output
  file until the non-blocking read says \<open>EAGAIN\<close>. The flag is \<open>return -1\<close>.
\<close>

partial_function (option) PipeWriter_copy ::
    "'w kern \<Rightarrow> WriterFds \<Rightarrow> 'w st \<Rightarrow> ((bool \<times> WriterFds) \<times> 'w st) option" where
  "PipeWriter_copy K fds s =
     (let l = (if 4096 > max_length fds then max_length fds else 4096) in do {
        ((rc, r), s) \<leftarrow> NO_INTR (sys_read K (compressed_fd fds) l) (s\<lparr>errno := -1\<rparr>);
        if rc < 0 then Some ((errno s \<noteq> EAGAIN, fds), s)
        else if rc = 0 then Some ((False, fds\<lparr>max_length := 0\<rparr>), s)
        else do {
          (rc, s) \<leftarrow> c_write K (out_fd fds) (Local (stored rc (kbytes r))) s;
          if rc \<le> 0 then Some ((True, fds), s)
          else PipeWriter_copy K (fds\<lparr>max_length := max_length fds - nat rc\<rparr>) s
        }
      })"

text \<open>
  The buffer from \<open>buf + pos\<close> on. The pointer can move before the start of the buffer
  (see \<open>PipeWriter_loop\<close>); what lies before a local object is shown as zeros.
\<close>

fun buf_at :: "buf \<Rightarrow> int \<Rightarrow> buf" where
  "buf_at (Local bs) pos =
     (if pos \<ge> 0 then Local (drop (nat pos) bs) else Local (replicate (nat (- pos)) 0 @ bs))"
| "buf_at (Mem a n) pos = Mem (a + of_int pos) (nat (int n - pos))"

text \<open>The \<open>revents\<close> the kernel stored; the source initialises them to 0.\<close>

definition revents :: "kreply \<Rightarrow> nat \<Rightarrow> int" where
  "revents r i = (if i < length (kints r) then kints r ! i else 0)"

text \<open>
  The outer loop: \<open>pos\<close> is \<open>buf - void_buf\<close> and the bytes still to send are
  \<open>len = bytes - pos\<close>. As in the source, a write that fails with \<open>EAGAIN\<close> adds its
  result -1 to the pointer.
\<close>

partial_function (option) PipeWriter_loop ::
    "'w kern \<Rightarrow> buf \<Rightarrow> int \<Rightarrow> WriterFds \<Rightarrow> 'w st \<Rightarrow> ((int \<times> WriterFds) \<times> 'w st) option" where
  "PipeWriter_loop K b pos fds s =
     (if max_length fds > 0 \<and> int (buf_len b) - pos > 0 then
        case sys_poll K [(compressed_fd fds, POLLIN), (write_fd fds, POLLOUT)] (-1) s of
          ((nfds, r), s) \<Rightarrow>
            if nfds < 0 then Some ((pos, fds), s)
            else do {
              ((err, nfds, fds), s) \<leftarrow>
                (if nfds > 0 \<and> bit (revents r 0) 0 then do {
                   ((err, fds), s) \<leftarrow> PipeWriter_copy K fds s;
                   Some ((err, nfds - 1, fds), s) }
                 else Some ((False, nfds, fds), s));
              if err then Some ((-1, fds), s)
              else if nfds > 0 \<and> bit (revents r 1) 2 then do {
                ((rc, _), s) \<leftarrow> NO_INTR (sys_write K (write_fd fds) (buf_at b pos)) s;
                if rc < 0 \<and> errno s \<noteq> EAGAIN then Some ((-1, fds), s)
                else PipeWriter_loop K b (pos + rc) fds s }
              else PipeWriter_loop K b pos fds s
            }
      else Some ((pos, fds), s))"

definition PipeWriter :: "'w kern \<Rightarrow> (WriterFds, 'w) writer" where
  "PipeWriter K fds b s = PipeWriter_loop K b 0 fds s"

text \<open>\<open>FlushPipe\<close>: back to blocking reads, then copy until end of file or the limit.\<close>

abbreviation (input) "F_GETFL \<equiv> (3::int)"
abbreviation (input) "F_SETFL \<equiv> (4::int)"
abbreviation (input) "F_SETFD \<equiv> (2::int)"
abbreviation (input) "FD_CLOEXEC \<equiv> (1::int)"
abbreviation (input) "O_NONBLOCK \<equiv> (2048::int)"

partial_function (option) FlushPipe_loop ::
    "'w kern \<Rightarrow> WriterFds \<Rightarrow> 'w st \<Rightarrow> ((int \<times> WriterFds) \<times> 'w st) option" where
  "FlushPipe_loop K fds s =
     (if max_length fds > 0 then
        let l = (if 4096 > max_length fds then max_length fds else 4096) in do {
          ((rc, r), s) \<leftarrow> NO_INTR (sys_read K (compressed_fd fds) l) s;
          if rc < 0 then Some ((-1, fds), s)
          else if rc = 0 then Some ((0, fds), s)
          else do {
            (wrc, s) \<leftarrow> c_write K (out_fd fds) (Local (stored rc (kbytes r))) s;
            if wrc \<noteq> rc then Some ((-1, fds), s)
            else FlushPipe_loop K (fds\<lparr>max_length := max_length fds - nat rc\<rparr>) s
          }
        }
      else Some ((0, fds), s))"

definition FlushPipe :: "'w kern \<Rightarrow> WriterFds \<Rightarrow> 'w st \<Rightarrow> ((int \<times> WriterFds) \<times> 'w st) option" where
  "FlushPipe K fds s = do {
     ((flags, _), s) \<leftarrow> NO_INTR (sys_fcntl K (compressed_fd fds) F_GETFL 0) s;
     (_, s) \<leftarrow> NO_INTR (sys_fcntl K (compressed_fd fds) F_SETFL (flags AND NOT O_NONBLOCK)) s;
     FlushPipe_loop K fds s
   }"

subsection \<open>Buffered input\<close>

record io =
  io_fd   :: int
  io_rest :: "byte list"     \<comment> \<open>the bytes from \<open>data\<close> to \<open>end\<close>\<close>

definition GetChar :: "'w kern \<Rightarrow> io \<times> 'w st \<Rightarrow> (int \<times> io \<times> 'w st) option" where
  "GetChar K = (\<lambda>(i, s).
     case io_rest i of
        c # cs \<Rightarrow> Some (uint c, i\<lparr>io_rest := cs\<rparr>, s)
      | [] \<Rightarrow> do {
          ((n, bs), s) \<leftarrow> c_read K (io_fd i) 4096 s;
          if n \<le> 0 then Some (-1, i, if n = 0 then s\<lparr>errno := 0\<rparr> else s)
          else Some (uint (hd bs), i\<lparr>io_rest := tl bs\<rparr>, s)
        })"

text \<open>The loop of \<open>CreateElfCore\<close> that counts the lines of \<open>/proc/self/maps\<close>.\<close>

partial_function (option) count_lines :: "('i \<Rightarrow> (int \<times> 'i) option) \<Rightarrow> nat \<Rightarrow> 'i \<Rightarrow> (nat \<times> 'i) option" where
  "count_lines getc n i = do {
     (ch, i) \<leftarrow> getc i;
     if ch \<ge> 0 then count_lines getc (n + (if ch = 10 then 1 else 0)) i else Some (n, i)
   }"

subsection \<open>Kernel contracts for writing\<close>

text \<open>
  What \<open>write(2)\<close> documents: an error leaves the output alone, a result \<open>n\<close> means that
  the first \<open>n\<close> bytes of the buffer, and nothing else, were added to it. The output is
  an observation \<open>out\<close> of the world.
\<close>

definition write_ok :: "'w kern \<Rightarrow> memory \<Rightarrow> int \<Rightarrow> ('w \<Rightarrow> byte list) \<Rightarrow> bool" where
  "write_ok K m f out \<longleftrightarrow> (\<forall>b w r w'. K (NR_write f b) w = (r, w') \<longrightarrow>
       - 4095 \<le> sint (kret r) \<and> sint (kret r) < 0 \<and> out w' = out w
     \<or> 0 \<le> sint (kret r) \<and> sint (kret r) \<le> int (buf_len b)
       \<and> out w' = out w @ take (nat (sint (kret r))) (buf_bytes m b))"

lemma write_okD:
  "write_ok K m f out \<Longrightarrow> K (NR_write f b) w = (r, w') \<Longrightarrow>
     - 4095 \<le> sint (kret r) \<and> sint (kret r) < 0 \<and> out w' = out w
     \<or> 0 \<le> sint (kret r) \<and> sint (kret r) \<le> int (buf_len b)
       \<and> out w' = out w @ take (nat (sint (kret r))) (buf_bytes m b)"
  unfolding write_ok_def by metis

lemma sys0_write_ok:
  assumes ok: "write_ok K m f out" and call: "sys0_long K (NR_write f b) e0 s = ((rc, r, e), s')"
  shows "rc = -1 \<and> out (world s') = out (world s)
    \<or> 0 \<le> rc \<and> rc \<le> int (buf_len b) \<and> out (world s') = out (world s) @ take (nat rc) (buf_bytes m b)"
proof -
  have K: "K (NR_write f b) (world s) = (r, world s')" and rc: "(rc, e) = LSS_RETURN (kret r) e0"
    using call by (auto simp: sys0_long_def lss_syscall_def split: prod.splits)
  show ?thesis using write_okD [OF ok K] rc
    by (auto simp: LSS_RETURN_def LSS_error_range split: if_splits)
qed

lemma write_no_intr_ok:
  assumes ok: "write_ok K m f out"
    and ret: "MY_NO_INTR (sys0_long K (NR_write f b) e0) s = Some ((rc, r, e), s')"
  shows "rc = -1 \<and> out (world s') = out (world s)
    \<or> 0 \<le> rc \<and> rc \<le> int (buf_len b) \<and> out (world s') = out (world s) @ take (nat rc) (buf_bytes m b)"
proof -
  have "\<exists>s0. out (world s0) = out (world s) \<and> sys0_long K (NR_write f b) e0 s0 = ((rc, r, e), s')
      \<and> \<not> (case (rc, r, e) of (rc, _, e) \<Rightarrow> \<lambda>s. rc < 0 \<and> e = EINTR) s'"
  proof (rule no_intr_result [OF ret [unfolded MY_NO_INTR_def], where P = "\<lambda>t. out (world t) = out (world s)"])
    fix t a t'
    assume "out (world t) = out (world s)" "sys0_long K (NR_write f b) e0 t = (a, t')"
      "(case a of (rc, _, e) \<Rightarrow> \<lambda>s. rc < 0 \<and> e = EINTR) t'"
    then show "out (world t') = out (world s)"
      by (cases a) (auto dest: sys0_write_ok [OF ok])
  qed simp
  then show ?thesis using sys0_write_ok [OF ok] by metis
qed

lemma c_write_loop_ok:
  assumes ok: "write_ok K m f out" and ret: "c_write_loop K f b s = Some (res, s')"
  shows "\<exists>k \<le> buf_len b. out (world s') = out (world s) @ take k (buf_bytes m b) \<and>
    (case res of Inl rc \<Rightarrow> rc = -1 | Inr b' \<Rightarrow> b' = buf_drop k b)"
proof -
  let ?Q = "\<lambda>K f b s r. write_ok K m f out \<longrightarrow> (\<exists>k \<le> buf_len b.
     out (world (snd r)) = out (world s) @ take k (buf_bytes m b) \<and>
     (case fst r of Inl rc \<Rightarrow> rc = -1 | Inr b' \<Rightarrow> b' = buf_drop k b))"
  have "?Q K f b s (res, s')"
  proof (rule c_write_loop.raw_induct [where P = ?Q, OF _ ret])
    fix g K f b s r
    assume IH: "\<And>K f b s y. g K f b s = Some y \<Longrightarrow> ?Q K f b s y"
      and eq: "(if buf_len b > 0 then do {
        ((rc, r, my_errno), s) \<leftarrow> MY_NO_INTR (sys0_long K (NR_write f b) 0) s;
        if rc < 0 then Some (Inl rc, s\<lparr>errno := my_errno\<rparr>)
        else if rc = 0 then Some (Inr b, s)
        else g K f (buf_drop (nat rc) b) s
      } else Some (Inr b, s)) = Some r"
    show "?Q K f b s r"
    proof
      assume ok: "write_ok K m f out"
      show "\<exists>k \<le> buf_len b. out (world (snd r)) = out (world s) @ take k (buf_bytes m b) \<and>
         (case fst r of Inl rc \<Rightarrow> rc = -1 | Inr b' \<Rightarrow> b' = buf_drop k b)"
      proof (cases "buf_len b > 0")
        case True
        then obtain rc kr e t where call: "MY_NO_INTR (sys0_long K (NR_write f b) 0) s = Some ((rc, kr, e), t)"
          using eq by (auto split: Option.bind_splits)
        note w = write_no_intr_ok [OF ok call]
        consider "rc < 0" | "rc = 0" | "rc > 0" by linarith
        then show ?thesis
        proof cases
          case 3
          then have "g K f (buf_drop (nat rc) b) t = Some r" using eq True call by simp
          from IH [OF this] ok obtain k where k: "k \<le> buf_len b - nat rc"
            "out (world (snd r)) = out (world t) @ take k (drop (nat rc) (buf_bytes m b))"
            "case fst r of Inl rc \<Rightarrow> rc = -1 | Inr b' \<Rightarrow> b' = buf_drop k (buf_drop (nat rc) b)"
            by auto
          then show ?thesis using w 3
            by (intro exI [of _ "nat rc + k"]) (auto simp: take_add split: sum.splits)
        qed (use eq True call w in \<open>auto intro!: exI [of _ 0]\<close>)
      qed (use eq in \<open>auto intro!: exI [of _ 0]\<close>)
    qed
  qed
  with ok show ?thesis by simp
qed

lemma c_write_ok:
  assumes ok: "write_ok K m f out" and ret: "c_write K f b s = Some (rc, s')"
  shows "\<exists>k \<le> buf_len b. out (world s') = out (world s) @ take k (buf_bytes m b) \<and>
    (rc = -1 \<or> rc = int k)"
proof -
  obtain res where loop: "c_write_loop K f b s = Some (res, s')"
    and rc: "rc = (case res of Inl e \<Rightarrow> e | Inr b' \<Rightarrow> int (buf_len b) - int (buf_len b'))"
    using ret by (auto simp: c_write_def split: Option.bind_splits sum.splits)
  from c_write_loop_ok [OF ok loop] obtain k where "k \<le> buf_len b"
    "out (world s') = out (world s) @ take k (buf_bytes m b)"
    "case res of Inl rc \<Rightarrow> rc = -1 | Inr b' \<Rightarrow> b' = buf_drop k b" by blast
  then show ?thesis using rc by (intro exI [of _ k]) (auto split: sum.splits)
qed

locale core_writer =
  fixes writer :: "('h, 'w) writer"
    and is_done :: "'h \<Rightarrow> bool"
    and ok :: "'h \<Rightarrow> bool"
    and mem :: memory
    and out :: "'w \<Rightarrow> byte list"
  assumes writer_ok: "ok h \<Longrightarrow> writer h b s = Some ((rc, h'), s') \<Longrightarrow>
     ok h' \<and> (\<exists>k \<le> buf_len b. out (world s') = out (world s) @ take k (buf_bytes mem b) \<and>
               (rc < 0 \<or> rc = int k))"
begin
lemma writer_full:
  assumes "ok h" "writer h b s = Some ((rc, h'), s')" "rc = int (buf_len b)"
  shows "ok h'" "out (world s') = out (world s) @ buf_bytes mem b"
  using writer_ok [OF assms(1,2)] assms(3) by auto
end

interpretation simple: core_writer "SimpleWriter K" SimpleDone "\<lambda>f. write_ok K m f out" m out
  for K m out
proof
  fix f b s rc f' s'
  assume ok: "write_ok K m f out" and w: "SimpleWriter K f b s = Some ((rc, f'), s')"
  then have "c_write K f b s = Some (rc, s')" and "f' = f"
    by (auto simp: SimpleWriter_def split: Option.bind_splits)
  with c_write_ok [OF ok] ok show "write_ok K m f' out \<and> (\<exists>k\<le>buf_len b.
      out (world s') = out (world s) @ take k (buf_bytes m b) \<and> (rc < 0 \<or> rc = int k))"
    by fastforce
qed

lemma LimitWriter_c_write:
  assumes "LimitWriter K fds b s = Some ((rc, fds'), s')"
  shows "c_write K (out_fd fds) (buf_take (max_length fds) b) s = Some (rc, s') \<or>
         c_write K (out_fd fds) b s = Some (rc, s') \<and> buf_len b \<le> max_length fds"
    and "fds' = (if rc > 0 then fds\<lparr>max_length := max_length fds - nat rc\<rparr> else fds)"
  using assms by (auto simp: LimitWriter_def Let_def split: Option.bind_splits if_splits)

interpretation limit: core_writer "LimitWriter K" PipeDone "\<lambda>fds. write_ok K m (out_fd fds) out" m out
  for K m out
proof
  fix fds b s rc fds' s'
  assume ok: "write_ok K m (out_fd fds) out" and w: "LimitWriter K fds b s = Some ((rc, fds'), s')"
  have "out_fd fds' = out_fd fds" using LimitWriter_c_write(2) [OF w] by simp
  moreover have "\<exists>k\<le>buf_len b.
      out (world s') = out (world s) @ take k (buf_bytes m b) \<and> (rc < 0 \<or> rc = int k)"
    using LimitWriter_c_write(1) [OF w] c_write_ok [OF ok] by fastforce
  ultimately show "write_ok K m (out_fd fds') out \<and> (\<exists>k\<le>buf_len b.
      out (world s') = out (world s) @ take k (buf_bytes m b) \<and> (rc < 0 \<or> rc = int k))"
    using ok by simp
qed

subsection \<open>Termination\<close>

text \<open>Only finitely many calls in a row are interrupted: \<open>q\<close> bounds what is pending.\<close>

definition intr_bounded :: "'w kern \<Rightarrow> ('w \<Rightarrow> nat) \<Rightarrow> bool" where
  "intr_bounded K q \<longleftrightarrow> (\<forall>c w r w'. K c w = (r, w') \<longrightarrow> sint (kret r) = - EINTR \<longrightarrow> q w' < q w)"

lemma MY_NO_INTR_returns:
  assumes "intr_bounded K q" "e0 \<noteq> EINTR"
  shows "\<exists>rc r e s'. MY_NO_INTR (sys0_long K c e0) s = Some ((rc, r, e), s')"
proof -
  have "\<exists>r. no_intr (\<lambda>(rc, _, e) s. rc < 0 \<and> e = EINTR) (sys0_long K c e0) s = Some r"
  proof (rule no_intr_returns [where P = "\<lambda>_. True" and m = "\<lambda>s. q (world s)"])
    fix s a s'
    assume call: "sys0_long K c e0 s = (a, s')"
      and again: "(\<lambda>(rc, _, e) s. rc < 0 \<and> e = EINTR) a s'"
    obtain rc r e where a: "a = (rc, r, e)" by (rule prod_cases3)
    with call have K: "K c (world s) = (r, world s')" and rc: "(rc, e) = LSS_RETURN (kret r) e0"
      by (auto simp: sys0_long_def lss_syscall_def split: prod.splits)
    have "sint (kret r) = - EINTR"
      using rc again a assms(2) LSS_error_range [of "kret r"] sint_minus_u64 [of "kret r"]
      by (auto simp: LSS_RETURN_def split: if_splits)
    then show "True \<and> q (world s') < q (world s)"
      using assms(1) K unfolding intr_bounded_def by blast
  qed simp
  then show ?thesis unfolding MY_NO_INTR_def by (metis prod_cases3 surj_pair)
qed

lemma MY_NO_INTR_call:
  assumes q: "intr_bounded K q" and P: "P (world s)"
    and keep: "\<And>w r w'. P w \<Longrightarrow> K c w = (r, w') \<Longrightarrow> sint (kret r) = - EINTR \<Longrightarrow> P w'"
  shows "\<exists>rc r e s' w. MY_NO_INTR (sys0_long K c 0) s = Some ((rc, r, e), s') \<and> P w \<and> K c w = (r, world s')
     \<and> sint (kret r) \<noteq> - EINTR \<and> (rc, e) = LSS_RETURN (kret r) 0"
proof -
  obtain rc r e s' where call: "MY_NO_INTR (sys0_long K c 0) s = Some ((rc, r, e), s')"
    using MY_NO_INTR_returns [OF q, of 0 c s] by auto
  have K: "K c (world t) = (r, world t') \<and> (rc, e) = LSS_RETURN (kret r) 0 \<and>
      (sint (kret r) = - EINTR \<longleftrightarrow> rc < 0 \<and> e = EINTR)"
    if "sys0_long K c 0 t = ((rc, r, e), t')" for t t' rc r e
    using that LSS_error_range [of "kret r"] sint_minus_u64 [of "kret r"]
    by (auto simp: sys0_long_def lss_syscall_def LSS_RETURN_def split: prod.splits if_splits)
  have "\<exists>s0. P (world s0) \<and> sys0_long K c 0 s0 = ((rc, r, e), s') \<and> \<not> (\<lambda>(rc, _, e) s. rc < 0 \<and> e = EINTR) (rc, r, e) s'"
  proof (rule no_intr_result [OF call [unfolded MY_NO_INTR_def], where P = "\<lambda>t. P (world t)"])
    fix t a t'
    assume "P (world t)" "sys0_long K c 0 t = (a, t')" "(\<lambda>(rc, _, e) s. rc < 0 \<and> e = EINTR) a t'"
    then show "P (world t')" using K keep by (cases a) auto
  qed (rule P)
  then obtain s0 where "P (world s0)" "sys0_long K c 0 s0 = ((rc, r, e), s')" "\<not> (rc < 0 \<and> e = EINTR)" by auto
  with call K [of s0 rc r e s'] show ?thesis by blast
qed

lemma c_write_loop_returns:
  assumes q: "intr_bounded K q"
  shows "\<exists>r s'. c_write_loop K f b s = Some (r, s')"
proof (induction "buf_len b" arbitrary: b s rule: less_induct)
  case less
  obtain rc kr e s' where call: "MY_NO_INTR (sys0_long K (NR_write f b) 0) s = Some ((rc, kr, e), s')"
    using MY_NO_INTR_returns [OF q, of 0 "NR_write f b" s] by auto
  show ?case
  proof (cases "buf_len b > 0 \<and> rc > 0")
    case True
    then have "buf_len (buf_drop (nat rc) b) < buf_len b" by simp
    with less.hyps have "\<exists>r t. c_write_loop K f (buf_drop (nat rc) b) s' = Some (r, t)" by blast
    with True call show ?thesis by (subst c_write_loop.simps) simp
  next
    case False
    with call show ?thesis by (subst c_write_loop.simps) auto
  qed
qed

text \<open>A kernel that takes at least one byte of a non-empty buffer, or fails.\<close>

definition write_progress :: "'w kern \<Rightarrow> int \<Rightarrow> bool" where
  "write_progress K f \<longleftrightarrow> (\<forall>b w r w'. buf_len b > 0 \<longrightarrow> K (NR_write f b) w = (r, w') \<longrightarrow> kret r \<noteq> 0)"

lemma write_progress_rc:
  assumes p: "write_progress K f" "buf_len b > 0"
    and ret: "MY_NO_INTR (sys0_long K (NR_write f b) e0) s = Some ((rc, r, e), s')"
  shows "rc \<noteq> 0"
proof -
  have "\<exists>s0. True \<and> sys0_long K (NR_write f b) e0 s0 = ((rc, r, e), s')
      \<and> \<not> (\<lambda>(rc, _, e) s. rc < 0 \<and> e = EINTR) (rc, r, e) s'"
    by (rule no_intr_result [OF ret [unfolded MY_NO_INTR_def], where P = "\<lambda>_. True"]) auto
  then obtain s0 where s0: "sys0_long K (NR_write f b) e0 s0 = ((rc, r, e), s')" by blast
  from sys0_longE(2,3) [OF s0] show ?thesis using p unfolding write_progress_def
    by (auto simp: LSS_RETURN_def signed_eq_0_iff split: if_splits)
qed

lemma c_write_loop_complete:
  assumes p: "write_progress K f"
  shows "c_write_loop K f b s = Some (Inr b', s') \<Longrightarrow> buf_len b' = 0"
proof (induction "buf_len b" arbitrary: b s rule: less_induct)
  case less
  show ?case
  proof (cases "buf_len b > 0")
    case True
    with less.prems obtain rc kr e t where
      call: "MY_NO_INTR (sys0_long K (NR_write f b) 0) s = Some ((rc, kr, e), t)"
      by (subst (asm) c_write_loop.simps) (auto split: Option.bind_splits)
    have "rc > 0" "c_write_loop K f (buf_drop (nat rc) b) t = Some (Inr b', s')"
      using less.prems True call write_progress_rc [OF p True call]
      by (subst (asm) c_write_loop.simps, auto split: if_splits)+
    then show ?thesis using less.hyps [of "buf_drop (nat rc) b"] True by simp
  next
    case False
    then show ?thesis using less.prems by (subst (asm) c_write_loop.simps) auto
  qed
qed

lemma c_write_returns:
  "intr_bounded K q \<Longrightarrow> \<exists>rc s'. c_write K f b s = Some (rc, s')"
  using c_write_loop_returns [of K q f b s] by (auto simp: c_write_def split: sum.splits)


subsection \<open>The character source contract\<close>

text \<open>
  \<open>next_char\<close> is what a reader sees of a character sequence: the next character and the
  rest, or -1 at the end. A \<open>char_source\<close> behaves like a sequence \<open>rest i\<close>, and at its end
  satisfies \<open>clean\<close> (for \<open>GetChar\<close>: \<open>errno\<close> is 0, which tells end of file from an error).
\<close>

fun next_char :: "byte list \<Rightarrow> int \<times> byte list" where
  "next_char [] = (-1, [])"
| "next_char (c # cs) = (uint c, cs)"

locale char_source =
  fixes getc :: "'i \<Rightarrow> (int \<times> 'i) option"
    and ok :: "'i \<Rightarrow> bool"
    and rest :: "'i \<Rightarrow> byte list"
    and clean :: "'i \<Rightarrow> bool"
  assumes getc_next: "ok i \<Longrightarrow>
    \<exists>i'. getc i = Some (fst (next_char (rest i)), i') \<and> ok i' \<and> rest i' = snd (next_char (rest i))
       \<and> (rest i = [] \<longrightarrow> clean i')"
begin

lemma count_lines_rest:
  "ok i \<Longrightarrow> \<exists>i'. count_lines getc n i = Some (n + count_list (rest i) 10, i')
     \<and> ok i' \<and> rest i' = [] \<and> clean i'"
proof (induction "rest i" arbitrary: i n)
  case Nil
  with getc_next [OF Nil.prems] show ?case by (subst count_lines.simps) auto
next
  case (Cons c cs)
  from getc_next [OF Cons.prems] obtain i' where
    g: "getc i = Some (uint c, i')" "ok i'" "rest i' = cs"
    using Cons.hyps(2) by (metis fst_conv next_char.simps(2) snd_conv)
  have c10: "uint c = 10 \<longleftrightarrow> c = 10"
    by (simp add: word_uint_eq_iff)
  note IH = Cons.hyps(1) [OF g(3) [symmetric] g(2)]
  show ?case
    using g IH [of n] IH [of "Suc n"]
    by (subst count_lines.simps) (auto simp: c10 simp flip: Cons.hyps(2))
qed

end

definition read_ok :: "'w kern \<Rightarrow> int \<Rightarrow> ('w \<Rightarrow> byte list) \<Rightarrow> bool" where
  "read_ok K f frest \<longleftrightarrow> (\<forall>n w r w'. n > 0 \<longrightarrow> K (NR_read f n) w = (r, w') \<longrightarrow>
       sint (kret r) = - EINTR \<and> frest w' = frest w
     \<or> 0 \<le> sint (kret r) \<and> sint (kret r) \<le> int (min n (length (frest w)))
       \<and> (sint (kret r) = 0 \<longrightarrow> frest w = [])
       \<and> kbytes r = take (nat (sint (kret r))) (frest w) \<and> frest w' = drop (nat (sint (kret r))) (frest w))"
lemma read_okD:
  "read_ok K f frest \<Longrightarrow> n > 0 \<Longrightarrow> K (NR_read f n) w = (r, w') \<Longrightarrow>
       sint (kret r) = - EINTR \<and> frest w' = frest w
     \<or> 0 \<le> sint (kret r) \<and> sint (kret r) \<le> int (min n (length (frest w)))
       \<and> (sint (kret r) = 0 \<longrightarrow> frest w = [])
       \<and> kbytes r = take (nat (sint (kret r))) (frest w) \<and> frest w' = drop (nat (sint (kret r))) (frest w)"
  unfolding read_ok_def by metis

lemma c_read_ok:
  assumes ok: "read_ok K f frest" and q: "intr_bounded K q" and n: "n > 0"
  shows "\<exists>k s'. c_read K f n s = Some ((int k, take k (frest (world s))), s')
     \<and> k \<le> length (frest (world s)) \<and> (k = 0 \<longrightarrow> frest (world s) = []) \<and> frest (world s') = drop k (frest (world s))"
proof -
  obtain rc r e s' where call: "MY_NO_INTR (sys0_long K (NR_read f n) 0) s = Some ((rc, r, e), s')"
    using MY_NO_INTR_returns [OF q, of 0 "NR_read f n" s] by auto
  let ?again = "(\<lambda>(rc, _, e) s. rc < 0 \<and> e = EINTR)"
  have step: "?again (rc, r, e) t' \<and> frest (world t') = frest (world t) \<or>
      0 \<le> rc \<and> rc \<le> int (length (frest (world t))) \<and> (rc = 0 \<longrightarrow> frest (world t) = []) \<and>
      kbytes r = take (nat rc) (frest (world t)) \<and> frest (world t') = drop (nat rc) (frest (world t))"
    if c: "sys0_long K (NR_read f n) 0 t = ((rc, r, e), t')" for t t' rc r e
  proof -
    have K: "K (NR_read f n) (world t) = (r, world t')" and rc: "(rc, e) = LSS_RETURN (kret r) 0"
      using c by (auto simp: sys0_long_def lss_syscall_def split: prod.splits)
    show ?thesis using read_okD [OF ok n K] rc sint_minus_u64 [of "kret r"]
      by (auto simp: LSS_RETURN_def LSS_error_range split: if_splits)
  qed
  have "\<exists>s0. frest (world s0) = frest (world s) \<and> sys0_long K (NR_read f n) 0 s0 = ((rc, r, e), s')
      \<and> \<not> ?again (rc, r, e) s'"
  proof (rule no_intr_result [OF call [unfolded MY_NO_INTR_def], where P = "\<lambda>t. frest (world t) = frest (world s)"])
    fix t a t'
    assume P: "frest (world t) = frest (world s)" "sys0_long K (NR_read f n) 0 t = (a, t')" "?again a t'"
    obtain rc r e where a: "a = (rc, r, e)" by (rule prod_cases3)
    show "frest (world t') = frest (world s)" using step [of t rc r e t'] P a by auto
  qed simp
  then obtain s0 where s0: "frest (world s0) = frest (world s)"
    "sys0_long K (NR_read f n) 0 s0 = ((rc, r, e), s')" "\<not> ?again (rc, r, e) s'" by blast
  have r: "0 \<le> rc" "rc \<le> int (length (frest (world s)))" "rc = 0 \<longrightarrow> frest (world s) = []"
    "kbytes r = take (nat rc) (frest (world s))" "frest (world s') = drop (nat rc) (frest (world s))"
    using step [OF s0(2)] s0 by auto
  then have "stored rc (kbytes r) = take (nat rc) (frest (world s))"
    using nat_mono [OF r(2)] by (simp add: stored_exact)
  with r call n show ?thesis
    by (intro exI [of _ "nat rc"] exI [of _ s']) (auto simp: c_read_def)
qed

interpretation proc_file: char_source "GetChar K"
    "\<lambda>(i, s). read_ok K (io_fd i) frest \<and> intr_bounded K q" "\<lambda>(i, s). io_rest i @ frest (world s)"
    "\<lambda>(i, s). errno s = 0"
  for K frest q
proof
  fix x :: "io \<times> 'a st"
  obtain i s where x: "x = (i, s)" by (rule prod.exhaust)
  assume "case x of (i, s) \<Rightarrow> read_ok K (io_fd i) frest \<and> intr_bounded K q"
  with x have ok: "read_ok K (io_fd i) frest" "intr_bounded K q" by auto
  show "\<exists>i'. GetChar K x = Some (fst (next_char (case x of (i, s) \<Rightarrow> io_rest i @ frest (world s))), i')
     \<and> (case i' of (i, s) \<Rightarrow> read_ok K (io_fd i) frest \<and> intr_bounded K q)
     \<and> (case i' of (i, s) \<Rightarrow> io_rest i @ frest (world s)) = snd (next_char (case x of (i, s) \<Rightarrow> io_rest i @ frest (world s)))
     \<and> ((case x of (i, s) \<Rightarrow> io_rest i @ frest (world s)) = [] \<longrightarrow> (case i' of (i, s) \<Rightarrow> errno s = 0))"
  proof (cases "io_rest i")
    case (Cons c cs)
    then show ?thesis using ok x by (simp add: GetChar_def)
  next
    case Nil
    obtain k s' where k: "c_read K (io_fd i) 4096 s = Some ((int k, take k (frest (world s))), s')"
      "k \<le> length (frest (world s))" "k = 0 \<longrightarrow> frest (world s) = []" "frest (world s') = drop k (frest (world s))"
      using c_read_ok [OF ok, of 4096 s] by auto
    show ?thesis
    proof (cases "frest (world s)")
      case Nil
      then show ?thesis using k ok x \<open>io_rest i = []\<close> by (simp add: GetChar_def)
    next
      case (Cons c cs)
      with k obtain j where j: "k = Suc j" by (cases k) auto
      show ?thesis using k ok x \<open>io_rest i = []\<close> Cons j by (simp add: GetChar_def)
    qed
  qed
qed

subsection \<open>Size limits\<close>

lemma LimitWriter_budget:
  assumes ok: "write_ok K m (out_fd fds) out" and w: "LimitWriter K fds b s = Some ((rc, fds'), s')"
  shows "length (out (world s')) \<le> length (out (world s)) + max_length fds"
    and "rc \<ge> 0 \<Longrightarrow> length (out (world s')) + max_length fds' = length (out (world s)) + max_length fds"
    and "length (out (world s)) \<le> length (out (world s'))"
proof -
  obtain b' where b': "c_write K (out_fd fds) b' s = Some (rc, s')" "buf_len b' \<le> max_length fds"
    using LimitWriter_c_write(1) [OF w] by auto
  from c_write_ok [OF ok b'(1)] obtain k where k: "k \<le> buf_len b'"
    "out (world s') = out (world s) @ take k (buf_bytes m b')" "rc = -1 \<or> rc = int k" by blast
  show "length (out (world s')) \<le> length (out (world s)) + max_length fds"
    using k b'(2) by simp
  show "length (out (world s')) + max_length fds' = length (out (world s)) + max_length fds" if "rc \<ge> 0"
    using k b'(2) that LimitWriter_c_write(2) [OF w] by (cases "rc > 0") auto
  show "length (out (world s)) \<le> length (out (world s'))"
    using k by simp
qed

lemma NO_INTR_last:
  assumes ret: "NO_INTR fn s = Some ((rc, r), s')" and "P s"
    and "\<And>s rc r s'. P s \<Longrightarrow> fn s = ((rc, r), s') \<Longrightarrow> P s'"
  shows "\<exists>s0. P s0 \<and> fn s0 = ((rc, r), s')"
proof -
  have "\<exists>s0. P s0 \<and> fn s0 = ((rc, r), s') \<and> \<not> (\<lambda>(rc, _) s. rc < 0 \<and> errno s = EINTR) (rc, r) s'"
    using assms by (intro no_intr_result [OF ret [unfolded NO_INTR_def]]) auto
  then show ?thesis by blast
qed

text \<open>Reading from (or setting flags of) the pipeline does not touch the output file.\<close>

definition drain_ok :: "'w kern \<Rightarrow> int \<Rightarrow> ('w \<Rightarrow> byte list) \<Rightarrow> bool" where
  "drain_ok K f out \<longleftrightarrow> (\<forall>n w r w'. K (NR_read f n) w = (r, w') \<longrightarrow>
      out w' = out w \<and> sint (kret r) \<le> int n) \<and>
    (\<forall>c a w r w'. K (NR_fcntl f c a) w = (r, w') \<longrightarrow> out w' = out w)"

lemma drain_read:
  assumes d: "drain_ok K f out" and ret: "NO_INTR (sys_read K f n) s = Some ((rc, r), s')"
  shows "out (world s') = out (world s) \<and> rc \<le> int n"
proof -
  have one: "out (world t') = out (world t) \<and> rc \<le> int n" if "sys_read K f n t = ((rc, r), t')" for t rc r t'
  proof -
    have "K (NR_read f n) (world t) = (r, world t')" and "rc = -1 \<or> rc = sint (kret r)"
      using that by (auto simp: sys_read_def sys_long_def lss_syscall_def LSS_RETURN_def split: prod.splits if_splits)
    then show ?thesis using d unfolding drain_ok_def by fastforce
  qed
  have "\<exists>s0. out (world s0) = out (world s) \<and> sys_read K f n s0 = ((rc, r), s')"
    using ret by (rule NO_INTR_last) (auto dest: one)
  then show ?thesis using one by metis
qed

lemma c_write_Local:
  assumes "write_ok K m f out" "c_write K f (Local bs) s = Some (rc, s')"
  shows "length (out (world s')) \<le> length (out (world s)) + length bs"
    "rc \<ge> 0 \<Longrightarrow> length (out (world s')) = length (out (world s)) + nat rc" "rc \<le> int (length bs)"
  using c_write_ok [OF assms] by fastforce+

lemma FlushPipe_loop_budget:
  assumes "FlushPipe_loop K fds s = Some ((rc, fds'), s')"
    and "write_ok K m (out_fd fds) out" "drain_ok K (compressed_fd fds) out"
  shows "length (out (world s')) \<le> length (out (world s)) + max_length fds \<and> out_fd fds' = out_fd fds"
proof -
  let ?Q = "\<lambda>K fds s r. write_ok K m (out_fd fds) out \<longrightarrow> drain_ok K (compressed_fd fds) out \<longrightarrow>
     length (out (world (snd r))) \<le> length (out (world s)) + max_length fds \<and> out_fd (snd (fst r)) = out_fd fds"
  have "?Q K fds s ((rc, fds'), s')"
  proof (rule FlushPipe_loop.raw_induct [where P = ?Q, OF _ assms(1)])
    fix g K fds s r
    assume IH: "\<And>K fds s y. g K fds s = Some y \<Longrightarrow> ?Q K fds s y"
      and eq: "(if max_length fds > 0 then
        let l = (if 4096 > max_length fds then max_length fds else 4096) in do {
          ((rc, r), s) \<leftarrow> NO_INTR (sys_read K (compressed_fd fds) l) s;
          if rc < 0 then Some ((-1, fds), s)
          else if rc = 0 then Some ((0, fds), s)
          else do {
            (wrc, s) \<leftarrow> c_write K (out_fd fds) (Local (stored rc (kbytes r))) s;
            if wrc \<noteq> rc then Some ((-1, fds), s)
            else g K (fds\<lparr>max_length := max_length fds - nat rc\<rparr>) s
          }
        }
      else Some ((0, fds), s)) = Some r"
    show "?Q K fds s r"
    proof (intro impI)
      assume ok: "write_ok K m (out_fd fds) out" "drain_ok K (compressed_fd fds) out"
      define l where "l = (if 4096 > max_length fds then max_length fds else 4096)"
      have l: "l \<le> max_length fds" by (simp add: l_def)
      show "length (out (world (snd r))) \<le> length (out (world s)) + max_length fds \<and> out_fd (snd (fst r)) = out_fd fds"
      proof (cases "max_length fds > 0")
        case False
        then show ?thesis using eq by auto
      next
        case True
        then obtain rc kr s1 where rd: "NO_INTR (sys_read K (compressed_fd fds) l) s = Some ((rc, kr), s1)"
          using eq by (auto simp: Let_def l_def split: Option.bind_splits)
        note d = drain_read [OF ok(2) rd]
        show ?thesis
        proof (cases "rc > 0")
          case False
          then show ?thesis using eq True rd d by (auto simp: Let_def l_def split: if_splits)
        next
          case pos: True
          then obtain wrc s2 where w: "c_write K (out_fd fds) (Local (stored rc (kbytes kr))) s1 = Some (wrc, s2)"
            and fin: "(if wrc \<noteq> rc then Some ((-1, fds), s2)
               else g K (fds\<lparr>max_length := max_length fds - nat rc\<rparr>) s2) = Some r"
            using eq True rd by (auto simp: Let_def l_def split: Option.bind_splits)
          note cw = c_write_Local [OF ok(1) w]
          show ?thesis
          proof (cases "wrc = rc")
            case False
            then show ?thesis using fin cw d l pos by auto
          next
            case True
            then have "?Q K (fds\<lparr>max_length := max_length fds - nat rc\<rparr>) s2 r" using fin by (intro IH) simp
            then show ?thesis using ok cw d l pos True by auto
          qed
        qed
      qed
    qed
  qed
  then show ?thesis using assms by simp
qed

lemma drain_fcntl:
  assumes d: "drain_ok K f out" and ret: "NO_INTR (sys_fcntl K f c a) s = Some ((rc, r), s')"
  shows "out (world s') = out (world s)"
proof -
  have one: "out (world t') = out (world t)" if "sys_fcntl K f c a t = ((rc, r), t')" for t rc r t'
    using that d unfolding drain_ok_def
    by (auto simp: sys_fcntl_def sys_int_def lss_syscall_def split: prod.splits)
  have "\<exists>s0. out (world s0) = out (world s) \<and> sys_fcntl K f c a s0 = ((rc, r), s')"
    using ret by (rule NO_INTR_last) (auto dest: one)
  then show ?thesis using one by metis
qed

subsection \<open>A kernel for concrete runs\<close>

text \<open>
  An instance of the kernel parameter that meets the contracts above: writes follow a
  script of results (negative ones are \<open>EAGAIN\<close> or \<open>EINTR\<close>, others limit how much is
  taken) and append to \<open>sent\<close>; reads consume \<open>input\<close>.
\<close>

record demo =
  script :: "int list"
  sent   :: "byte list"
  input  :: "byte list"

definition demo_kernel :: "memory \<Rightarrow> demo kern" where
  "demo_kernel m c w =
     (case c of
        NR_write f b \<Rightarrow>
          (case script w of
             [] \<Rightarrow> let k = min (buf_len b) 1000 in
               (\<lparr>kret = of_nat k, kbytes = [], kints = []\<rparr>, w\<lparr>sent := sent w @ take k (buf_bytes m b)\<rparr>)
           | x # xs \<Rightarrow>
             if x < 0 then
               (\<lparr>kret = (if x = -11 then -11 else -4), kbytes = [], kints = []\<rparr>, w\<lparr>script := xs\<rparr>)
             else let k = min (max 1 (nat x)) (min (buf_len b) 1000) in
               (\<lparr>kret = of_nat k, kbytes = [], kints = []\<rparr>,
                w\<lparr>script := xs, sent := sent w @ take k (buf_bytes m b)\<rparr>))
      | NR_read f n \<Rightarrow> let k = min n (min (length (input w)) 1000) in
          (\<lparr>kret = of_nat k, kbytes = take k (input w), kints = []\<rparr>, w\<lparr>input := drop k (input w)\<rparr>)
      | NR_poll fds t \<Rightarrow> (\<lparr>kret = 1, kbytes = [], kints = [0, 4]\<rparr>, w)
      | _ \<Rightarrow> (\<lparr>kret = 0, kbytes = [], kints = []\<rparr>, w))"

lemma sint_small [simp]: "k \<le> 1000 \<Longrightarrow> sint (of_nat k :: u64) = int k"
proof -
  assume "k \<le> 1000"
  then have "uint (of_nat k :: u64) = int k" by (simp add: uint_nat unat_of_nat)
  with \<open>k \<le> 1000\<close> show ?thesis by (simp add: sint_u64)
qed

lemma demo_write_ok: "write_ok (demo_kernel m) m f sent"
  unfolding write_ok_def
proof (intro allI impI)
  fix b w r w'
  assume K: "demo_kernel m (NR_write f b) w = (r, w')"
  show "- 4095 \<le> sint (kret r) \<and> sint (kret r) < 0 \<and> sent w' = sent w
     \<or> 0 \<le> sint (kret r) \<and> sint (kret r) \<le> int (buf_len b)
       \<and> sent w' = sent w @ take (nat (sint (kret r))) (buf_bytes m b)"
    using K by (auto simp: demo_kernel_def Let_def split: list.splits if_splits)
qed

lemma demo_intr_bounded: "intr_bounded (demo_kernel m) (\<lambda>w. length (script w))"
  unfolding intr_bounded_def
proof (intro allI impI)
  fix c w r w'
  assume K: "demo_kernel m c w = (r, w')" and e: "sint (kret r) = - EINTR"
  show "length (script w') < length (script w)"
    using K e by (cases c) (auto simp: demo_kernel_def Let_def split: list.splits if_splits)
qed

lemma demo_read_ok: "read_ok (demo_kernel m) f input"
  unfolding read_ok_def
  by (auto simp: demo_kernel_def Let_def min_def split: if_splits)

definition demo_state :: "int list \<Rightarrow> byte list \<Rightarrow> demo st" where
  "demo_state xs bs = \<lparr>errno = 0, calls = [], world = \<lparr>script = xs, sent = [], input = bs\<rparr>\<rparr>"

lemmas demo_run = MY_NO_INTR_def NO_INTR_def no_intr.simps sys_defs demo_kernel_def demo_state_def
  LSS_RETURN_def LSS_RETURN_int_def LSS_error_range sys_poll_def sys_write_def sys_read_def sys_fcntl_def

lemma demo_drain_ok: "drain_ok (demo_kernel m) f sent"
  unfolding drain_ok_def by (auto simp: demo_kernel_def Let_def)

lemma of_nat_small_0: "k \<le> 1000 \<Longrightarrow> (of_nat k :: u64) = 0 \<Longrightarrow> k = 0"
  using sint_small [of k] by simp

lemma demo_write_progress: "write_progress (demo_kernel m) f"
  unfolding write_progress_def
proof (intro allI impI notI)
  fix b w r w'
  assume "buf_len b > 0" "demo_kernel m (NR_write f b) w = (r, w')" "kret r = 0"
  then show False
    by (auto simp: demo_kernel_def Let_def split: list.splits if_splits
        dest!: of_nat_small_0 [rotated])
qed

subsection \<open>Properties of the input and output routines\<close>

text \<open>
  C22: \<open>c_write\<close> returns, and does what its comment promises: over a kernel that meets the
  contract of \<open>write(2)\<close>, takes part of every non-empty buffer it does not refuse, and
  interrupts only finitely often, either the whole buffer is delivered in order and the
  result is its length, or the result is -1 and a prefix was delivered. Short writes and
  \<open>EINTR\<close> never show.
\<close>

theorem c_write_complete:
  assumes "write_ok K m f out" "write_progress K f" "intr_bounded K q"
  shows "\<exists>rc s'. c_write K f b s = Some (rc, s') \<and>
     (rc = int (buf_len b) \<and> out (world s') = out (world s) @ buf_bytes m b \<or>
      rc = -1 \<and> (\<exists>k \<le> buf_len b. out (world s') = out (world s) @ take k (buf_bytes m b)))"
proof -
  obtain res s' where loop: "c_write_loop K f b s = Some (res, s')"
    using c_write_loop_returns [OF assms(3)] by blast
  from c_write_loop_ok [OF assms(1) loop] obtain k where k: "k \<le> buf_len b"
    "out (world s') = out (world s) @ take k (buf_bytes m b)"
    "case res of Inl rc \<Rightarrow> rc = -1 | Inr b' \<Rightarrow> b' = buf_drop k b" by blast
  show ?thesis
  proof (cases res)
    case (Inl rc)
    then show ?thesis using k loop by (auto simp: c_write_def)
  next
    case (Inr b')
    then have "buf_len b' = 0" using c_write_loop_complete [OF assms(2)] loop by blast
    then show ?thesis using k loop Inr by (auto simp: c_write_def)
  qed
qed


theorem c_write_complete_witness:
  "\<exists>rc s'. c_write (demo_kernel (\<lambda>_. 0)) 1 (Local [1, 2, 3]) (demo_state [1, -4] []) = Some (rc, s') \<and>
     (rc = 3 \<and> sent (world s') = [1, 2, 3] \<or> rc = -1 \<and> (\<exists>k \<le> 3. sent (world s') = take k [1, 2, 3]))"
  using c_write_complete [OF demo_write_ok demo_write_progress demo_intr_bounded,
      of "\<lambda>_. 0" 1 "Local [1, 2, 3]" "demo_state [1, -4] []"]
  by (simp add: demo_state_def numeral_3_eq_3)

text \<open>
  C31: \<open>FlushPipe\<close> keeps the size limit: what it copies from the compressor to the output
  file is at most the \<open>max_length\<close> bytes that are left.
\<close>

theorem FlushPipe_keeps_limit:
  assumes "write_ok K m (out_fd fds) out" "drain_ok K (compressed_fd fds) out"
    and "FlushPipe K fds s = Some ((rc, fds'), s')"
  shows "length (out (world s')) \<le> length (out (world s)) + max_length fds"
proof -
  obtain fl r1 s1 x r2 s2 where
    1: "NO_INTR (sys_fcntl K (compressed_fd fds) F_GETFL 0) s = Some ((fl, r1), s1)" and
    2: "NO_INTR (sys_fcntl K (compressed_fd fds) F_SETFL (fl AND NOT O_NONBLOCK)) s1 = Some ((x, r2), s2)" and
    3: "FlushPipe_loop K fds s2 = Some ((rc, fds'), s')"
    using assms(3) by (auto simp: FlushPipe_def split: Option.bind_splits)
  show ?thesis
    using FlushPipe_loop_budget [OF 3 assms(1,2)] drain_fcntl [OF assms(2) 1] drain_fcntl [OF assms(2) 2]
    by simp
qed

theorem FlushPipe_keeps_limit_witness:
  "\<exists>rc fds' s'. FlushPipe (demo_kernel (\<lambda>_. 0)) \<lparr>max_length = 2, write_fd = 0, compressed_fd = 0, out_fd = 1\<rparr>
       (demo_state [] [7, 8, 9]) = Some ((rc, fds'), s') \<and> length (sent (world s')) \<le> 2"
proof -
  let ?fds = "\<lparr>max_length = 2, write_fd = 0, compressed_fd = 0, out_fd = 1\<rparr>"
  let ?s = "demo_state [] [7, 8, 9]"
  obtain rc fds' s' where w: "FlushPipe (demo_kernel (\<lambda>_. 0)) ?fds ?s = Some ((rc, fds'), s')"
    by (simp add: FlushPipe_def FlushPipe_loop.simps c_write_def c_write_loop.simps demo_run stored_def)
  show ?thesis
    using w FlushPipe_keeps_limit [OF demo_write_ok demo_drain_ok w] by (simp add: demo_state_def)
qed


end
