(* ===== verification/Thread_Lister.thy ===== *)
theory Thread_Lister
  imports Core_Io
begin

text \<open>
  The thread lister of \<open>coredumper/linuxthreads.c\<close>, with the single-threaded version of
  \<open>coredumper/thread_lister.c\<close>: a helper thread finds all threads of the process in \<open>/proc\<close>,
  stops each with \<open>PTRACE_ATTACH\<close>, calls a callback, and resumes them.

  The array \<open>pids[0 .. num_threads)\<close> is the list \<open>pids\<close>; \<open>num_threads--\<close> drops its last
  element. The record \<open>lister\<close> holds the local variables of \<open>ListerThread\<close> that its loops
  change, with the global variables \<open>sig_*\<close> that the signal handler reads. The helper thread
  runs while its parent waits for it; the parent's two calls between \<open>clone\<close> and \<open>waitpid\<close>
  come first.

  The ghost field \<open>calls\<close> of the state says which threads are stopped: \<open>traced\<close> are those with
  a successful \<open>PTRACE_ATTACH\<close> and no \<open>PTRACE_DETACH\<close> after it.
\<close>

subsection \<open>Numbers\<close>

text \<open>Signed overflow, of \<open>-INT_MIN\<close> and of too many digits, is undefined in C and not modelled.\<close>

function local_itoa :: "int \<Rightarrow> byte list" where
  "local_itoa i =
     (if i < 0 then 45 # local_itoa (- i)
      else (if i \<ge> 10 then local_itoa (i div 10) else []) @ [of_int (i mod 10 + 48)])"
  by pat_completeness auto

termination local_itoa
  by (relation "measure (\<lambda>i. if i < 0 then 1 + nat (- i) else nat i)") auto

declare local_itoa.simps [simp del]

definition is_digit :: "byte \<Rightarrow> bool" where
  "is_digit c \<longleftrightarrow> 48 \<le> c \<and> c \<le> 57"

fun atoi_digits :: "int \<Rightarrow> byte list \<Rightarrow> int" where
  "atoi_digits n [] = n"
| "atoi_digits n (c # cs) = (if is_digit c then atoi_digits (10 * n + (uint c - 48)) cs else n)"

definition local_atoi :: "byte list \<Rightarrow> int" where
  "local_atoi a =
     (case a of
        c # cs \<Rightarrow> if c = 45 then - atoi_digits 0 cs else atoi_digits 0 a
      | [] \<Rightarrow> 0)"

subsection \<open>Resuming threads\<close>

abbreviation (input) "WALL \<equiv> (0x40000000::int)"
abbreviation (input) "O_DIRECTORY \<equiv> (0x10000::int)"   \<comment> \<open>\<open>O_RDONLY\<close> is 0\<close>

text \<open>The argument is the part of the array still to do, last element first.\<close>

fun Resume_loop :: "'w kern \<Rightarrow> int list \<Rightarrow> bool \<Rightarrow> 'w st \<Rightarrow> bool \<times> 'w st" where
  "Resume_loop K [] detached_at_least_one s = (detached_at_least_one, s)"
| "Resume_loop K (pid # ps) detached_at_least_one s =
     (case sys_ptrace_detach K pid s of (rc, s) \<Rightarrow>
      Resume_loop K ps (detached_at_least_one \<or> rc \<ge> 0) s)"

definition ResumeAllProcessThreads :: "'w kern \<Rightarrow> int list \<Rightarrow> 'w st \<Rightarrow> bool \<times> 'w st" where
  "ResumeAllProcessThreads K pids = Resume_loop K (rev pids) False"

subsection \<open>State of the lister thread\<close>

record lister =
  pids            :: "int list"
  max_threads     :: int
  added_entries   :: nat
  found_parent    :: bool
  sig_pids        :: bool     \<comment> \<open>whether the pointer is set; it points to \<open>pids\<close>\<close>
  sig_num_threads :: int
  sig_proc        :: int
  sig_marker      :: int

text \<open>What does not change once the search has begun; \<open>addr_i\<close> is \<open>&i\<close>.\<close>

record lister_env =
  clone_pid   :: int
  ppid        :: int
  marker      :: int
  marker_path :: "byte list"
  marker_ino  :: u64
  addr_i      :: u64

record ListerParams =
  lp_result :: int
  lp_err    :: int

abbreviation num_threads :: "lister \<Rightarrow> int" where
  "num_threads l \<equiv> int (length (pids l))"

text \<open>\<open>pids[num_threads++] = pid\<close> and \<open>num_threads--\<close>, each with its update of \<open>sig_num_threads\<close>.\<close>

definition push_pid :: "int \<Rightarrow> lister \<Rightarrow> lister" where
  "push_pid pid l = l\<lparr>pids := pids l @ [pid], sig_num_threads := num_threads l + 1\<rparr>"

definition pop_pid :: "lister \<Rightarrow> lister" where
  "pop_pid l = l\<lparr>pids := butlast (pids l), sig_num_threads := num_threads l - 1\<rparr>"

subsection \<open>The signal handler\<close>

abbreviation sync_signals :: "int list" where
  "sync_signals \<equiv> [SIGABRT, SIGILL, SIGFPE, SIGSEGV, SIGBUS, SIGXCPU, SIGXFSZ]"

fun kill_threads :: "'w kern \<Rightarrow> int list \<Rightarrow> 'w st \<Rightarrow> 'w st" where
  "kill_threads K [] s = s"
| "kill_threads K (pid # ps) s =
     (case sys_int K NR_sched_yield s of (_, s) \<Rightarrow>
      case sys_ptrace K PTRACE_KILL pid 0 s of (_, s) \<Rightarrow> kill_threads K ps s)"

text \<open>\<open>if (f >= 0) NO_INTR(sys_close(f));\<close>\<close>

definition close_fd :: "'w kern \<Rightarrow> int \<Rightarrow> 'w st \<Rightarrow> 'w st option" where
  "close_fd K f s =
     (if f \<ge> 0 then do { (_, s) \<leftarrow> NO_INTR (sys_close K f) s; Some s } else Some s)"

definition sys_exit :: "'w kern \<Rightarrow> int \<Rightarrow> 'w st \<Rightarrow> 'w st" where
  "sys_exit K code s = snd (sys_int K (NR_exit code) s)"

text \<open>The exit code with the final state; the array is read up to \<open>sig_num_threads\<close>.\<close>

definition SignalHandler :: "'w kern \<Rightarrow> int \<Rightarrow> lister \<Rightarrow> 'w st \<Rightarrow> (int \<times> 'w st) option" where
  "SignalHandler K signum l s = do {
     let ps = rev (take (nat (sig_num_threads l)) (pids l));
     let s = (if sig_pids l then
                if signum = SIGABRT then kill_threads K ps s
                else if sig_num_threads l > 0 then snd (Resume_loop K ps False s) else s
              else s);
     s \<leftarrow> close_fd K (sig_marker l) s;
     s \<leftarrow> close_fd K (sig_proc l) s;
     let code = (if signum = SIGABRT then 1 else 2);
     Some (code, sys_exit K code s)
   }"

subsection \<open>Directory entries\<close>

definition c_open :: "'w kern \<Rightarrow> byte list \<Rightarrow> int \<Rightarrow> int \<Rightarrow> 'w st \<Rightarrow> (int \<times> 'w st) option" where
  "c_open K fname flags mode s = do {
     ((rc, _), s) \<leftarrow> NO_INTR (sys_open K fname flags mode) s;
     Some (rc, s)
   }"

text \<open>\<open>struct kernel_stat\<close>, of which the inode and link numbers are used.\<close>

definition stat_ino :: "kreply \<Rightarrow> u64" where
  "stat_ino r = of_le64 (take 8 (drop 8 (kbytes r @ replicate 24 0)))"

definition stat_nlink :: "kreply \<Rightarrow> u64" where
  "stat_nlink r = of_le64 (take 8 (drop 16 (kbytes r @ replicate 24 0)))"

text \<open>\<open>struct kernel_dirent\<close> at a position of the buffer; bytes the kernel did not store show as 0.\<close>

record kernel_dirent =
  d_ino    :: u64
  d_reclen :: nat
  d_name   :: "byte list"

definition dirent_at :: "byte list \<Rightarrow> nat \<Rightarrow> kernel_dirent" where
  "dirent_at buf pos =
     (let b = drop pos buf @ replicate 18 0
      in \<lparr>d_ino = of_le64 (take 8 b), d_reclen = nat_le (take 2 (drop 16 b)),
          d_name = takeWhile (\<lambda>c. c \<noteq> 0) (drop 18 b)\<rparr>)"

text \<open>The number in a directory name, with the dot some kernels put before it; \<open>None\<close> if it is not numeric.\<close>

definition entry_pid :: "byte list \<Rightarrow> int option" where
  "entry_pid name =
     (let ptr = (case name of c # cs \<Rightarrow> if c = 46 then cs else name | [] \<Rightarrow> [])
      in case ptr of
           c # _ \<Rightarrow> if is_digit c then Some (local_atoi ptr) else None
         | [] \<Rightarrow> None)"

subsection \<open>Attaching to one thread\<close>

text \<open>
  One \<open>PTRACE_PEEKDATA\<close> of the variable \<open>i\<close>: whether the call succeeded and found the
  value \<open>i\<close> in the other thread's address space. The kernel reads the caller's own memory when
  the two share it, so the word the caller has there is part of the call.
\<close>

definition same_word :: "'w kern \<Rightarrow> int \<Rightarrow> u64 \<Rightarrow> int \<Rightarrow> 'w st \<Rightarrow> bool \<times> 'w st" where
  "same_word K pid addr i s =
     (case sys_long K (NR_peekdata pid addr i) s of ((rc, r), s) \<Rightarrow>
      (rc = 0 \<and> (case kints r of j # _ \<Rightarrow> i = j | [] \<Rightarrow> False), s))"

definition same_address_space :: "'w kern \<Rightarrow> int \<Rightarrow> u64 \<Rightarrow> int \<Rightarrow> 'w st \<Rightarrow> bool \<times> 'w st" where
  "same_address_space K pid addr i s =
     (case same_word K pid addr i s of (ok, s) \<Rightarrow>
      if ok then same_word K pid addr (i + 1) s else (False, s))"

text \<open>
  From \<open>pids[num_threads++] = pid\<close> to the end of the loop body. The value of \<open>i\<close> is the
  number of threads found before this one.
\<close>

definition attach_thread :: "'w kern \<Rightarrow> lister_env \<Rightarrow> int \<Rightarrow> lister \<Rightarrow> 'w st \<Rightarrow> (lister \<times> 'w st) option" where
  "attach_thread K env pid l s = do {
     let i = num_threads l;
     let l = push_pid pid l;
     let ((rc, _), s) = sys_ptrace K PTRACE_ATTACH pid 0 s;
     if rc < 0 then Some (pop_pid l, s)
     else do {
       ((rc, _), s) \<leftarrow> NO_INTR (sys_waitpid K pid WALL) s;
       if rc < 0 then Some (pop_pid l, snd (sys_ptrace_detach K pid s))
       else case same_address_space K pid (addr_i env) i s of (same, s) \<Rightarrow>
         if same then Some (l\<lparr>found_parent := found_parent l \<or> pid = ppid env,
                              added_entries := added_entries l + 1\<rparr>, s)
         else Some (pop_pid l, snd (sys_ptrace_detach K pid s))
     }
   }"

text \<open>
  The body of the loop over directory entries. The flag is set when the array is full: the
  directory has been closed, and the search starts again with a larger array.
\<close>

definition proc_entry :: "'w kern \<Rightarrow> lister_env \<Rightarrow> kernel_dirent \<Rightarrow> lister \<Rightarrow> 'w st \<Rightarrow> (bool \<times> lister \<times> 'w st) option" where
  "proc_entry K env d l s =
     (if d_ino d = 0 then Some (False, l, s)
      else case entry_pid (d_name d) of
        None \<Rightarrow> Some (False, l, s)
      | Some pid \<Rightarrow>
        if pid = 0 \<or> pid = clone_pid env then Some (False, l, s)
        else case sys_int K (NR_stat (str ''/proc/'' @ d_name d @ marker_path env)) s of ((rc, r), s) \<Rightarrow>
          if rc < 0 \<or> marker_ino env \<noteq> stat_ino r then Some (False, l, s)
          else if pid \<in> set (pids l) then Some (False, l, s)
          else if num_threads l \<ge> max_threads l then do {
            (_, s) \<leftarrow> NO_INTR (sys_close K (sig_proc l)) s;
            Some (True, l, s)
          }
          else do { (l, s) \<leftarrow> attach_thread K env pid l s; Some (False, l, s) })"

partial_function (option) proc_entries ::
    "'w kern \<Rightarrow> lister_env \<Rightarrow> byte list \<Rightarrow> nat \<Rightarrow> lister \<Rightarrow> 'w st \<Rightarrow> (bool \<times> lister \<times> 'w st) option" where
  "proc_entries K env buf pos l s =
     (if pos < length buf then do {
        let d = dirent_at buf pos;
        (full, l, s) \<leftarrow> proc_entry K env d l s;
        if full then Some (True, l, s) else proc_entries K env buf (pos + d_reclen d) l s
      } else Some (False, l, s))"

text \<open>Passes over one directory until a pass finds nothing new.\<close>

datatype scan_result = Scanned | Scan_failed | Scan_full

partial_function (option) scan_proc ::
    "'w kern \<Rightarrow> lister_env \<Rightarrow> lister \<Rightarrow> 'w st \<Rightarrow> (scan_result \<times> lister \<times> 'w st) option" where
  "scan_proc K env l s =
     (case sys_int K (NR_getdents (sig_proc l) 4096) s of ((nbytes, r), s) \<Rightarrow>
      if nbytes < 0 then Some (Scan_failed, l, s)
      else if nbytes = 0 then
        if added_entries l > 0 then
          (case sys_long K (NR_lseek (sig_proc l) 0 0) s of (_, s) \<Rightarrow>
           scan_proc K env (l\<lparr>added_entries := 0\<rparr>) s)
        else Some (Scanned, l, s)
      else do {
        (full, l, s) \<leftarrow> proc_entries K env (stored nbytes (kbytes r)) 0 l s;
        if full then Some (Scan_full, l, s) else scan_proc K env l s
      })"

subsection \<open>Searching \<open>/proc\<close>\<close>

text \<open>\<open>if (max_threads < proc_sb.st_nlink + 100) max_threads = proc_sb.st_nlink + 100\<close>\<close>

definition grow_threads :: "u64 \<Rightarrow> int \<Rightarrow> int" where
  "grow_threads nlink n =
     (let lim = nlink + 100 in if (of_int n :: u64) < lim then sint (ucast lim :: 32 word) else n)"

text \<open>
  One round of the outer loop, in the directory \<open>path\<close>; \<open>last_path\<close> says that no other path is
  left. \<open>Retry\<close> and \<open>Next\<close> come after the code at the label \<open>detach_threads\<close>: the threads
  have been resumed, and the search goes on in the same or in the next directory.
\<close>

datatype round = Found | Failed | Unopened | Retry | Next

definition search_dir ::
    "'w kern \<Rightarrow> lister_env \<Rightarrow> byte list \<Rightarrow> bool \<Rightarrow> lister \<Rightarrow> 'w st \<Rightarrow> (round \<times> lister \<times> 'w st) option" where
  "search_dir K env path last_path l s = do {
     (proc, s) \<leftarrow> c_open K path O_DIRECTORY 0 s;
     let l = l\<lparr>sig_proc := proc\<rparr>;
     if proc < 0 then Some (Unopened, l, s)
     else case sys_int K (NR_fstat proc) s of ((rc, r), s) \<Rightarrow>
       if rc < 0 then Some (Failed, l, s)
       else do {
         let l = l\<lparr>max_threads := grow_threads (stat_nlink r) (max_threads l), added_entries := 0,
                   sig_num_threads := num_threads l, sig_pids := True\<rparr>;
         (res, l, s) \<leftarrow> scan_proc K env l s;
         if res = Scan_failed then Some (Failed, l, s)
         else do {
           (l, s) \<leftarrow> (if res = Scan_full then Some (l, s)
                      else do {
                        (_, s) \<leftarrow> NO_INTR (sys_close K proc) s;
                        Some (l\<lparr>sig_proc := -1\<rparr>, s)
                      });
           if res = Scanned \<and> (num_threads l > 1 \<or> last_path) then Some (Found, l, s)
           else let (_, s) = ResumeAllProcessThreads K (pids l) s
                in Some (if res = Scan_full then Retry else Next,
                         l\<lparr>sig_pids := False, pids := [], sig_num_threads := 0,
                           max_threads := max_threads l + 100\<rparr>, s)
         }
       }
   }"

text \<open>
  The outer loop, over the remaining entries of \<open>proc_paths\<close>. The flag says that the search
  ended at the callback; otherwise it jumped to \<open>failure\<close>.
\<close>

partial_function (option) find_threads ::
    "'w kern \<Rightarrow> lister_env \<Rightarrow> byte list list \<Rightarrow> lister \<Rightarrow> 'w st \<Rightarrow> (bool \<times> lister \<times> 'w st) option" where
  "find_threads K env proc_paths l s =
     (case proc_paths of [] \<Rightarrow> Some (False, l, s) | path # rest \<Rightarrow> do {
        (res, l, s) \<leftarrow> search_dir K env path (rest = []) l s;
        if res = Found then Some (True, l, s)
        else if res = Failed then Some (False, l, s)
        else if res = Retry then find_threads K env (path # rest) l s
        else find_threads K env rest l s
      })"

subsection \<open>The lister thread\<close>

text \<open>The code at the label \<open>failure\<close>.\<close>

definition lister_failure :: "'w kern \<Rightarrow> int \<Rightarrow> int \<Rightarrow> 'w st \<Rightarrow> ((int \<times> ListerParams) \<times> 'w st) option" where
  "lister_failure K mark proc s = do {
     let args = \<lparr>lp_result = -1, lp_err = errno s\<rparr>;
     s \<leftarrow> close_fd K mark s;
     s \<leftarrow> close_fd K proc s;
     Some ((1, args), sys_exit K 1 s)
   }"

text \<open>The handlers for synchronous signals; the flags are \<open>SA_ONSTACK|SA_SIGINFO|SA_RESETHAND\<close>.\<close>

fun install_handlers :: "'w kern \<Rightarrow> int list \<Rightarrow> 'w st \<Rightarrow> 'w st" where
  "install_handlers K [] s = s"
| "install_handlers K (sg # sgs) s =
     install_handlers K sgs
       (snd (sys_int K (NR_rt_sigaction sg 0x88000004 (sys_sigfillset \<lparr>sig = [0]\<rparr>) 8) s))"

text \<open>
  From the end of a successful search to the exit: the callback, with its parameters
  already applied, is given the array of threads.
\<close>

definition run_callback ::
    "'w kern \<Rightarrow> (int list \<Rightarrow> 'w st \<Rightarrow> (int \<times> 'w st) option) \<Rightarrow> lister_env \<Rightarrow> ListerParams \<Rightarrow> lister \<Rightarrow> 'w st
     \<Rightarrow> ((int \<times> ListerParams) \<times> 'w st) option" where
  "run_callback K callback env args l s = do {
     (_, s) \<leftarrow> NO_INTR (sys_close K (marker env)) s;
     if \<not> found_parent l then
       let (_, s) = ResumeAllProcessThreads K (pids l) s in Some ((3, args), sys_exit K 3 s)
     else do {
       (rc, s) \<leftarrow> callback (pids l) s;
       let args = \<lparr>lp_result = rc, lp_err = errno s\<rparr>;
       let (resumed, s) = ResumeAllProcessThreads K (pids l) s;
       let args = (if resumed then \<lparr>lp_result = -1, lp_err = EINVAL\<rparr> else args);
       Some ((0, args), sys_exit K 0 s)
     }
   }"

definition proc_dir :: "int \<Rightarrow> byte list" where
  "proc_dir pid = str ''/proc/'' @ local_itoa pid"

definition marker_suffix :: "int \<Rightarrow> byte list" where
  "marker_suffix mark = str ''/fd/'' @ local_itoa mark"

definition lister_init :: "int \<Rightarrow> lister" where
  "lister_init mark =
     \<lparr>pids = [], max_threads = 0, added_entries = 0, found_parent = False, sig_pids = False,
      sig_num_threads = 0, sig_proc = -1, sig_marker = mark\<rparr>"

text \<open>The result is the exit code and what was stored in \<open>args->result\<close> and \<open>args->err\<close>.\<close>

definition ListerThread ::
    "'w kern \<Rightarrow> (int list \<Rightarrow> 'w st \<Rightarrow> (int \<times> 'w st) option) \<Rightarrow> u64 \<Rightarrow> ListerParams \<Rightarrow> 'w st
     \<Rightarrow> ((int \<times> ListerParams) \<times> 'w st) option" where
  "ListerThread K callback addr args s = do {
     let (self, s) = sys_gettid K s;
     let ((parent, _), s) = sys_int K NR_getppid s;
     let ((mark, _), s) = sys_int K (NR_socket 1 2 0) s;
     if mark < 0 then lister_failure K mark (-1) s
     else case sys_fcntl K mark F_SETFD FD_CLOEXEC s of ((rc, _), s) \<Rightarrow>
       if rc < 0 then lister_failure K mark (-1) s
       else case sys_int K (NR_stat (proc_dir parent @ marker_suffix mark)) s of ((rc, r), s) \<Rightarrow>
         if rc < 0 then lister_failure K mark (-1) s
         else do {
           let env = \<lparr>clone_pid = self, ppid = parent, marker = mark, marker_path = marker_suffix mark,
                      marker_ino = stat_ino r, addr_i = addr\<rparr>;
           let (_, s) = sys_int K NR_sigaltstack s;
           let s = install_handlers K sync_signals s;
           (found, l, s) \<leftarrow> find_threads K env [proc_dir parent @ str ''/task/'', str ''/proc/'']
                              (lister_init mark) s;
           if found then run_callback K callback env args l s
           else lister_failure K mark (sig_proc l) s
         }
   }"

subsection \<open>Starting the lister\<close>

abbreviation (input) "PR_GET_DUMPABLE \<equiv> (3::int)"
abbreviation (input) "PR_SET_DUMPABLE \<equiv> (4::int)"
abbreviation (input) "PR_SET_PTRACER \<equiv> (0x59616d61::int)"
abbreviation (input) "SIG_BLOCK \<equiv> (0::int)"
abbreviation (input) "SIG_SETMASK \<equiv> (2::int)"

text \<open>The stack of the clone: the caller's, at least 4080 bytes below the argument, aligned to 16 bytes.\<close>

definition local_clone_stack :: "u64 \<Rightarrow> u64" where
  "local_clone_stack arg = (let child_stack = arg - 4096 in child_stack + (16 - child_stack mod 16))"

text \<open>\<open>CLONE_VM|CLONE_FS|CLONE_FILES|CLONE_UNTRACED\<close>; the new thread's run is not part of this call.\<close>

definition local_clone :: "'w kern \<Rightarrow> 'w st \<Rightarrow> (int \<times> kreply) \<times> 'w st" where
  "local_clone K = sys_int K (NR_clone 0x800700)"

definition DirtyStack :: "'w kern \<Rightarrow> nat \<Rightarrow> 'w st \<Rightarrow> 'w st" where
  "DirtyStack K amount s = snd (sys_read K (-1) amount s)"

text \<open>The signals to block: all but the synchronous ones. \<open>errno\<close> is threaded through \<open>sigdelset\<close>.\<close>

fun unblock_sync :: "int list \<Rightarrow> kernel_sigset_t \<times> int \<Rightarrow> kernel_sigset_t \<times> int" where
  "unblock_sync [] x = x"
| "unblock_sync (sg # sgs) (ss, e) =
     (case sys_sigdelset ss sg e of (_, ss, e) \<Rightarrow> unblock_sync sgs (ss, e))"

text \<open>\<open>WIFEXITED\<close> and \<open>WEXITSTATUS\<close>, and what they mean to the caller.\<close>

definition WIFEXITED :: "int \<Rightarrow> bool" where
  "WIFEXITED status \<longleftrightarrow> status AND 0x7f = 0"

definition WEXITSTATUS :: "int \<Rightarrow> int" where
  "WEXITSTATUS status = drop_bit 8 status AND 0xff"

definition exit_result :: "int \<Rightarrow> ListerParams \<Rightarrow> ListerParams" where
  "exit_result status args =
     (if WIFEXITED status then
        if WEXITSTATUS status = 0 then args
        else if WEXITSTATUS status = 2 then \<lparr>lp_result = -1, lp_err = EFAULT\<rparr>
        else if WEXITSTATUS status = 3 then \<lparr>lp_result = -1, lp_err = EPERM\<rparr>
        else \<lparr>lp_result = -1, lp_err = ECHILD\<rparr>
      else \<lparr>lp_result = -1, lp_err = EFAULT\<rparr>)"

text \<open>From the clone to the end of the inner scope; \<open>sig_old\<close> is the saved signal mask.\<close>

definition run_lister ::
    "'w kern \<Rightarrow> (int list \<Rightarrow> 'w st \<Rightarrow> (int \<times> 'w st) option) \<Rightarrow> u64 \<Rightarrow> kernel_sigset_t \<Rightarrow> 'w st
     \<Rightarrow> (ListerParams \<times> 'w st) option" where
  "run_lister K callback addr sig_old s = do {
     let ((pid, _), s) = local_clone K s;
     let clone_errno = errno s;
     let (_, s) = sys_int K (NR_prctl PR_SET_PTRACER pid) s;
     let (_, s) = sys_int K (NR_rt_sigprocmask SIG_SETMASK (Some sig_old) 8) s;
     if pid < 0 then Some (\<lparr>lp_result = -1, lp_err = clone_errno\<rparr>, s)
     else do {
       ((_, args), s) \<leftarrow> ListerThread K callback addr \<lparr>lp_result = -1, lp_err = 0\<rparr> s;
       ((rc, r, my_errno), s) \<leftarrow> MY_NO_INTR (sys0_int K (NR_wait4 pid WALL) 0) s;
       if rc < 0 then Some (\<lparr>lp_result = -1, lp_err = my_errno\<rparr>, s)
       else Some (exit_result (case kints r of status # _ \<Rightarrow> status | [] \<Rightarrow> 0) args, s)
     }
   }"

definition ListAllProcessThreads ::
    "'w kern \<Rightarrow> (int list \<Rightarrow> 'w st \<Rightarrow> (int \<times> 'w st) option) \<Rightarrow> u64 \<Rightarrow> 'w st \<Rightarrow> (int \<times> 'w st) option" where
  "ListAllProcessThreads K callback addr s = do {
     let s = DirtyStack K 32768 s;
     let ((dumpable, _), s) = sys_int K (NR_prctl PR_GET_DUMPABLE 0) s;
     let s = (if dumpable = 0 then snd (sys_int K (NR_prctl PR_SET_DUMPABLE 1) s) else s);
     let (sig_blocked, e) = unblock_sync sync_signals (sys_sigfillset \<lparr>sig = [0]\<rparr>, errno s);
     let s = s\<lparr>errno := e\<rparr>;
     let ((rc, r), s) = sys_int K (NR_rt_sigprocmask SIG_BLOCK (Some sig_blocked) 8) s;
     (args, s) \<leftarrow> (if rc \<noteq> 0 then Some (\<lparr>lp_result = -1, lp_err = errno s\<rparr>, s)
                   else run_lister K callback addr \<lparr>sig = [of_le64 (stored 8 (kbytes r))]\<rparr> s);
     let s = (if dumpable = 0 then snd (sys_int K (NR_prctl PR_SET_DUMPABLE dumpable) s) else s);
     Some (lp_result args, s\<lparr>errno := lp_err args\<rparr>)
   }"

subsection \<open>Without thread support\<close>

text \<open>\<open>thread_lister.c\<close>: \<open>prctl\<close> and \<open>getpid\<close> are those of the C library.\<close>

definition ListAllProcessThreads_single ::
    "'w kern \<Rightarrow> (int list \<Rightarrow> 'w st \<Rightarrow> (int \<times> 'w st) option) \<Rightarrow> 'w st \<Rightarrow> (int \<times> 'w st) option" where
  "ListAllProcessThreads_single K callback s = do {
     let ((dumpable, _), s) = sys_int K (NR_prctl PR_GET_DUMPABLE 0) s;
     let s = (if dumpable = 0 then snd (sys_int K (NR_prctl PR_SET_DUMPABLE 1) s) else s);
     let ((pid, _), s) = sys_int K NR_getpid s;
     (rc, s) \<leftarrow> callback [pid] s;
     let s = (if dumpable = 0 then snd (sys_int K (NR_prctl PR_SET_DUMPABLE 0) s) else s);
     Some (rc, s)
   }"

definition ResumeAllProcessThreads_single :: "int list \<Rightarrow> int" where
  "ResumeAllProcessThreads_single _ = 1"

end
