(* ===== verification/Smaps_Parser.thy ===== *)
theory Smaps_Parser
  imports Core_Io
begin

text \<open>
  Reading \<open>/proc/self/smaps\<close>: the number parser (\<open>GetHexHelper\<close>, \<open>GetHex\<close>,
  \<open>GetHexWithInitChar\<close>), the scan for leading zero pages (\<open>LeadingZeros\<close>) and the loop
  of \<open>CreateElfCore\<close> that turns the file into the array \<open>mappings\<close>.

  The parser is written over an arbitrary character source \<open>getc\<close> on a state \<open>'i\<close>. The
  program runs it on \<open>GetChar K\<close>; the theorems use the source \<open>lget\<close> that reads a list of
  bytes, and the refinement at the end of the theory connects the two. A result \<open>None\<close> is
  a run that does not end; inside it, \<open>None\<close> is a jump to \<open>read_error\<close>.

  Every character loop of the source (\<open>while (P(ch)) { ...; ch = GetChar(&io); }\<close>) is an
  instance of \<open>scan\<close>.
\<close>

subsection \<open>Character loops\<close>

type_synonym 'i source = "'i \<Rightarrow> (int \<times> 'i) option"

partial_function (option) scan ::
    "'i source \<Rightarrow> ('a \<Rightarrow> int \<Rightarrow> bool) \<Rightarrow> ('a \<Rightarrow> int \<Rightarrow> 'a) \<Rightarrow> 'a \<Rightarrow> int \<Rightarrow> 'i
     \<Rightarrow> (('a \<times> int) \<times> 'i) option" where
  "scan getc go f a ch i =
     (if go a ch then do { (ch', i) \<leftarrow> getc i; scan getc go f (f a ch) ch' i }
      else Some ((a, ch), i))"

abbreviation (input) "SPACE \<equiv> (32::int)"
abbreviation (input) "NEWLINE \<equiv> (10::int)"
abbreviation (input) "DASH \<equiv> (45::int)"

definition skip_while :: "'i source \<Rightarrow> (int \<Rightarrow> bool) \<Rightarrow> int \<Rightarrow> 'i \<Rightarrow> (int \<times> 'i) option" where
  "skip_while getc P ch i = do {
     ((_, ch), i) \<leftarrow> scan getc (\<lambda>_. P) (\<lambda>_ _. ()) () ch i; Some (ch, i) }"

subsection \<open>Numbers\<close>

definition is_hex :: "int \<Rightarrow> bool" where
  "is_hex ch \<longleftrightarrow> 48 \<le> ch \<and> ch \<le> 57 \<or> 65 \<le> ch \<and> ch \<le> 70 \<or> 97 \<le> ch \<and> ch \<le> 102"

definition hex_step :: "u64 \<Rightarrow> int \<Rightarrow> u64" where
  "hex_step hex ch = push_bit 4 hex OR of_int (if ch < 65 then ch - 48 else (ch AND 15) + 9)"

text \<open>The number and the first character that is no hex digit.\<close>

definition GetHexHelper :: "'i source \<Rightarrow> bool \<Rightarrow> int \<Rightarrow> 'i \<Rightarrow> ((u64 \<times> int) \<times> 'i) option" where
  "GetHexHelper getc read_first init_char i = do {
     (ch, i) \<leftarrow> (if read_first then getc i else Some (init_char, i));
     scan getc (\<lambda>_. is_hex) hex_step 0 ch i
   }"

definition GetHex :: "'i source \<Rightarrow> 'i \<Rightarrow> ((u64 \<times> int) \<times> 'i) option" where
  "GetHex getc i = GetHexHelper getc True 0 i"

definition GetHexWithInitChar :: "'i source \<Rightarrow> int \<Rightarrow> 'i \<Rightarrow> ((u64 \<times> int) \<times> 'i) option" where
  "GetHexWithInitChar getc init_char i = GetHexHelper getc False init_char i"

subsection \<open>Leading zero pages\<close>

text \<open>
  \<open>buf\<close> is the page buffer, shown as zeros before it is filled; \<open>*ptr\<close> is
  \<open>buf[count % pagesize]\<close>, because \<open>ptr\<close> is reset whenever \<open>count\<close> is a multiple of the page
  size and advances with it.
\<close>

partial_function (option) LeadingZeros_loop ::
    "'w kern \<Rightarrow> int \<times> int \<Rightarrow> u64 \<Rightarrow> u64 \<Rightarrow> u64 \<Rightarrow> byte list \<Rightarrow> u64 \<Rightarrow> 'w st \<Rightarrow> (u64 \<times> 'w st) option" where
  "LeadingZeros_loop K lb mem len pagesize buf count s =
     (if count < len then
        if count mod pagesize = 0 then do {
          (wrc, s) \<leftarrow> c_write K (snd lb) (Mem (mem + count) (unat pagesize)) s;
          if wrc < 0 then LeadingZeros_loop K lb mem len pagesize buf (count + pagesize) s
          else do {
            ((rrc, bs), s) \<leftarrow> c_read K (fst lb) (unat pagesize) s;
            if rrc < 0 then LeadingZeros_loop K lb mem len pagesize buf (count + pagesize) s
            else let buf = bs @ drop (length bs) buf in
              if buf ! 0 \<noteq> 0 then Some (count, s)
              else LeadingZeros_loop K lb mem len pagesize buf (count + 1) s
          }
        }
        else if buf ! unat (count mod pagesize) \<noteq> 0 then Some (count, s)
        else LeadingZeros_loop K lb mem len pagesize buf (count + 1) s
      else Some (count, s))"

definition LeadingZeros ::
    "'w kern \<Rightarrow> int \<times> int \<Rightarrow> u64 \<Rightarrow> u64 \<Rightarrow> u64 \<Rightarrow> 'w st \<Rightarrow> (u64 \<times> 'w st) option" where
  "LeadingZeros K lb mem len pagesize s = do {
     (count, s) \<leftarrow> LeadingZeros_loop K lb mem len pagesize (replicate (unat pagesize) 0) 0 s;
     Some (count AND NOT (pagesize - 1), s)
   }"

subsection \<open>One segment description\<close>

abbreviation (input) "PF_X \<equiv> (1::u16)"
abbreviation (input) "PF_W \<equiv> (2::u16)"
abbreviation (input) "PF_R \<equiv> (4::u16)"
abbreviation (input) "PF_MASK \<equiv> (7::u16)"
abbreviation (input) "FNAME_MAX \<equiv> (256::nat)"

text \<open>
  \<open>struct mapping\<close>. The character array and \<open>name_len\<close> are one list, the name without
  its terminating NUL.
\<close>

record mapping =
  start_address :: u64
  end_address   :: u64
  moffset       :: u64
  write_size    :: u64
  mflags        :: u16
  is_anon       :: bool
  mname         :: "byte list"

abbreviation name_len :: "mapping \<Rightarrow> nat" where
  "name_len m \<equiv> length (mname m)"

text \<open>Device number, inode number: one round of the \<open>for (int j = 0; j < 2; j++)\<close> loop.\<close>

definition skip_field :: "'i source \<Rightarrow> int \<Rightarrow> 'i \<Rightarrow> (int option \<times> 'i) option" where
  "skip_field getc ch i = do {
     (ch, i) \<leftarrow> skip_while getc (\<lambda>ch. ch = SPACE) ch i;
     (ch, i) \<leftarrow> skip_while getc (\<lambda>ch. ch \<noteq> SPACE \<and> ch \<noteq> NEWLINE \<and> ch \<ge> 0) ch i;
     if ch < 0 then Some (None, i)
     else do { (ch, i) \<leftarrow> skip_while getc (\<lambda>ch. ch = SPACE) ch i; Some (Some ch, i) }
   }"

definition rtrim :: "byte list \<Rightarrow> byte list" where
  "rtrim cs = rev (dropWhile (\<lambda>c. c = 32) (rev cs))"

text \<open>The file name: at most 255 characters are kept, trailing spaces are cut.\<close>

definition read_name :: "'i source \<Rightarrow> int \<Rightarrow> 'i \<Rightarrow> (byte list option \<times> 'i) option" where
  "read_name getc ch i = do {
     ((cs, ch), i) \<leftarrow> scan getc (\<lambda>_ ch. ch \<noteq> NEWLINE \<and> ch \<ge> 0)
        (\<lambda>cs ch. if length cs < FNAME_MAX - 1 then cs @ [of_int ch] else cs) [] ch i;
     if ch < 0 then Some (None, i) else Some (Some (rtrim cs), i)
   }"

text \<open>The header line of a segment, from its first character \<open>ch\<close> to its end.\<close>

definition read_header :: "'i source \<Rightarrow> int \<Rightarrow> 'i \<Rightarrow> (mapping option \<times> 'i) option" where
  "read_header getc ch i = do {
     ((start, ch), i) \<leftarrow> GetHexWithInitChar getc ch i;
     if ch \<noteq> DASH then Some (None, i) else do {
     ((fin, ch), i) \<leftarrow> GetHex getc i;
     if ch \<noteq> SPACE then Some (None, i) else do {
     (ch, i) \<leftarrow> getc i;
     ((fl, ch), i) \<leftarrow> scan getc (\<lambda>_ ch. ch \<noteq> SPACE \<and> ch \<ge> 0)
        (\<lambda>fl ch. push_bit 1 fl OR (if ch \<noteq> DASH then 1 else 0)) (0::u16) ch i;
     if ch < 0 then Some (None, i) else do {
     ((off, ch), i) \<leftarrow> GetHex getc i;
     if ch \<noteq> SPACE then Some (None, i) else do {
     (r, i) \<leftarrow> skip_field getc ch i;
     case r of None \<Rightarrow> Some (None, i) | Some ch \<Rightarrow> do {
     (r, i) \<leftarrow> skip_field getc ch i;
     case r of None \<Rightarrow> Some (None, i) | Some ch \<Rightarrow> do {
     (r, i) \<leftarrow> read_name getc ch i;
     case r of None \<Rightarrow> Some (None, i) | Some name \<Rightarrow>
       Some (Some \<lparr>start_address = start, end_address = fin, moffset = off, write_size = 0,
                   mflags = fl, is_anon = (name = [] \<or> hd name = 91), mname = name\<rparr>, i)
     }}}}}}
   }"

text \<open>A device other than \<open>/dev/zero\<close>.\<close>

definition is_device :: "byte list \<Rightarrow> bool" where
  "is_device name \<longleftrightarrow>
     length name \<ge> 5 \<and> take 5 name = str ''/dev/'' \<and>
     (length name \<noteq> 9 \<or> take 4 (drop 5 name) \<noteq> str ''zero'')"

subsection \<open>The lines after the header\<close>

text \<open>\<open>while (*str && ch == *str)\<close>: what is left of the literal, and the next character.\<close>

definition match_literal :: "'i source \<Rightarrow> byte list \<Rightarrow> int \<Rightarrow> 'i \<Rightarrow> ((byte list \<times> int) \<times> 'i) option" where
  "match_literal getc lit ch i =
     scan getc (\<lambda>l ch. l \<noteq> [] \<and> ch = uint (hd l)) (\<lambda>l _. tl l) lit ch i"

text \<open>The case \<open>'A'\<close>: new value of \<open>has_anonymous_pages\<close> and the current character.\<close>

definition read_anonymous :: "'i source \<Rightarrow> bool \<Rightarrow> int \<Rightarrow> 'i \<Rightarrow> ((bool \<times> int) option \<times> 'i) option" where
  "read_anonymous getc anon ch i = do {
     ((l, ch), i) \<leftarrow> match_literal getc (str ''Anonymous:'') ch i;
     if l = [] then do {
       (ch, i) \<leftarrow> skip_while getc (\<lambda>ch. ch = SPACE) ch i;
       if ch < 48 \<or> ch > 57 then Some (None, i) else Some (Some (ch \<noteq> 48, ch), i)
     } else Some (Some (anon, ch), i)
   }"

text \<open>
  One flag of a \<open>VmFlags:\<close> line, from its first character: whether the segment is not to
  be dumped (flag \<open>dd\<close>, on aarch64 also \<open>pf\<close>), and the current character.
\<close>

definition read_flag :: "'i source \<Rightarrow> bool \<Rightarrow> int \<Rightarrow> 'i \<Rightarrow> ((bool \<times> int) \<times> 'i) option" where
  "read_flag getc aarch64 ch i = do {
     ((dd, ch), i) \<leftarrow>
       (if ch = 100 then do { (ch, i) \<leftarrow> getc i; Some ((ch = 100, ch), i) }
        else Some ((False, ch), i));
     if dd then Some ((True, ch), i) else do {
       ((pf, ch), i) \<leftarrow>
         (if aarch64 \<and> ch = 112 then do { (ch, i) \<leftarrow> getc i; Some ((ch = 102, ch), i) }
          else Some ((False, ch), i));
       if pf then Some ((True, ch), i) else do {
         (ch, i) \<leftarrow> skip_while getc (\<lambda>ch. 97 \<le> ch \<and> ch \<le> 122) ch i;
         Some ((False, ch), i)
       }
     }
   }"

text \<open>The loop over the flags.\<close>

partial_function (option) read_flags :: "'i source \<Rightarrow> bool \<Rightarrow> int \<Rightarrow> 'i \<Rightarrow> ((bool \<times> int) \<times> 'i) option" where
  "read_flags getc aarch64 ch i =
     (if ch = SPACE then do {
        (ch, i) \<leftarrow> skip_while getc (\<lambda>ch. ch = SPACE) ch i;
        ((dd, ch), i) \<leftarrow> read_flag getc aarch64 ch i;
        if dd then Some ((True, ch), i) else read_flags getc aarch64 ch i
      } else Some ((False, ch), i))"

definition read_vmflags :: "'i source \<Rightarrow> bool \<Rightarrow> int \<Rightarrow> 'i \<Rightarrow> ((bool \<times> int) \<times> 'i) option" where
  "read_vmflags getc aarch64 ch i = do {
     ((l, ch), i) \<leftarrow> match_literal getc (str ''VmFlags:'') ch i;
     if l = [] then read_flags getc aarch64 ch i else Some ((False, ch), i)
   }"

text \<open>
  One line from its first character \<open>ch\<close>, to its end: the new values of \<open>dontdump\<close> and
  \<open>has_anonymous_pages\<close>, or \<open>read_error\<close>.
\<close>

definition read_line ::
    "'i source \<Rightarrow> bool \<Rightarrow> bool \<Rightarrow> bool \<Rightarrow> int \<Rightarrow> 'i \<Rightarrow> ((bool \<times> bool) option \<times> 'i) option" where
  "read_line getc aarch64 dontdump anon ch i = do {
     (r, i) \<leftarrow>
       (if ch = 65 then do {
          (r, i) \<leftarrow> read_anonymous getc anon ch i;
          Some (map_option (\<lambda>(anon, ch). (dontdump, anon, ch)) r, i) }
        else if ch = 86 then do {
          ((dd, ch), i) \<leftarrow> read_vmflags getc aarch64 ch i;
          Some (Some (dontdump \<or> dd, anon, ch), i) }
        else Some (Some (dontdump, anon, ch), i));
     case r of
       None \<Rightarrow> Some (None, i)
     | Some (dontdump, anon, ch) \<Rightarrow> do {
         (ch, i) \<leftarrow> skip_while getc (\<lambda>ch. ch \<noteq> NEWLINE \<and> ch \<ge> 0) ch i;
         Some (if ch < 0 then None else Some (dontdump, anon), i)
       }
   }"

text \<open>
  The \<open>while (1)\<close> loop over the lines: \<open>dontdump\<close>, \<open>has_anonymous_pages\<close> and the first
  character of the next segment. As in the source, the \<open>continue\<close> for a segment that will
  not be kept goes on with the next \<^emph>\<open>character\<close>.
\<close>

partial_function (option) read_details ::
    "'i source \<Rightarrow> bool \<Rightarrow> bool \<Rightarrow> bool \<Rightarrow> bool \<Rightarrow> 'i \<Rightarrow> ((bool \<times> bool \<times> int) option \<times> 'i) option" where
  "read_details getc aarch64 device dontdump anon i = do {
     (ch, i) \<leftarrow> getc i;
     if ch < 1 \<or> (48 \<le> ch \<and> ch \<le> 57) \<or> (97 \<le> ch \<and> ch \<le> 102)
     then Some (Some (dontdump, anon, ch), i)
     else if device \<or> dontdump then read_details getc aarch64 device dontdump anon i
     else do {
       (r, i) \<leftarrow> read_line getc aarch64 dontdump anon ch i;
       case r of
         None \<Rightarrow> Some (None, i)
       | Some (dontdump, anon) \<Rightarrow> read_details getc aarch64 device dontdump anon i
     }
   }"

subsection \<open>Selecting what is dumped\<close>

definition elf_magic :: "memory \<Rightarrow> u64 \<Rightarrow> bool" where
  "elf_magic m a \<longleftrightarrow> m a = 127 \<and> m (a + 1) = 69 \<and> m (a + 2) = 76 \<and> m (a + 3) = 70"

text \<open>The number of bytes of a segment that go into the file.\<close>

definition content_size :: "memory \<Rightarrow> u64 \<Rightarrow> bool \<Rightarrow> mapping \<Rightarrow> u64" where
  "content_size m pagesize anon mp =
     (if is_anon mp \<or> anon \<or> mflags mp AND PF_W \<noteq> 0 then end_address mp - start_address mp
      else if \<not> is_anon mp \<and> moffset mp = 0 \<and> mflags mp AND PF_R \<noteq> 0 \<and> elf_magic m (start_address mp)
      then pagesize else 0)"

text \<open>
  One round of the loop over \<open>mapp\<close>: \<open>None\<close> is \<open>read_error\<close>; otherwise the segment if it
  is kept (\<open>++mapp\<close>; without it \<open>--endmap\<close>) and the first character of the next one.
  \<open>lz\<close> stands for the call of \<open>LeadingZeros\<close>.
\<close>

definition read_segment ::
    "'i source \<Rightarrow> (u64 \<Rightarrow> u64 \<Rightarrow> 'i \<Rightarrow> (u64 \<times> 'i) option) \<Rightarrow> bool \<Rightarrow> memory \<Rightarrow> u64 \<Rightarrow> int \<Rightarrow> 'i
     \<Rightarrow> ((mapping option \<times> int) option \<times> 'i) option" where
  "read_segment getc lz aarch64 m pagesize ch i = do {
     (h, i) \<leftarrow> read_header getc ch i;
     case h of None \<Rightarrow> Some (None, i) | Some mp \<Rightarrow> do {
     (d, i) \<leftarrow> read_details getc aarch64 (is_device (mname mp)) False False i;
     case d of None \<Rightarrow> Some (None, i) | Some (dontdump, anon, ch) \<Rightarrow>
       let mp = mp\<lparr>mflags := drop_bit 1 (mflags mp) AND PF_MASK\<rparr> in
       if is_device (mname mp) \<or> dontdump \<or> mflags mp AND PF_R = 0 then Some (Some (None, ch), i)
       else do {
         (z, i) \<leftarrow> lz (start_address mp) (end_address mp - start_address mp) i;
         let mp = mp\<lparr>start_address := start_address mp + z\<rparr> in
         if end_address mp = start_address mp then Some (Some (None, ch), i)
         else Some (Some (Some (mp\<lparr>write_size := content_size m pagesize anon mp\<rparr>), ch), i)
       }
     }
   }"

text \<open>The \<open>for\<close> loop; \<open>n\<close> is \<open>endmap - mapp\<close>.\<close>

fun read_segments ::
    "'i source \<Rightarrow> (u64 \<Rightarrow> u64 \<Rightarrow> 'i \<Rightarrow> (u64 \<times> 'i) option) \<Rightarrow> bool \<Rightarrow> memory \<Rightarrow> u64 \<Rightarrow> nat \<Rightarrow> int \<Rightarrow> 'i
     \<Rightarrow> (mapping list option \<times> 'i) option" where
  "read_segments getc lz aarch64 m pagesize 0 ch i = Some (Some [], i)"
| "read_segments getc lz aarch64 m pagesize (Suc n) ch i = do {
     (r, i) \<leftarrow> read_segment getc lz aarch64 m pagesize ch i;
     case r of None \<Rightarrow> Some (None, i) | Some (kept, ch) \<Rightarrow> do {
     (r, i) \<leftarrow> read_segments getc lz aarch64 m pagesize n ch i;
     Some (map_option (\<lambda>ms. (case kept of None \<Rightarrow> ms | Some mp \<Rightarrow> mp # ms)) r, i)
     }
   }"

definition read_smaps ::
    "'i source \<Rightarrow> (u64 \<Rightarrow> u64 \<Rightarrow> 'i \<Rightarrow> (u64 \<times> 'i) option) \<Rightarrow> bool \<Rightarrow> memory \<Rightarrow> u64 \<Rightarrow> nat \<Rightarrow> 'i
     \<Rightarrow> (mapping list option \<times> 'i) option" where
  "read_smaps getc lz aarch64 m pagesize num_mappings i = do {
     (ch, i) \<leftarrow> getc i;
     if ch < 0 then Some (None, i)
     else read_segments getc lz aarch64 m pagesize num_mappings ch i
   }"

text \<open>The call of \<open>LeadingZeros\<close> in the loop.\<close>

definition scan_zeros :: "'w kern \<Rightarrow> int \<times> int \<Rightarrow> u64 \<Rightarrow> u64 \<Rightarrow> u64 \<Rightarrow> io \<times> 'w st \<Rightarrow> (u64 \<times> io \<times> 'w st) option" where
  "scan_zeros K lb pagesize a n = (\<lambda>(i, s). do { (z, s) \<leftarrow> LeadingZeros K lb a n pagesize s; Some (z, i, s) })"

subsection \<open>The list source\<close>

text \<open>The source that reads a list of bytes, and how the character loops run on it.\<close>

abbreviation lget :: "byte list source" where
  "lget \<equiv> \<lambda>cs. Some (next_char cs)"

lemma scan_stop: "\<not> P a ch \<Longrightarrow> scan g P f a ch i = Some ((a, ch), i)"
  by (simp add: scan.simps)

lemma scan_go: "P a ch \<Longrightarrow> scan lget P f a ch (c # cs) = scan lget P f (f a ch) (uint c) cs"
  by (simp add: scan.simps [of lget P f a ch "c # cs"])

lemma scan_end: "P a ch \<Longrightarrow> scan lget P f a ch [] = scan lget P f (f a ch) (-1) []"
  by (simp add: scan.simps [of lget P f a ch "[]"])

lemma scan_run:
  assumes "\<And>c. c \<in> set xs \<Longrightarrow> P (uint c)" "\<not> P (uint y)" "P (uint x)"
  shows "scan lget (\<lambda>_. P) f a (uint x) (xs @ y # ys) =
    Some ((foldl (\<lambda>a c. f a (uint c)) a (x # xs), uint y), ys)"
  using assms
proof (induction xs arbitrary: a x)
  case Nil
  then show ?case by (simp add: scan_go scan_stop)
next
  case (Cons z zs)
  then show ?case by (simp add: scan_go)
qed

lemma scan_run_end:
  assumes "\<And>c. c \<in> set xs \<Longrightarrow> P (uint c)" "\<not> P (-1)" "P (uint x)"
  shows "scan lget (\<lambda>_. P) f a (uint x) xs =
    Some ((foldl (\<lambda>a c. f a (uint c)) a (x # xs), -1), [])"
  using assms
proof (induction xs arbitrary: a x)
  case Nil
  then show ?case by (simp add: scan_end scan_stop)
next
  case (Cons z zs)
  then show ?case by (simp add: scan_go)
qed

text \<open>The same, for a run that may be empty, reading the first character first.\<close>

lemma scan_next:
  assumes "\<And>c. c \<in> set xs \<Longrightarrow> P (uint c)" "\<not> P (uint y)"
  shows "(do { (ch, cs) \<leftarrow> lget (xs @ y # ys); scan lget (\<lambda>_. P) f a ch cs }) =
    Some ((foldl (\<lambda>a c. f a (uint c)) a xs, uint y), ys)"
  using assms by (cases xs) (simp_all add: scan_run scan_stop)

definition hexdigit :: "nat \<Rightarrow> byte" where
  "hexdigit d = of_nat (if d < 10 then 48 + d else 87 + d)"

fun hex_nat :: "nat \<Rightarrow> nat \<Rightarrow> byte list" where
  "hex_nat 0 x = []"
| "hex_nat (Suc n) x = hex_nat n (x div 16) @ [hexdigit (x mod 16)]"

lemma uint_hexdigit: "d < 16 \<Longrightarrow> uint (hexdigit d) = (if d < 10 then 48 + int d else 87 + int d)"
  by (simp add: hexdigit_def uint_nat unat_of_nat)

lemma hex_lt16: "d < 16 \<longleftrightarrow> d \<in> {0,1,2,3,4,5,6,7,8,9,10,11,12,13,14,15}" for d :: nat
  by (simp only: insert_iff empty_iff) presburger

lemma push_or_add:
  fixes h :: u64
  assumes "d < 16"
  shows "push_bit 4 h OR of_nat d = 16 * h + of_nat d"
proof -
  have d: "bit (of_nat d :: u64) n \<Longrightarrow> n < 4" for n
  proof (rule ccontr)
    assume b: "bit (of_nat d :: u64) n" and "\<not> n < 4"
    have "take_bit 4 (of_nat d :: u64) = of_nat (take_bit 4 d)" by (simp add: take_bit_of_nat)
    also have "take_bit 4 d = d" using assms by (simp add: take_bit_nat_eq_self)
    finally have "bit (take_bit 4 (of_nat d :: u64)) n" using b by simp
    with \<open>\<not> n < 4\<close> show False by (simp add: bit_take_bit_iff)
  qed
  have "push_bit 4 h AND of_nat d = 0"
    using d by (intro bit_eqI) (force simp: bit_and_iff bit_push_bit_iff)
  then have "push_bit 4 h + of_nat d = push_bit 4 h OR of_nat d"
    by (rule disjunctive_add_eq_or)
  then show ?thesis by (simp add: push_bit_eq_mult mult.commute)
qed

lemma hex_step_digit: "d < 16 \<Longrightarrow> hex_step h (uint (hexdigit d)) = 16 * h + of_nat d"
proof -
  assume d: "d < 16"
  have "of_int (if uint (hexdigit d) < 65 then uint (hexdigit d) - 48 else (uint (hexdigit d) AND 15) + 9) = (of_nat d :: u64)"
    using d unfolding hex_lt16 by (elim insertE) (simp_all add: hexdigit_def)
  with push_or_add [OF d, of h] show ?thesis by (simp add: hex_step_def)
qed

lemma is_hex_digit: "d < 16 \<Longrightarrow> is_hex (uint (hexdigit d))"
  by (auto simp: uint_hexdigit is_hex_def)

lemma hex_nat_is_hex: "c \<in> set (hex_nat n x) \<Longrightarrow> is_hex (uint c)"
  by (induction n arbitrary: x) (auto simp: is_hex_digit)

lemma foldl_hex_nat: "foldl (\<lambda>a c. hex_step a (uint c)) 0 (hex_nat n x) = of_nat (x mod 16 ^ n)"
proof (induction n arbitrary: x)
  case 0
  then show ?case by simp
next
  case (Suc n)
  have "x mod 16 ^ Suc n = 16 * (x div 16 mod 16 ^ n) + x mod 16"
    by (simp add: mod_mult2_eq)
  then have "of_nat (x mod 16 ^ Suc n) = (16 * of_nat (x div 16 mod 16 ^ n) + of_nat (x mod 16) :: u64)"
    by (metis of_nat_add of_nat_mult of_nat_numeral)
  with Suc show ?case by (simp add: hex_step_digit)
qed

subsection \<open>The parsers on a file and on a list\<close>

text \<open>
  \<open>reads ok rest p q i\<close>: from the state \<open>i\<close>, the parser \<open>p\<close> returns, with the result that \<open>q\<close>
  computes on the list of the bytes that are left, and leaves what \<open>q\<close> leaves. It is
  closed under sequencing and case analysis, and holds of every parser of this theory
  over every source that meets the contract \<open>char_source\<close>.
\<close>

definition reads :: "('i \<Rightarrow> bool) \<Rightarrow> ('i \<Rightarrow> byte list) \<Rightarrow> ('i \<Rightarrow> ('r \<times> 'i) option) \<Rightarrow>
    (byte list \<Rightarrow> ('r \<times> byte list) option) \<Rightarrow> 'i \<Rightarrow> bool" where
  "reads ok rest p q i \<longleftrightarrow> (ok i \<longrightarrow> (\<exists>r i'. p i = Some (r, i') \<and> q (rest i) = Some (r, rest i') \<and> ok i'
     \<and> length (rest i') \<le> length (rest i)))"

lemma reads_return: "reads ok rest (\<lambda>i. Some (r, i)) (\<lambda>cs. Some (r, cs)) i"
  by (simp add: reads_def)

lemma reads_bind:
  assumes "reads ok rest p q i"
    and "\<And>r i'. ok i' \<Longrightarrow> length (rest i') \<le> length (rest i) \<Longrightarrow> reads ok rest (k r) (k' r) i'"
  shows "reads ok rest (\<lambda>i. Option.bind (p i) (\<lambda>(r, i). k r i)) (\<lambda>cs. Option.bind (q cs) (\<lambda>(r, cs). k' r cs)) i"
  using assms unfolding reads_def by (fastforce intro: le_trans)

lemma reads_if:
  assumes "b \<Longrightarrow> reads ok rest p q i" "\<not> b \<Longrightarrow> reads ok rest p' q' i"
  shows "reads ok rest (\<lambda>i. if b then p i else p' i) (\<lambda>cs. if b then q cs else q' cs) i"
  using assms by (cases b) simp_all

lemma reads_option:
  assumes "r = None \<Longrightarrow> reads ok rest p q i" "\<And>x. r = Some x \<Longrightarrow> reads ok rest (p' x) (q' x) i"
  shows "reads ok rest (\<lambda>i. case r of None \<Rightarrow> p i | Some x \<Rightarrow> p' x i) (\<lambda>cs. case r of None \<Rightarrow> q cs | Some x \<Rightarrow> q' x cs) i"
  using assms by (cases r) simp_all

lemma reads_prod:
  assumes "\<And>x y. r = (x, y) \<Longrightarrow> reads ok rest (p x y) (q x y) i"
  shows "reads ok rest (\<lambda>i. case r of (x, y) \<Rightarrow> p x y i) (\<lambda>cs. case r of (x, y) \<Rightarrow> q x y cs) i"
  using assms by (cases r) simp_all

lemma reads_pair:
  assumes "\<And>x y. r = (x, y) \<Longrightarrow> reads ok rest (p x y) (q x y) i"
  shows "reads ok rest ((case r of (x, y) \<Rightarrow> p x y)) ((case r of (x, y) \<Rightarrow> q x y)) i"
  using assms by (cases r) simp_all

lemmas reads_rules = reads_return reads_bind reads_if reads_option reads_prod reads_pair

context char_source
begin

lemma reads_getc [intro]: "reads ok rest getc lget i"
  using getc_next [of i] by (cases "rest i") (auto simp: reads_def)

lemma getc_at_end: "ok i \<Longrightarrow> rest i = [] \<Longrightarrow> \<exists>i'. getc i = Some (-1, i') \<and> ok i' \<and> rest i' = []"
  using getc_next by fastforce

lemma getc_inside: "ok i \<Longrightarrow> rest i = c # cs \<Longrightarrow> \<exists>i'. getc i = Some (uint c, i') \<and> ok i' \<and> rest i' = cs"
  using getc_next by fastforce

lemma reads_getc_then:
  assumes "\<And>i' ch. length (rest i') < length (rest i) \<Longrightarrow> reads ok rest (p ch) (q ch) i'"
    and "\<And>i'. reads ok rest (p (-1)) (q (-1)) i'"
  shows "reads ok rest (\<lambda>i. do { (ch, i) \<leftarrow> getc i; p ch i }) (\<lambda>i. do { (ch, i) \<leftarrow> lget i; q ch i }) i"
proof (cases "ok i")
  case True
  show ?thesis
  proof (cases "rest i")
    case Nil
    with True obtain i' where "getc i = Some (-1, i')" "ok i'" "rest i' = []" using getc_at_end by blast
    with Nil assms(2) [of i'] show ?thesis by (simp add: reads_def)
  next
    case (Cons c cs)
    with True obtain i' where "getc i = Some (uint c, i')" "ok i'" "rest i' = cs" using getc_inside by blast
    with Cons assms(1) [of i' "uint c"] show ?thesis by (fastforce simp: reads_def)
  qed
qed (simp add: reads_def)

lemma reads_scan:
  assumes "\<And>a. \<not> P a (-1)"
  shows "reads ok rest (scan getc P f a ch) (scan lget P f a ch) i"
proof (induction "length (rest i)" arbitrary: i a ch)
  case 0
  show ?case
  proof (cases "ok i \<and> P a ch")
    case True
    with 0 obtain i' where "getc i = Some (-1, i')" "ok i'" "rest i' = []" using getc_at_end by auto
    with True 0 assms show ?thesis
      by (simp add: reads_def scan.simps [of _ P f a ch] scan_stop)
  qed (auto simp: reads_def scan_stop)
next
  case (Suc n)
  show ?case
  proof (cases "ok i \<and> P a ch")
    case True
    from Suc(2) obtain c cs where c: "rest i = c # cs" by (cases "rest i") auto
    with True obtain i' where i': "getc i = Some (uint c, i')" "ok i'" "rest i' = cs" using getc_inside by blast
    with c Suc(2) Suc(1) [of i' "f a ch" "uint c"] True show ?thesis
      by (auto simp: reads_def scan.simps [of _ P f a ch])
  qed (auto simp: reads_def scan_stop)
qed

lemma reads_skip_while [intro]:
  assumes "\<not> P (-1)"
  shows "reads ok rest (skip_while getc P ch) (skip_while lget P ch) i"
  unfolding skip_while_def by (intro reads_rules reads_scan) (use assms in auto)

lemma reads_GetHex:
  "reads ok rest (GetHex getc) (GetHex lget) i"
  "reads ok rest (GetHexWithInitChar getc ch) (GetHexWithInitChar lget ch) i"
  unfolding GetHex_def GetHexWithInitChar_def GetHexHelper_def
  by (intro reads_rules reads_scan reads_getc; simp add: is_hex_def)+

lemma reads_skip_field: "reads ok rest (skip_field getc ch) (skip_field lget ch) i"
  unfolding skip_field_def by (intro reads_rules reads_skip_while) simp_all

lemma reads_read_name: "reads ok rest (read_name getc ch) (read_name lget ch) i"
  unfolding read_name_def by (intro reads_rules reads_scan) simp_all

lemma reads_read_header: "reads ok rest (read_header getc ch) (read_header lget ch) i"
  unfolding read_header_def
  by (intro reads_rules reads_GetHex reads_scan reads_skip_field reads_read_name reads_getc) simp

lemma reads_match_literal: "reads ok rest (match_literal getc l ch) (match_literal lget l ch) i"
  unfolding match_literal_def by (intro reads_scan) (metis uint_nonnegative neg_0_le_iff_le not_one_le_zero)

lemma reads_read_anonymous: "reads ok rest (read_anonymous getc anon ch) (read_anonymous lget anon ch) i"
  unfolding read_anonymous_def by (intro reads_rules reads_skip_while reads_match_literal) simp

lemma reads_read_flag: "reads ok rest (read_flag getc aarch64 ch) (read_flag lget aarch64 ch) i"
  unfolding read_flag_def by (intro reads_rules reads_getc reads_skip_while) simp

lemma reads_read_flags: "reads ok rest (read_flags getc aarch64 ch) (read_flags lget aarch64 ch) i"
proof (induction "length (rest i)" arbitrary: i ch rule: less_induct)
  case less
  show ?case
  proof (cases "ch = 32 \<and> ok i")
    case False
    then show ?thesis by (auto simp: reads_def read_flags.simps)
  next
    case True
    let ?p = "\<lambda>g ch i. do { (ch, i) \<leftarrow> skip_while g (\<lambda>ch. ch = SPACE) ch i;
       ((dd, ch), i) \<leftarrow> read_flag g aarch64 ch i;
       if dd then Some ((True, ch), i) else read_flags g aarch64 ch i }"
    have step: "?p g 32 i = do { (ch, i) \<leftarrow> g i; ?p g ch i }" for g :: "'x source" and i
      by (cases "g i") (simp_all add: skip_while_def scan.simps [of _ _ _ _ 32] split: prod.splits)
    have "reads ok rest (?p getc ch') (?p lget ch') i'" if "length (rest i') < length (rest i)" for i' ch'
      using that by (intro reads_rules reads_skip_while reads_read_flag less) simp_all
    moreover have "reads ok rest (?p getc (-1)) (?p lget (-1)) i'" for i'
      by (auto simp: reads_def skip_while_def scan_stop read_flag_def read_flags.simps)
    ultimately have "reads ok rest (\<lambda>i. do { (ch, i) \<leftarrow> getc i; ?p getc ch i }) (\<lambda>i. do { (ch, i) \<leftarrow> lget i; ?p lget ch i }) i"
      by (rule reads_getc_then)
    then have "reads ok rest (?p getc 32) (?p lget 32) i"
      by (simp only: step)
    then show ?thesis using True by (simp add: reads_def read_flags.simps [of _ aarch64 32])
  qed
qed

lemma reads_read_line: "reads ok rest (read_line getc a d an ch) (read_line lget a d an ch) i"
  unfolding read_line_def read_vmflags_def
  by (intro reads_rules reads_skip_while reads_read_flags reads_match_literal reads_read_anonymous) simp

lemma reads_read_details:
  "reads ok rest (read_details getc a dev d an) (read_details lget a dev d an) i"
proof (induction "length (rest i)" arbitrary: i d an rule: less_induct)
  case less
  let ?p = "\<lambda>g ch i. if ch < 1 \<or> (48 \<le> ch \<and> ch \<le> 57) \<or> (97 \<le> ch \<and> ch \<le> 102)
     then Some (Some (d, an, ch), i)
     else if dev \<or> d then read_details g a dev d an i
     else do {
       (r, i) \<leftarrow> read_line g a d an ch i;
       case r of None \<Rightarrow> Some (None, i) | Some (d, an) \<Rightarrow> read_details g a dev d an i }"
  have eq: "read_details g a dev d an = (\<lambda>i. do { (ch, i) \<leftarrow> g i; ?p g ch i })" for g :: "'x source"
    by (rule ext) (rule read_details.simps)
  have inside: "reads ok rest (?p getc ch) (?p lget ch) i'" if "length (rest i') < length (rest i)" for i' ch
    using that by (intro reads_rules reads_read_line less) simp_all
  show ?case
    by (subst eq [of getc], subst eq [of lget], rule reads_getc_then) (rule inside, simp_all add: reads_def)
qed

lemma reads_read_segment:
  assumes "\<And>a n i. reads ok rest (lz a n) (lz' a n) i"
  shows "reads ok rest (read_segment getc lz arch m pg ch) (read_segment lget lz' arch m pg ch) i"
  unfolding read_segment_def Let_def
  by (intro reads_rules reads_read_header reads_read_details assms)

lemma reads_read_segments:
  assumes "\<And>a n i. reads ok rest (lz a n) (lz' a n) i"
  shows "reads ok rest (read_segments getc lz arch m pg n ch) (read_segments lget lz' arch m pg n ch) i"
proof (induction n arbitrary: ch i)
  case (Suc n)
  show ?case unfolding read_segments.simps
    by (intro reads_rules reads_read_segment assms Suc)
qed (simp add: reads_def)

lemma reads_read_smaps:
  assumes "\<And>a n i. reads ok rest (lz a n) (lz' a n) i"
  shows "reads ok rest (read_smaps getc lz arch m pg n) (read_smaps lget lz' arch m pg n) i"
  unfolding read_smaps_def
  by (intro reads_rules reads_getc reads_read_segments assms)

end

subsection \<open>Scanning for zero pages\<close>

text \<open>
  What the loop-back pipe is relied on for: a write of one page into the empty pipe is
  refused, if the page cannot be read, or taken as a whole (\<open>pipe(7)\<close>: writes of up to
  \<open>PIPE_BUF\<close> bytes are atomic), and reading the page back empties the pipe. \<open>keep\<close> is
  something the pipe has no influence on, such as the position in another file.
\<close>

definition loopback_ok :: "'w kern \<Rightarrow> memory \<Rightarrow> (u64 \<Rightarrow> bool) \<Rightarrow> int \<times> int \<Rightarrow> nat \<Rightarrow>
    ('w \<Rightarrow> byte list) \<Rightarrow> ('w \<Rightarrow> 'k) \<Rightarrow> bool" where
  "loopback_ok K m readable lb P pipe keep \<longleftrightarrow>
     (\<forall>a w r w'. pipe w = [] \<longrightarrow> K (NR_write (snd lb) (Mem a P)) w = (r, w') \<longrightarrow> keep w' = keep w \<and>
        (sint (kret r) = - EINTR \<and> pipe w' = [] \<or>
         - 4095 \<le> sint (kret r) \<and> sint (kret r) < 0 \<and> \<not> readable a \<and> pipe w' = [] \<or>
         sint (kret r) = int P \<and> readable a \<and> pipe w' = mem_bytes m a P)) \<and>
     (\<forall>w r w'. length (pipe w) = P \<longrightarrow> K (NR_read (fst lb) P) w = (r, w') \<longrightarrow> keep w' = keep w \<and>
        (sint (kret r) = - EINTR \<and> pipe w' = pipe w \<or>
         sint (kret r) = int P \<and> kbytes r = pipe w \<and> pipe w' = []))"

lemma loopback_write:
  assumes ok: "loopback_ok K m readable lb P pipe keep" and q: "intr_bounded K q" and P: "P > 0"
    and empty: "pipe (world s) = []"
  shows "\<exists>rc s'. c_write K (snd lb) (Mem a P) s = Some (rc, s') \<and> keep (world s') = keep (world s) \<and>
     (rc < 0 \<and> \<not> readable a \<and> pipe (world s') = [] \<or> rc = int P \<and> readable a \<and> pipe (world s') = mem_bytes m a P)"
proof -
  from ok have w: "keep w' = keep w \<and> (sint (kret r) = - EINTR \<and> pipe w' = [] \<or>
         - 4095 \<le> sint (kret r) \<and> sint (kret r) < 0 \<and> \<not> readable a \<and> pipe w' = [] \<or>
         sint (kret r) = int P \<and> readable a \<and> pipe w' = mem_bytes m a P)"
    if "pipe w = []" "K (NR_write (snd lb) (Mem a P)) w = (r, w')" for w r w'
    using that unfolding loopback_ok_def by blast
  obtain rc r e s' v where c: "MY_NO_INTR (sys0_long K (NR_write (snd lb) (Mem a P)) 0) s = Some ((rc, r, e), s')"
     "pipe v = [] \<and> keep v = keep (world s)" "K (NR_write (snd lb) (Mem a P)) v = (r, world s')"
     "sint (kret r) \<noteq> - EINTR" "(rc, e) = LSS_RETURN (kret r) 0"
    using MY_NO_INTR_call [OF q, of "\<lambda>w. pipe w = [] \<and> keep w = keep (world s)" s "NR_write (snd lb) (Mem a P)"] empty w
    by fastforce
  have "rc = sint (kret r) \<and> rc \<ge> 0 \<or> rc < 0 \<and> sint (kret r) < 0"
    using c(5) w [OF _ c(3)] c(2,4) by (auto simp: LSS_RETURN_def LSS_error_range split: if_splits)
  then show ?thesis
    using c w [OF _ c(3)] P
    by (auto simp: c_write_def c_write_loop.simps [of K "snd lb" "Mem a P"] c_write_loop.simps [of K "snd lb" "Mem (a + _) 0"])
qed

lemma loopback_read:
  assumes ok: "loopback_ok K m readable lb P pipe keep" and q: "intr_bounded K q" and P: "P > 0"
    and full: "length (pipe (world s)) = P"
  shows "\<exists>s'. c_read K (fst lb) P s = Some ((int P, pipe (world s)), s') \<and> keep (world s') = keep (world s) \<and> pipe (world s') = []"
proof -
  from ok have w: "keep w' = keep w \<and> (sint (kret r) = - EINTR \<and> pipe w' = pipe w \<or>
         sint (kret r) = int P \<and> kbytes r = pipe w \<and> pipe w' = [])"
    if "length (pipe w) = P" "K (NR_read (fst lb) P) w = (r, w')" for w r w'
    using that unfolding loopback_ok_def by blast
  have k: "pipe w' = pipe (world s) \<and> keep w' = keep (world s)"
    if "pipe w = pipe (world s) \<and> keep w = keep (world s)" "K (NR_read (fst lb) P) w = (r, w')" "sint (kret r) = - EINTR"
    for w r w' using w [of w r w'] that full by simp
  obtain rc r e s' v where c: "MY_NO_INTR (sys0_long K (NR_read (fst lb) P) 0) s = Some ((rc, r, e), s')"
     "pipe v = pipe (world s) \<and> keep v = keep (world s)" "K (NR_read (fst lb) P) v = (r, world s')"
     "sint (kret r) \<noteq> - EINTR" "(rc, e) = LSS_RETURN (kret r) 0"
    using MY_NO_INTR_call [OF q, of "\<lambda>w. pipe w = pipe (world s) \<and> keep w = keep (world s)" s "NR_read (fst lb) P"] k
    by blast
  have r: "sint (kret r) = int P" "kbytes r = pipe (world s)" "pipe (world s') = []" "keep (world s') = keep (world s)"
    using w [OF _ c(3)] c(2,4) full by auto
  then have "rc = int P" using c(5) by (auto simp: LSS_RETURN_def LSS_error_range split: if_splits)
  with r c(1) P full show ?thesis by (simp add: c_read_def stored_exact)
qed


text \<open>
  The reference: the number of pages at the start of a region that cannot be read or
  hold zeros only.
\<close>

definition zero_page :: "memory \<Rightarrow> (u64 \<Rightarrow> bool) \<Rightarrow> nat \<Rightarrow> u64 \<Rightarrow> bool" where
  "zero_page m readable P a \<longleftrightarrow> \<not> readable a \<or> (\<forall>b \<in> set (mem_bytes m a P). b = 0)"

fun zero_pages :: "memory \<Rightarrow> (u64 \<Rightarrow> bool) \<Rightarrow> nat \<Rightarrow> u64 \<Rightarrow> nat \<Rightarrow> nat" where
  "zero_pages m readable P a 0 = 0"
| "zero_pages m readable P a (Suc n) =
     (if zero_page m readable P a then Suc (zero_pages m readable P (a + of_nat P) n) else 0)"

lemma zero_pages_le: "zero_pages m readable P a n \<le> n"
  by (induction n arbitrary: a) auto

lemma LeadingZeros_rest:
  assumes len: "length buf = P" and P: "unat pg = P" "P > 0" and r: "0 < r" "r \<le> P"
    and fit: "unat len = n * P" "j < n"
  shows "if \<forall>i. r \<le> i \<and> i < P \<longrightarrow> buf ! i = 0
     then LeadingZeros_loop K lb a len pg buf (of_nat (j * P + r)) s =
          LeadingZeros_loop K lb a len pg buf (of_nat (Suc j * P)) s
     else \<exists>i < P. LeadingZeros_loop K lb a len pg buf (of_nat (j * P + r)) s = Some (of_nat (j * P + i), s)"
  using r
proof (induction "P - r" arbitrary: r)
  case 0
  then have "j * P + r = Suc j * P" "\<forall>i. r \<le> i \<and> i < P \<longrightarrow> buf ! i = 0" by auto
  then show ?case by metis
next
  case (Suc k)
  then have r: "0 < r" "r < P" by auto
  have "Suc j * P \<le> n * P" using fit(2) by (intro mult_right_mono) auto
  then have lt: "j * P + r < n * P" using r by simp
  moreover have "n * P < 2 ^ 64" using fit(1) unsigned_less [of len, where 'a = nat] by simp
  ultimately have u: "unat (of_nat (j * P + r) :: u64) = j * P + r" by (intro unat_of_nat_u64) linarith
  have c: "(of_nat (j * P + r) :: u64) < len" using lt fit u by (simp add: word_less_nat_alt)
  have m: "unat ((of_nat (j * P + r) :: u64) mod pg) = r"
    using u P r by (simp only: unat_mod) simp
  have nz: "(of_nat (j * P + r) :: u64) mod pg \<noteq> 0" using m r(1) by (metis less_irrefl unat_0)
  have step: "LeadingZeros_loop K lb a len pg buf (of_nat (j * P + r)) s =
     (if buf ! r \<noteq> 0 then Some (of_nat (j * P + r), s)
      else LeadingZeros_loop K lb a len pg buf (of_nat (j * P + Suc r)) s)"
    using c nz m by (subst LeadingZeros_loop.simps) (simp add: add.commute add.left_commute)
  show ?case
  proof (cases "buf ! r = 0")
    case True
    have "(\<forall>i. Suc r \<le> i \<and> i < P \<longrightarrow> buf ! i = 0) \<longleftrightarrow> (\<forall>i. r \<le> i \<and> i < P \<longrightarrow> buf ! i = 0)"
      using True by (metis Suc_leD le_eq_less_or_eq Suc_leI)
    moreover have "LeadingZeros_loop K lb a len pg buf (of_nat (j * P + r)) s =
      LeadingZeros_loop K lb a len pg buf (of_nat (j * P + Suc r)) s"
      by (simp only: step True simp_thms if_False)
    moreover have "k = P - Suc r" "0 < Suc r" "Suc r \<le> P" using Suc.hyps(2) r by auto
    note Suc.hyps(1) [OF this]
    ultimately show ?thesis by (simp only:)
  next
    case False
    then show ?thesis using step r by (metis le_refl)
  qed
qed


lemma LeadingZeros_page:
  assumes ok: "loopback_ok K m readable lb P pipe keep" and q: "intr_bounded K q"
    and len: "length buf = P" and P: "unat pg = P" "P > 0"
    and fit: "unat len = n * P" "j < n" and empty: "pipe (world s) = []"
  shows "\<exists>buf' s'. length buf' = P \<and> keep (world s') = keep (world s) \<and> pipe (world s') = [] \<and>
     (if zero_page m readable P (a + of_nat (j * P))
      then LeadingZeros_loop K lb a len pg buf (of_nat (j * P)) s =
           LeadingZeros_loop K lb a len pg buf' (of_nat (Suc j * P)) s'
      else \<exists>i < P. LeadingZeros_loop K lb a len pg buf (of_nat (j * P)) s = Some (of_nat (j * P + i), s'))"
proof -
  let ?a = "a + of_nat (j * P)" and ?c = "of_nat (j * P) :: u64"
  have "Suc j * P \<le> n * P" using fit(2) by (intro mult_right_mono) auto
  then have lt: "j * P < n * P" using P fit(2) by simp
  moreover have "n * P < 2 ^ 64" using fit(1) unsigned_less [of len, where 'a = nat] by simp
  ultimately have u: "unat ?c = j * P" by (intro unat_of_nat_u64) linarith
  have c: "?c < len" using lt fit u by (simp add: word_less_nat_alt)
  have "unat (?c mod pg) = 0" using u P by (simp only: unat_mod) simp
  then have z: "?c mod pg = 0" by (simp add: unat_eq_0)
  have next_page: "?c + pg = of_nat (Suc j * P)"
    by (simp flip: P(1) add: add.commute)
  obtain rc s1 where w: "c_write K (snd lb) (Mem ?a P) s = Some (rc, s1)" "keep (world s1) = keep (world s)"
     "rc < 0 \<and> \<not> readable ?a \<and> pipe (world s1) = [] \<or> rc = int P \<and> readable ?a \<and> pipe (world s1) = mem_bytes m ?a P"
    using loopback_write [OF ok q P(2) empty] by blast
  show ?thesis
  proof (cases "readable ?a")
    case False
    then have "LeadingZeros_loop K lb a len pg buf ?c s = LeadingZeros_loop K lb a len pg buf (of_nat (Suc j * P)) s1"
      using c z w P next_page by (subst LeadingZeros_loop.simps) (simp add: add.commute)
    then show ?thesis using False w len by (auto simp: zero_page_def)
  next
    case True
    then have p1: "pipe (world s1) = mem_bytes m ?a P" and rc: "rc = int P" using w(3) by auto
    let ?b = "mem_bytes m ?a P"
    obtain s2 where rd: "c_read K (fst lb) P s1 = Some ((int P, ?b), s2)" "keep (world s2) = keep (world s1)" "pipe (world s2) = []"
      using loopback_read [OF ok q P(2), of s1] p1 by auto
    have step: "LeadingZeros_loop K lb a len pg buf ?c s =
       (if ?b ! 0 \<noteq> 0 then Some (?c, s2) else LeadingZeros_loop K lb a len pg ?b (?c + 1) s2)"
      using c z w rc rd P len by (subst LeadingZeros_loop.simps) simp
    have zp: "zero_page m readable P ?a \<longleftrightarrow> ?b ! 0 = 0 \<and> (\<forall>i. 1 \<le> i \<and> i < P \<longrightarrow> ?b ! i = 0)"
      using True P(2) unfolding zero_page_def all_set_conv_all_nth length_mem_bytes
      by (metis One_nat_def Suc_leI not_gr_zero)
    have c1: "?c + 1 = of_nat (j * P + 1)" by simp
    have rest: "if \<forall>i. 1 \<le> i \<and> i < P \<longrightarrow> ?b ! i = 0
     then LeadingZeros_loop K lb a len pg ?b (?c + 1) s2 = LeadingZeros_loop K lb a len pg ?b (of_nat (Suc j * P)) s2
     else \<exists>i < P. LeadingZeros_loop K lb a len pg ?b (?c + 1) s2 = Some (of_nat (j * P + i), s2)"
      unfolding c1 by (rule LeadingZeros_rest) (use P fit in auto)
    show ?thesis
    proof (cases "?b ! 0 = 0")
      case True
      then have L: "LeadingZeros_loop K lb a len pg ?b (?c + 1) s2 = LeadingZeros_loop K lb a len pg buf ?c s"
        using step by (simp only: simp_thms if_False)
      have "keep (world s2) = keep (world s)" using rd(2) w(2) by (simp only:)
      with True show ?thesis using rest rd(3) unfolding zp L
        by (intro exI [of _ ?b] exI [of _ s2]) (simp only: simp_thms length_mem_bytes)
    next
      case False
      then show ?thesis using step zp rd w P
        by (intro exI [of _ ?b] exI [of _ s2]) auto
    qed
  qed
qed

lemma LeadingZeros_loop_pages:
  assumes ok: "loopback_ok K m readable lb P pipe keep" and q: "intr_bounded K q"
    and P: "unat pg = P" "P > 0" and fit: "unat len = n * P"
  shows "length buf = P \<Longrightarrow> pipe (world s) = [] \<Longrightarrow> j \<le> n \<Longrightarrow>
    \<exists>i < P. \<exists>s'. LeadingZeros_loop K lb a len pg buf (of_nat (j * P)) s =
       Some (of_nat ((j + zero_pages m readable P (a + of_nat (j * P)) (n - j)) * P + i), s') \<and>
       keep (world s') = keep (world s) \<and> pipe (world s') = [] \<and>
       (j + zero_pages m readable P (a + of_nat (j * P)) (n - j)) * P + i \<le> unat len"
proof (induction "n - j" arbitrary: j buf s)
  case 0
  then have "j = n" by simp
  have "\<not> (of_nat (n * P) :: u64) < len" using fit by (simp flip: fit)
  then show ?case using 0 P \<open>j = n\<close> fit
    by (intro exI [of _ 0]) (subst LeadingZeros_loop.simps, simp)
next
  case (Suc k)
  then have j: "j < n" by simp
  from LeadingZeros_page [OF ok q Suc.prems(1) P fit j Suc.prems(2), of a]
  obtain buf' s' where pg: "length buf' = P" "keep (world s') = keep (world s)" "pipe (world s') = []"
    and step: "if zero_page m readable P (a + of_nat (j * P))
      then LeadingZeros_loop K lb a len pg buf (of_nat (j * P)) s =
           LeadingZeros_loop K lb a len pg buf' (of_nat (Suc j * P)) s'
      else \<exists>i < P. LeadingZeros_loop K lb a len pg buf (of_nat (j * P)) s = Some (of_nat (j * P + i), s')"
    by blast
  have nj: "n - j = Suc (n - Suc j)" using j by simp
  have addr: "a + of_nat (Suc j * P) = a + of_nat (j * P) + of_nat P" by (simp add: algebra_simps)
  show ?case
  proof (cases "zero_page m readable P (a + of_nat (j * P))")
    case True
    have "Suc j + z = j + Suc z" for z by simp
    with True step Suc.hyps(1) [of "Suc j" buf' s'] Suc.hyps(2) pg j show ?thesis
      unfolding nj zero_pages.simps addr by simp
  next
    case False
    have "j * P + i \<le> unat len" if "i < P" for i
    proof -
      have "Suc j * P \<le> n * P" using j by (intro mult_right_mono) auto
      then show ?thesis using that fit by simp
    qed
    with False step pg show ?thesis unfolding nj zero_pages.simps by auto
  qed
qed

lemma word_round_down:
  fixes w :: u64
  assumes "k < 64" "unat w = x * 2 ^ k + i" "i < 2 ^ k"
  shows "w AND NOT (2 ^ k - 1) = of_nat (x * 2 ^ k)"
proof -
  have "w AND NOT (2 ^ k - 1) = w AND NOT (mask k)" by (simp add: mask_eq_exp_minus_1)
  also have "\<dots> = push_bit k (drop_bit k w)"
    by (rule bit_eqI) (auto simp: bit_and_iff bit_not_iff bit_mask_iff bit_push_bit_iff bit_drop_bit_eq bit_imp_le_length)
  also have "drop_bit k w = of_nat (unat (drop_bit k w))" by simp
  also have "unat (drop_bit k w) = x"
    using assms(2,3) unat_drop_bit_eq [of k w] by (simp add: drop_bit_eq_div [where 'a = nat] del: unsigned_drop_bit_eq)
  finally show ?thesis by (simp add: push_bit_eq_mult)
qed


lemma LeadingZeros_pages:
  assumes ok: "loopback_ok K m readable lb (2 ^ k) pipe keep" and q: "intr_bounded K q"
    and k: "k < 64" and fit: "unat len = n * 2 ^ k" and empty: "pipe (world s) = []"
  shows "\<exists>s'. LeadingZeros K lb a len (2 ^ k) s = Some (of_nat (zero_pages m readable (2 ^ k) a n * 2 ^ k), s')
     \<and> keep (world s') = keep (world s) \<and> pipe (world s') = []"
proof -
  have P: "unat (2 ^ k :: u64) = 2 ^ k" using k unat_of_nat_u64 [of "2 ^ k"] power_strict_increasing [of k 64 "2::nat"] by simp
  let ?z = "zero_pages m readable (2 ^ k) a n"
  from LeadingZeros_loop_pages [OF ok q P _ fit, of "replicate (unat (2 ^ k :: u64)) 0" s 0 a] empty P
  obtain i s' where i: "i < 2 ^ k" "?z * 2 ^ k + i \<le> unat len" and
    l: "LeadingZeros_loop K lb a len (2 ^ k) (replicate (unat (2 ^ k :: u64)) 0) 0 s = Some (of_nat (?z * 2 ^ k + i), s')"
    and s': "keep (world s') = keep (world s)" "pipe (world s') = []"
    by auto
  have "unat (of_nat (?z * 2 ^ k + i) :: u64) = ?z * 2 ^ k + i"
    using i(2) unsigned_less [of len, where 'a = nat] by (intro unat_of_nat_u64) simp
  from word_round_down [OF k this i(1)] l s' show ?thesis
    by (simp add: LeadingZeros_def)
qed

end
