(* ===== verification/Elf_Layout.thy ===== *)
theory Elf_Layout
  imports Corus_Prelude
begin

text \<open>
  The data structures of the core file: ELF header, program header, note header and
  auxiliary vector entry (\<open>elf.h\<close>, 64-bit), and the process and thread status structures
  that \<open>coredumper/elfcore.c\<close> declares. Each has its bytes in memory (\<open>enc_...\<close>), which is
  what the program passes to a writer, with the padding of the C ABI; the headers also
  have a reader (\<open>dec_...\<close>), the view of a debugger.

  The locale \<open>codec\<close> is the contract of a fixed-size encoding; the facts on tables of
  records are proved in it once and used through its interpretations.
\<close>

subsection \<open>Architectures\<close>

datatype arch = X86_64 | AARCH64

fun nregs :: "arch \<Rightarrow> nat" where
  "nregs X86_64 = 27"
| "nregs AARCH64 = 34"

text \<open>
  General purpose registers: all fields of \<open>struct i386_regs\<close> (x86\_64) and of
  \<open>struct arm64_regs\<close> are 64-bit words; they are kept in the order of the structure.
\<close>

type_synonym regs = "u64 list"

definition regs_ok :: "arch \<Rightarrow> regs \<Rightarrow> bool" where
  "regs_ok a r \<longleftrightarrow> length r = nregs a"

definition enc_regs :: "regs \<Rightarrow> byte list" where
  "enc_regs r = concat (map le64 r)"

text \<open>The floating point registers are stored by the kernel and passed on as they are.\<close>

fun sizeof_fpregs :: "arch \<Rightarrow> nat" where
  "sizeof_fpregs X86_64 = 512"
| "sizeof_fpregs AARCH64 = 528"

fun sizeof_core_user :: "arch \<Rightarrow> nat" where
  "sizeof_core_user X86_64 = 928"
| "sizeof_core_user AARCH64 = 992"

fun ELF_ARCH :: "arch \<Rightarrow> u16" where
  "ELF_ARCH X86_64 = 62"
| "ELF_ARCH AARCH64 = 183"

lemma length_concat_le64 [simp]: "length (concat (map le64 ws)) = 8 * length ws"
  by (induction ws) simp_all

subsection \<open>ELF header, program header, note header\<close>

record Ehdr =
  e_ident     :: "byte list"
  e_type      :: u16
  e_machine   :: u16
  e_version   :: u32
  e_entry     :: u64
  e_phoff     :: u64
  e_shoff     :: u64
  e_flags     :: u32
  e_ehsize    :: u16
  e_phentsize :: u16
  e_phnum     :: u16
  e_shentsize :: u16
  e_shnum     :: u16
  e_shstrndx  :: u16

record Phdr =
  p_type   :: u32
  p_flags  :: u32
  p_offset :: u64
  p_vaddr  :: u64
  p_paddr  :: u64
  p_filesz :: u64
  p_memsz  :: u64
  p_align  :: u64

record Nhdr =
  n_namesz :: u32
  n_descsz :: u32
  n_type   :: u32

record auxv_t =
  a_type :: u64
  a_val  :: u64

abbreviation (input) "sizeof_Ehdr \<equiv> 64"
abbreviation (input) "sizeof_Phdr \<equiv> 56"
abbreviation (input) "sizeof_Shdr \<equiv> 64"
abbreviation (input) "sizeof_Nhdr \<equiv> 12"
abbreviation (input) "sizeof_auxv_t \<equiv> 16"

definition enc_Ehdr :: "Ehdr \<Rightarrow> byte list" where
  "enc_Ehdr e = e_ident e @ le16 (e_type e) @ le16 (e_machine e) @ le32 (e_version e) @
     le64 (e_entry e) @ le64 (e_phoff e) @ le64 (e_shoff e) @ le32 (e_flags e) @
     le16 (e_ehsize e) @ le16 (e_phentsize e) @ le16 (e_phnum e) @
     le16 (e_shentsize e) @ le16 (e_shnum e) @ le16 (e_shstrndx e)"

definition dec_Ehdr :: "byte list \<Rightarrow> Ehdr" where
  "dec_Ehdr b = \<lparr>e_ident = file_slice 0 16 b, e_type = of_le16 (file_slice 16 2 b),
     e_machine = of_le16 (file_slice 18 2 b), e_version = of_le32 (file_slice 20 4 b),
     e_entry = of_le64 (file_slice 24 8 b), e_phoff = of_le64 (file_slice 32 8 b),
     e_shoff = of_le64 (file_slice 40 8 b), e_flags = of_le32 (file_slice 48 4 b),
     e_ehsize = of_le16 (file_slice 52 2 b), e_phentsize = of_le16 (file_slice 54 2 b),
     e_phnum = of_le16 (file_slice 56 2 b), e_shentsize = of_le16 (file_slice 58 2 b),
     e_shnum = of_le16 (file_slice 60 2 b), e_shstrndx = of_le16 (file_slice 62 2 b)\<rparr>"

definition enc_Phdr :: "Phdr \<Rightarrow> byte list" where
  "enc_Phdr p = le32 (p_type p) @ le32 (p_flags p) @ le64 (p_offset p) @ le64 (p_vaddr p) @
     le64 (p_paddr p) @ le64 (p_filesz p) @ le64 (p_memsz p) @ le64 (p_align p)"

definition dec_Phdr :: "byte list \<Rightarrow> Phdr" where
  "dec_Phdr b = \<lparr>p_type = of_le32 (file_slice 0 4 b), p_flags = of_le32 (file_slice 4 4 b),
     p_offset = of_le64 (file_slice 8 8 b), p_vaddr = of_le64 (file_slice 16 8 b),
     p_paddr = of_le64 (file_slice 24 8 b), p_filesz = of_le64 (file_slice 32 8 b),
     p_memsz = of_le64 (file_slice 40 8 b), p_align = of_le64 (file_slice 48 8 b)\<rparr>"

definition enc_Nhdr :: "Nhdr \<Rightarrow> byte list" where
  "enc_Nhdr n = le32 (n_namesz n) @ le32 (n_descsz n) @ le32 (n_type n)"

definition dec_Nhdr :: "byte list \<Rightarrow> Nhdr" where
  "dec_Nhdr b = \<lparr>n_namesz = of_le32 (file_slice 0 4 b), n_descsz = of_le32 (file_slice 4 4 b),
     n_type = of_le32 (file_slice 8 4 b)\<rparr>"

definition enc_auxv :: "auxv_t \<Rightarrow> byte list" where
  "enc_auxv a = le64 (a_type a) @ le64 (a_val a)"

definition dec_auxv :: "byte list \<Rightarrow> auxv_t" where
  "dec_auxv b = \<lparr>a_type = of_le64 (file_slice 0 8 b), a_val = of_le64 (file_slice 8 8 b)\<rparr>"

subsection \<open>Status structures\<close>

record elf_siginfo =
  si_signo :: u32
  si_code  :: u32
  si_errno :: u32

record elf_timeval =
  tv_sec  :: u64
  tv_usec :: u64

text \<open>\<open>pid_t\<close> is a C \<open>int\<close>; \<open>enc_pid\<close> is its two's complement representation.\<close>

record prstatus =
  pr_info    :: elf_siginfo
  pr_cursig  :: u16
  pr_sigpend :: u64
  pr_sighold :: u64
  pr_pid     :: int
  pr_ppid    :: int
  pr_pgrp    :: int
  pr_sid     :: int
  pr_utime   :: elf_timeval
  pr_stime   :: elf_timeval
  pr_cutime  :: elf_timeval
  pr_cstime  :: elf_timeval
  pr_reg     :: regs
  pr_fpvalid :: u32

record prpsinfo =
  ps_state  :: byte
  ps_sname  :: byte
  ps_zomb   :: byte
  ps_nice   :: byte
  ps_flag   :: u64
  ps_uid    :: u32
  ps_gid    :: u32
  ps_pid    :: int
  ps_ppid   :: int
  ps_pgrp   :: int
  ps_sid    :: int
  ps_fname  :: "byte list"
  ps_psargs :: "byte list"

definition enc_pid :: "int \<Rightarrow> byte list" where
  "enc_pid p = le32 (of_int p)"

definition enc_timeval :: "elf_timeval \<Rightarrow> byte list" where
  "enc_timeval t = le64 (tv_sec t) @ le64 (tv_usec t)"

definition enc_prstatus :: "prstatus \<Rightarrow> byte list" where
  "enc_prstatus p =
     le32 (si_signo (pr_info p)) @ le32 (si_code (pr_info p)) @ le32 (si_errno (pr_info p)) @
     le16 (pr_cursig p) @ [0, 0] @ le64 (pr_sigpend p) @ le64 (pr_sighold p) @
     enc_pid (pr_pid p) @ enc_pid (pr_ppid p) @ enc_pid (pr_pgrp p) @ enc_pid (pr_sid p) @
     enc_timeval (pr_utime p) @ enc_timeval (pr_stime p) @
     enc_timeval (pr_cutime p) @ enc_timeval (pr_cstime p) @
     enc_regs (pr_reg p) @ le32 (pr_fpvalid p) @ [0, 0, 0, 0]"

definition sizeof_prstatus :: "arch \<Rightarrow> nat" where
  "sizeof_prstatus a = 120 + 8 * nregs a"

text \<open>
  On aarch64 user and group ids have 16 bits, and the structure ends with four bytes of
  padding instead.
\<close>

definition enc_prpsinfo :: "arch \<Rightarrow> prpsinfo \<Rightarrow> byte list" where
  "enc_prpsinfo a p =
     [ps_state p, ps_sname p, ps_zomb p, ps_nice p, 0, 0, 0, 0] @ le64 (ps_flag p) @
     (case a of X86_64 \<Rightarrow> le32 (ps_uid p) @ le32 (ps_gid p)
              | AARCH64 \<Rightarrow> le16 (ucast (ps_uid p)) @ le16 (ucast (ps_gid p))) @
     enc_pid (ps_pid p) @ enc_pid (ps_ppid p) @ enc_pid (ps_pgrp p) @ enc_pid (ps_sid p) @
     ps_fname p @ ps_psargs p @ (case a of X86_64 \<Rightarrow> [] | AARCH64 \<Rightarrow> [0, 0, 0, 0])"

abbreviation (input) "sizeof_prpsinfo \<equiv> 136"

definition prpsinfo_ok :: "prpsinfo \<Rightarrow> bool" where
  "prpsinfo_ok p \<longleftrightarrow> length (ps_fname p) = 16 \<and> length (ps_psargs p) = 80"

lemma length_enc_pid [simp]: "length (enc_pid p) = 4"
  by (simp add: enc_pid_def)

lemma length_enc_timeval [simp]: "length (enc_timeval t) = 16"
  by (simp add: enc_timeval_def)

lemma length_enc_regs [simp]: "length (enc_regs r) = 8 * length r"
  by (simp add: enc_regs_def)

lemma length_enc_prstatus: "regs_ok a (pr_reg p) \<Longrightarrow> length (enc_prstatus p) = sizeof_prstatus a"
  by (simp add: enc_prstatus_def sizeof_prstatus_def regs_ok_def)

lemma length_enc_prpsinfo: "prpsinfo_ok p \<Longrightarrow> length (enc_prpsinfo a p) = sizeof_prpsinfo"
  by (cases a) (simp_all add: enc_prpsinfo_def prpsinfo_ok_def)

subsection \<open>Fixed-size encodings\<close>

definition read_table :: "(byte list \<Rightarrow> 'a) \<Rightarrow> nat \<Rightarrow> nat \<Rightarrow> byte list \<Rightarrow> 'a list" where
  "read_table dec sz n bs = map (\<lambda>i. dec (drop (i * sz) bs)) [0..<n]"

locale codec =
  fixes enc :: "'a \<Rightarrow> byte list"
    and dec :: "byte list \<Rightarrow> 'a"
    and sz :: nat
    and wf :: "'a \<Rightarrow> bool"
  assumes enc_length: "wf x \<Longrightarrow> length (enc x) = sz"
    and dec_enc: "wf x \<Longrightarrow> dec (enc x @ rest) = x"
begin

lemma length_table: "list_all wf xs \<Longrightarrow> length (concat (map enc xs)) = sz * length xs"
  by (induction xs) (simp_all add: enc_length)

lemma dec_table: "list_all wf xs \<Longrightarrow> i < length xs \<Longrightarrow> dec (drop (i * sz) (concat (map enc xs) @ rest)) = xs ! i"
proof (induction xs arbitrary: i)
  case (Cons x xs)
  then have len: "length (enc x) = sz" by (simp add: enc_length)
  show ?case
  proof (cases i)
    case 0
    then show ?thesis using Cons.prems by (simp add: dec_enc)
  next
    case (Suc j)
    then show ?thesis using Cons len by simp
  qed
qed simp

lemma read_table_enc: "list_all wf xs \<Longrightarrow> read_table dec sz (length xs) (concat (map enc xs) @ rest) = xs"
  by (rule nth_equalityI) (simp_all add: read_table_def dec_table del: drop_append)

lemma dec_single: "wf x \<Longrightarrow> dec (enc x) = x"
  using dec_enc [of x "[]"] by simp

end

interpretation ehdr: codec enc_Ehdr dec_Ehdr sizeof_Ehdr "\<lambda>e. length (e_ident e) = 16"
  by unfold_locales (simp_all add: enc_Ehdr_def dec_Ehdr_def file_slice_def)

interpretation phdr: codec enc_Phdr dec_Phdr sizeof_Phdr "\<lambda>_. True"
  by unfold_locales (simp_all add: enc_Phdr_def dec_Phdr_def file_slice_def)

interpretation nhdr: codec enc_Nhdr dec_Nhdr sizeof_Nhdr "\<lambda>_. True"
  by unfold_locales (simp_all add: enc_Nhdr_def dec_Nhdr_def file_slice_def)

interpretation auxv: codec enc_auxv dec_auxv sizeof_auxv_t "\<lambda>_. True"
  by unfold_locales (simp_all add: enc_auxv_def dec_auxv_def file_slice_def)

lemma length_enc [simp]: "length (enc_Phdr p) = 56" "length (enc_Nhdr n) = 12" "length (enc_auxv a) = 16"
  using phdr.enc_length nhdr.enc_length auxv.enc_length by auto

lemma dec_auxv_enc: "length b = 16 \<Longrightarrow> enc_auxv (dec_auxv b) = b"
  using append_take_drop_id [of 8 b] by (simp add: enc_auxv_def dec_auxv_def file_slice_def le64_of_le64)

end
