(* ===== verification/Vdso.thy ===== *)
theory Vdso
  imports Core_Io Elf_Layout
begin

text \<open>
  The auxiliary vector and the virtual shared object of \<open>coredumper/elfcore.c\<close>:
  \<open>CountAUXV\<close>, which counts the entries of \<open>/proc/self/auxv\<close> and finds the address of the
  vDSO, and \<open>SanitizeVDSO\<close>, which decides whether the headers found there may be followed.
  The vDSO is read in place, from the memory \<open>m\<close> of the dumped process.
\<close>

abbreviation (input) "AT_NULL \<equiv> (0::u64)"
abbreviation (input) "AT_SYSINFO_EHDR \<equiv> (33::u64)"
abbreviation (input) "PT_LOAD \<equiv> (1::u32)"
abbreviation (input) "PT_NOTE \<equiv> (4::u32)"
abbreviation (input) "O_RDONLY \<equiv> (0::int)"

subsection \<open>\<open>CountAUXV\<close>\<close>

text \<open>The \<open>do ... while\<close> loop: the number of entries read and the address seen so far.\<close>

partial_function (option) CountAUXV_loop ::
    "'w kern \<Rightarrow> int \<Rightarrow> nat \<Rightarrow> u64 \<Rightarrow> 'w st \<Rightarrow> ((nat \<times> u64) \<times> 'w st) option" where
  "CountAUXV_loop K fd num_auxv vdso_ehdr s = do {
     ((nread, r), s) \<leftarrow> NO_INTR (sys_read K fd sizeof_auxv_t) s;
     if nread \<noteq> sizeof_auxv_t then Some ((num_auxv, vdso_ehdr), s)
     else
       let auxv = dec_auxv (stored nread (kbytes r));
           vdso_ehdr = (if a_type auxv = AT_SYSINFO_EHDR then a_val auxv else vdso_ehdr)
       in if a_type auxv \<noteq> AT_NULL then CountAUXV_loop K fd (Suc num_auxv) vdso_ehdr s
          else Some ((Suc num_auxv, vdso_ehdr), s)
   }"

definition CountAUXV :: "'w kern \<Rightarrow> 'w st \<Rightarrow> ((nat \<times> u64) \<times> 'w st) option" where
  "CountAUXV K s = do {
     ((fd, _), s) \<leftarrow> NO_INTR (sys_open K (str ''/proc/self/auxv'') O_RDONLY 0) s;
     (res, s) \<leftarrow> (if fd \<ge> 0 then CountAUXV_loop K fd 0 0 s else Some ((0, 0), s));
     (_, s) \<leftarrow> NO_INTR (sys_close K fd) s;
     Some (res, s)
   }"

subsection \<open>\<open>SanitizeVDSO\<close>\<close>

definition ehdr_at :: "memory \<Rightarrow> u64 \<Rightarrow> Ehdr" where
  "ehdr_at m a = dec_Ehdr (mem_bytes m a sizeof_Ehdr)"

text \<open>\<open>phdr[i]\<close>, for \<open>phdr\<close> a pointer to the program headers.\<close>

definition phdr_at :: "memory \<Rightarrow> u64 \<Rightarrow> nat \<Rightarrow> Phdr" where
  "phdr_at m phdr i = dec_Phdr (mem_bytes m (phdr + of_nat (sizeof_Phdr * i)) sizeof_Phdr)"

text \<open>One round of the loop over the headers after the first; \<open>False\<close> is \<open>return NULL\<close>.\<close>

definition vdso_phdr_ok :: "u64 \<Rightarrow> u64 \<Rightarrow> Phdr \<Rightarrow> bool" where
  "vdso_phdr_ok start fin p \<longleftrightarrow>
     \<not> (p_type p = PT_LOAD) \<and> \<not> (p_vaddr p AND 7 \<noteq> 0) \<and>
     \<not> (p_vaddr p \<le> start \<or> fin \<le> p_vaddr p + p_filesz p)"

text \<open>The address of the header, or 0 for \<open>NULL\<close>.\<close>

definition SanitizeVDSO :: "memory \<Rightarrow> u64 \<Rightarrow> u64 \<Rightarrow> u64 \<Rightarrow> u64" where
  "SanitizeVDSO m ehdr start fin =
     (if ehdr = 0 \<or> ehdr AND 7 \<noteq> 0 then 0
      else if fin \<le> ehdr + sizeof_Ehdr then 0
      else let e = ehdr_at m ehdr in
        if e_phoff e AND 7 \<noteq> 0 then 0
        else let phdr = ehdr + e_phoff e; n = unat (e_phnum e) in
          if phdr \<le> start \<or> fin \<le> phdr + of_nat (sizeof_Phdr * n) then 0
          else let p0 = phdr_at m phdr 0 in
            if p_type p0 \<noteq> PT_LOAD \<or> p_vaddr p0 \<noteq> start \<or> p_vaddr p0 + p_memsz p0 \<ge> fin then 0
            else if list_all (\<lambda>i. vdso_phdr_ok start fin (phdr_at m phdr i)) [1..<n] then ehdr
            else 0)"

text \<open>
  The program headers of an accepted vDSO that are not \<open>PT_LOAD\<close>, in order. \<open>CreateElfCore\<close>
  walks over them four times: to count them, to add up their sizes, to write the headers
  and to write the contents.
\<close>

definition vdso_extra :: "memory \<Rightarrow> u64 \<Rightarrow> Phdr list" where
  "vdso_extra m vdso =
     (if vdso = 0 then []
      else let e = ehdr_at m vdso in
        filter (\<lambda>p. p_type p \<noteq> PT_LOAD)
          (map (phdr_at m (vdso + e_phoff e)) [0..<unat (e_phnum e)]))"

end
