(* ===== verification/Elf_Core.thy ===== *)
theory Elf_Core
  imports Smaps_Parser Vdso
begin

text \<open>
  \<open>CreateElfCore\<close> of \<open>coredumper/elfcore.c\<close>: from the list of mappings to the bytes of the
  core file. Every call of the writer is one buffer; the condition
  \<open>writer(...) != n || writer(...) != n\<close> with its \<open>goto done\<close> is \<open>put_all\<close>, which stops at the
  first buffer that is not taken as a whole. Sizes and offsets are \<open>size_t\<close>, 64-bit words
  that wrap; \<open>e_phnum\<close> has 16 bits and \<open>n_descsz\<close> 32.
\<close>

subsection \<open>Arguments\<close>

record CoredumperNote =
  note_name   :: "byte list"     \<comment> \<open>without the terminating NUL\<close>
  note_type   :: u32
  description :: "byte list"

text \<open>One index of the arrays \<open>pids\<close>, \<open>regs\<close> and \<open>fpregs\<close>.\<close>

record thread_regs =
  t_pid    :: int
  t_regs   :: regs
  t_fpregs :: "byte list"

record core_args =
  c_prpsinfo    :: prpsinfo
  c_user        :: "byte list option"
  c_prstatus    :: prstatus
  c_threads     :: "thread_regs list"
  c_pagesize    :: u64
  c_prioritize  :: u64            \<comment> \<open>\<open>prioritize_max_length\<close>\<close>
  c_main_pid    :: int
  c_extra_notes :: "CoredumperNote list"

subsection \<open>Writing\<close>

definition put :: "('h, 'w) writer \<Rightarrow> buf \<Rightarrow> 'h \<times> 'w st \<Rightarrow> (bool \<times> 'h \<times> 'w st) option" where
  "put writer b = (\<lambda>(h, s). do {
     ((rc, h), s) \<leftarrow> writer h b s;
     Some (rc = int (buf_len b), h, s)
   })"

text \<open>A loop whose body may jump to \<open>done\<close>: the flag says that it did not.\<close>

fun seq_all :: "('a \<Rightarrow> 'x \<Rightarrow> (bool \<times> 'x) option) \<Rightarrow> 'a list \<Rightarrow> 'x \<Rightarrow> (bool \<times> 'x) option" where
  "seq_all f [] x = Some (True, x)"
| "seq_all f (a # as) x = do {
     (ok, x) \<leftarrow> f a x;
     if ok then seq_all f as x else Some (False, x)
   }"

abbreviation put_all :: "('h, 'w) writer \<Rightarrow> buf list \<Rightarrow> 'h \<times> 'w st \<Rightarrow> (bool \<times> 'h \<times> 'w st) option" where
  "put_all writer \<equiv> seq_all (put writer)"

subsection \<open>The ELF header\<close>

definition core_ehdr :: "arch \<Rightarrow> nat \<Rightarrow> Ehdr" where
  "core_ehdr a num_phdrs =
     \<lparr>e_ident = [127, 69, 76, 70, 2, 1, 1] @ replicate 9 0, e_type = 4, e_machine = ELF_ARCH a,
      e_version = 1, e_entry = 0, e_phoff = sizeof_Ehdr, e_shoff = 0, e_flags = 0,
      e_ehsize = sizeof_Ehdr, e_phentsize = sizeof_Phdr, e_phnum = of_nat num_phdrs,
      e_shentsize = sizeof_Shdr, e_shnum = 0, e_shstrndx = 0\<rparr>"

subsection \<open>Sizes\<close>

text \<open>The mappings that go into the \<open>NT_FILE\<close> note, and the size of its entries.\<close>

definition file_mappings :: "mapping list \<Rightarrow> mapping list" where
  "file_mappings ms = filter (\<lambda>mp. \<not> is_anon mp) ms"

definition nt_file_desc_len :: "mapping list \<Rightarrow> u64" where
  "nt_file_desc_len ms = sum_list (map (\<lambda>mp. 24 + of_nat (name_len mp) + 1) (file_mappings ms))"

definition pad4 :: "u64 \<Rightarrow> u64" where
  "pad4 n = (if n mod 4 \<noteq> 0 then 4 - n mod 4 else 0)"

definition extra_note_size :: "CoredumperNote \<Rightarrow> u64" where
  "extra_note_size n =
     (let name_size = of_nat (length (note_name n)) + 1; desc_size = of_nat (length (description n))
      in sizeof_Nhdr + name_size + desc_size + pad4 name_size + pad4 desc_size)"

definition note_filesz :: "arch \<Rightarrow> core_args \<Rightarrow> nat \<Rightarrow> mapping list \<Rightarrow> u64" where
  "note_filesz a args num_auxv ms =
     sizeof_Nhdr + 8 + sizeof_prpsinfo +
     (case c_user args of None \<Rightarrow> 0 | Some _ \<Rightarrow> sizeof_Nhdr + 8 + of_nat (sizeof_core_user a)) +
     of_nat (length (c_threads args)) *
       (sizeof_Nhdr + 8 + of_nat (sizeof_prstatus a) + sizeof_Nhdr + 8 + of_nat (sizeof_fpregs a)) +
     sum_list (map extra_note_size (c_extra_notes args)) +
     (if num_auxv \<noteq> 0 then 8 + sizeof_Nhdr + of_nat num_auxv * sizeof_auxv_t else 0) +
     (if file_mappings ms \<noteq> [] then
        sizeof_Nhdr + 8 + 2 * 8 + nt_file_desc_len ms + pad4 (nt_file_desc_len ms)
      else 0)"

definition note_align :: "u64 \<Rightarrow> u64 \<Rightarrow> u64" where
  "note_align pagesize note_end =
     (let al = pagesize - note_end mod pagesize in if al = pagesize then 0 else al)"

subsection \<open>Limiting the size by priority\<close>

text \<open>The index of the first mapping with the largest \<open>write_size\<close>, and the total.\<close>

fun find_largest :: "mapping list \<Rightarrow> nat \<Rightarrow> (nat \<times> u64) option \<Rightarrow> (nat \<times> u64) option" where
  "find_largest [] i best = best"
| "find_largest (mp # ms) i best =
     find_largest ms (Suc i)
       (case best of
          None \<Rightarrow> Some (i, write_size mp)
        | Some (j, w) \<Rightarrow> if w < write_size mp then Some (i, write_size mp) else best)"

definition total_size :: "u64 \<Rightarrow> mapping list \<Rightarrow> u64" where
  "total_size base ms = base + sum_list (map write_size ms)"

definition set_write_size :: "mapping list \<Rightarrow> nat \<Rightarrow> u64 \<Rightarrow> mapping list" where
  "set_write_size ms i w = ms[i := (ms ! i)\<lparr>write_size := w\<rparr>]"

lemma find_largest_Some:
  assumes "find_largest ms i best = Some (j, w)"
  shows "best = Some (j, w) \<or> i \<le> j \<and> j < i + length ms \<and> write_size (ms ! (j - i)) = w"
  using assms
proof (induction ms arbitrary: i best)
  case (Cons mp ms)
  from Cons.IH [OF Cons.prems [simplified]] show ?case
    by (auto simp: nth_Cons' split: option.splits if_splits)
qed simp

function limit_by_priority :: "u64 \<Rightarrow> u64 \<Rightarrow> mapping list \<Rightarrow> mapping list" where
  "limit_by_priority base limit ms =
     (case find_largest ms 0 None of
        None \<Rightarrow> ms
      | Some (j, w) \<Rightarrow>
        if total_size base ms > limit then
          let space_needed = total_size base ms - limit in
          if w > 0 then
            if space_needed > w then limit_by_priority base limit (set_write_size ms j 0)
            else set_write_size ms j (w - space_needed)
          else ms
        else ms)"
  by pat_completeness auto

text \<open>Every round that goes on has set one more size to 0.\<close>

definition nonzero_sizes :: "mapping list \<Rightarrow> nat" where
  "nonzero_sizes ms = length (filter (\<lambda>mp. write_size mp \<noteq> 0) ms)"

lemma nonzero_sizes_less:
  "j < length ms \<Longrightarrow> write_size (ms ! j) \<noteq> 0 \<Longrightarrow> nonzero_sizes (set_write_size ms j 0) < nonzero_sizes ms"
  unfolding nonzero_sizes_def set_write_size_def
proof (induction ms arbitrary: j)
  case (Cons mp ms)
  then show ?case by (cases j) auto
qed simp

termination limit_by_priority
proof (relation "measure (\<lambda>(base, limit, ms). nonzero_sizes ms)")
  fix base limit ms p j and w space :: u64
  assume "find_largest ms 0 None = Some p" "(j, w) = p" "0 < w"
  then show "((base, limit, set_write_size ms j 0), base, limit, ms) \<in> measure (\<lambda>(base, limit, ms). nonzero_sizes ms)"
    using find_largest_Some [of ms 0 None j w] nonzero_sizes_less [of j ms] by auto
qed simp

subsection \<open>Program headers\<close>

definition note_phdr :: "u64 \<Rightarrow> u64 \<Rightarrow> Phdr" where
  "note_phdr offset filesz =
     \<lparr>p_type = PT_NOTE, p_flags = 0, p_offset = offset, p_vaddr = 0, p_paddr = 0,
      p_filesz = filesz, p_memsz = 0, p_align = 0\<rparr>"

text \<open>
  The two loops over mappings and over the headers of the vDSO, which share the variables
  \<open>offset\<close> and \<open>filesz\<close>; \<open>filesz\<close> is the size of the previous part.
\<close>

fun load_phdrs :: "u64 \<Rightarrow> u64 \<Rightarrow> u64 \<Rightarrow> mapping list \<Rightarrow> Phdr list \<times> u64 \<times> u64" where
  "load_phdrs pagesize offset filesz [] = ([], offset, filesz)"
| "load_phdrs pagesize offset filesz (mp # ms) =
     (let offset = offset + filesz; filesz = write_size mp;
          phdr = \<lparr>p_type = PT_LOAD, p_flags = ucast (mflags mp AND PF_MASK), p_offset = offset,
                  p_vaddr = start_address mp, p_paddr = 0, p_filesz = filesz,
                  p_memsz = end_address mp - start_address mp, p_align = pagesize\<rparr>;
          (phdrs, offset, filesz) = load_phdrs pagesize offset filesz ms
      in (phdr # phdrs, offset, filesz))"

fun extra_phdrs :: "u64 \<Rightarrow> u64 \<Rightarrow> Phdr list \<Rightarrow> Phdr list" where
  "extra_phdrs offset filesz [] = []"
| "extra_phdrs offset filesz (p # ps) =
     p\<lparr>p_offset := offset + filesz, p_paddr := 0\<rparr> # extra_phdrs (offset + filesz) (p_filesz p) ps"

text \<open>
  The mappings after the size limit was applied. \<open>offset\<close> is that of the first segment,
  less the size of the notes, as in the source.
\<close>

definition limited_mappings :: "core_args \<Rightarrow> u64 \<Rightarrow> Phdr list \<Rightarrow> mapping list \<Rightarrow> mapping list" where
  "limited_mappings args note_end extra ms =
     (if c_prioritize args > 0
      then limit_by_priority (note_end + sum_list (map p_filesz extra)) (c_prioritize args) ms
      else ms)"

record core_layout =
  l_ehdr     :: Ehdr
  l_phdrs    :: "Phdr list"
  l_align    :: u64
  l_mappings :: "mapping list"

definition core_layout_of :: "arch \<Rightarrow> core_args \<Rightarrow> nat \<Rightarrow> Phdr list \<Rightarrow> mapping list \<Rightarrow> core_layout" where
  "core_layout_of a args num_auxv extra ms =
     (let num = length ms + length extra + 1;
          offset = sizeof_Ehdr + of_nat num * sizeof_Phdr;
          filesz = note_filesz a args num_auxv ms;
          note = note_phdr offset filesz;
          align = note_align (c_pagesize args) (offset + filesz);
          offset = offset + align;
          ms = limited_mappings args (offset + filesz) extra ms;
          (loads, offset, filesz) = load_phdrs (c_pagesize args) offset filesz ms
      in \<lparr>l_ehdr = core_ehdr a num, l_phdrs = note # loads @ extra_phdrs offset filesz extra,
          l_align = align, l_mappings = ms\<rparr>)"

subsection \<open>Notes\<close>

abbreviation (input) "NT_PRSTATUS \<equiv> (1::u32)"
abbreviation (input) "NT_FPREGSET \<equiv> (2::u32)"
abbreviation (input) "NT_PRPSINFO \<equiv> (3::u32)"
abbreviation (input) "NT_PRXREG \<equiv> (4::u32)"
abbreviation (input) "NT_AUXV \<equiv> (6::u32)"
abbreviation (input) "NT_FILE \<equiv> (0x46494c45::u32)"

definition CORE_name :: buf where
  "CORE_name = Local [67, 79, 82, 69, 0, 0, 0, 0]"

definition nhdr_buf :: "u32 \<Rightarrow> u32 \<Rightarrow> u32 \<Rightarrow> buf" where
  "nhdr_buf namesz descsz type = Local (enc_Nhdr \<lparr>n_namesz = namesz, n_descsz = descsz, n_type = type\<rparr>)"

text \<open>The writes of \<open>WriteThreadRegs\<close>, and the function.\<close>

definition thread_bufs :: "arch \<Rightarrow> prstatus \<Rightarrow> thread_regs \<Rightarrow> buf list" where
  "thread_bufs a prst t =
     [nhdr_buf 5 (of_nat (sizeof_prstatus a)) NT_PRSTATUS, CORE_name,
      Local (enc_prstatus (prst\<lparr>pr_pid := t_pid t, pr_reg := t_regs t\<rparr>)),
      nhdr_buf 5 (of_nat (sizeof_fpregs a)) NT_FPREGSET, CORE_name, Local (t_fpregs t)]"

definition WriteThreadRegs ::
    "('h, 'w) writer \<Rightarrow> arch \<Rightarrow> prstatus \<Rightarrow> thread_regs \<Rightarrow> 'h \<times> 'w st \<Rightarrow> (bool \<times> 'h \<times> 'w st) option" where
  "WriteThreadRegs writer a prst t = put_all writer (thread_bufs a prst t)"

text \<open>
  The order in which threads are written: from the end of the array, the main thread
  first. The first loop stops at the first thread it writes.
\<close>

definition thread_order :: "int \<Rightarrow> thread_regs list \<Rightarrow> thread_regs list" where
  "thread_order main_pid ts =
     (case find (\<lambda>t. t_pid t = main_pid) (rev ts) of None \<Rightarrow> [] | Some t \<Rightarrow> [t]) @
     filter (\<lambda>t. t_pid t \<noteq> main_pid) (rev ts)"

definition process_bufs :: "arch \<Rightarrow> core_args \<Rightarrow> buf list" where
  "process_bufs a args =
     [nhdr_buf 5 sizeof_prpsinfo NT_PRPSINFO, CORE_name, Local (enc_prpsinfo a (c_prpsinfo args))] @
     (case c_user args of
        None \<Rightarrow> []
      | Some u \<Rightarrow> [nhdr_buf 5 (of_nat (sizeof_core_user a)) NT_PRXREG, CORE_name, Local u])"

definition extra_note_bufs :: "CoredumperNote \<Rightarrow> buf list" where
  "extra_note_bufs n =
     (let namesz = length (note_name n) + 1; descsz = length (description n)
      in [nhdr_buf (of_nat namesz) (of_nat descsz) (note_type n),
          Local (note_name n @ [0]), Local (replicate (pad_to 4 namesz) 0),
          Local (description n), Local (replicate (pad_to 4 descsz) 0)])"

definition nt_file_bufs :: "u64 \<Rightarrow> mapping list \<Rightarrow> buf list" where
  "nt_file_bufs pagesize ms =
     (let fs = file_mappings ms; desc_len = nt_file_desc_len ms in
      if fs = [] then []
      else [nhdr_buf 5 (ucast (desc_len + 16)) NT_FILE, CORE_name,
            Local (le64 (of_nat (length fs)) @ le64 pagesize)] @
           map (\<lambda>mp. Local (le64 (start_address mp) @ le64 (end_address mp) @ le64 (moffset mp div pagesize))) fs @
           map (\<lambda>mp. Local (mname mp @ [0])) fs @
           (if desc_len mod 4 \<noteq> 0 then [Local (replicate (unat (4 - desc_len mod 4)) 0)] else []))"

text \<open>
  The \<open>NT_AUXV\<close> note copies \<open>/proc/self/auxv\<close> entry by entry. The descriptor is closed on the
  error paths only, as in the source.
\<close>

definition copy_auxv :: "'w kern \<Rightarrow> ('h, 'w) writer \<Rightarrow> int \<Rightarrow> unit \<Rightarrow> 'h \<times> 'w st \<Rightarrow> (bool \<times> 'h \<times> 'w st) option" where
  "copy_auxv K writer fd _ = (\<lambda>(h, s). do {
     ((nread, r), s) \<leftarrow> NO_INTR (sys_read K fd sizeof_auxv_t) s;
     if nread \<noteq> sizeof_auxv_t then Some (False, h, s)
     else put writer (Local (stored nread (kbytes r))) (h, s)
   })"

definition write_auxv :: "'w kern \<Rightarrow> ('h, 'w) writer \<Rightarrow> nat \<Rightarrow> 'h \<times> 'w st \<Rightarrow> (bool \<times> 'h \<times> 'w st) option" where
  "write_auxv K writer num_auxv = (\<lambda>(h, s).
     if num_auxv = 0 then Some (True, h, s)
     else do {
       ((fd, _), s) \<leftarrow> NO_INTR (sys_open K (str ''/proc/self/auxv'') O_RDONLY 0) s;
       if fd = -1 then Some (False, h, s)
       else do {
         (ok, h, s) \<leftarrow> put_all writer [nhdr_buf 5 (of_nat num_auxv * sizeof_auxv_t) NT_AUXV, CORE_name] (h, s);
         (ok, h, s) \<leftarrow> (if ok then seq_all (copy_auxv K writer fd) (replicate num_auxv ()) (h, s)
                        else Some (False, h, s));
         if ok then Some (True, h, s)
         else do { (_, s) \<leftarrow> NO_INTR (sys_close K fd) s; Some (False, h, s) }
       }
     })"

subsection \<open>The whole file\<close>

definition segment_bufs :: "mapping list \<Rightarrow> buf list" where
  "segment_bufs ms =
     map (\<lambda>mp. Mem (start_address mp) (unat (write_size mp))) (filter (\<lambda>mp. write_size mp \<noteq> 0) ms)"

definition vdso_bufs :: "Phdr list \<Rightarrow> buf list" where
  "vdso_bufs extra = map (\<lambda>p. Mem (p_vaddr p) (unat (p_filesz p))) extra"

text \<open>Everything that is written once the mappings are known, in order.\<close>

definition write_core ::
    "'w kern \<Rightarrow> ('h, 'w) writer \<Rightarrow> arch \<Rightarrow> core_args \<Rightarrow> nat \<Rightarrow> Phdr list \<Rightarrow> mapping list \<Rightarrow> 'h \<times> 'w st
     \<Rightarrow> (bool \<times> 'h \<times> 'w st) option" where
  "write_core K writer a args num_auxv extra ms =
     (let l = core_layout_of a args num_auxv extra ms in
      seq_all (\<lambda>step. step)
        [put writer (Local (enc_Ehdr (l_ehdr l))),
         put_all writer (map (\<lambda>p. Local (enc_Phdr p)) (l_phdrs l)),
         put_all writer (process_bufs a args),
         write_auxv K writer num_auxv,
         seq_all (WriteThreadRegs writer a (c_prstatus args)) (thread_order (c_main_pid args) (c_threads args)),
         seq_all (\<lambda>n. put_all writer (extra_note_bufs n)) (c_extra_notes args),
         put_all writer (nt_file_bufs (c_pagesize args) (l_mappings l)),
         (if l_align l \<noteq> 0 then put writer (Local (replicate (unat (l_align l)) 0)) else (\<lambda>x. Some (True, x))),
         put_all writer (segment_bufs (l_mappings l)),
         put_all writer (vdso_bufs extra)])"

text \<open>The search for the mapping that covers the vDSO, with its check; 0 for none.\<close>

definition find_vdso :: "memory \<Rightarrow> mapping list \<Rightarrow> u64 \<Rightarrow> u64" where
  "find_vdso m ms vdso =
     (if vdso = 0 then 0
      else case find (\<lambda>mp. mflags mp AND PF_R \<noteq> 0 \<and> start_address mp \<le> vdso \<and> vdso < end_address mp) ms of
             None \<Rightarrow> 0
           | Some mp \<Rightarrow> SanitizeVDSO m vdso (start_address mp) (end_address mp))"

definition is_aarch64 :: "arch \<Rightarrow> bool" where
  "is_aarch64 a \<longleftrightarrow> a = AARCH64"

text \<open>
  From the two descriptors of the loop-back pipe to the jump to \<open>done\<close>; the flag says that
  \<open>rc = 0\<close> was reached.
\<close>

definition dump_mappings ::
    "'w kern \<Rightarrow> ('h, 'w) writer \<Rightarrow> arch \<Rightarrow> memory \<Rightarrow> core_args \<Rightarrow> int \<times> int \<Rightarrow> 'h \<times> 'w st
     \<Rightarrow> (bool \<times> 'h \<times> 'w st) option" where
  "dump_mappings K writer a m args loopback = (\<lambda>(h, s). do {
     ((fd, _), s) \<leftarrow> NO_INTR (sys_open K (str ''/proc/self/maps'') O_RDONLY 0) s;
     if fd < 0 then Some (False, h, s) else do {
       (num_mappings, i, s) \<leftarrow> count_lines (GetChar K) 0 (\<lparr>io_fd = fd, io_rest = []\<rparr>, s);
       if errno s \<noteq> 0 then do { (_, s) \<leftarrow> NO_INTR (sys_close K fd) s; Some (False, h, s) }
       else do {
         (_, s) \<leftarrow> NO_INTR (sys_close K fd) s;
         ((num_auxv, vdso), s) \<leftarrow> CountAUXV K s;
         ((fd, _), s) \<leftarrow> NO_INTR (sys_open K (str ''/proc/self/smaps'') O_RDONLY 0) s;
         if fd < 0 then Some (False, h, s) else do {
           (r, i, s) \<leftarrow> read_smaps (GetChar K) (scan_zeros K loopback (c_pagesize args)) (is_aarch64 a) m
                          (c_pagesize args) num_mappings (\<lparr>io_fd = fd, io_rest = []\<rparr>, s);
           (_, s) \<leftarrow> NO_INTR (sys_close K fd) s;
           case r of
             None \<Rightarrow> Some (False, h, s)
           | Some ms \<Rightarrow>
             write_core K writer a args num_auxv (vdso_extra m (find_vdso m ms vdso)) ms (h, s)
         }
       }
     }
   })"

text \<open>What \<open>pipe\<close> stored in \<open>loopback\<close>, which is initialised with -1.\<close>

definition pipe_fds :: "int \<times> kreply \<Rightarrow> int \<times> int" where
  "pipe_fds = (\<lambda>(rc, r). case kints r of x # y # _ \<Rightarrow> if rc < 0 then (-1, -1) else (x, y) | _ \<Rightarrow> (-1, -1))"

definition CreateElfCore ::
    "'w kern \<Rightarrow> ('h, 'w) writer \<Rightarrow> ('h \<Rightarrow> bool) \<Rightarrow> arch \<Rightarrow> memory \<Rightarrow> core_args \<Rightarrow> 'h \<times> 'w st
     \<Rightarrow> (int \<times> 'h \<times> 'w st) option" where
  "CreateElfCore K writer is_done a m args = (\<lambda>(h, s).
     case sys_pipe K s of ((prc, r), s) \<Rightarrow> do {
       let loopback = pipe_fds (prc, r);
       (ok, h, s) \<leftarrow> (if prc < 0 then Some (False, h, s) else dump_mappings K writer a m args loopback (h, s));
       let rc = (if ok \<or> is_done h then 0 else -1);
       (_, s) \<leftarrow> (if fst loopback \<ge> 0 then NO_INTR (sys_close K (fst loopback)) s else Some ((0, r), s));
       (_, s) \<leftarrow> (if snd loopback \<ge> 0 then NO_INTR (sys_close K (snd loopback)) s else Some ((0, r), s));
       Some (rc, h, s)
     })"

end
