(* ===== verification/Smaps_Roundtrip.thy ===== *)
theory Smaps_Roundtrip
  imports Smaps_Parser
begin

text \<open>
  What the kernel prints in \<open>/proc/self/smaps\<close> and what \<open>CreateElfCore\<close> makes of it:
  a printer for segment descriptions, the mapping the source means to keep for each
  (\<open>kept_mapping\<close>), and the proofs that the parser inverts the printer, that whatever the
  file holds every mapping that is kept is well formed, and that the parser returns.
\<close>

subsection \<open>The header line\<close>

lemma scan_from:
  assumes "c # cs = xs @ y # ys" "\<And>z. z \<in> set xs \<Longrightarrow> P (uint z)" "\<not> P (uint y)"
  shows "scan lget (\<lambda>_. P) f a (uint c) cs = Some ((foldl (\<lambda>a c. f a (uint c)) a xs, uint y), ys)"
  using assms by (cases xs) (auto simp: scan_stop scan_run)

lemma skip_from:
  assumes "c # cs = xs @ y # ys" "\<And>z. z \<in> set xs \<Longrightarrow> P (uint z)" "\<not> P (uint y)"
  shows "skip_while lget P (uint c) cs = Some (uint y, ys)"
  by (simp add: skip_while_def scan_from [where P = P and xs = xs and y = y, OF assms])

fun hexlen :: "nat \<Rightarrow> nat" where
  "hexlen x = (if x < 16 then 1 else Suc (hexlen (x div 16)))"
declare hexlen.simps [simp del]

lemma hexlen_bound: "x < 16 ^ hexlen x"
proof (induction x rule: hexlen.induct)
  case (1 x)
  then show ?case
  proof (cases "x < 16")
    case False
    with 1 have "x div 16 < 16 ^ hexlen (x div 16)" by simp
    then have "x < 16 * 16 ^ hexlen (x div 16)" by (simp add: div_less_iff_less_mult mult.commute)
    with False show ?thesis by (simp add: hexlen.simps [of x])
  qed (simp add: hexlen.simps)
qed

definition print_hex :: "u64 \<Rightarrow> byte list" where
  "print_hex x = hex_nat (max 8 (hexlen (unat x))) (unat x)"

lemma foldl_print_hex: "foldl (\<lambda>a c. hex_step a (uint c)) 0 (print_hex x) = x"
proof -
  have "unat x < 16 ^ hexlen (unat x)" by (rule hexlen_bound)
  also have "\<dots> \<le> 16 ^ max 8 (hexlen (unat x))" by (rule power_increasing) auto
  finally show ?thesis by (simp add: print_hex_def foldl_hex_nat)
qed

lemma print_hex_is_hex: "c \<in> set (print_hex x) \<Longrightarrow> is_hex (uint c)"
  by (auto simp: print_hex_def intro: hex_nat_is_hex)

lemma GetHex_print:
  assumes "\<not> is_hex (uint y)"
  shows "GetHex lget (print_hex x @ y # ys) = Some ((x, uint y), ys)"
  using scan_next [of "print_hex x" is_hex y ys hex_step 0] assms
  by (simp add: GetHex_def GetHexHelper_def print_hex_is_hex foldl_print_hex)

lemma GetHexWithInitChar_print:
  assumes "c # cs = print_hex x @ y # ys" "\<not> is_hex (uint y)"
  shows "GetHexWithInitChar lget (uint c) cs = Some ((x, uint y), ys)"
  using scan_from [OF assms(1), of is_hex hex_step 0] assms(2)
  by (simp add: GetHexWithInitChar_def GetHexHelper_def print_hex_is_hex foldl_print_hex)

record segment =
  sd_start :: u64
  sd_end   :: u64
  sd_read  :: bool
  sd_write :: bool
  sd_exec  :: bool
  sd_shared :: bool
  sd_offset :: u64
  sd_dev   :: "byte list"
  sd_inode :: "byte list"
  sd_pad   :: nat
  sd_name  :: "byte list"

definition print_perms :: "segment \<Rightarrow> byte list" where
  "print_perms d = [if sd_read d then 114 else 45, if sd_write d then 119 else 45,
      if sd_exec d then 120 else 45, if sd_shared d then 115 else 112]"

definition perms :: "segment \<Rightarrow> u16" where
  "perms d = (if sd_read d then 4 else 0) + (if sd_write d then 2 else 0) + (if sd_exec d then 1 else 0)"

definition print_header :: "segment \<Rightarrow> byte list" where
  "print_header d = print_hex (sd_start d) @ [45] @ print_hex (sd_end d) @ [32] @ print_perms d @ [32] @
     print_hex (sd_offset d) @ [32] @ sd_dev d @ [32] @ sd_inode d @ [32] @
     replicate (sd_pad d) 32 @ sd_name d @ [10]"

definition wf_header :: "segment \<Rightarrow> bool" where
  "wf_header d \<longleftrightarrow> sd_dev d \<noteq> [] \<and> 32 \<notin> set (sd_dev d) \<and> 10 \<notin> set (sd_dev d) \<and>
     sd_inode d \<noteq> [] \<and> 32 \<notin> set (sd_inode d) \<and> 10 \<notin> set (sd_inode d) \<and>
     10 \<notin> set (sd_name d) \<and> (sd_name d \<noteq> [] \<longrightarrow> hd (sd_name d) \<noteq> 32)"

definition header_mapping :: "segment \<Rightarrow> mapping" where
  "header_mapping d = (let name = rtrim (take 255 (sd_name d)) in
     \<lparr>start_address = sd_start d, end_address = sd_end d, moffset = sd_offset d, write_size = 0,
      mflags = push_bit 1 (perms d) OR 1, is_anon = (name = [] \<or> hd name = 91), mname = name\<rparr>)"

lemma uint_byte_is: "uint (c :: byte) = 32 \<longleftrightarrow> c = 32" "uint c = 10 \<longleftrightarrow> c = 10"
  by (simp_all add: word_uint_eq_iff)

lemma foldl_take: "length acc \<le> n \<Longrightarrow>
  foldl (\<lambda>cs c. if length cs < n then cs @ [c] else cs) acc xs = take n (acc @ xs)"
  by (induction xs arbitrary: acc) (auto simp: take_Cons')

lemma skip_field_print:
  assumes "c # cs = xs @ ys @ zs @ y # rest" "set xs \<subseteq> {32}" "ys \<noteq> []" "32 \<notin> set ys" "10 \<notin> set ys"
    "zs \<noteq> []" "set zs \<subseteq> {32}" "y \<noteq> 32"
  shows "skip_field lget (uint c) cs = Some (Some (uint y), rest)"
proof -
  obtain y0 yt where ys: "ys = y0 # yt" using assms(3) by (cases ys) auto
  obtain zt where zs: "zs = 32 # zt" using assms(6,7) by (cases zs) auto
  have n32: "uint z \<noteq> 32" "uint z \<noteq> 10" if "z \<in> set ys" for z using that assms(4,5) by (auto simp: uint_byte_is)
  have 1: "skip_while lget (\<lambda>ch. ch = 32) (uint c) cs = Some (uint y0, yt @ zs @ y # rest)"
    by (rule skip_from [where xs = xs]) (use assms ys n32 in \<open>auto simp: uint_byte_is\<close>)
  have 2: "skip_while lget (\<lambda>ch. ch \<noteq> 32 \<and> ch \<noteq> 10 \<and> ch \<ge> 0) (uint y0) (yt @ zs @ y # rest) = Some (32, zt @ y # rest)"
    using skip_from [of y0 "yt @ zs @ y # rest" ys 32 "zt @ y # rest" "\<lambda>ch. ch \<noteq> 32 \<and> ch \<noteq> 10 \<and> ch \<ge> 0"] ys zs n32 by simp
  have 3: "skip_while lget (\<lambda>ch. ch = 32) 32 (zt @ y # rest) = Some (uint y, rest)"
    using skip_from [of 32 "zt @ y # rest" zs y rest "\<lambda>ch. ch = 32"] zs assms(7,8) by (auto simp: uint_byte_is)
  show ?thesis by (simp add: skip_field_def 1 2 3)
qed

lemma read_name_print:
  assumes "c # cs = name @ 10 # rest" "10 \<notin> set name"
  shows "read_name lget (uint c) cs = Some (Some (rtrim (take 255 name)), rest)"
proof -
  have "uint z \<noteq> 10 \<and> uint z \<ge> 0" if "z \<in> set name" for z using that assms(2) by (auto simp: uint_byte_is)
  then have "scan lget (\<lambda>_ ch. ch \<noteq> 10 \<and> ch \<ge> 0)
        (\<lambda>cs ch. if length cs < FNAME_MAX - 1 then cs @ [of_int ch :: byte] else cs) [] (uint c) cs
     = Some ((foldl (\<lambda>cs c. if length cs < FNAME_MAX - 1 then cs @ [of_int (uint c) :: byte] else cs) [] name, uint (10 :: byte)), rest)"
    by (intro scan_from [OF assms(1)]) auto
  then show ?thesis
    using foldl_take [of "[]" 255 name] by (simp add: read_name_def word_of_int_uint cong: if_cong)
qed

lemma perms_print:
  "foldl (\<lambda>fl c. push_bit 1 fl OR (if uint c \<noteq> 45 then 1 else 0)) (0::u16) (print_perms d) = push_bit 1 (perms d) OR 1"
  unfolding print_perms_def perms_def
  by (cases "sd_read d"; cases "sd_write d"; cases "sd_exec d"; cases "sd_shared d") simp_all

lemma read_header_print:
  assumes wf: "wf_header d" and c: "c # cs = print_header d @ rest"
  shows "read_header lget (uint c) cs = Some (Some (header_mapping d), rest)"
proof -
  let ?r1 = "print_hex (sd_end d) @ 32 # print_perms d @ 32 # print_hex (sd_offset d) @ 32 # sd_dev d @ 32 # sd_inode d @
     32 # replicate (sd_pad d) 32 @ sd_name d @ 10 # rest"
  let ?r2 = "print_perms d @ 32 # print_hex (sd_offset d) @ 32 # sd_dev d @ 32 # sd_inode d @
     32 # replicate (sd_pad d) 32 @ sd_name d @ 10 # rest"
  let ?r3 = "print_hex (sd_offset d) @ 32 # sd_dev d @ 32 # sd_inode d @
     32 # replicate (sd_pad d) 32 @ sd_name d @ 10 # rest"
  let ?r4 = "sd_dev d @ 32 # sd_inode d @ 32 # replicate (sd_pad d) 32 @ sd_name d @ 10 # rest"
  obtain i0 it where i0: "sd_inode d = i0 # it" using wf by (cases "sd_inode d") (auto simp: wf_header_def)
  obtain n0 nt where n0: "sd_name d @ 10 # rest = n0 # nt" by (cases "sd_name d @ 10 # rest") auto
  have n32: "n0 \<noteq> 32" using n0 wf by (cases "sd_name d") (auto simp: wf_header_def)
  have 1: "GetHexWithInitChar lget (uint c) cs = Some ((sd_start d, 45), ?r1)"
    using GetHexWithInitChar_print [of c cs "sd_start d" 45 ?r1] c by (simp add: print_header_def is_hex_def)
  have 2: "GetHex lget ?r1 = Some ((sd_end d, 32), ?r2)"
    using GetHex_print [of 32 "sd_end d" ?r2] by (simp add: is_hex_def)
  have "uint z \<noteq> 32 \<and> uint z \<ge> 0" if "z \<in> set (print_perms d)" for z
    using that by (auto simp: print_perms_def split: if_splits)
  then have 3: "(do { (ch, i) \<leftarrow> lget ?r2; scan lget (\<lambda>_ ch. ch \<noteq> SPACE \<and> ch \<ge> 0)
        (\<lambda>fl ch. push_bit 1 fl OR (if ch \<noteq> DASH then 1 else 0)) (0::u16) ch i }) = Some ((push_bit 1 (perms d) OR 1, 32), ?r3)"
    using scan_next [of "print_perms d" "\<lambda>ch. ch \<noteq> SPACE \<and> ch \<ge> 0" 32 ?r3
        "\<lambda>fl ch. push_bit 1 fl OR (if ch \<noteq> DASH then 1 else 0)" "0::u16"]
    unfolding perms_print by simp
  have 4: "GetHex lget ?r3 = Some ((sd_offset d, 32), ?r4)"
    using GetHex_print [of 32 "sd_offset d" ?r4] by (simp add: is_hex_def)
  have 5: "skip_field lget 32 ?r4 = Some (Some (uint i0), it @ 32 # replicate (sd_pad d) 32 @ sd_name d @ 10 # rest)"
    using skip_field_print [of 32 ?r4 "[32]" "sd_dev d" "[32]" i0] wf i0 by (simp add: wf_header_def)
  have 6: "skip_field lget (uint i0) (it @ 32 # replicate (sd_pad d) 32 @ sd_name d @ 10 # rest) = Some (Some (uint n0), nt)"
    using skip_field_print [of i0 "it @ 32 # replicate (sd_pad d) 32 @ sd_name d @ 10 # rest" "[]" "sd_inode d"
        "32 # replicate (sd_pad d) 32" n0 nt] wf i0 n0 n32
    by (simp add: wf_header_def set_replicate_conv_if split: if_splits)
  have 7: "read_name lget (uint n0) nt = Some (Some (rtrim (take 255 (sd_name d))), rest)"
    using read_name_print [OF n0 [symmetric]] wf by (simp add: wf_header_def)
  have "read_header lget (uint c) cs = (do { (ch, i) \<leftarrow> lget ?r2;
     ((fl, ch), i) \<leftarrow> scan lget (\<lambda>_ ch. ch \<noteq> SPACE \<and> ch \<ge> 0)
        (\<lambda>fl ch. push_bit 1 fl OR (if ch \<noteq> DASH then 1 else 0)) (0::u16) ch i;
     if ch < 0 then Some (None, i) else do {
     ((off, ch), i) \<leftarrow> GetHex lget i;
     if ch \<noteq> SPACE then Some (None, i) else do {
     (r, i) \<leftarrow> skip_field lget ch i;
     case r of None \<Rightarrow> Some (None, i) | Some ch \<Rightarrow> do {
     (r, i) \<leftarrow> skip_field lget ch i;
     case r of None \<Rightarrow> Some (None, i) | Some ch \<Rightarrow> do {
     (r, i) \<leftarrow> read_name lget ch i;
     case r of None \<Rightarrow> Some (None, i) | Some name \<Rightarrow>
       Some (Some \<lparr>start_address = sd_start d, end_address = sd_end d, moffset = off, write_size = 0,
                   mflags = fl, is_anon = (name = [] \<or> hd name = 91), mname = name\<rparr>, i)
     }}}}})"
    by (simp add: read_header_def 1 2)
  also have "\<dots> = Some (Some (header_mapping d), rest)"
    using 3 by (cases "next_char ?r2") (simp add: 4 5 6 7 header_mapping_def Let_def)
  finally show ?thesis .
qed

subsection \<open>The lines after the header\<close>

text \<open>The lines that follow a header, and how the kernel prints them.\<close>

datatype detail =
  Other "byte list"
| Anonymous nat "byte list"

fun print_detail :: "detail \<Rightarrow> byte list" where
  "print_detail (Other l) = l @ [10]"
| "print_detail (Anonymous k ds) = str ''Anonymous:'' @ replicate k 32 @ ds @ [10]"

definition starts :: "byte list \<Rightarrow> byte list \<Rightarrow> bool" where
  "starts p l \<longleftrightarrow> take (length p) l = p"

definition segment_start :: "int \<Rightarrow> bool" where
  "segment_start ch \<longleftrightarrow> ch < 1 \<or> (48 \<le> ch \<and> ch \<le> 57) \<or> (97 \<le> ch \<and> ch \<le> 102)"

fun wf_detail :: "detail \<Rightarrow> bool" where
  "wf_detail (Other l) \<longleftrightarrow> l \<noteq> [] \<and> 10 \<notin> set l \<and> \<not> segment_start (uint (hd l)) \<and>
     \<not> starts (str ''Anonymous:'') l \<and> \<not> starts (str ''VmFlags:'') l"
| "wf_detail (Anonymous k ds) \<longleftrightarrow> ds \<noteq> [] \<and> 10 \<notin> set ds \<and> 48 \<le> uint (hd ds) \<and> uint (hd ds) \<le> 57"

fun detail_anon :: "bool \<Rightarrow> detail \<Rightarrow> bool" where
  "detail_anon an (Other l) = an"
| "detail_anon an (Anonymous k ds) = (hd ds \<noteq> 48)"

lemma match_literal_full:
  "c # cs = lit @ y # ys \<Longrightarrow> match_literal lget lit (uint c) cs = Some (([], uint y), ys)"
proof (induction lit arbitrary: c cs)
  case Nil
  then show ?case by (simp add: match_literal_def scan_stop)
next
  case (Cons x xs)
  then have c: "c = x" "cs = xs @ y # ys" by auto
  obtain d ds where d: "xs @ y # ys = d # ds" by (cases "xs @ y # ys") auto
  from Cons.IH [OF d [symmetric]] show ?case
    using c d by (simp add: match_literal_def scan_go)
qed

lemma match_literal_stops:
  assumes "c # cs = l @ 10 # ys" "\<not> starts lit l" "10 \<notin> set lit" "10 \<notin> set l"
  shows "\<exists>lit' c' cs' l'. match_literal lget lit (uint c) cs = Some ((lit', uint c'), cs') \<and> lit' \<noteq> [] \<and>
     c' # cs' = l' @ 10 # ys \<and> 10 \<notin> set l'"
  using assms
proof (induction lit arbitrary: c cs l)
  case Nil
  then show ?case by (simp add: starts_def)
next
  case (Cons x xs)
  show ?case
  proof (cases "c = x")
    case False
    then have "uint c \<noteq> uint x" by (simp add: word_uint_eq_iff)
    then have "match_literal lget (x # xs) (uint c) cs = Some ((x # xs, uint c), cs)"
      by (simp add: match_literal_def scan_stop)
    then show ?thesis using Cons.prems by blast
  next
    case True
    with Cons.prems obtain l1 where l: "l = x # l1" by (cases l) auto
    with Cons.prems have cs: "cs = l1 @ 10 # ys" by auto
    obtain d ds where d: "l1 @ 10 # ys = d # ds" by (cases "l1 @ 10 # ys") auto
    have "match_literal lget (x # xs) (uint c) cs = match_literal lget xs (uint d) ds"
      using True cs d by (simp add: match_literal_def scan_go)
    moreover have "\<not> starts xs l1" using Cons.prems(2) l by (simp add: starts_def)
    ultimately show ?thesis using Cons.IH [OF d [symmetric]] Cons.prems l by auto
  qed
qed

lemma skip_line:
  assumes "c # cs = l @ 10 # ys" "10 \<notin> set l"
  shows "skip_while lget (\<lambda>ch. ch \<noteq> 10 \<and> ch \<ge> 0) (uint c) cs = Some (10, ys)"
proof -
  have "uint z \<noteq> 10" if "z \<in> set l" for z using that assms(2) by (auto simp: uint_byte_is)
  then show ?thesis using skip_from [OF assms(1), of "\<lambda>ch. ch \<noteq> 10 \<and> ch \<ge> 0"] by simp
qed

lemma str_no_newline: "10 \<notin> set (str ''Anonymous:'')" "10 \<notin> set (str ''VmFlags:'')"
  by simp_all

lemma read_line_Other:
  assumes c: "c # cs = l @ 10 # ys" and wf: "wf_detail (Other l)"
  shows "read_line lget arch False an (uint c) cs = Some (Some (False, an), ys)"
proof -
  have l: "10 \<notin> set l" "\<not> starts (str ''Anonymous:'') l" "\<not> starts (str ''VmFlags:'') l" using wf by auto
  consider "uint c = 65" | "uint c = 86" | "uint c \<noteq> 65" "uint c \<noteq> 86" by blast
  then show ?thesis
  proof cases
    case 1
    obtain lit' c' cs' l' where m: "match_literal lget (str ''Anonymous:'') (uint c) cs = Some ((lit', uint c'), cs')" "lit' \<noteq> []"
      "c' # cs' = l' @ 10 # ys" "10 \<notin> set l'"
      using match_literal_stops [OF c l(2) str_no_newline(1) l(1)] by blast
    then show ?thesis using 1 skip_line [OF m(3,4)] unfolding read_line_def read_anonymous_def 1 by simp
  next
    case 2
    obtain lit' c' cs' l' where m: "match_literal lget (str ''VmFlags:'') (uint c) cs = Some ((lit', uint c'), cs')" "lit' \<noteq> []"
      "c' # cs' = l' @ 10 # ys" "10 \<notin> set l'"
      using match_literal_stops [OF c l(3) str_no_newline(2) l(1)] by blast
    then show ?thesis using 2 skip_line [OF m(3,4)] unfolding read_line_def read_vmflags_def 2 by simp
  next
    case 3
    then show ?thesis using skip_line [OF c l(1)] by (simp add: read_line_def)
  qed
qed

lemma read_line_Anonymous:
  assumes c: "c # cs = print_detail (Anonymous k ds) @ ys" and wf: "wf_detail (Anonymous k ds)"
  shows "read_line lget arch d an (uint c) cs = Some (Some (d, hd ds \<noteq> 48), ys)"
proof -
  obtain d0 dt where d0: "ds = d0 # dt" using wf by (cases ds) auto
  obtain r0 rt where r0: "replicate k 32 @ ds @ 10 # ys = r0 # rt" using d0 by (cases "replicate k 32 @ ds @ 10 # ys") auto
  have c65: "uint c = 65" using c by simp
  have 1: "match_literal lget (str ''Anonymous:'') (uint c) cs = Some (([], uint r0), rt)"
    by (rule match_literal_full) (use c r0 in simp)
  have 2: "skip_while lget (\<lambda>ch. ch = 32) (uint r0) rt = Some (uint d0, dt @ 10 # ys)"
    by (rule skip_from [where xs = "replicate k 32"]) (use wf d0 r0 in auto)
  have 3: "skip_while lget (\<lambda>ch. ch \<noteq> 10 \<and> ch \<ge> 0) (uint d0) (dt @ 10 # ys) = Some (10, ys)"
    by (rule skip_line [where l = ds]) (use wf d0 in auto)
  have 4: "uint d0 = 48 \<longleftrightarrow> d0 = 48" by (simp add: word_uint_eq_iff)
  show ?thesis
    using wf d0 1 2 3 4 c65 unfolding read_line_def read_anonymous_def by simp
qed

lemma read_details_lines:
  assumes "\<And>x. x \<in> set ls \<Longrightarrow> wf_detail x"
  shows "read_details lget arch False False an (concat (map print_detail ls) @ ys) =
     read_details lget arch False False (foldl detail_anon an ls) ys"
  using assms
proof (induction ls arbitrary: an)
  case Nil
  then show ?case by simp
next
  case (Cons x xs)
  let ?r = "concat (map print_detail xs) @ ys"
  obtain c cs where c: "c # cs = print_detail x @ ?r" by (cases "print_detail x @ ?r"; cases x) auto
  have wf: "wf_detail x" using Cons.prems by simp
  have line: "read_line lget arch False an (uint c) cs = Some (Some (False, detail_anon an x), ?r)"
    using c wf read_line_Other [of c cs _ ?r] read_line_Anonymous [of c cs _ _ ?r] by (cases x) auto
  have "\<not> segment_start (uint c)"
    using c wf by (cases x) (auto simp: segment_start_def Cons_eq_append_conv)
  then have "read_details lget arch False False an (c # cs) = read_details lget arch False False (detail_anon an x) ?r"
    using line by (subst read_details.simps) (auto simp: segment_start_def)
  with c Cons show ?case by simp
qed

subsection \<open>Flags\<close>

definition is_lower :: "byte \<Rightarrow> bool" where
  "is_lower c \<longleftrightarrow> 97 \<le> uint c \<and> uint c \<le> 122"

definition wf_flag :: "byte list \<Rightarrow> bool" where
  "wf_flag f \<longleftrightarrow> length f = 2 \<and> (\<forall>c \<in> set f. is_lower c)"

definition no_dump_flag :: "bool \<Rightarrow> byte list \<Rightarrow> bool" where
  "no_dump_flag aarch64 f \<longleftrightarrow> f = str ''dd'' \<or> aarch64 \<and> f = str ''pf''"

definition print_flags :: "byte list list \<Rightarrow> byte list" where
  "print_flags fs = concat (map (\<lambda>f. 32 # f) fs) @ [32, 10]"

lemma wf_flag_newline: "wf_flag f \<Longrightarrow> 10 \<notin> set f"
  by (auto simp: wf_flag_def is_lower_def)

lemma read_flag_print:
  assumes "wf_flag [a, b]"
  shows "\<exists>c cs. read_flag lget arch (uint a) (b # 32 # ys) = Some ((no_dump_flag arch [a, b], uint c), cs) \<and>
     (if no_dump_flag arch [a, b] then c # cs = b # 32 # ys else c # cs = 32 # ys)"
proof -
  have a: "uint a = 100 \<longleftrightarrow> a = 100" "uint b = 100 \<longleftrightarrow> b = 100" "uint a = 112 \<longleftrightarrow> a = 112" "uint b = 102 \<longleftrightarrow> b = 102"
    "uint b = 112 \<longleftrightarrow> b = 112"
    by (simp_all add: word_uint_eq_iff)
  have low: "97 \<le> uint a" "uint a \<le> 122" "97 \<le> uint b" "uint b \<le> 122" using assms by (auto simp: wf_flag_def is_lower_def)
  have s1: "skip_while lget (\<lambda>ch. 97 \<le> ch \<and> ch \<le> 122) (uint a) (b # 32 # ys) = Some (32, ys)"
    using skip_from [of a "b # 32 # ys" "[a, b]" 32 ys "\<lambda>ch. 97 \<le> ch \<and> ch \<le> 122"] low by auto
  have s2: "skip_while lget (\<lambda>ch. 97 \<le> ch \<and> ch \<le> 122) (uint b) (32 # ys) = Some (32, ys)"
    using skip_from [of b "32 # ys" "[b]" 32 ys "\<lambda>ch. 97 \<le> ch \<and> ch \<le> 122"] low by auto
  have s3: "skip_while lget (\<lambda>ch. 97 \<le> ch \<and> ch \<le> 122) 32 ys = Some (32, ys)"
    by (simp add: skip_while_def scan_stop)
  show ?thesis
  proof (cases "no_dump_flag arch [a, b]")
    case True
    then show ?thesis by (intro exI [of _ b] exI [of _ "32 # ys"]) (auto simp: read_flag_def no_dump_flag_def)
  next
    case False
    then show ?thesis by (intro exI [of _ 32] exI [of _ "ys"])
        (auto simp: read_flag_def no_dump_flag_def a s1 s2 s3 split: if_splits)
  qed
qed

lemma read_flags_print:
  assumes "\<And>f. f \<in> set fs \<Longrightarrow> wf_flag f"
  shows "\<exists>c cs l. read_flags lget arch 32 (tl (print_flags fs) @ ys) =
     Some ((\<exists>f \<in> set fs. no_dump_flag arch f, uint c), cs) \<and> c # cs = l @ 10 # ys \<and> 10 \<notin> set l"
  using assms
proof (induction fs)
  case Nil
  have "skip_while lget (\<lambda>ch. ch = 32) 32 (10 # ys) = Some (10, ys)"
    using skip_from [of 32 "10 # ys" "[32]" 10 ys "\<lambda>ch. ch = 32"] by simp
  then have "read_flags lget arch 32 (10 # ys) = Some ((False, 10), ys)"
    by (simp add: read_flags.simps [of lget arch 32] read_flags.simps [of lget arch 10] read_flag_def skip_while_def scan_stop)
  then show ?case by (intro exI [of _ 10] exI [of _ ys] exI [of _ "[]"]) (simp add: print_flags_def)
next
  case (Cons f fs)
  then have "wf_flag f" by simp
  then obtain a b where f: "f = [a, b]"
    by (auto simp: wf_flag_def length_Suc_conv numeral_2_eq_2)
  have pf: "print_flags fs @ ys = 32 # tl (print_flags fs) @ ys" by (cases fs) (auto simp: print_flags_def)
  let ?r = "tl (print_flags fs) @ ys"
  have "uint a \<noteq> 32" using \<open>wf_flag f\<close> f by (auto simp: wf_flag_def is_lower_def)
  then have s: "skip_while lget (\<lambda>ch. ch = 32) 32 (a # b # 32 # ?r) = Some (uint a, b # 32 # ?r)"
    using skip_from [of 32 "a # b # 32 # ?r" "[32]" a "b # 32 # ?r" "\<lambda>ch. ch = 32"] by simp
  have hd: "tl (print_flags (f # fs)) @ ys = a # b # 32 # ?r" using pf f by (simp add: print_flags_def)
  obtain c cs where rf: "read_flag lget arch (uint a) (b # 32 # ?r) = Some ((no_dump_flag arch f, uint c), cs)"
     "if no_dump_flag arch f then c # cs = b # 32 # ?r else c # cs = 32 # ?r"
    using read_flag_print [of a b arch ?r] \<open>wf_flag f\<close> f by auto
  show ?case
  proof (cases "no_dump_flag arch f")
    case True
    have "read_flags lget arch 32 (tl (print_flags (f # fs)) @ ys) = Some ((True, uint c), cs)"
      unfolding hd using s rf True by (simp add: read_flags.simps [of lget arch 32])
    moreover obtain l where "print_flags fs = l @ [10]" "10 \<notin> set l"
    proof -
      have "10 \<notin> set f" if "f \<in> set fs" for f
        using Cons.prems [of f] that wf_flag_newline by simp
      then have "10 \<notin> set (concat (map (\<lambda>f. 32 # f) fs) @ [32])" by auto
      then show ?thesis using that [of "concat (map (\<lambda>f. 32 # f) fs) @ [32]"] by (simp add: print_flags_def)
    qed
    moreover have "b \<noteq> 10" using \<open>wf_flag f\<close> f by (auto simp: wf_flag_def is_lower_def)
    ultimately show ?thesis using rf(2) True pf
      by (intro exI [of _ c] exI [of _ cs] exI [of _ "b # l"]) auto
  next
    case False
    then have "read_flags lget arch 32 (tl (print_flags (f # fs)) @ ys) = read_flags lget arch 32 ?r"
      unfolding hd using s rf by (simp add: read_flags.simps [of lget arch 32 "a # b # 32 # ?r"])
    then show ?thesis using Cons False by simp
  qed
qed

subsection \<open>Segments\<close>

record smaps_segment = segment +
  sd_lines   :: "detail list"
  sd_vmflags :: "byte list list"

definition print_segment :: "smaps_segment \<Rightarrow> byte list" where
  "print_segment d = print_header (segment.truncate d) @ concat (map print_detail (sd_lines d)) @
     str ''VmFlags:'' @ print_flags (sd_vmflags d)"

definition wf_segment :: "smaps_segment \<Rightarrow> bool" where
  "wf_segment d \<longleftrightarrow> wf_header (segment.truncate d) \<and> (\<forall>x \<in> set (sd_lines d). wf_detail x) \<and>
     (\<forall>f \<in> set (sd_vmflags d). wf_flag f)"

definition no_dump :: "bool \<Rightarrow> smaps_segment \<Rightarrow> bool" where
  "no_dump aarch64 d \<longleftrightarrow> (\<exists>f \<in> set (sd_vmflags d). no_dump_flag aarch64 f)"

definition has_anon_pages :: "smaps_segment \<Rightarrow> bool" where
  "has_anon_pages d = foldl detail_anon False (sd_lines d)"

definition kept_mapping :: "(u64 \<Rightarrow> u64 \<Rightarrow> u64) \<Rightarrow> bool \<Rightarrow> memory \<Rightarrow> u64 \<Rightarrow> smaps_segment \<Rightarrow> mapping option" where
  "kept_mapping zeros aarch64 m pagesize d =
     (let mp = (header_mapping (segment.truncate d))\<lparr>mflags := perms (segment.truncate d),
                 start_address := sd_start d + zeros (sd_start d) (sd_end d - sd_start d)\<rparr>
      in if no_dump aarch64 d \<or> \<not> sd_read d \<or> start_address mp = sd_end d then None
         else Some (mp\<lparr>write_size := content_size m pagesize (has_anon_pages d) mp\<rparr>))"

lemma next_char_Cons: "next_char (c # cs) = (uint c, cs)"
  by simp

lemma read_details_print:
  assumes "\<And>x. x \<in> set ls \<Longrightarrow> wf_detail x" "\<And>f. f \<in> set fs \<Longrightarrow> wf_flag f"
    and "ys = [] \<or> segment_start (uint (hd ys))"
  shows "read_details lget arch False False False (concat (map print_detail ls) @ str ''VmFlags:'' @ print_flags fs @ ys) =
     Some (Some (\<exists>f \<in> set fs. no_dump_flag arch f, foldl detail_anon False ls, fst (next_char ys)), snd (next_char ys))"
proof -
  let ?v = "str ''VmFlags:'' @ print_flags fs @ ys" and ?an = "foldl detail_anon False ls"
  obtain v0 vt where v: "?v = v0 # vt" by simp
  then have v0: "uint v0 = 86" by auto
  have pf: "print_flags fs @ ys = 32 # tl (print_flags fs) @ ys" by (cases fs) (auto simp: print_flags_def)
  have m: "match_literal lget (str ''VmFlags:'') (uint v0) vt = Some (([], uint (32 :: byte)), tl (print_flags fs) @ ys)"
    by (rule match_literal_full) (use v pf in simp)
  obtain c cs l where f: "read_flags lget arch 32 (tl (print_flags fs) @ ys) =
     Some ((\<exists>f \<in> set fs. no_dump_flag arch f, uint c), cs)" "c # cs = l @ 10 # ys" "10 \<notin> set l"
    using read_flags_print [OF assms(2)] by blast
  have line: "read_line lget arch False ?an (uint v0) vt = Some (Some (\<exists>f \<in> set fs. no_dump_flag arch f, ?an), ys)"
    using v0 m f skip_line [OF f(2,3)] unfolding read_line_def read_vmflags_def by simp
  have stop: "read_details lget arch False dd ?an ys = Some (Some (dd, ?an, fst (next_char ys)), snd (next_char ys))" for dd
    using assms(3) by (cases ys) (auto simp: read_details.simps [of lget arch False dd ?an] segment_start_def)
  have "read_details lget arch False False ?an (v0 # vt) =
     read_details lget arch False (\<exists>f \<in> set fs. no_dump_flag arch f) ?an ys"
    using line v0 by (subst read_details.simps) simp
  then show ?thesis
    using read_details_lines [OF assms(1), of ls arch False ?v] v stop by simp
qed

lemma is_hex_start: "segment_start (uint (hexdigit d))" if "d < 16"
  using that by (auto simp: uint_hexdigit segment_start_def)

lemma hex_nat_hd: "n > 0 \<Longrightarrow> \<exists>d < 16. hd (hex_nat n x @ r) = hexdigit d"
proof (induction n arbitrary: x r)
  case (Suc n)
  show ?case
  proof (cases n)
    case 0
    then show ?thesis by (auto intro: exI [of _ "x mod 16"])
  next
    case (Suc k)
    then show ?thesis using Suc.IH [of "x div 16" "hexdigit (x mod 16) # r"] by simp
  qed
qed simp

lemma print_segment_start: "\<exists>c cs. print_segment d @ ys = c # cs \<and> segment_start (uint c)"
proof -
  let ?n = "max 8 (hexlen (unat (sd_start d)))"
  obtain c cs where "print_segment d @ ys = c # cs" by (cases "print_segment d @ ys") (auto simp: print_segment_def)
  moreover have "\<exists>r. print_segment d @ ys = hex_nat ?n (unat (sd_start d)) @ r"
    by (simp add: print_segment_def print_header_def print_hex_def segment.truncate_def)
  ultimately show ?thesis
    using hex_nat_hd [of ?n "unat (sd_start d)"] is_hex_start by (metis list.sel(1) max.strict_coboundedI1 zero_less_numeral)
qed

lemma flags_perms: "drop_bit 1 (push_bit 1 (perms d) OR 1) AND 7 = perms d"
  "perms d AND 4 = (if sd_read d then 4 else 0)"
  unfolding perms_def
  by (cases "sd_read d"; cases "sd_write d"; cases "sd_exec d"; simp)+

lemma read_segment_print:
  assumes wf: "wf_segment d" and dev: "\<not> is_device (rtrim (take 255 (sd_name d)))"
    and c: "c # cs = print_segment d @ ys" and ys: "ys = [] \<or> segment_start (uint (hd ys))"
    and lz: "\<And>cs. lz (sd_start d) (sd_end d - sd_start d) cs = Some (zeros (sd_start d) (sd_end d - sd_start d), cs)"
  shows "read_segment lget lz arch m pg (uint c) cs =
     Some (Some (kept_mapping zeros arch m pg d, fst (next_char ys)), snd (next_char ys))"
proof -
  let ?d = "segment.truncate d"
  define r where "r = concat (map print_detail (sd_lines d)) @ str ''VmFlags:'' @ print_flags (sd_vmflags d) @ ys"
  have h: "read_header lget (uint c) cs = Some (Some (header_mapping ?d), r)"
    using wf c by (intro read_header_print) (simp_all add: wf_segment_def print_segment_def r_def)
  have det: "read_details lget arch False False False r =
     Some (Some (no_dump arch d, has_anon_pages d, fst (next_char ys)), snd (next_char ys))"
    using wf read_details_print [of "sd_lines d" "sd_vmflags d" ys arch] ys
    by (simp add: wf_segment_def no_dump_def has_anon_pages_def r_def)
  have hm: "mname (header_mapping ?d) = rtrim (take 255 (sd_name d))"
    "start_address (header_mapping ?d) = sd_start d" "end_address (header_mapping ?d) = sd_end d"
    by (simp_all add: header_mapping_def Let_def segment.truncate_def)
  have "mflags (header_mapping ?d) = push_bit 1 (perms ?d) OR 1" by (simp add: header_mapping_def Let_def)
  then have fl: "drop_bit (Suc 0) (mflags (header_mapping ?d)) AND 7 = perms ?d"
    using flags_perms(1) [of ?d] by (simp only: One_nat_def)
  have rd: "sd_read ?d = sd_read d" by (simp add: segment.truncate_def)
  show ?thesis
    using dev lz h det by (auto simp: read_segment_def Let_def hm fl flags_perms(2) rd kept_mapping_def)
qed

lemma read_segments_print:
  assumes "\<And>d. d \<in> set segs \<Longrightarrow> wf_segment d \<and> \<not> is_device (rtrim (take 255 (sd_name d))) \<and>
      (\<forall>cs. lz (sd_start d) (sd_end d - sd_start d) cs = Some (zeros (sd_start d) (sd_end d - sd_start d), cs))"
    and "next_char (concat (map print_segment segs)) = (ch, cs)"
  shows "\<exists>cs'. read_segments lget lz arch m pg (length segs) ch cs =
     Some (Some (List.map_filter (kept_mapping zeros arch m pg) segs), cs')"
  using assms
proof (induction segs arbitrary: ch cs)
  case Nil
  then show ?case by simp
next
  case (Cons d ds)
  let ?ys = "concat (map print_segment ds)"
  obtain c cs1 where c: "print_segment d @ ?ys = c # cs1" using print_segment_start by blast
  with Cons.prems(2) have ch: "ch = uint c" "cs = cs1" by auto
  have ys: "?ys = [] \<or> segment_start (uint (hd ?ys))"
  proof (cases ds)
    case (Cons e es)
    then show ?thesis using print_segment_start [of e "concat (map print_segment es)"] by auto
  qed simp
  have "read_segment lget lz arch m pg (uint c) cs1 =
     Some (Some (kept_mapping zeros arch m pg d, fst (next_char ?ys)), snd (next_char ?ys))"
    by (rule read_segment_print [OF _ _ c [symmetric] ys]) (use Cons.prems(1) [of d] in auto)
  moreover obtain cs' where "read_segments lget lz arch m pg (length ds) (fst (next_char ?ys)) (snd (next_char ?ys)) =
     Some (Some (List.map_filter (kept_mapping zeros arch m pg) ds), cs')"
    using Cons.IH [of "fst (next_char ?ys)" "snd (next_char ?ys)"] Cons.prems(1) by auto
  ultimately show ?case using ch by (auto simp: map_filter_simps split: option.splits)
qed

lemma read_smaps_print:
  assumes "\<And>d. d \<in> set segs \<Longrightarrow> wf_segment d \<and> \<not> is_device (rtrim (take 255 (sd_name d))) \<and>
      (\<forall>cs. lz (sd_start d) (sd_end d - sd_start d) cs = Some (zeros (sd_start d) (sd_end d - sd_start d), cs))"
    and "segs \<noteq> []"
  shows "\<exists>cs'. read_smaps lget lz arch m pg (length segs) (concat (map print_segment segs)) =
     Some (Some (List.map_filter (kept_mapping zeros arch m pg) segs), cs')"
proof -
  obtain d ds where segs: "segs = d # ds" using assms(2) by (cases segs) auto
  obtain c cs where c: "concat (map print_segment segs) = c # cs"
    using print_segment_start [of d "concat (map print_segment ds)"] segs by auto
  from read_segments_print [OF assms(1), of segs "uint c" cs arch m pg] c show ?thesis
    by (simp add: read_smaps_def)
qed

lemma read_smaps_device:
  assumes wf: "wf_header d" and dev: "is_device (rtrim (take 255 (sd_name d)))"
  shows "\<exists>cs. read_smaps lget lz arch m pg (Suc (Suc n)) (print_header d @ str ''Size:'' @ ys) = Some (None, cs)"
proof -
  let ?r = "str ''Size:'' @ ys"
  obtain c cs where c: "c # cs = print_header d @ ?r" by (cases "print_header d @ ?r") auto
  have h: "read_header lget (uint c) cs = Some (Some (header_mapping d), ?r)"
    by (rule read_header_print [OF wf c])
  have det: "read_details lget arch True False False ?r = Some (Some (False, False, 101), 58 # ys)"
    by (simp add: read_details.simps [of lget arch True False False "_ # _"])
  have hm: "mname (header_mapping d) = rtrim (take 255 (sd_name d))" by (simp add: header_mapping_def Let_def)
  have 1: "read_segment lget lz arch m pg (uint c) cs = Some (Some (None, 101), 58 # ys)"
    using h det dev by (simp add: read_segment_def hm Let_def)
  have "GetHexWithInitChar lget 101 (58 # ys) = Some ((14, 58), ys)"
    using scan_from [of 101 "58 # ys" "[101]" 58 ys is_hex hex_step 0]
    by (simp add: GetHexWithInitChar_def GetHexHelper_def is_hex_def hex_step_def)
  then have 2: "read_segment lget lz arch m pg 101 (58 # ys) = Some (None, ys)"
    by (simp add: read_segment_def read_header_def)
  show ?thesis unfolding c [symmetric] using 1 2 by (simp add: read_smaps_def)
qed

subsection \<open>From the file to the list\<close>

text \<open>
  \<open>sims\<close> is the half of \<open>reads\<close> that asks nothing when the list run has no result; it also
  covers the calls of \<open>LeadingZeros\<close>, whose reference is defined for whole pages only.
\<close>

definition sims :: "('i \<Rightarrow> bool) \<Rightarrow> ('i \<Rightarrow> byte list) \<Rightarrow> ('i \<Rightarrow> ('r \<times> 'i) option) \<Rightarrow>
    (byte list \<Rightarrow> ('r \<times> byte list) option) \<Rightarrow> 'i \<Rightarrow> bool" where
  "sims ok rest p q i \<longleftrightarrow> (ok i \<longrightarrow> (\<forall>r cs. q (rest i) = Some (r, cs) \<longrightarrow> (\<exists>i'. p i = Some (r, i') \<and> rest i' = cs \<and> ok i')))"

lemma reads_sims: "reads ok rest p q i \<Longrightarrow> sims ok rest p q i"
  by (auto simp: reads_def sims_def)

lemma sims_bind:
  assumes "sims ok rest p q i" and "\<And>r i'. ok i' \<Longrightarrow> sims ok rest (k r) (k' r) i'"
  shows "sims ok rest (\<lambda>i. Option.bind (p i) (\<lambda>(r, i). k r i)) (\<lambda>cs. Option.bind (q cs) (\<lambda>(r, cs). k' r cs)) i"
  using assms unfolding sims_def by (fastforce simp: bind_eq_Some_conv)

lemma sims_if:
  assumes "b \<Longrightarrow> sims ok rest p q i" "\<not> b \<Longrightarrow> sims ok rest p' q' i"
  shows "sims ok rest (\<lambda>i. if b then p i else p' i) (\<lambda>cs. if b then q cs else q' cs) i"
  using assms by (cases b) simp_all

lemma sims_option:
  assumes "r = None \<Longrightarrow> sims ok rest p q i" "\<And>x. r = Some x \<Longrightarrow> sims ok rest (p' x) (q' x) i"
  shows "sims ok rest (\<lambda>i. case r of None \<Rightarrow> p i | Some x \<Rightarrow> p' x i) (\<lambda>cs. case r of None \<Rightarrow> q cs | Some x \<Rightarrow> q' x cs) i"
  using assms by (cases r) simp_all

lemma sims_prod:
  assumes "\<And>x y. r = (x, y) \<Longrightarrow> sims ok rest (p x y) (q x y) i"
  shows "sims ok rest (\<lambda>i. case r of (x, y) \<Rightarrow> p x y i) (\<lambda>cs. case r of (x, y) \<Rightarrow> q x y cs) i"
  using assms by (cases r) simp_all

lemma sims_return: "sims ok rest (\<lambda>i. Some (r, i)) (\<lambda>cs. Some (r, cs)) i"
  by (simp add: sims_def)

lemmas sims_rules = sims_return sims_bind sims_if sims_option sims_prod

context char_source
begin

lemma sims_read_segment:
  assumes "\<And>a n i. sims ok rest (lz a n) (lz' a n) i"
  shows "sims ok rest (read_segment getc lz arch m pg ch) (read_segment lget lz' arch m pg ch) i"
  unfolding read_segment_def Let_def
  by (intro sims_rules reads_sims [OF reads_read_header] reads_sims [OF reads_read_details] assms)

lemma sims_read_segments:
  assumes "\<And>a n i. sims ok rest (lz a n) (lz' a n) i"
  shows "sims ok rest (read_segments getc lz arch m pg n ch) (read_segments lget lz' arch m pg n ch) i"
proof (induction n arbitrary: ch i)
  case (Suc n)
  show ?case unfolding read_segments.simps
    by (intro sims_rules sims_read_segment assms Suc)
qed (simp add: sims_def)

lemma sims_read_smaps:
  assumes "\<And>a n i. sims ok rest (lz a n) (lz' a n) i"
  shows "sims ok rest (read_smaps getc lz arch m pg n) (read_smaps lget lz' arch m pg n) i"
  unfolding read_smaps_def
  by (intro sims_rules reads_sims [OF reads_getc] sims_read_segments assms)

end

definition read_keeps :: "'w kern \<Rightarrow> int \<Rightarrow> ('w \<Rightarrow> 'k) \<Rightarrow> bool" where
  "read_keeps K f keep \<longleftrightarrow> (\<forall>n w r w'. K (NR_read f n) w = (r, w') \<longrightarrow> keep w' = keep w)"

lemma GetChar_keeps:
  assumes "read_keeps K (io_fd i) keep" "intr_bounded K q" "GetChar K (i, s) = Some (c, i', s')"
  shows "keep (world s') = keep (world s) \<and> io_fd i' = io_fd i"
proof (cases "io_rest i")
  case (Cons c cs)
  then show ?thesis using assms(3) by (auto simp: GetChar_def)
next
  case Nil
  obtain rc r e t w where call: "MY_NO_INTR (sys0_long K (NR_read (io_fd i) 4096) 0) s = Some ((rc, r, e), t)"
    "keep w = keep (world s)" "K (NR_read (io_fd i) 4096) w = (r, world t)"
    using MY_NO_INTR_call [OF assms(2), of "\<lambda>w. keep w = keep (world s)" s "NR_read (io_fd i) 4096"] assms(1)
    unfolding read_keeps_def by metis
  then have "keep (world t) = keep (world s)" using assms(1) unfolding read_keeps_def by metis
  with call Nil assms(3) show ?thesis
    by (auto simp: GetChar_def c_read_def split: if_splits list.splits)
qed

definition smaps_ok :: "'w kern \<Rightarrow> memory \<Rightarrow> (u64 \<Rightarrow> bool) \<Rightarrow> int \<times> int \<Rightarrow> nat \<Rightarrow>
    ('w \<Rightarrow> byte list) \<Rightarrow> ('w \<Rightarrow> byte list) \<Rightarrow> int \<Rightarrow> bool" where
  "smaps_ok K m readable lb P pipe frest f \<longleftrightarrow>
     read_ok K f frest \<and> read_keeps K f pipe \<and> loopback_ok K m readable lb P pipe frest"

interpretation smaps_file: char_source "GetChar K"
    "\<lambda>(i, s). smaps_ok K m readable lb P pipe frest (io_fd i) \<and> intr_bounded K q \<and> pipe (world s) = []"
    "\<lambda>(i, s). io_rest i @ frest (world s)" "\<lambda>(i, s). errno s = 0"
  for K m readable lb P pipe frest q
proof
  fix x :: "io \<times> 'a st"
  obtain i s where x: "x = (i, s)" by (rule prod.exhaust)
  assume "case x of (i, s) \<Rightarrow> smaps_ok K m readable lb P pipe frest (io_fd i) \<and> intr_bounded K q \<and> pipe (world s) = []"
  then have ok: "read_ok K (io_fd i) frest" "intr_bounded K q" "read_keeps K (io_fd i) pipe"
    "smaps_ok K m readable lb P pipe frest (io_fd i)" "pipe (world s) = []"
    by (auto simp: x smaps_ok_def)
  let ?rest = "\<lambda>(i, s). io_rest i @ frest (world s)"
  obtain i' s' where g: "GetChar K x = Some (fst (next_char (?rest x)), i', s')" "?rest (i', s') = snd (next_char (?rest x))"
    "?rest x = [] \<longrightarrow> errno s' = 0"
    using proc_file.getc_next [of K frest q x] ok by (auto simp: x)
  have "pipe (world s') = []" "io_fd i' = io_fd i"
    using GetChar_keeps [OF ok(3,2)] g(1) ok(5) by (auto simp: x)
  then show "\<exists>y. GetChar K x = Some (fst (next_char (?rest x)), y)
     \<and> (case y of (i, s) \<Rightarrow> smaps_ok K m readable lb P pipe frest (io_fd i) \<and> intr_bounded K q \<and> pipe (world s) = [])
     \<and> ?rest y = snd (next_char (?rest x)) \<and> (?rest x = [] \<longrightarrow> (case y of (i, s) \<Rightarrow> errno s = 0))"
    using g ok by (intro exI [of _ "(i', s')"]) simp
qed

definition zero_bytes :: "memory \<Rightarrow> (u64 \<Rightarrow> bool) \<Rightarrow> nat \<Rightarrow> u64 \<Rightarrow> u64 \<Rightarrow> u64" where
  "zero_bytes m readable P a n = of_nat (zero_pages m readable P a (unat n div P) * P)"

lemma sims_scan_zeros:
  assumes "k < 64"
  shows "sims (\<lambda>(i, s). smaps_ok K m readable lb (2 ^ k) pipe frest (io_fd i) \<and> intr_bounded K q \<and> pipe (world s) = [])
    (\<lambda>(i, s). io_rest i @ frest (world s)) (scan_zeros K lb (2 ^ k) a n)
    (\<lambda>cs. if 2 ^ k dvd unat n then Some (zero_bytes m readable (2 ^ k) a n, cs) else None) x"
proof (cases "2 ^ k dvd unat n")
  case True
  obtain i s where x: "x = (i, s)" by (rule prod.exhaust)
  from True have n: "unat n = unat n div 2 ^ k * 2 ^ k" by simp
  show ?thesis
    using LeadingZeros_pages [OF _ _ assms n, of K m readable lb pipe frest q s a]
    by (auto simp: x sims_def scan_zeros_def smaps_ok_def zero_bytes_def)
qed (simp add: sims_def)

lemma scan_invariant:
  assumes "scan getc P f a ch i = Some ((a', ch'), i')" and "I a" and "\<And>a ch. I a \<Longrightarrow> I (f a ch)"
  shows "I a' \<and> \<not> P a' ch'"
proof -
  let ?Q = "\<lambda>getc P f a (ch::int) i r. I a \<longrightarrow> (\<forall>a ch. I a \<longrightarrow> I (f a ch)) \<longrightarrow> I (fst (fst r)) \<and> \<not> P (fst (fst r)) (snd (fst r))"
  have "?Q getc P f a ch i ((a', ch'), i')"
  proof (rule scan.raw_induct [where P = ?Q, OF _ assms(1)])
    fix g getc P f a and ch :: int and i r
    assume IH: "\<And>getc P f a ch i r. g getc P f a ch i = Some r \<Longrightarrow> ?Q getc P f a ch i r"
      and eq: "(if P a ch then do { (ch', i) \<leftarrow> getc i; g getc P f (f a ch) ch' i } else Some ((a, ch), i)) = Some r"
    show "?Q getc P f a ch i r"
    proof (cases "P a ch")
      case True
      then obtain ch' i' where "g getc P f (f a ch) ch' i' = Some r"
        using eq by (auto simp: bind_eq_Some_conv)
      from IH [OF this] show ?thesis by blast
    next
      case False
      then show ?thesis using eq by auto
    qed
  qed
  then show ?thesis using assms by simp
qed

lemma rtrim_props: "length (rtrim cs) \<le> length cs" "rtrim cs \<noteq> [] \<Longrightarrow> last (rtrim cs) \<noteq> 32"
proof -
  show "length (rtrim cs) \<le> length cs"
    using length_dropWhile_le [of _ "rev cs"] by (simp add: rtrim_def)
  show "last (rtrim cs) \<noteq> 32" if "rtrim cs \<noteq> []"
    using that hd_dropWhile [of "\<lambda>c. c = 32" "rev cs"] by (simp add: rtrim_def last_rev)
qed

lemma read_name_ok:
  assumes "read_name getc ch i = Some (Some name, i')"
  shows "length name \<le> 255 \<and> (name \<noteq> [] \<longrightarrow> last name \<noteq> 32)"
proof -
  obtain cs ch' i'' where s: "scan getc (\<lambda>_ ch. ch \<noteq> 10 \<and> ch \<ge> 0)
        (\<lambda>cs ch. if length cs < FNAME_MAX - 1 then cs @ [of_int ch] else cs) [] ch i = Some ((cs, ch'), i'')" and "name = rtrim cs"
    using assms by (auto simp: read_name_def bind_eq_Some_conv split: if_splits)
  moreover have "length cs \<le> 255"
    using scan_invariant [OF s, of "\<lambda>cs. length cs \<le> 255"] by simp
  ultimately show ?thesis using rtrim_props [of cs] by auto
qed

definition mapping_ok :: "u64 \<Rightarrow> mapping \<Rightarrow> bool" where
  "mapping_ok pagesize mp \<longleftrightarrow>
     mflags mp AND PF_R \<noteq> 0 \<and> mflags mp \<le> PF_MASK \<and> start_address mp \<noteq> end_address mp \<and>
     length (mname mp) < FNAME_MAX \<and> (mname mp \<noteq> [] \<longrightarrow> last (mname mp) \<noteq> 32) \<and> \<not> is_device (mname mp) \<and>
     (is_anon mp \<longleftrightarrow> mname mp = [] \<or> hd (mname mp) = 91) \<and>
     write_size mp \<in> {0, pagesize, end_address mp - start_address mp} \<and>
     (is_anon mp \<or> mflags mp AND PF_W \<noteq> 0 \<longrightarrow> write_size mp = end_address mp - start_address mp)"

lemma read_header_ok:
  assumes "read_header getc ch i = Some (Some mp, i')"
  shows "length (mname mp) < FNAME_MAX \<and> (mname mp \<noteq> [] \<longrightarrow> last (mname mp) \<noteq> 32) \<and>
     (is_anon mp \<longleftrightarrow> mname mp = [] \<or> hd (mname mp) = 91)"
proof -
  obtain ch j name where "read_name getc ch j = Some (Some name, i')" "mname mp = name"
      "is_anon mp \<longleftrightarrow> name = [] \<or> hd name = 91"
    using assms unfolding read_header_def
    by (auto simp: bind_eq_Some_conv split: if_splits option.splits)
  then show ?thesis using read_name_ok [of getc ch j name i'] by auto
qed

lemma mask_le: "x AND 7 \<le> (7 :: u16)"
  by (rule word_and_le1)

lemma read_segment_ok:
  assumes "read_segment getc lz arch m pg ch i = Some (Some (Some mp, ch'), i')"
  shows "mapping_ok pg mp"
proof -
  obtain h i1 where h: "read_header getc ch i = Some (Some h, i1)"
    using assms by (auto simp: read_segment_def bind_eq_Some_conv split: option.splits)
  obtain D i2 where D: "read_details getc arch (is_device (mname h)) False False i1 = Some (D, i2)"
    using assms h by (auto simp: read_segment_def bind_eq_Some_conv)
  then obtain dd an c where d: "D = Some (dd, an, c)" using assms h by (cases D) (auto simp: read_segment_def)
  show ?thesis
    using assms h D d read_header_ok [OF h] mask_le
    by (auto simp: read_segment_def bind_eq_Some_conv Let_def mapping_ok_def content_size_def split: if_splits)
qed

lemma read_segments_ok:
  assumes "read_segments getc lz arch m pg n ch i = Some (Some ms, i')"
  shows "(\<forall>mp \<in> set ms. mapping_ok pg mp) \<and> length ms \<le> n"
  using assms
proof (induction n arbitrary: ch i ms)
  case 0
  then show ?case by simp
next
  case (Suc n)
  obtain r i1 where r: "read_segment getc lz arch m pg ch i = Some (r, i1)"
    using Suc.prems by (auto simp: bind_eq_Some_conv)
  obtain kept ch1 where k: "r = Some (kept, ch1)" using Suc.prems r by (cases r) auto
  obtain ms1 where ms1: "read_segments getc lz arch m pg n ch1 i1 = Some (Some ms1, i')"
    "ms = (case kept of None \<Rightarrow> ms1 | Some mp \<Rightarrow> mp # ms1)"
    using Suc.prems r k by (auto simp: bind_eq_Some_conv)
  show ?case
    using Suc.IH [OF ms1(1)] ms1(2) r k by (auto split: option.splits dest: read_segment_ok)
qed

lemma read_smaps_ok:
  assumes "read_smaps getc lz arch m pg n i = Some (Some ms, i')"
  shows "(\<forall>mp \<in> set ms. mapping_ok pg mp) \<and> length ms \<le> n"
proof -
  obtain ch i1 where "read_segments getc lz arch m pg n ch i1 = Some (Some ms, i')"
    using assms by (auto simp: read_smaps_def bind_eq_Some_conv split: if_splits)
  then show ?thesis by (rule read_segments_ok)
qed

context char_source
begin

lemma read_segment_returns:
  assumes lz: "\<And>a n i. ok i \<Longrightarrow> \<exists>z i'. lz a n i = Some (z, i') \<and> ok i'" and i: "ok i"
  shows "\<exists>r i'. read_segment getc lz arch m pg ch i = Some (r, i') \<and> ok i'"
proof -
  obtain h i1 where h: "read_header getc ch i = Some (h, i1)" "ok i1"
    using reads_read_header [of ch i] i by (auto simp: reads_def)
  show ?thesis
  proof (cases h)
    case None
    with h show ?thesis by (simp add: read_segment_def)
  next
    case (Some mp)
    obtain d i2 where d: "read_details getc arch (is_device (mname mp)) False False i1 = Some (d, i2)" "ok i2"
      using reads_read_details [of arch "is_device (mname mp)" False False i1] h by (auto simp: reads_def)
    obtain z i3 where z: "lz (start_address mp) (end_address mp - start_address mp) i2 = Some (z, i3)" "ok i3"
      using lz d(2) by blast
    show ?thesis using h d z Some
      by (cases d) (auto simp: read_segment_def Let_def)
  qed
qed

lemma read_smaps_returns:
  assumes lz: "\<And>a n i. ok i \<Longrightarrow> \<exists>z i'. lz a n i = Some (z, i') \<and> ok i'" and i: "ok i"
  shows "\<exists>r i'. read_smaps getc lz arch m pg n i = Some (r, i') \<and> ok i'"
proof -
  have segs: "\<exists>r i'. read_segments getc lz arch m pg n ch i = Some (r, i') \<and> ok i'" if "ok i" for ch i
    using that
  proof (induction n arbitrary: ch i)
    case (Suc n)
    obtain r i1 where "read_segment getc lz arch m pg ch i = Some (r, i1)" "ok i1"
      using read_segment_returns [of lz i arch m pg ch] lz Suc.prems by blast
    moreover obtain r2 i2 where "read_segments getc lz arch m pg n (snd (the r)) i1 = Some (r2, i2)" "ok i2"
      using Suc.IH [of i1] \<open>ok i1\<close> by blast
    ultimately show ?case by (cases r) auto
  qed simp
  obtain ch i1 where "getc i = Some (ch, i1)" "ok i1" using reads_getc [of i] i by (auto simp: reads_def)
  then show ?thesis using segs [of i1 ch] by (auto simp: read_smaps_def)
qed

end

subsection \<open>A kernel for concrete runs\<close>

text \<open>A kernel for concrete runs: descriptor 3 is the file, 4 and 5 are the ends of the pipe.\<close>

record maps_world =
  w_file :: "byte list"
  w_pipe :: "byte list"

definition maps_kernel :: "memory \<Rightarrow> maps_world kern" where
  "maps_kernel m c w =
     (case c of
        NR_write f b \<Rightarrow> let k = min (buf_len b) 1000 in
          (\<lparr>kret = of_nat k, kbytes = [], kints = []\<rparr>, w\<lparr>w_pipe := w_pipe w @ take k (buf_bytes m b)\<rparr>)
      | NR_read f n \<Rightarrow>
          if f = 3 then let k = min n (min (length (w_file w)) 1000) in
            (\<lparr>kret = of_nat k, kbytes = take k (w_file w), kints = []\<rparr>, w\<lparr>w_file := drop k (w_file w)\<rparr>)
          else let k = min n (min (length (w_pipe w)) 1000) in
            (\<lparr>kret = of_nat k, kbytes = take k (w_pipe w), kints = []\<rparr>, w\<lparr>w_pipe := drop k (w_pipe w)\<rparr>)
      | _ \<Rightarrow> (\<lparr>kret = 0, kbytes = [], kints = []\<rparr>, w))"

lemma maps_read_ok: "read_ok (maps_kernel m) 3 w_file"
  unfolding read_ok_def
  by (auto simp: maps_kernel_def Let_def min_def split: if_splits)

lemma maps_loopback_ok:
  assumes "P \<le> 1000"
  shows "loopback_ok (maps_kernel m) m (\<lambda>_. True) (4, 5) P w_pipe w_file"
  using assms unfolding loopback_ok_def by (auto simp: maps_kernel_def Let_def min_def)

lemma maps_intr_bounded: "intr_bounded (maps_kernel m) (\<lambda>_. 0)"
  unfolding intr_bounded_def
proof (intro allI impI)
  fix c w r w'
  assume K: "maps_kernel m c w = (r, w')" and e: "sint (kret r) = - EINTR"
  show "(0::nat) < 0"
    using K e by (cases c) (auto simp: maps_kernel_def Let_def split: if_splits)
qed

lemma maps_smaps_ok: "P \<le> 1000 \<Longrightarrow> smaps_ok (maps_kernel m) m (\<lambda>_. True) (4, 5) P w_pipe w_file 3"
  using maps_read_ok maps_loopback_ok
  by (auto simp: smaps_ok_def read_keeps_def maps_kernel_def Let_def)

definition maps_state :: "byte list \<Rightarrow> maps_world st" where
  "maps_state bs = \<lparr>errno = 0, calls = [], world = \<lparr>w_file = bs, w_pipe = []\<rparr>\<rparr>"

definition demo_segment :: smaps_segment where
  "demo_segment = \<lparr>sd_start = 4096, sd_end = 4128, sd_read = True, sd_write = True, sd_exec = False,
     sd_shared = False, sd_offset = 0, sd_dev = str ''00:00'', sd_inode = str ''0'', sd_pad = 2,
     sd_name = str ''[heap]'', sd_lines = [Other (str ''Size: 4 kB''), Anonymous 3 (str ''4 kB'')],
     sd_vmflags = [str ''rd'', str ''wr'']\<rparr>"

definition demo_device :: segment where
  "demo_device = \<lparr>sd_start = 4096, sd_end = 8192, sd_read = True, sd_write = True, sd_exec = False,
     sd_shared = True, sd_offset = 0, sd_dev = str ''00:05'', sd_inode = str ''7'', sd_pad = 0,
     sd_name = str ''/dev/dri/card0''\<rparr>"

definition demo_memory :: memory where
  "demo_memory a = (if a = 4120 then 1 else 0)"

lemma demo_segment_ok: "wf_segment demo_segment \<and> \<not> is_device (rtrim (take 255 (sd_name demo_segment))) \<and>
   2 ^ 4 dvd unat (sd_end demo_segment - sd_start demo_segment)"
  by (simp add: demo_segment_def wf_segment_def wf_header_def segment.truncate_def segment_start_def starts_def
      wf_flag_def is_lower_def is_device_def rtrim_def)

lemma demo_segment_kept:
  "kept_mapping (zero_bytes demo_memory (\<lambda>_. True) 16) False demo_memory 16 demo_segment =
    Some \<lparr>start_address = 4112, end_address = 4128, moffset = 0, write_size = 16, mflags = 6,
      is_anon = True, mname = str ''[heap]''\<rparr>"
proof -
  have "zero_pages demo_memory (\<lambda>_. True) 16 4096 (Suc (Suc 0)) = 1"
    by (simp add: zero_page_def mem_bytes_def demo_memory_def upt_rec)
  then have "zero_pages demo_memory (\<lambda>_. True) 16 4096 2 = 1" by (simp only: numeral_2_eq_2)
  then show ?thesis
    by (simp add: kept_mapping_def demo_segment_def zero_bytes_def Let_def no_dump_def no_dump_flag_def
      header_mapping_def segment.truncate_def perms_def rtrim_def content_size_def has_anon_pages_def)
qed

subsection \<open>Properties of the parser\<close>

lemma read_smaps_process:
  assumes "smaps_ok K m readable lb (2 ^ k) pipe frest f" "intr_bounded K q" "k < 64" "pipe (world s) = []"
    and "frest (world s) = concat (map print_segment segs)" "segs \<noteq> []"
    and "\<And>d. d \<in> set segs \<Longrightarrow> wf_segment d \<and> \<not> is_device (rtrim (take 255 (sd_name d))) \<and>
       2 ^ k dvd unat (sd_end d - sd_start d)"
  shows "\<exists>i' s'. read_smaps (GetChar K) (scan_zeros K lb (2 ^ k)) arch m (2 ^ k) (length segs) (\<lparr>io_fd = f, io_rest = []\<rparr>, s) =
      Some (Some (List.map_filter (kept_mapping (zero_bytes m readable (2 ^ k)) arch m (2 ^ k)) segs), i', s')"
proof -
  let ?lz = "\<lambda>a n cs. if 2 ^ k dvd unat n then Some (zero_bytes m readable (2 ^ k) a n, cs) else None"
  obtain cs where "read_smaps lget ?lz arch m (2 ^ k) (length segs) (concat (map print_segment segs)) =
     Some (Some (List.map_filter (kept_mapping (zero_bytes m readable (2 ^ k)) arch m (2 ^ k)) segs), cs)"
    using read_smaps_print [of segs ?lz "zero_bytes m readable (2 ^ k)" arch m "2 ^ k"] assms(6,7) by auto
  moreover  have "sims (\<lambda>(i, s). smaps_ok K m readable lb (2 ^ k) pipe frest (io_fd i) \<and> intr_bounded K q \<and> pipe (world s) = [])
     (\<lambda>(i, s). io_rest i @ frest (world s)) (read_smaps (GetChar K) (scan_zeros K lb (2 ^ k)) arch m (2 ^ k) (length segs))
     (read_smaps lget ?lz arch m (2 ^ k) (length segs)) (\<lparr>io_fd = f, io_rest = []\<rparr>, s)"
    by (rule smaps_file.sims_read_smaps, rule sims_scan_zeros [OF assms(3)])
  ultimately show ?thesis using assms(1,2,4,5) by (simp add: sims_def) blast
qed

text \<open>
  C14: reading \<open>/proc/self/smaps\<close> is right on what the kernel prints. For every sequence of
  well-formed segment descriptions without device mappings, \<open>read_smaps\<close>, run by \<open>GetChar\<close> on
  the file with \<open>LeadingZeros\<close> scanning memory through the loop-back pipe, returns exactly the
  mappings that are meant to be kept, in order: readable, not marked as not to be dumped,
  cut by their leading zero pages, with names, flags, offsets and content sizes as printed.
\<close>

theorem smaps_roundtrip:
  assumes "smaps_ok K m readable lb (2 ^ k) pipe frest f" "intr_bounded K q" "k < 64" "pipe (world s) = []"
    and "frest (world s) = concat (map print_segment segs)" "segs \<noteq> []"
    and "\<And>d. d \<in> set segs \<Longrightarrow> wf_segment d \<and> \<not> is_device (rtrim (take 255 (sd_name d))) \<and>
       2 ^ k dvd unat (sd_end d - sd_start d)"
  shows "\<exists>i' s'. read_smaps (GetChar K) (scan_zeros K lb (2 ^ k)) arch m (2 ^ k) (length segs) (\<lparr>io_fd = f, io_rest = []\<rparr>, s) =
      Some (Some (List.map_filter (kept_mapping (zero_bytes m readable (2 ^ k)) arch m (2 ^ k)) segs), i', s')"
  using assms by (rule read_smaps_process)

theorem smaps_roundtrip_witness:
  "\<exists>i' s'. read_smaps (GetChar (maps_kernel demo_memory)) (scan_zeros (maps_kernel demo_memory) (4, 5) 16) False demo_memory 16 1
     (\<lparr>io_fd = 3, io_rest = []\<rparr>, maps_state (print_segment demo_segment)) =
     Some (Some [\<lparr>start_address = 4112, end_address = 4128, moffset = 0, write_size = 16, mflags = 6,
                  is_anon = True, mname = str ''[heap]''\<rparr>], i', s')"
  using smaps_roundtrip [OF maps_smaps_ok maps_intr_bounded, of 4 "maps_state (print_segment demo_segment)"
       "[demo_segment]" demo_memory False] demo_segment_ok
  by (simp add: maps_state_def map_filter_simps demo_segment_kept)

text \<open>
  C33: a device mapping makes the dump fail. When the file starts with the header of a
  device mapping followed by its \<open>Size:\<close> line, and at least one more mapping is expected,
  \<open>read_smaps\<close> ends in \<open>read_error\<close>: the letter \<open>e\<close> of \<open>Size\<close> is taken for the start of the
  next segment.
\<close>

theorem smaps_device_fails:
  assumes "read_ok K f frest" "intr_bounded K q" "wf_header d" "is_device (rtrim (take 255 (sd_name d)))"
    and "frest (world s) = print_header d @ str ''Size:'' @ ys"
  shows "\<exists>i' s'. read_smaps (GetChar K) lz arch m pg (Suc (Suc n)) (\<lparr>io_fd = f, io_rest = []\<rparr>, s) = Some (None, i', s')"
proof -
  let ?lz = "\<lambda>a n cs. None"
  obtain cs where "read_smaps lget ?lz arch m pg (Suc (Suc n)) (print_header d @ str ''Size:'' @ ys) = Some (None, cs)"
    using read_smaps_device [OF assms(3,4)] by blast
  moreover have "sims (\<lambda>(i, s). read_ok K (io_fd i) frest \<and> intr_bounded K q) (\<lambda>(i, s). io_rest i @ frest (world s))
     (read_smaps (GetChar K) lz arch m pg (Suc (Suc n))) (read_smaps lget ?lz arch m pg (Suc (Suc n))) (\<lparr>io_fd = f, io_rest = []\<rparr>, s)"
    by (rule proc_file.sims_read_smaps) (simp add: sims_def)
  ultimately show ?thesis using assms(1,2,5) by (simp add: sims_def) blast
qed

theorem smaps_device_fails_witness:
  "\<exists>i' s'. read_smaps (GetChar (maps_kernel (\<lambda>_. 0))) (scan_zeros (maps_kernel (\<lambda>_. 0)) (4, 5) 16) False (\<lambda>_. 0) 16 2
     (\<lparr>io_fd = 3, io_rest = []\<rparr>, maps_state (print_header demo_device @ str ''Size:'' @ print_segment demo_segment)) =
     Some (None, i', s')"
proof -
  have "is_device (rtrim (take 255 (sd_name demo_device)))" "wf_header demo_device"
    by (simp_all add: demo_device_def is_device_def rtrim_def wf_header_def)
  then show ?thesis
    using smaps_device_fails [OF maps_read_ok maps_intr_bounded, of demo_device
       "maps_state (print_header demo_device @ str ''Size:'' @ print_segment demo_segment)" "print_segment demo_segment"]
    by (simp only: maps_state_def st.simps maps_world.simps numeral_2_eq_2)
qed


text \<open>
  C26: \<open>LeadingZeros\<close> returns the size of the leading pages that cannot be read or hold only
  zeros, for every region of whole pages, through a loop-back pipe, and leaves the pipe
  empty.
\<close>

theorem LeadingZeros_correct:
  assumes "loopback_ok K m readable lb (2 ^ k) pipe keep" "intr_bounded K q" "k < 64"
    and "unat len = n * 2 ^ k" "pipe (world s) = []"
  shows "\<exists>s'. LeadingZeros K lb a len (2 ^ k) s = Some (of_nat (zero_pages m readable (2 ^ k) a n * 2 ^ k), s')
     \<and> keep (world s') = keep (world s) \<and> pipe (world s') = []"
  by (rule LeadingZeros_pages [OF assms])

theorem LeadingZeros_correct_witness:
  "\<exists>s'. LeadingZeros (maps_kernel demo_memory) (4, 5) 4096 32 16 (maps_state []) = Some (16, s') \<and> w_pipe (world s') = []"
proof -
  have "zero_pages demo_memory (\<lambda>_. True) 16 4096 (Suc (Suc 0)) = 1"
    by (simp add: zero_page_def mem_bytes_def demo_memory_def upt_rec)
  then show ?thesis
    using LeadingZeros_correct [OF maps_loopback_ok maps_intr_bounded, of 4 32 "Suc (Suc 0)" "maps_state []" demo_memory 4096]
    by (auto simp: maps_state_def)
qed



end
