(* ===== verification/Elf_File.thy ===== *)
theory Elf_File
  imports Elf_Core Smaps_Roundtrip "HOL-Library.Multiset"
begin

text \<open>
  The core file as a debugger reads it. \<open>core_image\<close> is the concatenation of everything that
  \<open>write_core\<close> passes to the writer; the offsets and sizes in the headers, computed with
  64-bit words before anything is written, are shown to be the positions and sizes in this
  sequence. \<open>core_phdrs\<close>, \<open>segment_data\<close> and \<open>parse_notes\<close> are the reader; \<open>core_notes\<close>
  is what it should find.
\<close>

subsection \<open>Limiting by priority: what it does\<close>

definition sizes_sum :: "mapping list \<Rightarrow> nat" where
  "sizes_sum ms = sum_list (map (\<lambda>mp. unat (write_size mp)) ms)"

lemma find_largest_best:
  assumes "find_largest ms i best = r"
  shows "(r = None \<longleftrightarrow> ms = [] \<and> best = None) \<and>
     (\<forall>j w. r = Some (j, w) \<longrightarrow> (\<forall>mp \<in> set ms. write_size mp \<le> w) \<and> (\<forall>k v. best = Some (k, v) \<longrightarrow> v \<le> w))"
  using assms
proof (induction ms arbitrary: i best)
  case (Cons mp ms)
  let ?b = "case best of None \<Rightarrow> Some (i, write_size mp)
        | Some (j, w) \<Rightarrow> if w < write_size mp then Some (i, write_size mp) else best"
  obtain k v where b: "?b = Some (k, v)" "write_size mp \<le> v" "\<forall>k' v'. best = Some (k', v') \<longrightarrow> v' \<le> v"
  proof (cases best)
    case (Some p)
    then show ?thesis using that by (cases p; cases "snd p < write_size mp") auto
  qed (use that in auto)
  have "find_largest ms (Suc i) ?b = r" using Cons.prems by simp
  from Cons.IH [OF this] b show ?case
    by (auto intro: order_trans)
qed auto

lemma find_largest_spec:
  assumes "find_largest ms 0 None = Some (j, w)"
  shows "j < length ms" "w = write_size (ms ! j)" "\<And>i. i < length ms \<Longrightarrow> write_size (ms ! i) \<le> w"
  using find_largest_Some [OF assms] find_largest_best [OF assms] by auto

lemma find_largest_None: "find_largest ms 0 None = None \<longleftrightarrow> ms = []"
  using find_largest_best [OF refl, of ms 0 None] by auto

lemma set_write_size_simps [simp]:
  "length (set_write_size ms j v) = length ms"
  "j < length ms \<Longrightarrow> set_write_size ms j v ! i = (if i = j then (ms ! j)\<lparr>write_size := v\<rparr> else ms ! i)"
  by (auto simp: set_write_size_def)

lemma sizes_sum_set:
  "j < length ms \<Longrightarrow> sizes_sum (set_write_size ms j v) + unat (write_size (ms ! j)) = sizes_sum ms + unat v"
  unfolding sizes_sum_def set_write_size_def
proof (induction ms arbitrary: j)
  case (Cons mp ms)
  then show ?case by (cases j) auto
qed simp

lemma unat_total_size:
  "unat base + sizes_sum ms < 2 ^ 64 \<Longrightarrow> unat (total_size base ms) = unat base + sizes_sum ms"
proof (induction ms arbitrary: base)
  case Nil
  then show ?case by (simp add: total_size_def sizes_sum_def)
next
  case (Cons mp ms)
  have u: "unat (base + write_size mp) = unat base + unat (write_size mp)"
    using Cons.prems by (intro unat_plus_u64) (simp add: sizes_sum_def)
  then have "unat (total_size (base + write_size mp) ms) = unat (base + write_size mp) + sizes_sum ms"
    using Cons.prems by (intro Cons.IH) (simp add: sizes_sum_def)
  then show ?case using u by (simp add: total_size_def sizes_sum_def add.assoc)
qed

lemma limit_step:
  assumes "find_largest ms 0 None = Some (j, w)" "total_size base ms > limit" "w > 0" "total_size base ms - limit > w"
  shows "limit_by_priority base limit ms = limit_by_priority base limit (set_write_size ms j 0)"
  using assms by (subst limit_by_priority.simps) simp

lemma limit_stop:
  assumes "find_largest ms 0 None = Some (j, w)"
    and "\<not> (total_size base ms > limit \<and> w > 0 \<and> total_size base ms - limit > w)"
  shows "limit_by_priority base limit ms =
    (if total_size base ms > limit \<and> w > 0 then set_write_size ms j (w - (total_size base ms - limit)) else ms)"
  using assms by (subst limit_by_priority.simps) auto

declare limit_by_priority.simps [simp del]

text \<open>An induction rule that follows the rounds of the loop.\<close>

lemma limit_induct [case_names empty step stop]:
  assumes "\<And>ms. ms = [] \<Longrightarrow> P ms"
    and "\<And>ms j w. find_largest ms 0 None = Some (j, w) \<Longrightarrow> total_size base ms > limit \<Longrightarrow> w > 0 \<Longrightarrow>
       total_size base ms - limit > w \<Longrightarrow> P (set_write_size ms j 0) \<Longrightarrow> P ms"
    and "\<And>ms j w. find_largest ms 0 None = Some (j, w) \<Longrightarrow>
       \<not> (total_size base ms > limit \<and> w > 0 \<and> total_size base ms - limit > w) \<Longrightarrow> P ms"
  shows "P ms"
proof (induction "nonzero_sizes ms" arbitrary: ms rule: less_induct)
  case less
  show ?case
  proof (cases "find_largest ms 0 None")
    case None
    then show ?thesis using assms(1) find_largest_None by blast
  next
    case (Some p)
    obtain j w where p: "find_largest ms 0 None = Some (j, w)" using Some by (cases p) auto
    show ?thesis
    proof (cases "total_size base ms > limit \<and> w > 0 \<and> total_size base ms - limit > w")
      case True
      have "nonzero_sizes (set_write_size ms j 0) < nonzero_sizes ms"
        using find_largest_spec [OF p] True by (intro nonzero_sizes_less) auto
      then show ?thesis using assms(2) [OF p] True less by blast
    next
      case False
      then show ?thesis using assms(3) [OF p] by blast
    qed
  qed
qed

lemma limit_shape:
  "length (limit_by_priority base limit ms) = length ms \<and>
   (\<forall>i < length ms. (limit_by_priority base limit ms ! i)\<lparr>write_size := 0\<rparr> = (ms ! i)\<lparr>write_size := 0\<rparr> \<and>
      write_size (limit_by_priority base limit ms ! i) \<le> write_size (ms ! i))"
proof (induction ms rule: limit_induct [where base = base and limit = limit])
  case (empty ms)
  then show ?case by (simp add: limit_by_priority.simps)
next
  case (step ms j w)
  note f = find_largest_spec [OF step(1)]
  have "limit_by_priority base limit ms = limit_by_priority base limit (set_write_size ms j 0)"
    using limit_step step by blast
  moreover have "(limit_by_priority base limit (set_write_size ms j 0) ! i)\<lparr>write_size := 0\<rparr> = (ms ! i)\<lparr>write_size := 0\<rparr> \<and>
      write_size (limit_by_priority base limit (set_write_size ms j 0) ! i) \<le> write_size (ms ! i)" if "i < length ms" for i
  proof -
    have "(limit_by_priority base limit (set_write_size ms j 0) ! i)\<lparr>write_size := 0\<rparr> = (set_write_size ms j 0 ! i)\<lparr>write_size := 0\<rparr> \<and>
      write_size (limit_by_priority base limit (set_write_size ms j 0) ! i) \<le> write_size (set_write_size ms j 0 ! i)"
      using step(5) that by simp
    then show ?thesis using f(1) by (cases "i = j") auto
  qed
  ultimately show ?case using step(5) by simp
next
  case (stop ms j w)
  note f = find_largest_spec [OF stop(1)]
  have "w - (total_size base ms - limit) \<le> w" if "total_size base ms > limit" "w > 0"
    using stop that by (intro word_sub_le) auto
  then show ?case using limit_stop [OF stop] f(1,2) by auto
qed

lemma limit_priority:
  "i < length ms \<Longrightarrow> k < length ms \<Longrightarrow>
     write_size (limit_by_priority base limit ms ! i) < write_size (ms ! i) \<Longrightarrow> write_size (ms ! i) < write_size (ms ! k) \<Longrightarrow>
     write_size (limit_by_priority base limit ms ! k) = 0"
proof (induction ms arbitrary: i k rule: limit_induct [where base = base and limit = limit])
  case (empty ms)
  then show ?case by simp
next
  case (step ms j w)
  note f = find_largest_spec [OF step(1)]
  have eq: "limit_by_priority base limit ms = limit_by_priority base limit (set_write_size ms j 0)"
    using limit_step step by blast
  have "i \<noteq> j" using f(2) f(3) [OF step.prems(2)] step.prems(4) by auto
  show ?case
  proof (cases "k = j")
    case True
    then show ?thesis using limit_shape [of base limit "set_write_size ms j 0"] eq f(1) step.prems by auto
  next
    case False
    then show ?thesis using step.IH [of i k] \<open>i \<noteq> j\<close> f(1) step.prems eq by auto
  qed
next
  case (stop ms j w)
  note f = find_largest_spec [OF stop(1)]
  have "i = j" using limit_stop [OF stop(1,2)] f(1) stop.prems by (auto split: if_splits)
  then show ?case using f(2) f(3) [OF stop.prems(2)] stop.prems by auto
qed

lemma limit_total:
  "unat base + sizes_sum ms < 2 ^ 64 \<Longrightarrow>
     (let ms' = limit_by_priority base limit ms in
      if unat base + sizes_sum ms \<le> unat limit then ms' = ms
      else unat base + sizes_sum ms' = unat limit \<or> sizes_sum ms' = 0)"
proof (induction ms rule: limit_induct [where base = base and limit = limit])
  case (empty ms)
  then show ?case by (simp add: limit_by_priority.simps sizes_sum_def)
next
  case (step ms j w)
  note f = find_largest_spec [OF step(1)]
  have eq: "limit_by_priority base limit ms = limit_by_priority base limit (set_write_size ms j 0)"
    using limit_step step by blast
  have tot: "unat (total_size base ms) = unat base + sizes_sum ms" by (rule unat_total_size [OF step.prems])
  have s: "sizes_sum (set_write_size ms j 0) + unat w = sizes_sum ms"
    using sizes_sum_set [OF f(1), of 0] f(2) by simp
  have "unat (total_size base ms - limit) = unat (total_size base ms) - unat limit"
    using step by (intro unat_sub) simp
  then have "unat base + sizes_sum (set_write_size ms j 0) > unat limit"
    using step(4) tot s by (simp add: word_less_nat_alt)
  then show ?case using step.IH s step.prems eq by (auto simp: Let_def)
next
  case (stop ms j w)
  note f = find_largest_spec [OF stop(1)]
  have tot: "unat (total_size base ms) = unat base + sizes_sum ms" by (rule unat_total_size [OF stop.prems])
  show ?case
  proof (cases "total_size base ms > limit")
    case False
    then show ?thesis using limit_stop [OF stop(1,2)] tot by (simp add: word_less_nat_alt Let_def)
  next
    case over: True
    then have nfit: "\<not> unat base + sizes_sum ms \<le> unat limit" using tot by (simp add: word_less_nat_alt)
    show ?thesis
    proof (cases "w > 0")
      case True
      let ?sp = "total_size base ms - limit"
      have sp: "unat ?sp = unat base + sizes_sum ms - unat limit" using over tot by (simp add: unat_sub)
      have "\<not> ?sp > w" using stop(2) over True by blast
      then have le: "unat ?sp \<le> unat w" by (simp add: word_le_nat_alt not_less)
      have "sizes_sum (set_write_size ms j (w - ?sp)) + unat w = sizes_sum ms + unat (w - ?sp)"
        using sizes_sum_set [OF f(1), of "w - ?sp"] f(2) by simp
      moreover have "unat (w - ?sp) = unat w - unat ?sp" using \<open>\<not> ?sp > w\<close> by (intro unat_sub) simp
      ultimately have "unat base + sizes_sum (set_write_size ms j (w - ?sp)) = unat limit"
        using sp le nfit by linarith
      then show ?thesis using limit_stop [OF stop(1,2)] over True nfit by (simp add: Let_def)
    next
      case False
      then have "\<forall>mp \<in> set ms. write_size mp = 0" using f(3) by (metis in_set_conv_nth word_gt_0 word_le_0_iff)
      then have "sizes_sum ms = 0" by (simp add: sizes_sum_def)
      then show ?thesis using limit_stop [OF stop(1,2)] False nfit by (simp add: Let_def)
    qed
  qed
qed

subsection \<open>The bytes of the file\<close>

definition bufs_bytes :: "memory \<Rightarrow> buf list \<Rightarrow> byte list" where
  "bufs_bytes m bs = concat (map (buf_bytes m) bs)"

lemma bufs_bytes_simps [simp]:
  "bufs_bytes m [] = []" "bufs_bytes m (b # bs) = buf_bytes m b @ bufs_bytes m bs"
  "bufs_bytes m (bs @ cs) = bufs_bytes m bs @ bufs_bytes m cs"
  by (simp_all add: bufs_bytes_def)

lemma bufs_bytes_concat: "bufs_bytes m (concat (map f xs)) = concat (map (\<lambda>x. bufs_bytes m (f x)) xs)"
  by (induction xs) simp_all

lemma bufs_bytes_Local: "bufs_bytes m (map (\<lambda>x. Local (f x)) xs) = concat (map f xs)"
  by (induction xs) simp_all

definition auxv_bufs :: "auxv_t list \<Rightarrow> buf list" where
  "auxv_bufs av =
     (if av = [] then []
      else [nhdr_buf 5 (of_nat (length av) * sizeof_auxv_t) NT_AUXV, CORE_name] @ map (\<lambda>x. Local (enc_auxv x)) av)"

definition note_bufs :: "arch \<Rightarrow> core_args \<Rightarrow> auxv_t list \<Rightarrow> mapping list \<Rightarrow> buf list" where
  "note_bufs a args av ms =
     process_bufs a args @ auxv_bufs av @
     concat (map (thread_bufs a (c_prstatus args)) (thread_order (c_main_pid args) (c_threads args))) @
     concat (map extra_note_bufs (c_extra_notes args)) @ nt_file_bufs (c_pagesize args) ms"

definition core_bufs :: "arch \<Rightarrow> core_args \<Rightarrow> auxv_t list \<Rightarrow> Phdr list \<Rightarrow> mapping list \<Rightarrow> buf list" where
  "core_bufs a args av extra ms =
     (let l = core_layout_of a args (length av) extra ms in
      [Local (enc_Ehdr (l_ehdr l))] @ map (\<lambda>p. Local (enc_Phdr p)) (l_phdrs l) @
      note_bufs a args av (l_mappings l) @
      (if l_align l \<noteq> 0 then [Local (replicate (unat (l_align l)) 0)] else []) @
      segment_bufs (l_mappings l) @ vdso_bufs extra)"

definition core_image :: "memory \<Rightarrow> arch \<Rightarrow> core_args \<Rightarrow> auxv_t list \<Rightarrow> Phdr list \<Rightarrow> mapping list \<Rightarrow> byte list" where
  "core_image m a args av extra ms = bufs_bytes m (core_bufs a args av extra ms)"

definition thread_ok :: "arch \<Rightarrow> thread_regs \<Rightarrow> bool" where
  "thread_ok a t \<longleftrightarrow> regs_ok a (t_regs t) \<and> length (t_fpregs t) = sizeof_fpregs a"

definition args_ok :: "arch \<Rightarrow> core_args \<Rightarrow> bool" where
  "args_ok a args \<longleftrightarrow> prpsinfo_ok (c_prpsinfo args) \<and>
     (case c_user args of None \<Rightarrow> True | Some u \<Rightarrow> length u = sizeof_core_user a) \<and>
     list_all (thread_ok a) (c_threads args) \<and> distinct (map t_pid (c_threads args)) \<and>
     (\<exists>k < 64. c_pagesize args = 2 ^ k)"

subsection \<open>The order of the threads\<close>

lemma thread_order_mset:
  assumes "distinct (map t_pid ts)"
  shows "mset (thread_order main ts) = mset ts"
proof -
  have d: "distinct (map t_pid (rev ts))" using assms by (simp add: rev_map [symmetric])
  have "mset ((case find (\<lambda>t. t_pid t = main) us of None \<Rightarrow> [] | Some t \<Rightarrow> [t]) @ filter (\<lambda>t. t_pid t \<noteq> main) us) = mset us"
    if "distinct (map t_pid us)" for us
    using that
  proof (induction us)
    case (Cons u us)
    show ?case
    proof (cases "t_pid u = main")
      case True
      then have "filter (\<lambda>t. t_pid t \<noteq> main) us = us" using Cons.prems True by (intro filter_True) (metis (no_types, lifting) distinct.simps(2) image_eqI list.set_map list.simps(9))
      with True show ?thesis by simp
    next
      case False
      then show ?thesis using Cons by (auto split: option.splits)
    qed
  qed simp
  from this [OF d] show ?thesis by (simp add: thread_order_def)
qed

lemma thread_order_set: "distinct (map t_pid ts) \<Longrightarrow> set (thread_order main ts) = set ts"
  using thread_order_mset by (metis set_mset_mset)

lemma thread_order_length: "distinct (map t_pid ts) \<Longrightarrow> length (thread_order main ts) = length ts"
  using thread_order_mset by (metis size_mset)

lemma thread_order_main: "t \<in> set ts \<Longrightarrow> t_pid t = main \<Longrightarrow> t_pid (hd (thread_order main ts)) = main"
  by (auto simp: thread_order_def find_None_iff find_Some_iff split: option.splits)

subsection \<open>Sizes as numbers\<close>

lemma of_nat_mod_u64: "of_nat n mod 2 ^ k = (of_nat (n mod 2 ^ k) :: u64)" if "k < 64"
proof -
  have p: "unat (2 ^ k :: u64) = 2 ^ k" using that unat_of_nat_u64 [of "2 ^ k"] power_strict_increasing [of k 64 "2::nat"] by simp
  have "(2::nat) ^ k dvd 2 ^ 64" using that by (intro le_imp_power_dvd) simp
  then have "n mod 2 ^ 64 mod 2 ^ k = n mod 2 ^ k" by (rule mod_mod_cancel)
  moreover have "n mod 2 ^ k < 2 ^ 64"
    using that power_strict_increasing [of k 64 "2::nat"] by (meson less_trans mod_less_divisor zero_less_power zero_less_numeral one_less_numeral_iff semiring_norm(76))
  ultimately show ?thesis
    by (simp add: word_unat_eq_iff unat_mod p unat_of_nat)
qed

lemma of_nat_mod4: "of_nat n mod 4 = (of_nat (n mod 4) :: u64)"
  using of_nat_mod_u64 [of 2 n] by simp

lemma unat_small: "n < 2 ^ 64 \<Longrightarrow> (of_nat n :: u64) = 0 \<longleftrightarrow> n = 0"
proof -
  assume "n < 2 ^ 64"
  then have "unat (of_nat n :: u64) = n" by (rule unat_of_nat_u64)
  then show ?thesis by (auto simp: word_unat_eq_iff)
qed

lemma pad4_of_nat: "pad4 (of_nat n) = of_nat (pad_to 4 n)"
proof -
  have "(of_nat (n mod 4) :: u64) = 0 \<longleftrightarrow> n mod 4 = 0" by (rule unat_small) simp
  moreover have "(4 :: u64) - of_nat (n mod 4) = of_nat (4 - n mod 4)"
    by (simp add: of_nat_diff)
  ultimately show ?thesis by (simp add: pad4_def pad_to_def of_nat_mod4)
qed

lemma note_align_of_nat:
  assumes "k < 64"
  shows "note_align (2 ^ k) (of_nat n) = of_nat (pad_to (2 ^ k) n)"
proof -
  let ?r = "n mod 2 ^ k"
  have lt: "?r < 2 ^ k" by simp
  have k: "(2::nat) ^ k < 2 ^ 64" using assms by (intro power_strict_increasing) auto
  have "(of_nat ?r :: u64) = 0 \<longleftrightarrow> ?r = 0" by (rule unat_small) (use lt k in linarith)
  moreover have "(2 ^ k :: u64) - of_nat ?r = of_nat (2 ^ k - ?r)" using lt by (simp add: of_nat_diff)
  ultimately show ?thesis
    unfolding note_align_def pad_to_def of_nat_mod_u64 [OF assms] Let_def by simp
qed

lemma nt_file_desc_len_nat:
  "nt_file_desc_len ms = of_nat (sum_list (map (\<lambda>mp. 25 + name_len mp) (file_mappings ms)))"
proof -
  have "sum_list (map (\<lambda>mp. 24 + of_nat (name_len mp) + 1) xs) = (of_nat (sum_list (map (\<lambda>mp. 25 + name_len mp) xs)) :: u64)" for xs
    by (induction xs) (simp_all add: algebra_simps)
  then show ?thesis by (simp only: nt_file_desc_len_def)
qed

lemma extra_note_size_nat:
  "extra_note_size n = of_nat (length (bufs_bytes m (extra_note_bufs n)))"
proof -
  have s: "of_nat (length (note_name n)) + 1 = (of_nat (length (note_name n) + 1) :: u64)" by simp
  show ?thesis
    unfolding extra_note_size_def extra_note_bufs_def Let_def s pad4_of_nat
    by (simp add: nhdr_buf_def)
qed

lemma length_thread_bufs:
  "thread_ok a t \<Longrightarrow> length (bufs_bytes m (thread_bufs a p t)) = 40 + sizeof_prstatus a + sizeof_fpregs a"
  by (simp add: thread_bufs_def nhdr_buf_def CORE_name_def thread_ok_def length_enc_prstatus [of a])

lemma length_concat_map: "length (concat (map f xs)) = sum_list (map (\<lambda>x. length (f x)) xs)"
  by (simp add: length_concat comp_def)

lemma sum_list_of_nat: "sum_list (map (\<lambda>x. of_nat (f x)) xs) = (of_nat (sum_list (map f xs)) :: u64)"
  by (induction xs) simp_all

lemma note_parts_length:
  assumes "args_ok a args"
  shows "length (bufs_bytes m (process_bufs a args)) = 156 + (case c_user args of None \<Rightarrow> 0 | Some _ \<Rightarrow> 20 + sizeof_core_user a)"
    and "length (bufs_bytes m (auxv_bufs av)) = (if av = [] then 0 else 20 + 16 * length av)"
    and "length (bufs_bytes m (concat (map (thread_bufs a (c_prstatus args)) (thread_order (c_main_pid args) (c_threads args))))) =
      length (c_threads args) * (40 + sizeof_prstatus a + sizeof_fpregs a)"
proof -
  let ?ts = "thread_order (c_main_pid args) (c_threads args)"
  have d: "distinct (map t_pid (c_threads args))" and th: "\<And>t. t \<in> set ?ts \<Longrightarrow> thread_ok a t"
    using assms thread_order_set by (auto simp: args_ok_def list_all_iff)
  show "length (bufs_bytes m (process_bufs a args)) = 156 + (case c_user args of None \<Rightarrow> 0 | Some _ \<Rightarrow> 20 + sizeof_core_user a)"
    using assms by (cases "c_user args") (simp_all add: args_ok_def process_bufs_def nhdr_buf_def CORE_name_def length_enc_prpsinfo)
  show "length (bufs_bytes m (auxv_bufs av)) = (if av = [] then 0 else 20 + 16 * length av)"
    by (simp add: auxv_bufs_def nhdr_buf_def CORE_name_def bufs_bytes_Local auxv.length_table list_all_iff)
  have "sum_list (map (\<lambda>t. length (bufs_bytes m (thread_bufs a (c_prstatus args) t))) ts) =
     length ts * (40 + sizeof_prstatus a + sizeof_fpregs a)" if "\<And>t. t \<in> set ts \<Longrightarrow> thread_ok a t" for ts
    using that by (induction ts) (simp_all add: length_thread_bufs)
  from this [of ?ts, OF th]
  show "length (bufs_bytes m (concat (map (thread_bufs a (c_prstatus args)) ?ts))) =
     length (c_threads args) * (40 + sizeof_prstatus a + sizeof_fpregs a)"
    unfolding bufs_bytes_concat length_concat_map thread_order_length [OF d] .
qed

lemma note_size:
  assumes "args_ok a args"
  shows "of_nat (length (bufs_bytes m (note_bufs a args av ms))) = note_filesz a args (length av) ms"
proof -
  have e: "(of_nat (length (bufs_bytes m (concat (map extra_note_bufs (c_extra_notes args))))) :: u64) =
     sum_list (map extra_note_size (c_extra_notes args))"
    unfolding bufs_bytes_concat length_concat_map extra_note_size_nat [of _ m] sum_list_of_nat by simp
  have f: "(of_nat (length (bufs_bytes m (nt_file_bufs (c_pagesize args) ms))) :: u64) =
     (if file_mappings ms \<noteq> [] then 36 + nt_file_desc_len ms + pad4 (nt_file_desc_len ms) else 0)"
  proof (cases "file_mappings ms = []")
    case False
    have s: "sum_list (map (\<lambda>mp. 25 + name_len mp) xs) = 24 * length xs + sum_list (map (\<lambda>mp. Suc (name_len mp)) xs)" for xs
      by (induction xs) simp_all
    have "length (bufs_bytes m (nt_file_bufs (c_pagesize args) ms)) =
       36 + sum_list (map (\<lambda>mp. 25 + name_len mp) (file_mappings ms)) + unat (pad4 (nt_file_desc_len ms))"
      using False unfolding s
      by (simp add: nt_file_bufs_def Let_def nhdr_buf_def CORE_name_def bufs_bytes_Local length_concat_map sum_list_triv pad4_def)
    then show ?thesis using False by (simp add: nt_file_desc_len_nat)
  qed (simp add: nt_file_bufs_def)
  show ?thesis
    unfolding note_bufs_def bufs_bytes_simps length_append of_nat_add note_parts_length [OF assms] e f note_filesz_def
    by (simp add: algebra_simps split: option.splits)
qed

subsection \<open>Where the parts of the file are\<close>

definition load_phdr :: "u64 \<Rightarrow> u64 \<Rightarrow> mapping \<Rightarrow> Phdr" where
  "load_phdr pagesize offset mp =
     \<lparr>p_type = PT_LOAD, p_flags = ucast (mflags mp AND PF_MASK), p_offset = offset,
      p_vaddr = start_address mp, p_paddr = 0, p_filesz = write_size mp,
      p_memsz = end_address mp - start_address mp, p_align = pagesize\<rparr>"

lemma load_phdrs_spec:
  assumes "load_phdrs pg off fsz ms = (ps, off', fsz')"
  shows "length ps = length ms \<and> off' + fsz' = off + fsz + sum_list (map write_size ms) \<and>
     (\<forall>i < length ms. ps ! i = load_phdr pg (off + fsz + sum_list (map write_size (take i ms))) (ms ! i))"
  using assms
proof (induction ms arbitrary: off fsz ps)
  case (Cons mp ms)
  obtain qs where qs: "load_phdrs pg (off + fsz) (write_size mp) ms = (qs, off', fsz')" "ps = load_phdr pg (off + fsz) mp # qs"
    using Cons.prems by (auto simp: Let_def load_phdr_def split: prod.splits)
  from Cons.IH [OF qs(1)] qs(2) show ?case
    by (auto simp: nth_Cons' take_Cons' add.assoc)
qed simp

lemma extra_phdrs_spec:
  "length (extra_phdrs off fsz ps) = length ps \<and>
     (\<forall>i < length ps. extra_phdrs off fsz ps ! i =
        (ps ! i)\<lparr>p_offset := off + fsz + sum_list (map p_filesz (take i ps)), p_paddr := 0\<rparr>)"
proof (induction ps arbitrary: off fsz)
  case (Cons p ps)
  from Cons.IH [of "off + fsz" "p_filesz p"] show ?case
    by (auto simp: nth_Cons' take_Cons' add.assoc)
qed simp

lemma sum_list_words: "sum_list (map f xs) = (of_nat (sum_list (map (\<lambda>x. unat (f x)) xs)) :: u64)"
  by (induction xs) simp_all

lemma file_slice_concat:
  assumes "i < length xs"
  shows "file_slice (sum_list (map (\<lambda>x. length (f x)) (take i xs))) (length (f (xs ! i))) (concat (map f xs) @ rest) = f (xs ! i)"
proof -
  have "concat (map f xs) = concat (map f (take i xs)) @ f (xs ! i) @ concat (map f (drop (Suc i) xs))"
    using assms by (metis Cons_nth_drop_Suc append_take_drop_id concat.simps(2) concat_append list.simps(9) map_append)
  then show ?thesis by (simp add: file_slice_def length_concat_map)
qed

lemma segment_bufs_bytes:
  "bufs_bytes m (segment_bufs ms) = concat (map (\<lambda>mp. mem_bytes m (start_address mp) (unat (write_size mp))) ms)"
  unfolding segment_bufs_def by (induction ms) (auto simp: bufs_bytes_def)

lemma vdso_bufs_bytes:
  "bufs_bytes m (vdso_bufs ps) = concat (map (\<lambda>p. mem_bytes m (p_vaddr p) (unat (p_filesz p))) ps)"
  unfolding vdso_bufs_def by (induction ps) (auto simp: bufs_bytes_def)

text \<open>Everything the theorems on the file need to know of the layout.\<close>

definition num_phdrs :: "Phdr list \<Rightarrow> mapping list \<Rightarrow> nat" where
  "num_phdrs extra ms = length ms + length extra + 1"

lemma file_mappings_sizes:
  assumes "length ms' = length ms" "\<forall>i < length ms. (ms' ! i)\<lparr>write_size := 0\<rparr> = (ms ! i)\<lparr>write_size := 0\<rparr>"
  shows "map (\<lambda>mp. mp\<lparr>write_size := 0\<rparr>) ms' = map (\<lambda>mp. mp\<lparr>write_size := 0\<rparr>) ms"
  using assms by (intro nth_equalityI) auto

lemma limited_same:
  "map (\<lambda>mp. mp\<lparr>write_size := 0\<rparr>) (limited_mappings args e extra ms) = map (\<lambda>mp. mp\<lparr>write_size := 0\<rparr>) ms"
  unfolding limited_mappings_def using limit_shape by (auto intro!: file_mappings_sizes)

lemma file_mappings_map:
  "map (\<lambda>mp. mp\<lparr>write_size := 0\<rparr>) (file_mappings ms) = file_mappings (map (\<lambda>mp. mp\<lparr>write_size := 0\<rparr>) ms)"
  by (induction ms) (auto simp: file_mappings_def)

lemma note_bufs_limited:
  "note_bufs a args av (limited_mappings args' e extra ms) = note_bufs a args av ms"
proof -
  let ?z = "\<lambda>mp :: mapping. mp\<lparr>write_size := 0\<rparr>"
  have nt: "nt_file_bufs pg ms = nt_file_bufs pg (map ?z ms)" for pg ms
  proof -
    have f: "map g (file_mappings ms) = map g (file_mappings (map ?z ms))" if "\<And>mp. g (?z mp) = g mp" for g :: "mapping \<Rightarrow> 'x"
      using that by (simp add: comp_def flip: file_mappings_map)
    have "nt_file_desc_len ms = nt_file_desc_len (map ?z ms)"
      unfolding nt_file_desc_len_def by (subst f) auto
    moreover have "length (file_mappings ms) = length (file_mappings (map ?z ms))" "file_mappings ms = [] \<longleftrightarrow> file_mappings (map ?z ms) = []"
      by (simp_all flip: file_mappings_map)
    ultimately show ?thesis
      unfolding nt_file_bufs_def Let_def by (subst (1 2) f) auto
  qed
  show ?thesis unfolding note_bufs_def
    by (subst (1 2) nt) (simp add: limited_same)
qed

lemma limited_length: "length (limited_mappings args e extra ms) = length ms"
  using limited_same [of args e extra ms] by (metis length_map)

definition hdr_size :: "Phdr list \<Rightarrow> mapping list \<Rightarrow> nat" where
  "hdr_size extra ms = 64 + 56 * num_phdrs extra ms"

definition notes_bytes :: "arch \<Rightarrow> core_args \<Rightarrow> auxv_t list \<Rightarrow> mapping list \<Rightarrow> byte list" where
  "notes_bytes a args av ms = bufs_bytes (\<lambda>_. 0) (note_bufs a args av ms)"

lemma bufs_bytes_no_mem:
  "(\<And>b. b \<in> set bs \<Longrightarrow> \<exists>x. b = Local x) \<Longrightarrow> bufs_bytes m bs = bufs_bytes m' bs"
  unfolding bufs_bytes_def by (intro arg_cong [where f = concat] map_cong) (auto, metis buf_bytes.simps(1))

lemma note_bufs_Local: "b \<in> set (note_bufs a args av ms) \<Longrightarrow> \<exists>x. b = Local x"
  by (auto simp: note_bufs_def process_bufs_def auxv_bufs_def thread_bufs_def extra_note_bufs_def nt_file_bufs_def
      nhdr_buf_def CORE_name_def Let_def split: option.splits if_splits)

lemma notes_bytes_eq: "bufs_bytes m (note_bufs a args av ms) = notes_bytes a args av ms"
  unfolding notes_bytes_def by (rule bufs_bytes_no_mem) (rule note_bufs_Local)

definition seg_offset :: "arch \<Rightarrow> core_args \<Rightarrow> auxv_t list \<Rightarrow> Phdr list \<Rightarrow> mapping list \<Rightarrow> nat" where
  "seg_offset a args av extra ms =
     (let n = hdr_size extra ms + length (notes_bytes a args av ms) in n + pad_to (unat (c_pagesize args)) n)"

lemma pagesize_unat:
  "args_ok a args \<Longrightarrow> \<exists>k < 64. c_pagesize args = 2 ^ k \<and> unat (c_pagesize args) = 2 ^ k"
  unfolding args_ok_def using unat_exp_u64 by metis

lemma core_layout_facts:
  fixes a args av extra ms
  assumes ok: "args_ok a args"
  defines "l \<equiv> core_layout_of a args (length av) extra ms"
  shows "l_ehdr l = core_ehdr a (num_phdrs extra ms)"
    and "l_align l = of_nat (pad_to (unat (c_pagesize args)) (hdr_size extra ms + length (notes_bytes a args av ms)))"
    and "length (l_mappings l) = length ms"
    and "note_bufs a args av (l_mappings l) = note_bufs a args av ms"
    and "length (l_phdrs l) = num_phdrs extra ms"
    and "l_phdrs l ! 0 = note_phdr (of_nat (hdr_size extra ms)) (of_nat (length (notes_bytes a args av ms)))"
    and "\<And>i. i < length ms \<Longrightarrow> l_phdrs l ! Suc i = load_phdr (c_pagesize args)
       (of_nat (seg_offset a args av extra ms + sum_list (map (\<lambda>mp. unat (write_size mp)) (take i (l_mappings l))))) (l_mappings l ! i)"
    and "\<And>i. i < length extra \<Longrightarrow> l_phdrs l ! Suc (length ms + i) = (extra ! i)\<lparr>p_offset :=
       of_nat (seg_offset a args av extra ms + sizes_sum (l_mappings l) + sum_list (map (\<lambda>p. unat (p_filesz p)) (take i extra))), p_paddr := 0\<rparr>"
proof -
  obtain k where k: "k < 64" "c_pagesize args = 2 ^ k" and pg: "unat (c_pagesize args) = 2 ^ k"
    using pagesize_unat [OF ok] by blast
  let ?H = "hdr_size extra ms" and ?N = "length (notes_bytes a args av ms)"
  let ?pad = "pad_to (2 ^ k) (?H + ?N)"
  have N: "note_filesz a args (length av) ms = of_nat ?N"
    using note_size [OF ok, of "\<lambda>_. 0" av ms] by (simp add: notes_bytes_def)
  have H: "64 + of_nat (length ms + length extra + 1) * 56 = (of_nat ?H :: u64)"
    by (simp add: hdr_size_def num_phdrs_def algebra_simps)
  have al: "note_align (c_pagesize args) (of_nat ?H + of_nat ?N) = of_nat ?pad"
    using note_align_of_nat [OF k(1), of "?H + ?N"] by (simp add: k(2))
  define ms' where "ms' = limited_mappings args (of_nat ?H + of_nat ?pad + of_nat ?N) extra ms"
  obtain ps off' fsz' where L: "load_phdrs (c_pagesize args) (of_nat ?H + of_nat ?pad) (of_nat ?N) ms' = (ps, off', fsz')"
    by (rule prod_cases3)
  have l: "l = \<lparr>l_ehdr = core_ehdr a (num_phdrs extra ms), l_phdrs = note_phdr (of_nat ?H) (of_nat ?N) # ps @ extra_phdrs off' fsz' extra,
      l_align = of_nat ?pad, l_mappings = ms'\<rparr>"
    unfolding l_def core_layout_of_def Let_def N H al ms'_def [symmetric] L by (simp add: num_phdrs_def)
  have len: "length ms' = length ms" by (simp add: ms'_def limited_length)
  note S = load_phdrs_spec [OF L]
  have off: "of_nat ?H + of_nat ?pad + of_nat ?N = (of_nat (seg_offset a args av extra ms) :: u64)"
    by (simp add: seg_offset_def Let_def pg algebra_simps)
  show "l_ehdr l = core_ehdr a (num_phdrs extra ms)" by (simp add: l)
  show "l_align l = of_nat (pad_to (unat (c_pagesize args)) (?H + ?N))" by (simp add: l pg)
  show "length (l_mappings l) = length ms" by (simp add: l len)
  show "note_bufs a args av (l_mappings l) = note_bufs a args av ms" by (simp add: l ms'_def note_bufs_limited)
  show "length (l_phdrs l) = num_phdrs extra ms" using S extra_phdrs_spec by (simp add: l len num_phdrs_def)
  show "l_phdrs l ! 0 = note_phdr (of_nat ?H) (of_nat ?N)" by (simp add: l)
  show "l_phdrs l ! Suc i = load_phdr (c_pagesize args)
       (of_nat (seg_offset a args av extra ms + sum_list (map (\<lambda>mp. unat (write_size mp)) (take i (l_mappings l))))) (l_mappings l ! i)"
    if "i < length ms" for i
    using S that by (simp add: l len nth_append off sum_list_words [of write_size])
  show "l_phdrs l ! Suc (length ms + i) = (extra ! i)\<lparr>p_offset :=
       of_nat (seg_offset a args av extra ms + sizes_sum (l_mappings l) + sum_list (map (\<lambda>p. unat (p_filesz p)) (take i extra))), p_paddr := 0\<rparr>"
    if "i < length extra" for i
    using S that extra_phdrs_spec [of off' fsz' extra]
    by (simp add: l len nth_append off sum_list_words [of write_size] sum_list_words [of p_filesz] sizes_sum_def)
qed

lemma core_image_parts:
  fixes a args av extra ms
  assumes ok: "args_ok a args"
  defines "l \<equiv> core_layout_of a args (length av) extra ms"
  shows "core_image m a args av extra ms =
     enc_Ehdr (core_ehdr a (num_phdrs extra ms)) @ concat (map enc_Phdr (l_phdrs l)) @ notes_bytes a args av ms @
     replicate (pad_to (unat (c_pagesize args)) (hdr_size extra ms + length (notes_bytes a args av ms))) 0 @
     concat (map (\<lambda>mp. mem_bytes m (start_address mp) (unat (write_size mp))) (l_mappings l)) @
     concat (map (\<lambda>p. mem_bytes m (p_vaddr p) (unat (p_filesz p))) extra)"
proof -
  note F = core_layout_facts [where av = av and extra = extra and ms = ms, OF ok, folded l_def]
  let ?pad = "pad_to (unat (c_pagesize args)) (hdr_size extra ms + length (notes_bytes a args av ms))"
  have "unat (c_pagesize args) > 0" using pagesize_unat [OF ok] by auto
  then have "?pad < unat (c_pagesize args)" by (rule pad_to_less)
  then have "?pad < 2 ^ 64" using unsigned_less [of "c_pagesize args", where 'a = nat] by simp
  then have u: "unat (l_align l) = ?pad" unfolding F(2) by (rule unat_of_nat_u64)
  then have z: "l_align l = 0 \<longleftrightarrow> ?pad = 0" by (simp add: word_unat_eq_iff)
  show ?thesis
    unfolding core_image_def core_bufs_def Let_def l_def [symmetric] F(1,4)
    using u z by (simp add: bufs_bytes_Local notes_bytes_eq segment_bufs_bytes vdso_bufs_bytes)
qed

subsection \<open>Reading the file\<close>

text \<open>What a debugger does: the program headers the ELF header points to.\<close>

definition core_phdrs :: "byte list \<Rightarrow> Phdr list" where
  "core_phdrs img =
     (let e = dec_Ehdr img in read_table dec_Phdr (unat (e_phentsize e)) (unat (e_phnum e)) (drop (unat (e_phoff e)) img))"

definition segment_data :: "byte list \<Rightarrow> Phdr \<Rightarrow> byte list" where
  "segment_data img p = file_slice (unat (p_offset p)) (unat (p_filesz p)) img"

lemma core_ehdr_ident: "length (e_ident (core_ehdr a n)) = 16"
  by (simp add: core_ehdr_def)

lemma core_phdrs_image:
  fixes a args av extra ms
  assumes ok: "args_ok a args" and n: "num_phdrs extra ms < 2 ^ 16"
  shows "dec_Ehdr (core_image m a args av extra ms) = core_ehdr a (num_phdrs extra ms)"
    and "core_phdrs (core_image m a args av extra ms) = l_phdrs (core_layout_of a args (length av) extra ms)"
proof -
  let ?l = "core_layout_of a args (length av) extra ms" and ?n = "num_phdrs extra ms"
  note P = core_image_parts [where av = av and extra = extra and ms = ms and m = m, OF ok]
  show e: "dec_Ehdr (core_image m a args av extra ms) = core_ehdr a ?n"
    unfolding P by (rule ehdr.dec_enc) (rule core_ehdr_ident)
  have u: "unat (e_phnum (core_ehdr a ?n)) = ?n" "unat (e_phoff (core_ehdr a ?n)) = 64" "unat (e_phentsize (core_ehdr a ?n)) = 56"
    using n by (simp_all add: core_ehdr_def unat_of_nat)
  have "length (enc_Ehdr (core_ehdr a ?n)) = 64" by (rule ehdr.enc_length) (rule core_ehdr_ident)
  then have "drop 64 (core_image m a args av extra ms) = concat (map enc_Phdr (l_phdrs ?l)) @
      drop (64 + length (concat (map enc_Phdr (l_phdrs ?l)))) (core_image m a args av extra ms)"
    unfolding P by simp
  moreover have "?n = length (l_phdrs ?l)" using core_layout_facts(5) [OF ok] by metis
  ultimately show "core_phdrs (core_image m a args av extra ms) = l_phdrs ?l"
    unfolding core_phdrs_def Let_def e u
    using phdr.read_table_enc [of "l_phdrs ?l"] by (simp add: list_all_iff)
qed

lemma core_image_segments:
  fixes a args av extra ms
  assumes ok: "args_ok a args" and len: "length (core_image m a args av extra ms) < 2 ^ 64"
  defines "l \<equiv> core_layout_of a args (length av) extra ms" and "img \<equiv> core_image m a args av extra ms"
  shows "segment_data img (l_phdrs l ! 0) = notes_bytes a args av ms"
    and "\<And>i. i < length ms \<Longrightarrow> segment_data img (l_phdrs l ! Suc i) =
       mem_bytes m (start_address (l_mappings l ! i)) (unat (write_size (l_mappings l ! i)))"
    and "\<And>i. i < length extra \<Longrightarrow> segment_data img (l_phdrs l ! Suc (length ms + i)) =
       mem_bytes m (p_vaddr (extra ! i)) (unat (p_filesz (extra ! i)))"
proof -
  note P = core_image_parts [where av = av and extra = extra and ms = ms and m = m, OF ok, folded l_def img_def]
  note F = core_layout_facts [where av = av and extra = extra and ms = ms, OF ok, folded l_def]
  let ?N = "notes_bytes a args av ms" and ?H = "hdr_size extra ms"
  let ?pad = "replicate (pad_to (unat (c_pagesize args)) (?H + length ?N)) (0 :: byte)"
  let ?seg = "\<lambda>mp. mem_bytes m (start_address mp) (unat (write_size mp))"
  let ?ex = "\<lambda>p. mem_bytes m (p_vaddr p) (unat (p_filesz p))"
  define hd where "hd = enc_Ehdr (core_ehdr a (num_phdrs extra ms)) @ concat (map enc_Phdr (l_phdrs l))"
  have hd: "length hd = ?H"
    using ehdr.enc_length [OF core_ehdr_ident, of a "num_phdrs extra ms"] phdr.length_table [of "l_phdrs l"] F(5)
    by (simp add: hd_def hdr_size_def list_all_iff)
  have img: "img = hd @ ?N @ ?pad @ concat (map ?seg (l_mappings l)) @ concat (map ?ex extra)"
    unfolding P hd_def by simp
  have so: "seg_offset a args av extra ms = length (hd @ ?N @ ?pad)"
    by (simp add: seg_offset_def Let_def hd)
  have segs: "length (concat (map ?seg xs)) = sum_list (map (\<lambda>mp. unat (write_size mp)) xs)" for xs
    by (simp add: length_concat_map)
  have exs: "length (concat (map ?ex xs)) = sum_list (map (\<lambda>p. unat (p_filesz p)) xs)" for xs
    by (simp add: length_concat_map)
  have total: "length img < 2 ^ 64" using len by (simp add: img_def)
  show "segment_data img (l_phdrs l ! 0) = ?N"
  proof -
    have "?H < 2 ^ 64" "length ?N < 2 ^ 64" using total hd unfolding img by simp_all
    then have "unat (of_nat ?H :: u64) = ?H" "unat (of_nat (length ?N) :: u64) = length ?N"
      using unat_of_nat_u64 by blast+
    then show ?thesis unfolding segment_data_def F(6) note_phdr_def img using hd by (simp add: file_slice_def)
  qed
  show "segment_data img (l_phdrs l ! Suc i) = ?seg (l_mappings l ! i)" if i: "i < length ms" for i
  proof -
    let ?o = "sum_list (map (\<lambda>mp. unat (write_size mp)) (take i (l_mappings l)))"
    have "?o \<le> length (concat (map ?seg (l_mappings l)))"
      unfolding segs by (metis append_take_drop_id le_add1 map_append sum_list_append)
    then have "unat (of_nat (seg_offset a args av extra ms + ?o) :: u64) = seg_offset a args av extra ms + ?o"
      using total unfolding img so by (intro unat_of_nat_u64) simp
    moreover have "i < length (l_mappings l)" using i F(3) by simp
    ultimately show ?thesis
      using file_slice_concat [of i "l_mappings l" ?seg "concat (map ?ex extra)"]
      unfolding segment_data_def F(7) [OF i] load_phdr_def img
      by (simp add: so file_slice_def)
  qed
  show "segment_data img (l_phdrs l ! Suc (length ms + i)) = ?ex (extra ! i)" if i: "i < length extra" for i
  proof -
    let ?o = "sum_list (map (\<lambda>p. unat (p_filesz p)) (take i extra))"
    have "?o \<le> length (concat (map ?ex extra))"
      unfolding exs by (metis append_take_drop_id le_add1 map_append sum_list_append)
    then have "unat (of_nat (seg_offset a args av extra ms + sizes_sum (l_mappings l) + ?o) :: u64) =
        seg_offset a args av extra ms + sizes_sum (l_mappings l) + ?o"
      using total unfolding img so sizes_sum_def by (intro unat_of_nat_u64) (simp add: segs)
    then show ?thesis
      using file_slice_concat [of i extra ?ex "[]"] i
      unfolding segment_data_def F(8) [OF i] img
      by (simp add: so file_slice_def sizes_sum_def segs)
  qed
qed

lemma core_image_contents:
  fixes a args av extra ms
  assumes ok: "args_ok a args" and len: "length (core_image m a args av extra ms) < 2 ^ 64"
    and p: "p \<in> set (tl (l_phdrs (core_layout_of a args (length av) extra ms)))"
  shows "segment_data (core_image m a args av extra ms) p = mem_bytes m (p_vaddr p) (unat (p_filesz p))"
proof -
  let ?l = "core_layout_of a args (length av) extra ms"
  note F = core_layout_facts [where av = av and extra = extra and ms = ms, OF ok]
  note S = core_image_segments [where av = av and extra = extra and ms = ms and m = m, OF ok len]
  obtain j where j: "j < length (tl (l_phdrs ?l))" "p = tl (l_phdrs ?l) ! j" using p by (metis in_set_conv_nth)
  then have j': "j < length ms + length extra" "p = l_phdrs ?l ! Suc j"
    using F(5) by (auto simp: num_phdrs_def nth_tl)
  show ?thesis
  proof (cases "j < length ms")
    case True
    then show ?thesis using S(2) [OF True] F(7) [OF True] j'(2) by (simp add: load_phdr_def)
  next
    case False
    then obtain i where i: "j = length ms + i" "i < length extra" using j'(1) by (metis le_add_diff_inverse not_less nat_add_left_cancel_less)
    then show ?thesis using S(3) [OF i(2)] F(8) [OF i(2)] j'(2) by simp
  qed
qed

subsection \<open>Notes\<close>

record elf_note =
  en_name :: "byte list"
  en_type :: u32
  en_desc :: "byte list"

definition enc_note :: "elf_note \<Rightarrow> byte list" where
  "enc_note n =
     enc_Nhdr \<lparr>n_namesz = of_nat (length (en_name n)), n_descsz = of_nat (length (en_desc n)), n_type = en_type n\<rparr> @
     en_name n @ replicate (pad_to 4 (length (en_name n))) 0 @
     en_desc n @ replicate (pad_to 4 (length (en_desc n))) 0"

definition note_small :: "elf_note \<Rightarrow> bool" where
  "note_small n \<longleftrightarrow> length (en_name n) < 2 ^ 32 \<and> length (en_desc n) < 2 ^ 32"

function parse_notes :: "byte list \<Rightarrow> elf_note list" where
  "parse_notes bs =
     (if length bs < sizeof_Nhdr then []
      else let h = dec_Nhdr bs; ns = unat (n_namesz h); ds = unat (n_descsz h);
               r1 = drop sizeof_Nhdr bs; r2 = drop (ns + pad_to 4 ns) r1
           in \<lparr>en_name = take ns r1, en_type = n_type h, en_desc = take ds r2\<rparr> #
              parse_notes (drop (ds + pad_to 4 ds) r2))"
  by pat_completeness auto

termination parse_notes
  by (relation "measure length") auto

declare parse_notes.simps [simp del]

lemma unat_of_nat_u32: "n < 2 ^ 32 \<Longrightarrow> unat (of_nat n :: u32) = n"
  by (simp add: unat_of_nat)

lemma parse_note:
  assumes "note_small n"
  shows "parse_notes (enc_note n @ rest) = n # parse_notes rest"
proof -
  have u: "unat (of_nat (length (en_name n)) :: u32) = length (en_name n)" "unat (of_nat (length (en_desc n)) :: u32) = length (en_desc n)"
    using assms unat_of_nat_u32 by (auto simp: note_small_def)
  let ?h = "\<lparr>n_namesz = of_nat (length (en_name n)), n_descsz = of_nat (length (en_desc n)), n_type = en_type n\<rparr>"
  have h: "dec_Nhdr (enc_note n @ rest) = ?h"
    unfolding enc_note_def append.assoc by (rule nhdr.dec_enc) simp
  have d: "drop 12 (enc_note n @ rest) = en_name n @ replicate (pad_to 4 (length (en_name n))) 0 @
     en_desc n @ replicate (pad_to 4 (length (en_desc n))) 0 @ rest"
    by (simp add: enc_note_def)
  have l: "\<not> length (enc_note n @ rest) < 12" by (simp add: enc_note_def)
  show ?thesis
    unfolding parse_notes.simps [of "enc_note n @ rest"] h d if_not_P [OF l] Let_def
    by (simp add: u)
qed

lemma parse_notes_enc: "list_all note_small ns \<Longrightarrow> parse_notes (concat (map enc_note ns)) = ns"
  by (induction ns) (simp_all add: parse_note parse_notes.simps [of "[]"])

definition CORE :: "byte list" where
  "CORE = str ''CORE'' @ [0]"

definition core_note :: "u32 \<Rightarrow> byte list \<Rightarrow> elf_note" where
  "core_note t d = \<lparr>en_name = CORE, en_type = t, en_desc = d\<rparr>"

definition nt_file_desc :: "u64 \<Rightarrow> mapping list \<Rightarrow> byte list" where
  "nt_file_desc pagesize fs =
     le64 (of_nat (length fs)) @ le64 pagesize @
     concat (map (\<lambda>mp. le64 (start_address mp) @ le64 (end_address mp) @ le64 (moffset mp div pagesize)) fs) @
     concat (map (\<lambda>mp. mname mp @ [0]) fs)"

text \<open>The notes of the core file, as a debugger should find them.\<close>

definition core_notes :: "arch \<Rightarrow> core_args \<Rightarrow> auxv_t list \<Rightarrow> mapping list \<Rightarrow> elf_note list" where
  "core_notes a args av ms =
     core_note NT_PRPSINFO (enc_prpsinfo a (c_prpsinfo args)) #
     (case c_user args of None \<Rightarrow> [] | Some u \<Rightarrow> [core_note NT_PRXREG u]) @
     (if av = [] then [] else [core_note NT_AUXV (concat (map enc_auxv av))]) @
     concat (map (\<lambda>t. [core_note NT_PRSTATUS (enc_prstatus ((c_prstatus args)\<lparr>pr_pid := t_pid t, pr_reg := t_regs t\<rparr>)),
                       core_note NT_FPREGSET (t_fpregs t)])
              (thread_order (c_main_pid args) (c_threads args))) @
     map (\<lambda>n. \<lparr>en_name = note_name n @ [0], en_type = note_type n, en_desc = description n\<rparr>) (c_extra_notes args) @
     (if file_mappings ms = [] then [] else [core_note NT_FILE (nt_file_desc (c_pagesize args) (file_mappings ms))])"

lemma replicate_3: "replicate 3 x = [x, x, x]"
  by (simp add: numeral_3_eq_3)

lemma pad_to_4_shift: "pad_to 4 (16 + n) = pad_to 4 n"
proof -
  have "(16 + n) mod 4 = n mod 4" by presburger
  then show ?thesis by (simp add: pad_to_def)
qed

lemma CORE_pad: "CORE @ replicate (pad_to 4 (length CORE)) 0 @ xs = [67, 79, 82, 69, 0, 0, 0, 0] @ xs"
  by (simp add: CORE_def pad_to_def replicate_3)

lemma enc_core_note:
  assumes "4 dvd length d" "of_nat (length d) = sz"
  shows "enc_note (core_note t d) = bufs_bytes m [nhdr_buf 5 sz t, CORE_name, Local d]"
proof -
  have "pad_to 4 (length d) = 0" using assms(1) by (simp add: pad_to_def)
  then show ?thesis using assms(2) by (simp add: enc_note_def core_note_def CORE_def nhdr_buf_def CORE_name_def pad_to_def replicate_3)
qed

lemma sizeof_dvd: "4 dvd sizeof_prstatus a" "4 dvd sizeof_fpregs a" "4 dvd sizeof_core_user a"
  by (cases a; simp add: sizeof_prstatus_def)+

lemma extra_note_bytes:
  "bufs_bytes m (extra_note_bufs n) = enc_note \<lparr>en_name = note_name n @ [0], en_type = note_type n, en_desc = description n\<rparr>"
  by (simp add: extra_note_bufs_def enc_note_def nhdr_buf_def Let_def)

lemma length_nt_file_desc: "length (nt_file_desc pg fs) = 16 + sum_list (map (\<lambda>mp. 25 + name_len mp) fs)"
proof -
  have "sum_list (map (\<lambda>mp. 25 + name_len mp) fs) = 24 * length fs + sum_list (map (\<lambda>mp. Suc (name_len mp)) fs)"
    by (induction fs) simp_all
  then show ?thesis by (simp add: nt_file_desc_def length_concat_map sum_list_triv)
qed

lemma ucast_of_nat_u64: "ucast (of_nat n :: u64) = (of_nat n :: u32)"
proof -
  have "(2::nat) ^ 32 dvd 2 ^ 64" by (intro le_imp_power_dvd) simp
  then have "n mod 2 ^ 64 mod 2 ^ 32 = n mod 2 ^ 32" by (rule mod_mod_cancel)
  then show ?thesis by (simp add: word_unat_eq_iff unat_of_nat unsigned_ucast_eq take_bit_eq_mod)
qed

lemma nt_file_bytes:
  assumes "file_mappings ms \<noteq> []"
  shows "bufs_bytes m (nt_file_bufs pg ms) = enc_note (core_note NT_FILE (nt_file_desc pg (file_mappings ms)))"
proof -
  let ?fs = "file_mappings ms" and ?d = "nt_file_desc pg (file_mappings ms)"
  let ?s = "sum_list (map (\<lambda>mp. 25 + name_len mp) ?fs)"
  have dl: "nt_file_desc_len ms = of_nat ?s" by (rule nt_file_desc_len_nat)
  have sz: "ucast (nt_file_desc_len ms + 16) = (of_nat (length ?d) :: u32)"
    unfolding dl length_nt_file_desc using ucast_of_nat_u64 [of "16 + ?s"] by (simp add: add.commute)
  have pd: "pad_to 4 (length ?d) = pad_to 4 ?s" unfolding length_nt_file_desc by (rule pad_to_4_shift)
  have pad: "bufs_bytes m (if nt_file_desc_len ms mod 4 \<noteq> 0 then [Local (replicate (unat (4 - nt_file_desc_len ms mod 4)) 0)] else []) =
     replicate (pad_to 4 ?s) 0"
  proof -
    have u: "unat (pad4 (of_nat ?s)) = pad_to 4 ?s"
      unfolding pad4_of_nat using pad_to_less [of 4 ?s] by (intro unat_of_nat_u64) simp
    show ?thesis
    proof (cases "(of_nat ?s :: u64) mod 4 = 0")
      case True
      then have "pad_to 4 ?s = 0" using u by (simp only: pad4_def simp_thms if_False unat_0)
      then show ?thesis using True by (simp only: dl simp_thms if_False bufs_bytes_simps replicate_0)
    next
      case False
      then have "unat (4 - (of_nat ?s :: u64) mod 4) = pad_to 4 ?s" using u by (simp only: pad4_def simp_thms if_True)
      then show ?thesis using False by (simp only: dl simp_thms if_True bufs_bytes_simps buf_bytes.simps append_Nil2)
    qed
  qed
  have "bufs_bytes m (nt_file_bufs pg ms) =
     enc_Nhdr \<lparr>n_namesz = 5, n_descsz = of_nat (length ?d), n_type = NT_FILE\<rparr> @ [67, 79, 82, 69, 0, 0, 0, 0] @ ?d @ replicate (pad_to 4 ?s) 0"
    using assms unfolding nt_file_bufs_def Let_def sz if_not_P [OF assms] bufs_bytes_simps(3) pad
    by (simp add: bufs_bytes_Local nhdr_buf_def CORE_name_def nt_file_desc_def)
  also have "\<dots> = enc_note (core_note NT_FILE ?d)"
    unfolding enc_note_def core_note_def elf_note.simps pd CORE_pad by (simp add: CORE_def)
  finally show ?thesis .
qed

lemma notes_refine:
  assumes "args_ok a args"
  shows "notes_bytes a args av ms = concat (map enc_note (core_notes a args av ms))"
proof -
  let ?ts = "thread_order (c_main_pid args) (c_threads args)" and ?z = "\<lambda>_ :: u64. 0 :: byte"
  have th: "thread_ok a t" if "t \<in> set ?ts" for t
    using that assms thread_order_set by (auto simp: args_ok_def list_all_iff)
  have p: "bufs_bytes ?z (process_bufs a args) = concat (map enc_note
     (core_note NT_PRPSINFO (enc_prpsinfo a (c_prpsinfo args)) # (case c_user args of None \<Rightarrow> [] | Some u \<Rightarrow> [core_note NT_PRXREG u])))"
    using assms enc_core_note [of "enc_prpsinfo a (c_prpsinfo args)" 136 NT_PRPSINFO ?z] sizeof_dvd(3) [of a]
    by (auto simp: process_bufs_def args_ok_def length_enc_prpsinfo enc_core_note [where m = ?z] split: option.splits)
  have x: "bufs_bytes ?z (auxv_bufs av) = concat (map enc_note (if av = [] then [] else [core_note NT_AUXV (concat (map enc_auxv av))]))"
    using enc_core_note [of "concat (map enc_auxv av)" "of_nat (length av) * 16" NT_AUXV ?z]
    by (simp add: auxv_bufs_def auxv.length_table list_all_iff bufs_bytes_Local)
  have t1: "bufs_bytes ?z (thread_bufs a p t) = concat (map enc_note [core_note NT_PRSTATUS (enc_prstatus (p\<lparr>pr_pid := t_pid t, pr_reg := t_regs t\<rparr>)),
                       core_note NT_FPREGSET (t_fpregs t)])" if "thread_ok a t" for t p
  proof -
    have "length (enc_prstatus (p\<lparr>pr_pid := t_pid t, pr_reg := t_regs t\<rparr>)) = sizeof_prstatus a"
      using that by (intro length_enc_prstatus) (simp add: thread_ok_def)
    then show ?thesis using that sizeof_dvd [of a]
      by (simp add: thread_bufs_def thread_ok_def enc_core_note [where m = ?z])
  qed
  have t: "bufs_bytes ?z (concat (map (thread_bufs a p) ts)) = concat (map enc_note (concat (map (\<lambda>t.
      [core_note NT_PRSTATUS (enc_prstatus (p\<lparr>pr_pid := t_pid t, pr_reg := t_regs t\<rparr>)),
                       core_note NT_FPREGSET (t_fpregs t)]) ts)))" if "\<And>t. t \<in> set ts \<Longrightarrow> thread_ok a t" for ts p
    using that by (induction ts) (simp_all add: t1)
  note t = t [of ?ts "c_prstatus args"]
  have t: "bufs_bytes ?z (concat (map (thread_bufs a (c_prstatus args)) ?ts)) = concat (map enc_note (concat (map (\<lambda>t.
      [core_note NT_PRSTATUS (enc_prstatus ((c_prstatus args)\<lparr>pr_pid := t_pid t, pr_reg := t_regs t\<rparr>)),
                       core_note NT_FPREGSET (t_fpregs t)]) ?ts)))"
    by (rule t) (rule th)
  have e: "bufs_bytes ?z (concat (map extra_note_bufs ns)) = concat (map enc_note
      (map (\<lambda>n. \<lparr>en_name = note_name n @ [0], en_type = note_type n, en_desc = description n\<rparr>) ns))" for ns
    by (induction ns) (simp_all add: extra_note_bytes)
  have f: "bufs_bytes ?z (nt_file_bufs (c_pagesize args) ms) = concat (map enc_note
      (if file_mappings ms = [] then [] else [core_note NT_FILE (nt_file_desc (c_pagesize args) (file_mappings ms))]))"
    by (simp add: nt_file_bytes) (simp add: nt_file_bufs_def)
  show ?thesis
    unfolding notes_bytes_def note_bufs_def bufs_bytes_simps p x t e f core_notes_def by simp
qed

subsection \<open>Concrete arguments\<close>

definition demo_prpsinfo :: prpsinfo where
  "demo_prpsinfo = \<lparr>ps_state = 0, ps_sname = 82, ps_zomb = 0, ps_nice = 0, ps_flag = 0, ps_uid = 1000, ps_gid = 1000,
     ps_pid = 7, ps_ppid = 1, ps_pgrp = 7, ps_sid = 7, ps_fname = replicate 16 0, ps_psargs = replicate 80 0\<rparr>"

definition demo_prstatus :: prstatus where
  "demo_prstatus = \<lparr>pr_info = \<lparr>si_signo = 0, si_code = 0, si_errno = 0\<rparr>, pr_cursig = 0, pr_sigpend = 0, pr_sighold = 0,
     pr_pid = 7, pr_ppid = 1, pr_pgrp = 7, pr_sid = 7, pr_utime = \<lparr>tv_sec = 0, tv_usec = 0\<rparr>,
     pr_stime = \<lparr>tv_sec = 0, tv_usec = 0\<rparr>, pr_cutime = \<lparr>tv_sec = 0, tv_usec = 0\<rparr>, pr_cstime = \<lparr>tv_sec = 0, tv_usec = 0\<rparr>,
     pr_reg = [], pr_fpvalid = 1\<rparr>"

definition demo_thread :: "int \<Rightarrow> thread_regs" where
  "demo_thread pid = \<lparr>t_pid = pid, t_regs = replicate 27 0, t_fpregs = replicate 512 0\<rparr>"

definition demo_args :: core_args where
  "demo_args = \<lparr>c_prpsinfo = demo_prpsinfo, c_user = None, c_prstatus = demo_prstatus,
     c_threads = [demo_thread 7, demo_thread 8], c_pagesize = 16, c_prioritize = 0, c_main_pid = 7,
     c_extra_notes = [\<lparr>note_name = str ''vendor'', note_type = 9, description = [1, 2, 3, 4, 5]\<rparr>]\<rparr>"

definition demo_mapping :: mapping where
  "demo_mapping = \<lparr>start_address = 4096, end_address = 4128, moffset = 0, write_size = 32, mflags = 6,
     is_anon = True, mname = []\<rparr>"

lemma demo_args_ok: "args_ok X86_64 demo_args"
proof -
  have "\<exists>k < 64. (16 :: u64) = 2 ^ k" by (rule exI [of _ 4]) simp
  then show ?thesis
    by (simp add: args_ok_def demo_args_def demo_prpsinfo_def prpsinfo_ok_def thread_ok_def demo_thread_def regs_ok_def)
qed

lemma core_image_length:
  assumes "args_ok a args"
  shows "length (core_image m a args av extra ms) = seg_offset a args av extra ms +
     sizes_sum (l_mappings (core_layout_of a args (length av) extra ms)) + sum_list (map (\<lambda>p. unat (p_filesz p)) extra)"
proof -
  note F = core_layout_facts [where av = av and extra = extra and ms = ms, OF assms]
  have "length (enc_Ehdr (core_ehdr a (num_phdrs extra ms))) = 64" by (rule ehdr.enc_length) (rule core_ehdr_ident)
  moreover have "length (concat (map enc_Phdr (l_phdrs (core_layout_of a args (length av) extra ms)))) = 56 * num_phdrs extra ms"
    using phdr.length_table [of "l_phdrs (core_layout_of a args (length av) extra ms)"] F(5) by (simp add: list_all_iff)
  ultimately show ?thesis
    unfolding core_image_parts [where av = av and extra = extra and ms = ms, OF assms]
    by (simp add: seg_offset_def hdr_size_def Let_def length_concat_map sizes_sum_def)
qed

lemma demo_notes_length: "length (notes_bytes X86_64 demo_args [] [demo_mapping]) = 156 + 2 * 888 + 28"
  by (simp add: notes_bytes_def note_bufs_def process_bufs_def auxv_bufs_def demo_args_def demo_mapping_def nt_file_bufs_def
      file_mappings_def thread_order_def demo_thread_def thread_bufs_def extra_note_bufs_def Let_def nhdr_buf_def CORE_name_def
      enc_prstatus_def enc_prpsinfo_def demo_prpsinfo_def pad_to_def)

lemma demo_image_length: "length (core_image m X86_64 demo_args [] [] [demo_mapping]) < 2 ^ 64"
proof -
  have "limited_mappings demo_args e [] ms = ms" for e ms
    by (simp add: limited_mappings_def demo_args_def)
  then have "l_mappings (core_layout_of X86_64 demo_args 0 [] [demo_mapping]) = [demo_mapping]"
    by (simp add: core_layout_of_def Let_def split: prod.splits)
  moreover have "c_pagesize demo_args = 16" "write_size demo_mapping = 32" by (simp_all add: demo_args_def demo_mapping_def)
  ultimately show ?thesis
    by (simp add: core_image_length [OF demo_args_ok] seg_offset_def demo_notes_length hdr_size_def num_phdrs_def sizes_sum_def
        pad_to_def Let_def)
qed

subsection \<open>Properties of the file\<close>

text \<open>
  C10: a debugger that reads the file finds the right memory. The ELF header leads to one
  \<open>PT_NOTE\<close> header, one \<open>PT_LOAD\<close> header per mapping with its address, size and access
  bits, and the extra headers of the vDSO; and at the offset of every header but the first
  lie exactly the bytes of memory at its address.
\<close>

theorem core_file_program_headers:
  assumes "args_ok a args" "num_phdrs extra ms < 2 ^ 16" "length (core_image m a args av extra ms) < 2 ^ 64"
  shows "let img = core_image m a args av extra ms; ps = core_phdrs img; ms' = l_mappings (core_layout_of a args (length av) extra ms) in
     length ps = 1 + length ms + length extra \<and> p_type (hd ps) = PT_NOTE \<and>
     (\<forall>p \<in> set (tl ps). segment_data img p = mem_bytes m (p_vaddr p) (unat (p_filesz p))) \<and>
     (\<forall>i < length ms. p_type (ps ! Suc i) = PT_LOAD \<and> p_vaddr (ps ! Suc i) = start_address (ms' ! i) \<and>
        p_memsz (ps ! Suc i) = end_address (ms' ! i) - start_address (ms' ! i) \<and>
        p_filesz (ps ! Suc i) = write_size (ms' ! i) \<and> p_flags (ps ! Suc i) = ucast (mflags (ms' ! i) AND PF_MASK))"
proof -
  let ?l = "core_layout_of a args (length av) extra ms"
  note P = core_phdrs_image(2) [where av = av and extra = extra and ms = ms and m = m, OF assms(1,2)]
  note F = core_layout_facts [where av = av and extra = extra and ms = ms, OF assms(1)]
  have "l_phdrs ?l \<noteq> []" using F(5) by (auto simp: num_phdrs_def)
  then have "p_type (hd (l_phdrs ?l)) = PT_NOTE" using F(6) by (simp add: hd_conv_nth note_phdr_def)
  moreover have "\<forall>i < length ms. p_type (l_phdrs ?l ! Suc i) = PT_LOAD \<and> p_vaddr (l_phdrs ?l ! Suc i) = start_address (l_mappings ?l ! i) \<and>
        p_memsz (l_phdrs ?l ! Suc i) = end_address (l_mappings ?l ! i) - start_address (l_mappings ?l ! i) \<and>
        p_filesz (l_phdrs ?l ! Suc i) = write_size (l_mappings ?l ! i) \<and> p_flags (l_phdrs ?l ! Suc i) = ucast (mflags (l_mappings ?l ! i) AND PF_MASK)"
    using F(7) by (simp add: load_phdr_def)
  ultimately show ?thesis
    unfolding Let_def P using F(5) core_image_contents [OF assms(1,3)] by (simp add: num_phdrs_def)
qed

theorem core_file_program_headers_witness:
  "let img = core_image demo_memory X86_64 demo_args [] [] [demo_mapping]; ps = core_phdrs img in
     length ps = 2 \<and> (\<forall>p \<in> set (tl ps). segment_data img p = mem_bytes demo_memory (p_vaddr p) (unat (p_filesz p)))"
  using core_file_program_headers [OF demo_args_ok _ demo_image_length, of demo_memory]
  by (simp add: Let_def num_phdrs_def)

text \<open>
  C11: the \<open>PT_NOTE\<close> header covers exactly the notes: its offset and size, computed before
  anything is written, delimit bytes that parse as the process status, the registers of
  every thread, the notes of the caller and the list of mapped files, in this order.
\<close>

theorem core_file_notes:
  assumes "args_ok a args" "num_phdrs extra ms < 2 ^ 16" "length (core_image m a args av extra ms) < 2 ^ 64"
    and "list_all note_small (core_notes a args av ms)"
  shows "let img = core_image m a args av extra ms in
     parse_notes (segment_data img (hd (core_phdrs img))) = core_notes a args av ms"
proof -
  note P = core_phdrs_image(2) [where av = av and extra = extra and ms = ms and m = m, OF assms(1,2)]
  note F = core_layout_facts [where av = av and extra = extra and ms = ms, OF assms(1)]
  note S = core_image_segments(1) [where av = av and extra = extra and ms = ms and m = m, OF assms(1,3)]
  have "l_phdrs (core_layout_of a args (length av) extra ms) \<noteq> []" using F(5) by (auto simp: num_phdrs_def)
  then show ?thesis
    using S notes_refine [OF assms(1)] parse_notes_enc [OF assms(4)] unfolding Let_def P by (simp add: hd_conv_nth)
qed

theorem core_file_notes_witness:
  "let img = core_image demo_memory X86_64 demo_args [] [] [demo_mapping] in
     map en_type (parse_notes (segment_data img (hd (core_phdrs img)))) = [3, 1, 2, 1, 2, 9]"
proof -
  have "list_all note_small (core_notes X86_64 demo_args [] [demo_mapping])"
    by (simp add: core_notes_def demo_args_def demo_mapping_def file_mappings_def note_small_def core_note_def CORE_def thread_order_def demo_thread_def
      enc_prstatus_def enc_prpsinfo_def demo_prpsinfo_def)
  moreover have "map en_type (core_notes X86_64 demo_args [] [demo_mapping]) = [3, 1, 2, 1, 2, 9]"
    by (simp add: core_notes_def demo_args_def demo_mapping_def file_mappings_def core_note_def thread_order_def demo_thread_def)
  ultimately show ?thesis
    using core_file_notes [OF demo_args_ok _ demo_image_length, of demo_memory] by (simp add: Let_def num_phdrs_def)
qed



text \<open>
  C27: every thread is written exactly once, and the main thread comes first, as gdb
  expects of the thread that crashed.
\<close>

theorem threads_main_first:
  assumes "distinct (map t_pid ts)"
  shows "mset (thread_order main ts) = mset ts \<and>
    (main \<in> t_pid ` set ts \<longrightarrow> t_pid (hd (thread_order main ts)) = main)"
  using thread_order_mset [OF assms] thread_order_main by blast

theorem threads_main_first_witness:
  "mset (thread_order 7 [demo_thread 7, demo_thread 8]) = {#demo_thread 7, demo_thread 8#} \<and>
     t_pid (hd (thread_order 7 [demo_thread 7, demo_thread 8])) = 7"
  using threads_main_first [of "[demo_thread 7, demo_thread 8]" 7] by (simp add: demo_thread_def)

text \<open>
  The first segment starts at a multiple of the page size.
\<close>

lemma core_file_alignment:
  assumes "args_ok a args"
  shows "unat (c_pagesize args) dvd seg_offset a args av extra ms \<and>
    (ms \<noteq> [] \<longrightarrow> p_offset (l_phdrs (core_layout_of a args (length av) extra ms) ! 1) = of_nat (seg_offset a args av extra ms))"
proof -
  obtain k where "unat (c_pagesize args) = 2 ^ k" using pagesize_unat [OF assms] by blast
  then have "unat (c_pagesize args) dvd seg_offset a args av extra ms"
    unfolding seg_offset_def Let_def by (metis pad_to_dvd zero_less_numeral zero_less_power)
  then show ?thesis
    using core_layout_facts(7) [OF assms, where i = 0 and av = av and extra = extra and ms = ms] by (simp add: load_phdr_def)
qed


subsection \<open>The vDSO\<close>

lemma SanitizeVDSO_accepts:
  assumes "SanitizeVDSO m v start fin \<noteq> 0"
  defines "n \<equiv> unat (e_phnum (ehdr_at m v))" and "phdr \<equiv> v + e_phoff (ehdr_at m v)"
  shows "SanitizeVDSO m v start fin = v" "v \<noteq> 0" "start < phdr" "phdr + of_nat (56 * n) < fin"
    "p_type (phdr_at m phdr 0) = PT_LOAD" "\<And>i. 1 \<le> i \<Longrightarrow> i < n \<Longrightarrow> vdso_phdr_ok start fin (phdr_at m phdr i)"
proof -
  have "SanitizeVDSO m v start fin = v \<and> v \<noteq> 0 \<and> start < phdr \<and> phdr + of_nat (56 * n) < fin \<and>
      p_type (phdr_at m phdr 0) = PT_LOAD \<and> (\<forall>i. 1 \<le> i \<and> i < n \<longrightarrow> vdso_phdr_ok start fin (phdr_at m phdr i))"
    using assms(1) unfolding n_def phdr_def
    by (simp add: SanitizeVDSO_def Let_def list_all_iff not_le split: if_splits)
  then show "SanitizeVDSO m v start fin = v" "v \<noteq> 0" "start < phdr" "phdr + of_nat (56 * n) < fin"
    "p_type (phdr_at m phdr 0) = PT_LOAD" "\<And>i. 1 \<le> i \<Longrightarrow> i < n \<Longrightarrow> vdso_phdr_ok start fin (phdr_at m phdr i)"
    by blast+
qed

text \<open>An address space that holds given bytes from an address on.\<close>

definition list_memory :: "u64 \<Rightarrow> byte list \<Rightarrow> memory" where
  "list_memory base bs a = (let i = unat (a - base) in if i < length bs then bs ! i else 0)"

lemma mem_bytes_list:
  assumes "i + n \<le> length bs" "length bs < 2 ^ 64"
  shows "mem_bytes (list_memory base bs) (base + of_nat i) n = take n (drop i bs)"
proof (rule nth_equalityI)
  fix j
  assume "j < length (mem_bytes (list_memory base bs) (base + of_nat i) n)"
  then have j: "j < n" by simp
  have e: "base + of_nat i + of_nat j - base = (of_nat (i + j) :: u64)" by simp
  have "unat (of_nat (i + j) :: u64) = i + j" using j assms by (intro unat_of_nat_u64) simp
  then have "unat (base + of_nat i + of_nat j - base) = i + j" unfolding e .
  then show "mem_bytes (list_memory base bs) (base + of_nat i) n ! j = take n (drop i bs) ! j"
    using j assms unfolding nth_mem_bytes [OF j] list_memory_def Let_def by simp
qed (use assms in simp)

definition demo_vdso :: "byte list" where
  "demo_vdso = enc_Ehdr ((core_ehdr X86_64 2)\<lparr>e_type := 3\<rparr>) @
     enc_Phdr \<lparr>p_type = 1, p_flags = 5, p_offset = 0, p_vaddr = 4096, p_paddr = 0, p_filesz = 2048, p_memsz = 2048, p_align = 4096\<rparr> @
     enc_Phdr \<lparr>p_type = 2, p_flags = 4, p_offset = 512, p_vaddr = 4608, p_paddr = 0, p_filesz = 16, p_memsz = 16, p_align = 8\<rparr>"

lemma demo_vdso_length: "length demo_vdso = 176"
  using ehdr.enc_length [of "(core_ehdr X86_64 2)\<lparr>e_type := 3\<rparr>"] by (simp add: demo_vdso_def core_ehdr_def)

lemma demo_vdso_reads:
  "ehdr_at (list_memory 4096 demo_vdso) 4096 = (core_ehdr X86_64 2)\<lparr>e_type := 3\<rparr>"
  "phdr_at (list_memory 4096 demo_vdso) 4160 0 =
     \<lparr>p_type = 1, p_flags = 5, p_offset = 0, p_vaddr = 4096, p_paddr = 0, p_filesz = 2048, p_memsz = 2048, p_align = 4096\<rparr>"
  "phdr_at (list_memory 4096 demo_vdso) 4160 1 =
     \<lparr>p_type = 2, p_flags = 4, p_offset = 512, p_vaddr = 4608, p_paddr = 0, p_filesz = 16, p_memsz = 16, p_align = 8\<rparr>"
proof -
  have e: "length (enc_Ehdr ((core_ehdr X86_64 2)\<lparr>e_type := 3\<rparr>)) = 64"
    by (rule ehdr.enc_length) (simp add: core_ehdr_def)
  have m: "mem_bytes (list_memory 4096 demo_vdso) 4096 64 = take 64 demo_vdso"
     "mem_bytes (list_memory 4096 demo_vdso) 4160 56 = take 56 (drop 64 demo_vdso)"
     "mem_bytes (list_memory 4096 demo_vdso) 4216 56 = take 56 (drop 120 demo_vdso)"
    using mem_bytes_list [of 0 64 demo_vdso 4096] mem_bytes_list [of 64 56 demo_vdso 4096] mem_bytes_list [of 120 56 demo_vdso 4096]
    by (simp_all add: demo_vdso_length)
  show "ehdr_at (list_memory 4096 demo_vdso) 4096 = (core_ehdr X86_64 2)\<lparr>e_type := 3\<rparr>"
    unfolding ehdr_at_def m by (simp add: demo_vdso_def e, rule ehdr.dec_single) (simp add: core_ehdr_def)
  show "phdr_at (list_memory 4096 demo_vdso) 4160 0 =
     \<lparr>p_type = 1, p_flags = 5, p_offset = 0, p_vaddr = 4096, p_paddr = 0, p_filesz = 2048, p_memsz = 2048, p_align = 4096\<rparr>"
    unfolding phdr_at_def by (simp add: m) (simp add: demo_vdso_def e phdr.dec_single)
  show "phdr_at (list_memory 4096 demo_vdso) 4160 1 =
     \<lparr>p_type = 2, p_flags = 4, p_offset = 512, p_vaddr = 4608, p_paddr = 0, p_filesz = 16, p_memsz = 16, p_align = 8\<rparr>"
    unfolding phdr_at_def by (simp add: m) (simp add: demo_vdso_def e phdr.dec_single)
qed



end
