(* ===== verification/Call_Effects.thy ===== *)
theory Call_Effects
  imports Elf_File
begin

text \<open>
  What a run can change, reduced to the system calls it makes. The locale \<open>observer\<close> speaks about
  an observation of the state that calls of a certain kind leave as it is; in it, every
  operation that makes only such calls is shown to leave the observation as it is. The
  observations used are the contents of the output file and the set of stopped threads.
\<close>

subsection \<open>Readers that keep a property\<close>

text \<open>\<open>keeps Q p\<close>: \<open>p\<close> does not leave the states \<open>Q\<close>.\<close>

definition keeps :: "('i \<Rightarrow> bool) \<Rightarrow> ('i \<Rightarrow> ('r \<times> 'i) option) \<Rightarrow> bool" where
  "keeps Q p \<longleftrightarrow> (\<forall>i r i'. Q i \<longrightarrow> p i = Some (r, i') \<longrightarrow> Q i')"

lemma keepsD: "keeps Q p \<Longrightarrow> Q i \<Longrightarrow> p i = Some (r, i') \<Longrightarrow> Q i'"
  unfolding keeps_def by blast

lemma keeps_return: "keeps Q (\<lambda>i. Some (r, i))"
  by (simp add: keeps_def)

lemma keeps_bind: "keeps Q p \<Longrightarrow> (\<And>r. keeps Q (k r)) \<Longrightarrow> keeps Q (\<lambda>i. Option.bind (p i) (\<lambda>(r, i). k r i))"
  unfolding keeps_def
proof (intro allI impI)
  fix i r i'
  assume p: "\<forall>i r i'. Q i \<longrightarrow> p i = Some (r, i') \<longrightarrow> Q i'" and k: "\<And>r. \<forall>i r' i'. Q i \<longrightarrow> k r i = Some (r', i') \<longrightarrow> Q i'"
    and q: "Q i" and run: "Option.bind (p i) (\<lambda>(r, i). k r i) = Some (r, i')"
  from run obtain r1 i1 where "p i = Some (r1, i1)" "k r1 i1 = Some (r, i')"
    by (auto simp: bind_eq_Some_conv)
  then show "Q i'" using p k q by blast
qed

lemma keeps_if: "keeps Q p \<Longrightarrow> keeps Q q \<Longrightarrow> keeps Q (\<lambda>i. if b then p i else q i)"
  by (cases b) simp_all

lemma keeps_option: "keeps Q p \<Longrightarrow> (\<And>x. keeps Q (q x)) \<Longrightarrow> keeps Q (\<lambda>i. case r of None \<Rightarrow> p i | Some x \<Rightarrow> q x i)"
  by (cases r) simp_all

lemma keeps_prod: "(\<And>x y. keeps Q (p x y)) \<Longrightarrow> keeps Q (\<lambda>i. case r of (x, y) \<Rightarrow> p x y i)"
  by (cases r) simp

lemma keeps_pair: "(\<And>x y. keeps Q (p x y)) \<Longrightarrow> keeps Q (case r of (x, y) \<Rightarrow> p x y)"
  by (cases r) simp

lemmas keeps_rules = keeps_return keeps_bind keeps_if keeps_option keeps_prod keeps_pair

lemma keeps_scan:
  assumes g: "keeps Q getc"
  shows "keeps Q (scan getc P f a ch)"
  unfolding keeps_def
proof (intro allI impI)
  fix i r i'
  assume q: "Q i" and run: "scan getc P f a ch i = Some (r, i')"
  let ?R = "\<lambda>getc P f a (ch::int) i r. keeps Q getc \<longrightarrow> Q i \<longrightarrow> Q (snd r)"
  have "?R getc P f a ch i (r, i')"
  proof (rule scan.raw_induct [where P = ?R, OF _ run])
    fix h getc P f a and ch :: int and i r
    assume IH: "\<And>getc P f a ch i r. h getc P f a ch i = Some r \<Longrightarrow> ?R getc P f a ch i r"
      and eq: "(if P a ch then do { (ch', i) \<leftarrow> getc i; h getc P f (f a ch) ch' i } else Some ((a, ch), i)) = Some r"
    show "?R getc P f a ch i r"
    proof (intro impI)
      assume k: "keeps Q getc" and "Q i"
      show "Q (snd r)"
      proof (cases "P a ch")
        case True
        then obtain ch' i' where "getc i = Some (ch', i')" "h getc P f (f a ch) ch' i' = Some r"
          using eq by (auto simp: bind_eq_Some_conv)
        then show ?thesis using IH [of getc P f "f a ch" ch' i' r] k keepsD [OF k \<open>Q i\<close>] by blast
      next
        case False
        then show ?thesis using eq \<open>Q i\<close> by auto
      qed
    qed
  qed
  then show "Q i'" using g q by simp
qed

lemma keeps_skip_while: "keeps Q getc \<Longrightarrow> keeps Q (skip_while getc P ch)"
  unfolding skip_while_def by (intro keeps_rules keeps_scan)

lemma keeps_GetHex:
  "keeps Q getc \<Longrightarrow> keeps Q (GetHex getc)" "keeps Q getc \<Longrightarrow> keeps Q (GetHexWithInitChar getc ch)"
  unfolding GetHex_def GetHexWithInitChar_def GetHexHelper_def by (intro keeps_rules keeps_scan; assumption)+

lemma keeps_read_header: "keeps Q getc \<Longrightarrow> keeps Q (read_header getc ch)"
  unfolding read_header_def skip_field_def read_name_def
  by (intro keeps_rules keeps_GetHex keeps_scan keeps_skip_while; assumption)

lemma keeps_match_literal: "keeps Q getc \<Longrightarrow> keeps Q (match_literal getc l ch)"
  unfolding match_literal_def by (intro keeps_scan)

lemma keeps_read_flag: "keeps Q getc \<Longrightarrow> keeps Q (read_flag getc a ch)"
  unfolding read_flag_def by (intro keeps_rules keeps_skip_while; assumption)

lemma keeps_read_flags:
  assumes g: "keeps Q getc"
  shows "keeps Q (read_flags getc a ch)"
  unfolding keeps_def
proof (intro allI impI)
  fix i r i'
  assume q: "Q i" and run: "read_flags getc a ch i = Some (r, i')"
  let ?R = "\<lambda>getc (a::bool) (ch::int) i r. keeps Q getc \<longrightarrow> Q i \<longrightarrow> Q (snd r)"
  have "?R getc a ch i (r, i')"
  proof (rule read_flags.raw_induct [where P = ?R, OF _ run])
    fix h getc a and ch :: int and i r
    assume IH: "\<And>getc a ch i r. h getc a ch i = Some r \<Longrightarrow> ?R getc a ch i r"
      and eq: "(if ch = 32 then do {
        (ch, i) \<leftarrow> skip_while getc (\<lambda>ch. ch = 32) ch i;
        ((dd, ch), i) \<leftarrow> read_flag getc a ch i;
        if dd then Some ((True, ch), i) else h getc a ch i } else Some ((False, ch), i)) = Some r"
    show "?R getc a ch i r"
    proof (intro impI)
      assume k: "keeps Q getc" and "Q i"
      show "Q (snd r)"
      proof (cases "ch = 32")
        case True
        then obtain c1 i1 dd c2 i2 where 1: "skip_while getc (\<lambda>ch. ch = 32) ch i = Some (c1, i1)"
          and 2: "read_flag getc a c1 i1 = Some ((dd, c2), i2)"
          and 3: "(if dd then Some ((True, c2), i2) else h getc a c2 i2) = Some r"
          using eq by (auto simp: bind_eq_Some_conv)
        have "Q i2" using keepsD [OF keeps_read_flag [OF k] keepsD [OF keeps_skip_while [OF k] \<open>Q i\<close> 1] 2] .
        then show ?thesis using 3 IH [of getc a c2 i2 r] k by (auto split: if_splits)
      next
        case False
        then show ?thesis using eq \<open>Q i\<close> by auto
      qed
    qed
  qed
  then show "Q i'" using g q by simp
qed

lemma keeps_read_line: "keeps Q getc \<Longrightarrow> keeps Q (read_line getc a d an ch)"
  unfolding read_line_def read_vmflags_def read_anonymous_def
  by (intro keeps_rules keeps_skip_while keeps_read_flags keeps_match_literal; assumption)

lemma keeps_read_details:
  assumes g: "keeps Q getc"
  shows "keeps Q (read_details getc a dev d an)"
  unfolding keeps_def
proof (intro allI impI)
  fix i r i'
  assume q: "Q i" and run: "read_details getc a dev d an i = Some (r, i')"
  let ?R = "\<lambda>getc (a::bool) (dev::bool) (d::bool) (an::bool) i r. keeps Q getc \<longrightarrow> Q i \<longrightarrow> Q (snd r)"
  have "?R getc a dev d an i (r, i')"
  proof (rule read_details.raw_induct [where P = ?R, OF _ run])
    fix h getc and a dev d an :: bool and i r
    assume IH: "\<And>getc a dev d an i r. h getc a dev d an i = Some r \<Longrightarrow> ?R getc a dev d an i r"
      and eq: "(do { (ch, i) \<leftarrow> getc i;
     if ch < 1 \<or> (48 \<le> ch \<and> ch \<le> 57) \<or> (97 \<le> ch \<and> ch \<le> 102)
     then Some (Some (d, an, ch), i)
     else if dev \<or> d then h getc a dev d an i
     else do {
       (r, i) \<leftarrow> read_line getc a d an ch i;
       case r of None \<Rightarrow> Some (None, i) | Some (d, an) \<Rightarrow> h getc a dev d an i } }) = Some r"
    show "?R getc a dev d an i r"
    proof (intro impI)
      assume k: "keeps Q getc" and "Q i"
      obtain ch i1 where 1: "getc i = Some (ch, i1)" using eq by (auto simp: bind_eq_Some_conv)
      have q1: "Q i1" using keepsD [OF k \<open>Q i\<close> 1] .
      have hk: "keeps Q (h getc a dev d an)" for d an
        unfolding keeps_def using IH k by (metis snd_conv)
      have "keeps Q (\<lambda>i. if ch < 1 \<or> (48 \<le> ch \<and> ch \<le> 57) \<or> (97 \<le> ch \<and> ch \<le> 102)
         then Some (Some (d, an, ch), i)
         else if dev \<or> d then h getc a dev d an i
         else do {
           (r, i) \<leftarrow> read_line getc a d an ch i;
           case r of None \<Rightarrow> Some (None, i) | Some (d, an) \<Rightarrow> h getc a dev d an i })"
        by (intro keeps_rules keeps_read_line [OF k] hk)
      from keepsD [OF this q1, of "fst r" "snd r"] show "Q (snd r)" using eq 1 by simp
    qed
  qed
  then show "Q i'" using g q by simp
qed

lemma keeps_read_smaps:
  assumes "keeps Q getc" "\<And>a n. keeps Q (lz a n)"
  shows "keeps Q (read_smaps getc lz arch m pg n)"
proof -
  have seg: "keeps Q (read_segment getc lz arch m pg ch)" for ch
    unfolding read_segment_def Let_def
    by (intro keeps_rules keeps_read_header keeps_read_details assms)
  have "keeps Q (read_segments getc lz arch m pg n ch)" for ch
  proof (induction n arbitrary: ch)
    case (Suc n)
    show ?case unfolding read_segments.simps by (intro keeps_rules seg Suc)
  qed (simp add: keeps_def)
  then show ?thesis unfolding read_smaps_def by (intro keeps_rules assms)
qed

lemma keeps_count_lines:
  assumes g: "keeps Q getc"
  shows "keeps Q (count_lines getc n)"
  unfolding keeps_def
proof (intro allI impI)
  fix i r i'
  assume q: "Q i" and run: "count_lines getc n i = Some (r, i')"
  let ?R = "\<lambda>getc (n::nat) i r. keeps Q getc \<longrightarrow> Q i \<longrightarrow> Q (snd r)"
  have "?R getc n i (r, i')"
  proof (rule count_lines.raw_induct [where P = ?R, OF _ run])
    fix h and getc :: "'a \<Rightarrow> (int \<times> 'a) option" and n :: nat and i r
    assume IH: "\<And>getc n i r. h getc n i = Some r \<Longrightarrow> ?R getc n i r"
      and eq: "(do { (ch, i) \<leftarrow> getc i;
         if ch \<ge> 0 then h getc (n + (if ch = 10 then 1 else 0)) i else Some (n, i) }) = Some r"
    show "?R getc n i r"
    proof (intro impI)
      assume k: "keeps Q getc" and "Q i"
      have "keeps Q (h getc n)" for n unfolding keeps_def using IH k by (metis snd_conv)
      then have "keeps Q (\<lambda>i. do { (ch, i) \<leftarrow> getc i;
         if ch \<ge> 0 then h getc (n + (if ch = 10 then 1 else 0)) i else Some (n, i) })"
        by (intro keeps_rules k)
      from keepsD [OF this \<open>Q i\<close>, of "fst r" "snd r"] show "Q (snd r)" using eq by simp
    qed
  qed
  then show "Q i'" using g q by simp
qed



subsection \<open>Observations\<close>

text \<open>
  \<open>allowed\<close> are the calls that do not change the observation \<open>obs\<close>, which does not depend on
  \<open>errno\<close>.
\<close>

locale observer =
  fixes K :: "'w kern" and allowed :: "syscall \<Rightarrow> bool" and obs :: "'w st \<Rightarrow> 'o"
  assumes allowed_call: "allowed c \<Longrightarrow> lss_syscall K c s = (r, s') \<Longrightarrow> obs s' = obs s"
    and obs_errno [simp]: "obs (s\<lparr>errno := e\<rparr>) = obs s"
begin

lemma obs_sys_int: "sys_int K c s = (x, s') \<Longrightarrow> allowed c \<Longrightarrow> obs s' = obs s"
  by (auto simp: sys_int_def split: prod.splits dest: allowed_call)

lemma obs_sys_long: "sys_long K c s = (x, s') \<Longrightarrow> allowed c \<Longrightarrow> obs s' = obs s"
  by (auto simp: sys_long_def split: prod.splits dest: allowed_call)

lemma obs_sys0_int: "sys0_int K c e s = (x, s') \<Longrightarrow> allowed c \<Longrightarrow> obs s' = obs s"
  by (auto simp: sys0_int_def split: prod.splits dest: allowed_call)

lemma obs_sys0_long: "sys0_long K c e s = (x, s') \<Longrightarrow> allowed c \<Longrightarrow> obs s' = obs s"
  by (auto simp: sys0_long_def split: prod.splits dest: allowed_call)

lemma obs_snd_sys_int [simp]: "allowed c \<Longrightarrow> obs (snd (sys_int K c s)) = obs s"
  by (metis obs_sys_int prod.collapse)

lemma obs_snd_sys_long [simp]: "allowed c \<Longrightarrow> obs (snd (sys_long K c s)) = obs s"
  by (metis obs_sys_long prod.collapse)

lemma obs_no_intr:
  assumes ret: "no_intr again fn s = Some (x, s')"
    and one: "\<And>t y t'. fn t = (y, t') \<Longrightarrow> obs t' = obs t"
  shows "obs s' = obs s"
proof -
  have "\<exists>s0. obs s0 = obs s \<and> fn s0 = (x, s') \<and> \<not> again x s'"
    by (rule no_intr_result [OF ret]) (auto dest: one)
  then show ?thesis using one by metis
qed

lemma obs_NO_INTR:
  "NO_INTR (sys_int K c) s = Some (x, s') \<Longrightarrow> allowed c \<Longrightarrow> obs s' = obs s"
  "NO_INTR (sys_long K c) s = Some (x, s') \<Longrightarrow> allowed c \<Longrightarrow> obs s' = obs s"
  unfolding NO_INTR_def by (auto elim!: obs_no_intr dest: obs_sys_int obs_sys_long)

lemma obs_MY_NO_INTR:
  "MY_NO_INTR (sys0_int K c e) s = Some (x, s') \<Longrightarrow> allowed c \<Longrightarrow> obs s' = obs s"
  "MY_NO_INTR (sys0_long K c e) s = Some (x, s') \<Longrightarrow> allowed c \<Longrightarrow> obs s' = obs s"
  unfolding MY_NO_INTR_def by (auto elim!: obs_no_intr dest: obs_sys0_int obs_sys0_long)

lemmas obs_calls = obs_sys_int obs_sys_long obs_sys0_int obs_sys0_long obs_NO_INTR obs_MY_NO_INTR

lemma obs_c_read: "c_read K f n s = Some (x, s') \<Longrightarrow> allowed (NR_read f n) \<Longrightarrow> obs s' = obs s"
  by (fastforce simp: c_read_def split: if_splits bind_splits dest: obs_MY_NO_INTR(2))

lemma obs_c_write_loop:
  assumes "c_write_loop K f b s = Some r" and w: "\<And>b. allowed (NR_write f b)"
  shows "obs (snd r) = obs s"
proof -
  let ?P = "\<lambda>K' f' (b::buf) s r. K' = K \<and> f' = f \<longrightarrow> obs (snd r) = obs s"
  have "?P K f b s r"
    by (rule c_write_loop.raw_induct [where P = ?P, OF _ assms(1)])
      (fastforce split: if_splits bind_splits dest: obs_calls intro: w)
  then show ?thesis by simp
qed

lemma obs_c_write:
  "c_write K f b s = Some (x, s') \<Longrightarrow> (\<And>b. allowed (NR_write f b)) \<Longrightarrow> obs s' = obs s"
  by (auto simp: c_write_def split: bind_splits sum.splits dest: obs_c_write_loop)

text \<open>Reading one descriptor, and looking for zeros through the pipe \<open>lb\<close>.\<close>

lemma keeps_GetChar_fd: "(\<And>n. allowed (NR_read fd n)) \<Longrightarrow> keeps (\<lambda>(i, s). io_fd i = fd \<and> obs s = X) (GetChar K)"
  by (auto simp: keeps_def GetChar_def split: list.splits if_splits bind_splits dest!: obs_c_read)

lemma obs_LeadingZeros_loop:
  assumes "LeadingZeros_loop K lb a len pg buf c s = Some r" and w: "\<And>b. allowed (NR_write (snd lb) b)" "\<And>n. allowed (NR_read (fst lb) n)"
  shows "obs (snd r) = obs s"
proof -
  let ?P = "\<lambda>K' lb' (a::u64) (len::u64) (pg::u64) (buf::byte list) (c::u64) s r. K' = K \<and> lb' = lb \<longrightarrow> obs (snd r) = obs s"
  obtain i g where lb: "lb = (i, g)" by force
  note wr = obs_c_write [OF _ w(1) [unfolded lb snd_conv]] and rd = obs_c_read [OF _ w(2) [unfolded lb fst_conv]]
  have "?P K lb a len pg buf c s r"
    by (rule LeadingZeros_loop.raw_induct [where P = ?P, OF _ assms(1)])
      (auto simp: lb Let_def split: if_splits bind_splits dest!: rd wr)
  then show ?thesis by simp
qed

lemma keeps_scan_zeros_fd:
  "(\<And>b. allowed (NR_write (snd lb) b)) \<Longrightarrow> (\<And>n. allowed (NR_read (fst lb) n)) \<Longrightarrow>
    keeps (\<lambda>(i, s). P i \<and> obs s = X) (scan_zeros K lb pg a n)"
  by (auto simp: keeps_def scan_zeros_def LeadingZeros_def split: bind_splits dest!: obs_LeadingZeros_loop)

end

text \<open>An observer to whom everything but output, pipes, messages and stopping or releasing threads is invisible.\<close>

fun outputs :: "syscall \<Rightarrow> bool" where
  "outputs (NR_write f b) = True"
| "outputs _ = False"

fun stops :: "syscall \<Rightarrow> bool" where
  "stops (NR_ptrace req pid a) = (req = PTRACE_ATTACH \<or> req = PTRACE_DETACH)"
| "stops _ = False"

fun conveys :: "syscall \<Rightarrow> bool" where
  "conveys (NR_sendmsg sock b f) = True"
| "conveys NR_pipe = True"
| "conveys _ = False"

locale io_observer = observer +
  assumes silent: "\<not> outputs c \<Longrightarrow> \<not> stops c \<Longrightarrow> \<not> conveys c \<Longrightarrow> allowed c"
begin

lemma obs_silent:
  "NO_INTR (sys_open K p fl md) s = Some (x, s') \<Longrightarrow> obs s' = obs s"
  "NO_INTR (sys_read K g n) s = Some (x, s') \<Longrightarrow> obs s' = obs s"
  "NO_INTR (sys_close K g) s = Some (x, s') \<Longrightarrow> obs s' = obs s"
  "NO_INTR (sys_fcntl K g cmd v) s = Some (x, s') \<Longrightarrow> obs s' = obs s"
  "sys_poll K ps t s = (x, s') \<Longrightarrow> obs s' = obs s"
  by (auto simp: sys_open_def sys_read_def sys_close_def sys_fcntl_def sys_poll_def
      dest!: obs_NO_INTR obs_sys_int intro: silent)

lemma obs_read: "c_read K f n s = Some (x, s') \<Longrightarrow> obs s' = obs s"
  by (erule obs_c_read) (simp add: silent)

text \<open>The observation, seen from the state of a reader.\<close>

lemma keeps_GetChar: "keeps (\<lambda>(_, s). obs s = X) (GetChar K)"
  by (auto simp: keeps_def GetChar_def split: list.splits if_splits bind_splits dest!: obs_read)

lemma obs_CountAUXV_loop:
  assumes "CountAUXV_loop K fd n v s = Some r"
  shows "obs (snd r) = obs s"
proof -
  let ?P = "\<lambda>K' (fd::int) (n::nat) (v::u64) s r. K' = K \<longrightarrow> obs (snd r) = obs s"
  have "?P K fd n v s r"
    by (rule CountAUXV_loop.raw_induct [where P = ?P, OF _ assms])
      (fastforce simp: Let_def split: if_splits bind_splits dest!: obs_silent)
  then show ?thesis by simp
qed

lemma obs_CountAUXV: "CountAUXV K s = Some (x, s') \<Longrightarrow> obs s' = obs s"
  by (fastforce simp: CountAUXV_def split: if_splits bind_splits dest: obs_silent obs_CountAUXV_loop)

lemma keeps_scan_zeros:
  "(\<And>b. allowed (NR_write (snd lb) b)) \<Longrightarrow> keeps (\<lambda>(_, s). obs s = X) (scan_zeros K lb pg a n)"
  using keeps_scan_zeros_fd [of lb "\<lambda>_. True" X pg a n] by (simp add: silent)

end

end
