(* ===== verification/Lister_Safety.thy ===== *)
theory Lister_Safety
  imports Thread_Lister Call_Effects
begin

text \<open>
  Correctness of the thread lister. The threads that are stopped are a function of the
  trace of system calls (\<open>traced\<close>). The invariant \<open>lister_inv\<close> of the search says that the array
  of the lister holds exactly these threads; each operation preserves it, through every retry of
  the loops. From it follow: the callback sees all threads stopped, no exit but the one at
  the label \<open>failure\<close> leaves a thread stopped, the signal handler releases the threads, and
  \<open>ListAllProcessThreads\<close> returns the value of its callback or -1.

  Concrete runs use a kernel that answers from a list of replies; the lemmas \<open>lister_run\<close>
  execute them by rewriting.
\<close>

subsection \<open>Which threads are stopped\<close>

definition call_ok :: "kreply \<Rightarrow> bool" where
  "call_ok r \<longleftrightarrow> fst (LSS_RETURN (kret r) 0) \<ge> 0"

fun trace_step :: "syscall \<times> kreply \<Rightarrow> int set \<Rightarrow> int set" where
  "trace_step (NR_ptrace req pid a, r) T =
     (if req = PTRACE_ATTACH \<and> call_ok r then insert pid T
      else if req = PTRACE_DETACH then T - {pid} else T)"
| "trace_step _ T = T"

definition traced :: "(syscall \<times> kreply) list \<Rightarrow> int set" where
  "traced cs = fold trace_step cs {}"

lemma traced_Nil [simp]: "traced [] = {}"
  by (simp add: traced_def)

lemma traced_snoc [simp]: "traced (cs @ [x]) = trace_step x (traced cs)"
  by (simp add: traced_def)

text \<open>Calls that are not \<open>ptrace\<close> calls leave the threads as they are.\<close>

definition quiet :: "syscall \<Rightarrow> bool" where
  "quiet c \<longleftrightarrow> (\<forall>r T. trace_step (c, r) T = T)"

lemma quiet_simps [simp]:
  "quiet (NR_read f n)" "quiet (NR_write f b)" "quiet (NR_open path fl md)" "quiet (NR_close f)"
  "quiet (NR_fcntl f cmd x)" "quiet (NR_exit code)" "quiet (NR_clone fl)" "quiet (NR_wait4 pid opts)"
  "quiet (NR_kill pid sg)" "quiet (NR_tkill pid sg)" "quiet NR_sched_yield" "quiet NR_gettid" "quiet NR_getpid"
  "quiet NR_getppid" "quiet (NR_socket d t q)" "quiet (NR_stat path)" "quiet (NR_fstat f)"
  "quiet (NR_getdents f n)" "quiet (NR_lseek f off wh)" "quiet (NR_prctl op x)" "quiet NR_sigaltstack"
  "quiet (NR_peekdata pid a i)" "quiet (NR_rt_sigaction sg flags ss n)" "quiet (NR_rt_sigprocmask how ms n)"
  by (simp_all add: quiet_def)

lemma quiet_ptrace: "req \<noteq> PTRACE_ATTACH \<Longrightarrow> req \<noteq> PTRACE_DETACH \<Longrightarrow> quiet (NR_ptrace req pid a)"
  by (simp add: quiet_def)

lemma traced_sys_long: "sys_long K c s = ((rc, r), s') \<Longrightarrow> traced (calls s') = trace_step (c, r) (traced (calls s))"
  by (drule calls_sys_long) simp

lemma not_stops_quiet: "\<not> stops c \<Longrightarrow> quiet c"
  by (cases c) (auto simp: quiet_def)

interpretation threads: io_observer K quiet "\<lambda>s. traced (calls s)" for K :: "'w kern"
  by unfold_locales (auto simp: quiet_def not_stops_quiet [unfolded quiet_def] dest: calls_lss_syscall)

lemmas quiet_sys_int = threads.obs_sys_int
lemmas quiet_sys_long = threads.obs_sys_long
lemmas quiet_NO_INTR = threads.obs_NO_INTR(1)
lemmas quiet_MY_NO_INTR = threads.obs_MY_NO_INTR(1)

lemma traced_close_fd: "close_fd K f s = Some s' \<Longrightarrow> traced (calls s') = traced (calls s)"
  by (auto simp: close_fd_def sys_close_def split: if_splits bind_splits dest: quiet_NO_INTR)

lemma traced_sys_exit [simp]: "traced (calls (sys_exit K n s)) = traced (calls s)"
  by (simp add: sys_exit_def)

lemma traced_detach: "traced (calls (snd (sys_ptrace_detach K pid s))) = traced (calls s) - {pid}"
  by (auto simp: sys_ptrace_detach_def sys_ptrace_def Let_def split: prod.splits
      dest!: traced_sys_long quiet_sys_int)

lemma traced_Resume_loop: "traced (calls (snd (Resume_loop K ps d s))) = traced (calls s) - set ps"
proof (induction ps arbitrary: d s)
  case (Cons p ps)
  then show ?case using traced_detach [of K p s] by (auto split: prod.splits)
qed simp

lemma traced_Resume: "traced (calls (snd (ResumeAllProcessThreads K ps s))) = traced (calls s) - set ps"
  by (simp add: ResumeAllProcessThreads_def traced_Resume_loop)

subsection \<open>The invariant of the search\<close>

text \<open>
  The array holds exactly the threads that are stopped, each once, none of them the lister
  itself; the counter for the signal handler agrees with it, and the array never
  overflows.
\<close>

definition lister_inv :: "lister_env \<Rightarrow> lister \<Rightarrow> 'w st \<Rightarrow> bool" where
  "lister_inv env l s \<longleftrightarrow>
     distinct (pids l) \<and> set (pids l) = traced (calls s) \<and> 0 \<notin> set (pids l) \<and>
     clone_pid env \<notin> set (pids l) \<and> sig_num_threads l = num_threads l \<and>
     (pids l \<noteq> [] \<longrightarrow> num_threads l \<le> max_threads l)"

lemma lister_inv_traced:
  "traced (calls s') = traced (calls s) \<Longrightarrow> lister_inv env l s' \<longleftrightarrow> lister_inv env l s"
  by (simp add: lister_inv_def)

lemma push_pop [simp]: "pop_pid (push_pid pid l) = l\<lparr>sig_num_threads := num_threads l\<rparr>"
  by (simp add: push_pid_def pop_pid_def)

lemma sig_pids_push_pop [simp]: "sig_pids (push_pid pid l) = sig_pids l" "sig_pids (pop_pid l) = sig_pids l"
  by (simp_all add: push_pid_def pop_pid_def)

lemma traced_same_word: "same_word K pid addr i s = (b, s') \<Longrightarrow> traced (calls s') = traced (calls s)"
  by (auto simp: same_word_def split: prod.splits dest!: quiet_sys_long)

lemma traced_same_address_space:
  "same_address_space K pid addr i s = (b, s') \<Longrightarrow> traced (calls s') = traced (calls s)"
  by (auto simp: same_address_space_def split: prod.splits if_splits dest!: traced_same_word)

lemma attach_result:
  assumes "sys_ptrace K PTRACE_ATTACH pid 0 s = ((rc, r), s')"
  shows "traced (calls s') = (if rc < 0 then traced (calls s) else insert pid (traced (calls s)))"
proof -
  have "call_ok r \<longleftrightarrow> rc \<ge> 0"
    using assms by (auto simp: sys_ptrace_def sys_long_def lss_syscall_def LSS_RETURN_def call_ok_def
        split: prod.splits if_splits)
  then show ?thesis using traced_sys_long [OF assms [unfolded sys_ptrace_def]] by auto
qed

lemma lister_inv_unpushed:
  assumes "lister_inv env l s" "traced (calls s') = traced (calls s)"
  shows "lister_inv env (pop_pid (push_pid pid l)) s'"
  using assms by (auto simp: lister_inv_def)

lemma lister_inv_attach_thread:
  assumes run: "attach_thread K env pid l s = Some (l', s')"
    and inv: "lister_inv env l s"
    and pid: "pid \<notin> set (pids l)" "pid \<noteq> 0" "pid \<noteq> clone_pid env" "num_threads l < max_threads l"
  shows "lister_inv env l' s'"
proof -
  obtain rc r s1 where at: "sys_ptrace K PTRACE_ATTACH pid 0 s = ((rc, r), s1)" by (metis prod.exhaust_sel)
  show ?thesis
  proof (cases "rc < 0")
    case True
    with run at attach_result [OF at] show ?thesis
      by (auto simp: attach_thread_def intro: lister_inv_unpushed [OF inv, simplified])
  next
    case False
    with run at obtain rc2 r2 s2 where w: "NO_INTR (sys_waitpid K pid WALL) s1 = Some ((rc2, r2), s2)"
      by (auto simp: attach_thread_def Let_def split: bind_splits)
    have t2: "traced (calls s2) = insert pid (traced (calls s))"
      using quiet_NO_INTR [OF w [unfolded sys_waitpid_def]] attach_result [OF at] False by simp
    obtain same s3 where sa: "same_address_space K pid (addr_i env) (num_threads l) s2 = (same, s3)" by force
    have t3: "traced (calls s3) = insert pid (traced (calls s))"
      using traced_same_address_space [OF sa] t2 by simp
    have undo: "lister_inv env (pop_pid (push_pid pid l)) (snd (sys_ptrace_detach K pid t))"
      if "traced (calls t) = insert pid (traced (calls s))" for t :: "'a st"
      by (rule lister_inv_unpushed [OF inv])
        (use that pid inv in \<open>auto simp: traced_detach lister_inv_def\<close>)
    show ?thesis
    proof (cases "rc2 \<ge> 0 \<and> same")
      case True
      then have "l' = (push_pid pid l)\<lparr>found_parent := found_parent l \<or> pid = ppid env,
          added_entries := added_entries l + 1\<rparr>" "s' = s3"
        using run at False w sa by (simp_all add: attach_thread_def push_pid_def Let_def)
      with inv pid t3 show ?thesis by (auto simp: lister_inv_def push_pid_def)
    next
      case notok: False
      then have "l' = pop_pid (push_pid pid l) \<and>
          (s' = snd (sys_ptrace_detach K pid s2) \<or> s' = snd (sys_ptrace_detach K pid s3))"
        using run at False w sa by (auto simp: attach_thread_def Let_def split: if_splits)
      with undo [OF t2] undo [OF t3] show ?thesis by metis
    qed
  qed
qed

lemma lister_inv_proc_entry:
  assumes run: "proc_entry K env d l s = Some (full, l', s')"
    and inv: "lister_inv env l s"
  shows "lister_inv env l' s' \<and> sig_pids l' = sig_pids l"
proof -
  have same: "lister_inv env l t" if "sys_int K (NR_stat p) s = (x, t)" for x t p
    using lister_inv_traced [OF quiet_sys_int [OF that]] inv by simp
  have keep: "sig_pids l2 = sig_pids l" if "attach_thread K env pid l t = Some (l2, t2)" for pid t l2 t2
    using that by (auto simp: attach_thread_def Let_def split: prod.splits bind_splits if_splits)
  from run inv show ?thesis
    unfolding proc_entry_def
    by (auto split: if_splits option.splits prod.splits bind_splits simp: sys_close_def keep
        intro: lister_inv_attach_thread same
        simp: lister_inv_traced [OF quiet_NO_INTR] dest: same)
qed

lemma lister_inv_proc_entries:
  assumes run: "proc_entries K env buf pos l s = Some (full, l', s')"
    and inv: "lister_inv env l s"
  shows "lister_inv env l' s' \<and> sig_pids l' = sig_pids l"
proof -
  let ?P = "\<lambda>K env buf pos l s r. lister_inv env l s \<longrightarrow>
     (case r of (full, l', s') \<Rightarrow> lister_inv env l' s' \<and> sig_pids l' = sig_pids l)"
  have "?P K env buf pos l s (full, l', s')"
  proof (rule proc_entries.raw_induct [where P = ?P, OF _ run])
    fix f K env buf pos l and s :: "'a st" and r
    assume IH: "\<And>K env buf pos l s y. f K env buf pos l s = Some y \<Longrightarrow> ?P K env buf pos l s y"
      and eq: "(if pos < length buf then
           let d = dirent_at buf pos in
           proc_entry K env d l s \<bind> (\<lambda>(full, l, s). if full then Some (True, l, s)
             else f K env buf (pos + d_reclen d) l s)
         else Some (False, l, s)) = Some r"
    show "?P K env buf pos l s r"
      using eq by (fastforce simp: Let_def dest: IH lister_inv_proc_entry split: if_splits bind_splits)
  qed
  with inv show ?thesis by simp
qed

lemma lister_inv_scan_proc:
  assumes run: "scan_proc K env l s = Some (res, l', s')"
    and inv: "lister_inv env l s"
  shows "lister_inv env l' s' \<and> sig_pids l' = sig_pids l"
proof -
  let ?P = "\<lambda>K env l s r. lister_inv env l s \<longrightarrow>
     (case r of (full, l', s') \<Rightarrow> lister_inv env l' s' \<and> sig_pids l' = sig_pids l)"
  have "?P K env l s (res, l', s')"
  proof (rule scan_proc.raw_induct [where P = ?P, OF _ run])
    fix f K env l and s :: "'a st" and r
    assume IH: "\<And>K env l s y. f K env l s = Some y \<Longrightarrow> ?P K env l s y"
      and eq: "(case sys_int K (NR_getdents (sig_proc l) 4096) s of ((nbytes, r), s) \<Rightarrow>
      if nbytes < 0 then Some (Scan_failed, l, s)
      else if nbytes = 0 then
        if added_entries l > 0 then
          (case sys_long K (NR_lseek (sig_proc l) 0 0) s of (_, s) \<Rightarrow>
           f K env (l\<lparr>added_entries := 0\<rparr>) s)
        else Some (Scanned, l, s)
      else proc_entries K env (stored nbytes (kbytes r)) 0 l s \<bind>
        (\<lambda>(full, l, s). if full then Some (Scan_full, l, s) else f K env l s)) = Some r"
    obtain n r1 s1 where g: "sys_int K (NR_getdents (sig_proc l) 4096) s = ((n, r1), s1)"
      by (metis prod.exhaust_sel)
    obtain x s2 where lk: "sys_long K (NR_lseek (sig_proc l) 0 0) s1 = (x, s2)" by (metis surj_pair)
    show "?P K env l s r"
    proof
      assume inv: "lister_inv env l s"
      then have i1: "lister_inv env l s1" using lister_inv_traced [OF quiet_sys_int [OF g]] by simp
      have i2: "lister_inv env (l\<lparr>added_entries := 0\<rparr>) s2"
        using i1 quiet_sys_long [OF lk] by (auto simp: lister_inv_def)
      show "case r of (full, l', s') \<Rightarrow> lister_inv env l' s' \<and> sig_pids l' = sig_pids l"
        using eq g lk i1 IH [of K env "l\<lparr>added_entries := 0\<rparr>" s2 r] i2
        by (fastforce dest: IH lister_inv_proc_entries split: if_splits bind_splits)
    qed
  qed
  with inv show ?thesis by simp
qed

lemma lister_inv_sig_proc [simp]: "lister_inv env (l\<lparr>sig_proc := f\<rparr>) s = lister_inv env l s"
  by (simp add: lister_inv_def)

lemma lister_inv_empty:
  "pids l = [] \<Longrightarrow> lister_inv env l s \<longleftrightarrow> traced (calls s) = {} \<and> sig_num_threads l = 0"
  by (auto simp: lister_inv_def)

lemma lister_inv_search_dir:
  assumes run: "search_dir K env path last_path l s = Some (res, l', s')"
    and inv: "lister_inv env l s" "pids l = []"
  shows "lister_inv env l' s' \<and> (res = Found \<longrightarrow> sig_pids l') \<and> (res \<in> {Unopened, Retry, Next} \<longrightarrow> pids l' = [])"
proof -
  from run obtain proc s1 where op: "c_open K path O_DIRECTORY 0 s = Some (proc, s1)"
    by (auto simp: search_dir_def split: bind_splits)
  have t1: "traced (calls s1) = {}" "sig_num_threads l = 0"
    using op inv by (auto simp: c_open_def sys_open_def lister_inv_empty split: bind_splits dest: quiet_NO_INTR)
  obtain rc r s2 where st: "sys_int K (NR_fstat proc) s1 = ((rc, r), s2)" by (metis prod.exhaust_sel)
  have t2: "traced (calls s2) = {}" using quiet_sys_int [OF st] t1 by simp
  let ?l = "l\<lparr>sig_proc := proc, max_threads := grow_threads (stat_nlink r) (max_threads l), added_entries := 0,
      sig_num_threads := num_threads l, sig_pids := True\<rparr>"
  show ?thesis
  proof (cases "proc < 0 \<or> rc < 0")
    case True
    with run op st t1 t2 inv(2) show ?thesis
      by (auto simp: search_dir_def Let_def lister_inv_empty split: if_splits)
  next
    case False
    then obtain res1 l1 s3 where sc: "scan_proc K env ?l s2 = Some (res1, l1, s3)"
      using run op st by (auto simp: search_dir_def Let_def split: bind_splits)
    have "lister_inv env ?l s2" using t2 inv(2) by (simp add: lister_inv_empty)
    then have i3: "lister_inv env l1 s3" "sig_pids l1"
      using lister_inv_scan_proc [OF sc] by auto
    have closed: "lister_inv env l1 t" if "NO_INTR (sys_close K proc) s3 = Some (x, t)" for x t
      using lister_inv_traced [OF quiet_NO_INTR [OF that [unfolded sys_close_def]]] i3 by simp
    have resumed: "traced (calls t') = {}"
      if "ResumeAllProcessThreads K (pids l1) t = (x, t')" "lister_inv env l1 t" for t t' x
      using that traced_Resume [of K "pids l1" t] by (simp add: lister_inv_def)
    show ?thesis
      using run op st False sc i3
      by (auto simp: search_dir_def Let_def lister_inv_empty split: if_splits bind_splits prod.splits
          dest: closed resumed) (metis closed resumed empty_iff)+
  qed
qed

text \<open>
  What the search guarantees: one that starts with no stopped thread keeps the invariant
  through every retry.
\<close>

lemma lister_inv_find_threads:
  assumes run: "find_threads K env paths l s = Some (found, l', s')"
    and inv: "lister_inv env l s" "pids l = []"
  shows "lister_inv env l' s' \<and> (found \<longrightarrow> sig_pids l')"
proof -
  let ?P = "\<lambda>K env paths l s r. lister_inv env l s \<and> pids l = [] \<longrightarrow>
     (case r of (found, l', s') \<Rightarrow> lister_inv env l' s' \<and> (found \<longrightarrow> sig_pids l'))"
  have "?P K env paths l s (found, l', s')"
  proof (rule find_threads.raw_induct [where P = ?P, OF _ run])
    fix f K env paths l and s :: "'a st" and r
    assume IH: "\<And>K env paths l s y. f K env paths l s = Some y \<Longrightarrow> ?P K env paths l s y"
      and eq: "(case paths of [] \<Rightarrow> Some (False, l, s)
         | path # rest \<Rightarrow> search_dir K env path (rest = []) l s \<bind> (\<lambda>(res, l, s).
             if res = Found then Some (True, l, s)
             else if res = Failed then Some (False, l, s)
             else if res = Retry then f K env (path # rest) l s
             else f K env rest l s)) = Some r"
    show "?P K env paths l s r"
    proof (cases paths)
      case (Cons path rest)
      with eq obtain res l1 s1 where d: "search_dir K env path (rest = []) l s = Some (res, l1, s1)"
        by (auto split: bind_splits)
      then show ?thesis
        using eq Cons lister_inv_search_dir [OF d] IH [of K env _ l1 s1 r]
        by (cases res) auto
    qed (use eq in auto)
  qed
  with inv show ?thesis by simp
qed

subsection \<open>The lister thread\<close>

text \<open>What the lister expects of its callback: it may resume threads and never stops one.\<close>

definition resumes_only :: "(int list \<Rightarrow> 'w st \<Rightarrow> (int \<times> 'w st) option) \<Rightarrow> bool" where
  "resumes_only callback \<longleftrightarrow>
     (\<forall>ps s rc s'. callback ps s = Some (rc, s') \<longrightarrow> traced (calls s') \<subseteq> traced (calls s))"

text \<open>A callback that is only defined where a condition holds.\<close>

definition guarded ::
    "(int list \<Rightarrow> 'w st \<Rightarrow> bool) \<Rightarrow> (int list \<Rightarrow> 'w st \<Rightarrow> (int \<times> 'w st) option) \<Rightarrow> int list \<Rightarrow> 'w st
     \<Rightarrow> (int \<times> 'w st) option" where
  "guarded P callback ps s = (if P ps s then callback ps s else None)"

text \<open>The threads given to the callback are those that are stopped, without the lister itself.\<close>

definition all_stopped :: "int \<Rightarrow> int list \<Rightarrow> 'w st \<Rightarrow> bool" where
  "all_stopped self ps s \<longleftrightarrow> distinct ps \<and> set ps = traced (calls s) \<and> 0 \<notin> set ps \<and> self \<notin> set ps"

lemma traced_install_handlers [simp]: "traced (calls (install_handlers K sgs s)) = traced (calls s)"
  by (induction sgs arbitrary: s) simp_all

lemma traced_gettid: "sys_gettid K s = (x, s') \<Longrightarrow> traced (calls s') = traced (calls s)"
  using quiet_sys_int [of K NR_gettid s] quiet_sys_int [of K NR_getpid]
  by (fastforce simp: sys_gettid_def split: prod.splits if_splits)

lemma traced_lister_failure:
  "lister_failure K mk proc s = Some ((code, args), s') \<Longrightarrow> code = 1 \<and> traced (calls s') = traced (calls s)"
  by (auto simp: lister_failure_def Let_def split: bind_splits dest!: traced_close_fd)

lemma run_callback_guarded:
  assumes "run_callback K callback env args l s = Some r" "lister_inv env l s"
  shows "run_callback K (guarded (all_stopped (clone_pid env)) callback) env args l s = Some r"
proof -
  have "all_stopped (clone_pid env) (pids l) t"
    if "NO_INTR (sys_int K (NR_close (marker env))) s = Some (x, t)" for x t
    using quiet_NO_INTR [OF that] assms(2) by (auto simp: all_stopped_def lister_inv_def)
  then show ?thesis
    using assms(1)
    by (fastforce simp: run_callback_def sys_close_def guarded_def Let_def split: bind_splits if_splits prod.splits)
qed

lemma run_callback_releases:
  assumes "run_callback K callback env args l s = Some ((code, args'), s')" "lister_inv env l s"
    "resumes_only callback"
  shows "code \<in> {0, 3} \<and> traced (calls s') = {}"
proof -
  from assms(1) obtain x t where cl: "NO_INTR (sys_int K (NR_close (marker env))) s = Some (x, t)"
    by (auto simp: run_callback_def sys_close_def split: bind_splits)
  have t: "traced (calls t) = set (pids l)"
    using quiet_NO_INTR [OF cl] assms(2) by (simp add: lister_inv_def)
  have res: "traced (calls u') = {}"
    if "ResumeAllProcessThreads K (pids l) u = (y, u')" "traced (calls u) \<subseteq> set (pids l)" for u u' y
    using traced_Resume [of K "pids l" u] that by auto
  have cb: "traced (calls u) \<subseteq> set (pids l)" if "callback (pids l) t = Some (rc, u)" for rc u
    using assms(3) that t unfolding resumes_only_def by blast
  show ?thesis
    using assms(1) cl t
    by (auto simp: run_callback_def sys_close_def Let_def split: bind_splits if_splits prod.splits
        dest: res res [OF _ cb])
qed

text \<open>Everything before the search, as one step: either it fails, or the search starts with nothing stopped.\<close>

lemma ListerThread_cases:
  assumes "ListerThread K callback addr args s = Some ((code, args'), s')" "traced (calls s) = {}"
  obtains (failure) mk proc t where "lister_failure K mk proc t = Some ((code, args'), s')"
      "\<And>cb. ListerThread K cb addr args s = Some ((code, args'), s')"
    | (run) env l t where "lister_inv env l t" "run_callback K callback env args l t = Some ((code, args'), s')"
      "\<And>cb. ListerThread K cb addr args s = run_callback K cb env args l t" "clone_pid env = fst (sys_gettid K s)"
      "sig_pids l"
proof -
  obtain self s1 where g: "sys_gettid K s = (self, s1)" by force
  obtain parent r2 s2 where p: "sys_int K NR_getppid s1 = ((parent, r2), s2)" by (metis prod.exhaust_sel)
  obtain mk r3 s3 where m: "sys_int K (NR_socket 1 2 0) s2 = ((mk, r3), s3)" by (metis prod.exhaust_sel)
  obtain rc4 r4 s4 where f: "sys_fcntl K mk F_SETFD FD_CLOEXEC s3 = ((rc4, r4), s4)" by (metis prod.exhaust_sel)
  obtain rc5 r5 s5 where st: "sys_int K (NR_stat (proc_dir parent @ marker_suffix mk)) s4 = ((rc5, r5), s5)"
    by (metis prod.exhaust_sel)
  obtain x6 s6 where al: "sys_int K NR_sigaltstack s5 = (x6, s6)" by (metis surj_pair)
  note calls = g p m f st al
  show thesis
  proof (cases "mk < 0 \<or> rc4 < 0 \<or> rc5 < 0")
    case True
    with assms(1) calls show thesis
      by (intro failure [of mk "-1" "if mk < 0 then s3 else if rc4 < 0 then s4 else s5"])
        (auto simp: ListerThread_def Let_def split: if_splits)
  next
    case False
    let ?env = "\<lparr>clone_pid = self, ppid = parent, marker = mk, marker_path = marker_suffix mk,
        marker_ino = stat_ino r5, addr_i = addr\<rparr>"
    let ?s = "install_handlers K sync_signals s6"
    have t: "traced (calls ?s) = {}"
      using assms(2) traced_gettid [OF g] quiet_sys_int [OF p] quiet_sys_int [OF m]
        quiet_sys_int [OF f [unfolded sys_fcntl_def]] quiet_sys_int [OF st] quiet_sys_int [OF al] by simp
    have body: "ListerThread K cb addr args s =
        find_threads K ?env [proc_dir parent @ str ''/task/'', str ''/proc/''] (lister_init mk) ?s \<bind>
        (\<lambda>(found, l, s). if found then run_callback K cb ?env args l s else lister_failure K mk (sig_proc l) s)" for cb
      using False calls by (simp add: ListerThread_def Let_def)
    then obtain found l t where
      fd: "find_threads K ?env [proc_dir parent @ str ''/task/'', str ''/proc/''] (lister_init mk) ?s = Some (found, l, t)"
      using assms(1) by (auto split: bind_splits)
    have inv: "lister_inv ?env l t" "found \<longrightarrow> sig_pids l"
      using lister_inv_find_threads [OF fd] t by (simp_all add: lister_inv_empty lister_init_def)
    show thesis
    proof (cases found)
      case True
      have "ListerThread K cb addr args s = run_callback K cb ?env args l t" for cb
        using body fd True by simp
      then show thesis using assms(1) inv True g by (intro run [of ?env l t]) auto
    next
      case False
      have "ListerThread K cb addr args s = lister_failure K mk (sig_proc l) t" for cb
        using body fd False by simp
      then show thesis using assms(1) by (intro failure) auto
    qed
  qed
qed

text \<open>The callback is called with all threads stopped: a run is the same with a callback guarded by that.\<close>

lemma ListerThread_guarded:
  assumes "ListerThread K callback addr args s = Some r" "traced (calls s) = {}"
  shows "ListerThread K (guarded (all_stopped (fst (sys_gettid K s))) callback) addr args s = Some r"
proof -
  obtain code args' s' where r: "r = ((code, args'), s')" by (metis prod.exhaust_sel)
  from assms show ?thesis unfolding r
    by (cases rule: ListerThread_cases) (auto dest: run_callback_guarded)
qed

lemma run_lister_guarded:
  assumes "run_lister K callback addr old s = Some r" "traced (calls s) = {}"
  shows "\<exists>self. run_lister K (guarded (all_stopped self) callback) addr old s = Some r"
proof -
  obtain pid r1 s1 where cl: "local_clone K s = ((pid, r1), s1)" by (metis prod.exhaust_sel)
  obtain x2 s2 where pr: "sys_int K (NR_prctl PR_SET_PTRACER pid) s1 = (x2, s2)" by (metis surj_pair)
  obtain x3 s3 where sm: "sys_int K (NR_rt_sigprocmask SIG_SETMASK (Some old) 8) s2 = (x3, s3)" by (metis surj_pair)
  have "traced (calls s3) = {}"
    using assms(2) quiet_sys_int [OF cl [unfolded local_clone_def]] quiet_sys_int [OF pr] quiet_sys_int [OF sm] by simp
  note g = ListerThread_guarded [OF _ this]
  show ?thesis
  proof (cases "pid < 0")
    case False
    then obtain x where l: "ListerThread K callback addr \<lparr>lp_result = -1, lp_err = 0\<rparr> s3 = Some x"
      using assms(1) cl pr sm by (auto simp: run_lister_def Let_def split: bind_splits)
    from g [OF l] show ?thesis
      using assms(1) cl pr sm False l by (intro exI [of _ "fst (sys_gettid K s3)"]) (simp add: run_lister_def)
  qed (use assms(1) cl pr sm in \<open>simp add: run_lister_def Let_def\<close>)
qed

lemma ListAll_guarded:
  assumes "ListAllProcessThreads K callback addr s = Some r" "traced (calls s) = {}"
  shows "\<exists>self. ListAllProcessThreads K (guarded (all_stopped self) callback) addr s = Some r"
proof -
  let ?s1 = "DirtyStack K 32768 s"
  obtain dump r2 s2 where d: "sys_int K (NR_prctl PR_GET_DUMPABLE 0) ?s1 = ((dump, r2), s2)" by (metis prod.exhaust_sel)
  let ?s3 = "if dump = 0 then snd (sys_int K (NR_prctl PR_SET_DUMPABLE 1) s2) else s2"
  obtain blocked e where b: "unblock_sync sync_signals (sys_sigfillset \<lparr>sig = [0]\<rparr>, errno ?s3) = (blocked, e)"
    by (metis surj_pair)
  obtain rc4 r4 s4 where m: "sys_int K (NR_rt_sigprocmask SIG_BLOCK (Some blocked) 8) (?s3\<lparr>errno := e\<rparr>) = ((rc4, r4), s4)"
    by (metis prod.exhaust_sel)
  have t4: "traced (calls s4) = {}"
    using assms(2) quiet_sys_int [OF d] quiet_sys_int [OF m]
    by (auto simp: DirtyStack_def sys_read_def split: if_splits)
  show ?thesis
  proof (cases "rc4 = 0")
    case True
    then obtain x where l: "run_lister K callback addr \<lparr>sig = [of_le64 (stored 8 (kbytes r4))]\<rparr> s4 = Some x"
      using assms(1) d b m by (auto simp: ListAllProcessThreads_def Let_def split: bind_splits if_splits)
    from run_lister_guarded [OF l t4] obtain self where
      "run_lister K (guarded (all_stopped self) callback) addr \<lparr>sig = [of_le64 (stored 8 (kbytes r4))]\<rparr> s4 = Some x" by blast
    then have "ListAllProcessThreads K (guarded (all_stopped self) callback) addr s = ListAllProcessThreads K callback addr s"
      using d b m l True by (simp add: ListAllProcessThreads_def Let_def)
    then show ?thesis using assms(1) by auto
  qed (use assms(1) d b m in \<open>auto simp: ListAllProcessThreads_def Let_def\<close>)
qed

subsection \<open>Decimal numbers\<close>

lemma is_digit_of_int:
  assumes "0 \<le> d" "d < 10"
  shows "is_digit (of_int (d + 48)) \<and> uint (of_int (d + 48) :: byte) - 48 = d"
proof -
  have "uint (of_int (d + 48) :: byte) = d + 48"
    using assms by (simp add: uint_word_of_int take_bit_eq_mod del: of_int_add)
  then show ?thesis using assms by (simp add: is_digit_def word_le_def del: of_int_add)
qed

lemma itoa_head: "0 \<le> i \<Longrightarrow> \<exists>c cs. local_itoa i = c # cs \<and> is_digit c"
proof (induction i rule: local_itoa.induct)
  case (1 i)
  show ?case
  proof (cases "i \<ge> 10")
    case True
    then obtain c cs where "local_itoa (i div 10) = c # cs" "is_digit c" using 1 by (auto simp: pos_imp_zdiv_nonneg_iff)
    then show ?thesis using True by (subst local_itoa.simps) simp
  next
    case False
    then show ?thesis using 1(3) is_digit_of_int [of i] by (subst local_itoa.simps) simp
  qed
qed

lemma atoi_itoa:
  "0 \<le> i \<Longrightarrow> \<exists>k. \<forall>n rest. atoi_digits n (local_itoa i @ rest) = atoi_digits (n * 10 ^ k + i) rest"
proof (induction i rule: local_itoa.induct)
  case (1 i)
  let ?d = "of_int (i mod 10 + 48) :: byte"
  have d: "is_digit ?d" "uint ?d - 48 = i mod 10" using is_digit_of_int [of "i mod 10"] by simp_all
  show ?case
  proof (cases "i \<ge> 10")
    case True
    then obtain k where IH: "\<And>n rest. atoi_digits n (local_itoa (i div 10) @ rest) = atoi_digits (n * 10 ^ k + i div 10) rest"
      using 1 by (auto simp: pos_imp_zdiv_nonneg_iff)
    have "atoi_digits n (local_itoa i @ rest) = atoi_digits (n * 10 ^ Suc k + i) rest" for n rest
    proof -
      have "local_itoa i = local_itoa (i div 10) @ [?d]" using True by (subst local_itoa.simps) simp
      then have "atoi_digits n (local_itoa i @ rest) = atoi_digits (10 * (n * 10 ^ k + i div 10) + i mod 10) rest"
        using IH [of n "?d # rest"] d by simp
      then show ?thesis by (simp add: algebra_simps)
    qed
    then show ?thesis by blast
  next
    case False
    then have "local_itoa i = [?d]" using 1(3) by (subst local_itoa.simps) simp
    with d False 1(3) have "atoi_digits n (local_itoa i @ rest) = atoi_digits (n * 10 ^ 1 + i) rest" for n rest
      by (simp add: algebra_simps)
    then show ?thesis by blast
  qed
qed

lemma atoi_stop: "\<not> (\<exists>c cs. rest = c # cs \<and> is_digit c) \<Longrightarrow> atoi_digits n rest = n"
  by (cases rest) auto

subsection \<open>The signal handler\<close>

lemma kill_threads_calls:
  "\<exists>new. calls (kill_threads K ps s) = calls s @ new \<and> (\<forall>p \<in> set ps. \<exists>r. (NR_ptrace PTRACE_KILL p 0, r) \<in> set new)"
proof (induction ps arbitrary: s)
  case (Cons p ps)
  obtain rc1 r1 s1 where y: "sys_int K NR_sched_yield s = ((rc1, r1), s1)" by (metis prod.exhaust_sel)
  obtain rc2 r2 s2 where k: "sys_ptrace K PTRACE_KILL p 0 s1 = ((rc2, r2), s2)" by (metis prod.exhaust_sel)
  obtain new where n: "calls (kill_threads K ps s2) = calls s2 @ new"
    "\<forall>p \<in> set ps. \<exists>r. (NR_ptrace PTRACE_KILL p 0, r) \<in> set new" using Cons by blast
  have "calls s2 = calls s @ [(NR_sched_yield, r1), (NR_ptrace PTRACE_KILL p 0, r2)]"
    using calls_sys_int [OF y] calls_sys_long [OF k [unfolded sys_ptrace_def]] by simp
  with y k n show ?case by auto
qed simp

lemma close_fd_calls: "close_fd K f s = Some s' \<Longrightarrow> \<exists>new. calls s' = calls s @ new"
proof -
  assume run: "close_fd K f s = Some s'"
  show ?thesis
  proof (cases "f \<ge> 0")
    case True
    with run obtain x where x: "no_intr (\<lambda>(rc, _) s. rc < 0 \<and> errno s = EINTR) (sys_int K (NR_close f)) s = Some (x, s')"
      by (auto simp: close_fd_def NO_INTR_def sys_close_def split: bind_splits)
    have "\<exists>s0. (\<exists>new. calls s0 = calls s @ new) \<and> sys_int K (NR_close f) s0 = (x, s') \<and>
        \<not> (\<lambda>(rc, _) s. rc < 0 \<and> errno s = EINTR) x s'"
      by (rule no_intr_result [OF x]) (force dest: calls_sys_int)+
    then show ?thesis by (metis append.assoc calls_sys_int prod.collapse)
  qed (use run in \<open>simp add: close_fd_def\<close>)
qed


lemma SignalHandler_cases:
  assumes "SignalHandler K signum l s = Some (code, s')" "sig_pids l" "sig_num_threads l = num_threads l"
  shows "code = (if signum = SIGABRT then 1 else 2) \<and>
    (\<exists>t new. calls s' = calls t @ new \<and> traced (calls s') = traced (calls t) \<and>
      t = (if signum = SIGABRT then kill_threads K (rev (pids l)) s
           else snd (ResumeAllProcessThreads K (pids l) s)))"
proof -
  define t where "t = (if signum = SIGABRT then kill_threads K (rev (pids l)) s
      else snd (ResumeAllProcessThreads K (pids l) s))"
  define c :: int where "c = (if signum = SIGABRT then 1 else 2)"
  have "SignalHandler K signum l s = close_fd K (sig_marker l) t \<bind>
      (\<lambda>s. close_fd K (sig_proc l) s \<bind> (\<lambda>s. Some (c, sys_exit K c s)))"
    using assms(2,3) unfolding t_def c_def
    by (cases "pids l") (simp_all add: SignalHandler_def ResumeAllProcessThreads_def Let_def)
  with assms(1) obtain u v where cl: "close_fd K (sig_marker l) t = Some u" "close_fd K (sig_proc l) u = Some v"
    and s': "s' = sys_exit K c v" "code = c"
    by (auto simp: bind_eq_Some_conv)
  obtain rc r where "sys_int K (NR_exit c) v = ((rc, r), s')"
    using s'(1) unfolding sys_exit_def by (metis prod.collapse)
  then have "\<exists>new. calls s' = calls t @ new"
    using close_fd_calls [OF cl(1)] close_fd_calls [OF cl(2)] calls_sys_int by (metis append.assoc)
  moreover have "traced (calls s') = traced (calls t)"
    using traced_close_fd [OF cl(1)] traced_close_fd [OF cl(2)] s'(1) by simp
  ultimately show ?thesis using s'(2) t_def c_def by blast
qed

subsection \<open>The caller of the lister\<close>

lemma run_callback_result:
  assumes "run_callback K callback env args l s = Some ((code, args'), s')" "lister_inv env l s" "lp_result args = -1"
  shows "lp_result args' = -1 \<or>
    (\<exists>t t'. callback (pids l) t = Some (lp_result args', t') \<and> all_stopped (clone_pid env) (pids l) t \<and>
       lp_err args' = errno t')"
proof -
  have "all_stopped (clone_pid env) (pids l) t"
    if "NO_INTR (sys_int K (NR_close (marker env))) s = Some (x, t)" for x t
    using quiet_NO_INTR [OF that] assms(2) by (auto simp: all_stopped_def lister_inv_def)
  then show ?thesis
    using assms(1,3)
    by (fastforce simp: run_callback_def sys_close_def Let_def split: bind_splits if_splits prod.splits)
qed

lemma lister_failure_result:
  "lister_failure K mk proc s = Some ((code, args), s') \<Longrightarrow> lp_result args = -1"
  by (auto simp: lister_failure_def Let_def split: bind_splits)

lemma exit_result_cases: "lp_result (exit_result status args) = -1 \<or> exit_result status args = args"
  by (auto simp: exit_result_def)

lemma ListerThread_result:
  assumes "ListerThread K callback addr args s = Some ((code, args'), s')" "traced (calls s) = {}"
    "resumes_only callback" "lp_result args = -1"
  shows "lp_result args' = -1 \<or> traced (calls s') = {} \<and>
    (\<exists>self ps t t'. callback ps t = Some (lp_result args', t') \<and> all_stopped self ps t \<and> lp_err args' = errno t')"
  using assms(1,2)
proof (cases rule: ListerThread_cases)
  case (failure mk proc t)
  then show ?thesis by (auto dest: lister_failure_result)
next
  case (run env l t)
  with assms(3,4) run_callback_releases [of K callback env args l t code args' s']
    run_callback_result [of K callback env args l t code args' s'] show ?thesis by blast
qed

lemma run_lister_result:
  assumes "run_lister K callback addr old s = Some (args, s')" "traced (calls s) = {}" "resumes_only callback"
  shows "lp_result args = -1 \<or> traced (calls s') = {} \<and>
    (\<exists>self ps t t'. callback ps t = Some (lp_result args, t') \<and> all_stopped self ps t \<and> lp_err args = errno t')"
proof -
  obtain pid r1 s1 where cl: "local_clone K s = ((pid, r1), s1)" by (metis prod.exhaust_sel)
  obtain x2 s2 where pr: "sys_int K (NR_prctl PR_SET_PTRACER pid) s1 = (x2, s2)" by (metis surj_pair)
  obtain x3 s3 where sm: "sys_int K (NR_rt_sigprocmask SIG_SETMASK (Some old) 8) s2 = (x3, s3)" by (metis surj_pair)
  have t3: "traced (calls s3) = {}"
    using assms(2) quiet_sys_int [OF cl [unfolded local_clone_def]] quiet_sys_int [OF pr] quiet_sys_int [OF sm] by simp
  show ?thesis
  proof (cases "pid < 0")
    case True
    with assms(1) cl pr sm show ?thesis by (auto simp: run_lister_def Let_def)
  next
    case False
    then obtain code largs s4 where l: "ListerThread K callback addr \<lparr>lp_result = -1, lp_err = 0\<rparr> s3 = Some ((code, largs), s4)"
      using assms(1) cl pr sm by (auto simp: run_lister_def Let_def split: bind_splits)
    then obtain rc r my s5 where w: "MY_NO_INTR (sys0_int K (NR_wait4 pid WALL) 0) s4 = Some ((rc, r, my), s5)"
      using assms(1) cl pr sm False by (auto simp: run_lister_def Let_def split: bind_splits)
    have "s' = s5 \<and> (lp_result args = -1 \<or> args = largs)"
      using assms(1) cl pr sm False l w exit_result_cases
      by (auto simp: run_lister_def Let_def split: if_splits)
    then show ?thesis
      using ListerThread_result [OF l t3 assms(3)] quiet_MY_NO_INTR [OF w] by auto
  qed
qed

lemma traced_errno [simp]: "traced (calls (s\<lparr>errno := e\<rparr>)) = traced (calls s)"
  by simp

lemma ListAll_result:
  assumes run: "ListAllProcessThreads K callback addr s = Some (rc, s')"
    and pre: "traced (calls s) = {}" "resumes_only callback"
  shows "rc = -1 \<or> traced (calls s') = {} \<and>
    (\<exists>self ps t t'. callback ps t = Some (rc, t') \<and> all_stopped self ps t \<and> errno s' = errno t')"
proof -
  let ?s1 = "DirtyStack K 32768 s"
  obtain dump r2 s2 where d: "sys_int K (NR_prctl PR_GET_DUMPABLE 0) ?s1 = ((dump, r2), s2)" by (metis prod.exhaust_sel)
  let ?s3 = "if dump = 0 then snd (sys_int K (NR_prctl PR_SET_DUMPABLE 1) s2) else s2"
  obtain blocked e where b: "unblock_sync sync_signals (sys_sigfillset \<lparr>sig = [0]\<rparr>, errno ?s3) = (blocked, e)"
    by (metis surj_pair)
  obtain rc4 r4 s4 where m: "sys_int K (NR_rt_sigprocmask SIG_BLOCK (Some blocked) 8) (?s3\<lparr>errno := e\<rparr>) = ((rc4, r4), s4)"
    by (metis prod.exhaust_sel)
  have t4: "traced (calls s4) = {}"
    using pre(1) quiet_sys_int [OF d] quiet_sys_int [OF m]
    by (auto simp: DirtyStack_def sys_read_def split: if_splits)
  show ?thesis
  proof (cases "rc4 \<noteq> 0")
    case True
    with run d b m show ?thesis by (auto simp: ListAllProcessThreads_def Let_def split: if_splits)
  next
    case False
    then obtain args s5 where l: "run_lister K callback addr \<lparr>sig = [of_le64 (stored 8 (kbytes r4))]\<rparr> s4 = Some (args, s5)"
      using run d b m by (auto simp: ListAllProcessThreads_def Let_def split: bind_splits if_splits)
    have s': "rc = lp_result args"
      "s' = (if dump = 0 then snd (sys_int K (NR_prctl PR_SET_DUMPABLE dump) s5) else s5)\<lparr>errno := lp_err args\<rparr>"
      using run d b m l False by (auto simp: ListAllProcessThreads_def Let_def split: if_splits)
    then have "traced (calls s') = traced (calls s5)" by simp
    then show ?thesis using run_lister_result [OF l t4 pre(2)] s' by auto
  qed
qed

subsection \<open>Running the lister symbolically\<close>

text \<open>
  A kernel that answers from a list of replies, and with \<open>ENOSYS\<close> after its end. Descriptor 6 stands
  for the file \<open>core\<close>, and no pipe gets it. What is written to it is kept; the number in the reply
  to such a call bounds how much is taken.
\<close>

fun fix_reply :: "syscall \<Rightarrow> kreply \<Rightarrow> kreply" where
  "fix_reply NR_pipe r = r\<lparr>kints := map (\<lambda>i. if i = 6 then 7 else i) (kints r)\<rparr>"
| "fix_reply (NR_open p fl md) r = (if p = str ''core'' then r\<lparr>kret := 6\<rparr> else r)"
| "fix_reply c r = r"

fun scripted :: "(kreply list \<times> byte list) kern" where
  "scripted c (r # rs, w) =
     (case c of
        NR_write f b \<Rightarrow>
          if f = 6 then let k = min (unat (kret r)) (min (buf_len b) 1000)
            in (\<lparr>kret = of_nat k, kbytes = [], kints = []\<rparr>, rs, w @ take k (buf_bytes demo_memory b))
          else (r, rs, w)
      | _ \<Rightarrow> (fix_reply c r, rs, w))"
| "scripted c ([], w) = (\<lparr>kret = - 38, kbytes = [], kints = []\<rparr>, [], w)"

lemma scripted_input: "\<not> outputs c \<Longrightarrow> scripted c (r # rs, w) = (fix_reply c r, rs, w)"
  by (cases c) simp_all

definition script_start :: "kreply list \<Rightarrow> (kreply list \<times> byte list) st" where
  "script_start rs = \<lparr>errno = 0, calls = [], world = (rs, [])\<rparr>"

definition ret :: "u64 \<Rightarrow> kreply" where
  "ret n = \<lparr>kret = n, kbytes = [], kints = []\<rparr>"

definition ret_word :: "int \<Rightarrow> kreply" where
  "ret_word j = \<lparr>kret = 0, kbytes = [], kints = [j]\<rparr>"

text \<open>The reply to \<open>stat\<close> for the marker (inode 42), and to \<open>getdents\<close> with threads 7 and 8.\<close>

definition ret_stat :: kreply where
  "ret_stat = \<lparr>kret = 0, kbytes = [1, 0, 0, 0, 0, 0, 0, 0, 42], kints = []\<rparr>"

definition ret_dir :: kreply where
  "ret_dir = \<lparr>kret = 40,
     kbytes = [1, 0, 0, 0, 0, 0, 0, 0, 0, 0, 0, 0, 0, 0, 0, 0, 20, 0, 55, 0] @
              [2, 0, 0, 0, 0, 0, 0, 0, 0, 0, 0, 0, 0, 0, 0, 0, 20, 0, 56, 0], kints = []\<rparr>"

lemma ret_simps [simp]:
  "kret (ret n) = n" "kret (ret_word j) = 0" "kints (ret_word j) = [j]" "kret ret_dir = 40"
  "kret ret_stat = 0" "stat_ino ret_stat = 42" "stat_nlink ret_stat = 0" "grow_threads 0 0 = 100"
  by (simp_all add: ret_def ret_word_def ret_dir_def) code_simp+

lemma ret_dir_entries [simp]:
  "dirent_at (stored 40 (kbytes ret_dir)) 0 = \<lparr>d_ino = 1, d_reclen = 20, d_name = [55]\<rparr>"
  "dirent_at (stored 40 (kbytes ret_dir)) 20 = \<lparr>d_ino = 2, d_reclen = 20, d_name = [56]\<rparr>"
  "entry_pid [55] = Some 7" "entry_pid [56] = Some 8"
  by code_simp+

text \<open>One call of the scripted kernel, and one step of each loop, as rewrite rules.\<close>

lemma sys_int_scripted:
  "\<not> outputs c \<Longrightarrow> fix_reply c r = r \<Longrightarrow> sys_int scripted c \<lparr>errno = e, calls = cs, world = (r # rs, w)\<rparr> =
   (case LSS_RETURN_int (kret r) e of (rc, e) \<Rightarrow> ((rc, r), \<lparr>errno = e, calls = cs @ [(c, r)], world = (rs, w)\<rparr>))"
  by (simp add: sys_defs scripted_input del: scripted.simps)

lemma sys_long_scripted:
  "\<not> outputs c \<Longrightarrow> fix_reply c r = r \<Longrightarrow> sys_long scripted c \<lparr>errno = e, calls = cs, world = (r # rs, w)\<rparr> =
   (case LSS_RETURN (kret r) e of (rc, e) \<Rightarrow> ((rc, r), \<lparr>errno = e, calls = cs @ [(c, r)], world = (rs, w)\<rparr>))"
  by (simp add: sys_defs scripted_input del: scripted.simps)

lemma NO_INTR_once:
  "fn s = ((rc, r), s') \<Longrightarrow> rc \<ge> 0 \<or> errno s' \<noteq> EINTR \<Longrightarrow> NO_INTR fn s = Some ((rc, r), s')"
  by (auto simp: NO_INTR_def no_intr.simps)

lemma proc_entries_step:
  "pos < length buf \<Longrightarrow> proc_entry K env (dirent_at buf pos) l s = Some (False, l', s') \<Longrightarrow>
   proc_entries K env buf pos l s = proc_entries K env buf (pos + d_reclen (dirent_at buf pos)) l' s'"
  by (simp add: proc_entries.simps [of _ _ _ pos] Let_def)

lemma proc_entries_end: "length buf \<le> pos \<Longrightarrow> proc_entries K env buf pos l s = Some (False, l, s)"
  by (simp add: proc_entries.simps)

lemma scan_proc_entries:
  "sys_int K (NR_getdents (sig_proc l) 4096) s = ((n, r), s1) \<Longrightarrow> n > 0 \<Longrightarrow>
   proc_entries K env (stored n (kbytes r)) 0 l s1 = Some (False, l2, s2) \<Longrightarrow>
   scan_proc K env l s = scan_proc K env l2 s2"
  by (simp add: scan_proc.simps [of _ _ _ s])

lemma scan_proc_again:
  "sys_int K (NR_getdents (sig_proc l) 4096) s = ((0, r), s1) \<Longrightarrow> added_entries l > 0 \<Longrightarrow>
   sys_long K (NR_lseek (sig_proc l) 0 0) s1 = (x, s2) \<Longrightarrow>
   scan_proc K env l s = scan_proc K env (l\<lparr>added_entries := 0\<rparr>) s2"
  by (simp add: scan_proc.simps [of _ _ _ s])

lemma scan_proc_ends:
  "sys_int K (NR_getdents (sig_proc l) 4096) s = ((n, r), s1) \<Longrightarrow> n < 0 \<Longrightarrow>
   scan_proc K env l s = Some (Scan_failed, l, s1)"
  "sys_int K (NR_getdents (sig_proc l) 4096) s = ((0, r), s1) \<Longrightarrow> added_entries l = 0 \<Longrightarrow>
   scan_proc K env l s = Some (Scanned, l, s1)"
  by (simp_all add: scan_proc.simps)

lemma find_threads_step:
  "search_dir K env path (rest = []) l s = Some (res, l', s') \<Longrightarrow>
   find_threads K env (path # rest) l s =
     (if res = Found then Some (True, l', s') else if res = Failed then Some (False, l', s')
      else if res = Retry then find_threads K env (path # rest) l' s' else find_threads K env rest l' s')"
  by (subst find_threads.simps) simp

lemmas lister_run = sys_int_scripted sys_long_scripted NO_INTR_once proc_entries_step proc_entries_end
  scan_proc_entries scan_proc_again scan_proc_ends find_threads_step LSS_RETURN_int_def LSS_RETURN_def

lemmas lister_defs = ListerThread_def sys_gettid_def sys_fcntl_def sys_close_def sys_open_def sys_ptrace_def
  sys_waitpid_def c_open_def close_fd_def sys_exit_def search_dir_def proc_entry_def attach_thread_def
  same_address_space_def same_word_def push_pid_def pop_pid_def lister_init_def lister_failure_def
  run_callback_def ResumeAllProcessThreads_def sys_ptrace_detach_def

text \<open>
  The lister (thread 9 of process 7) opens its marker and the task directory; threads 7 and 8
  are there and are stopped one after the other.
\<close>

definition lister_prologue :: "kreply list" where
  "lister_prologue = [ret 9, ret 7, ret 3, ret 0, ret_stat, ret 0, ret 0, ret 0, ret 0, ret 0, ret 0, ret 0, ret 0,
     ret 4, ret_stat, ret_dir,
     ret_stat, ret 0, ret 7, ret_word 0, ret_word 1,
     ret_stat, ret 0, ret 8, ret_word 1, ret_word 2]"

text \<open>A second pass over the directory finds nothing new, and the marker is closed.\<close>

definition lister_script :: "kreply list" where
  "lister_script = lister_prologue @ [ret 0, ret 0, ret_dir, ret_stat, ret_stat, ret 0, ret 0, ret 0]"

text \<open>The replies to resuming the two threads: the first time, and when they are running already.\<close>

definition resume_script :: "kreply list" where
  "resume_script = [ret 0, ret 0, ret 0, ret 0, ret 0, ret 0]"

definition resumed_script :: "kreply list" where
  "resumed_script = [ret 0, ret (- 3), ret (- 3), ret 0, ret (- 3), ret (- 3)]"

definition good_script :: "kreply list" where
  "good_script = lister_script @ resume_script @ resumed_script @ [ret 0]"

text \<open>The directory cannot be read any more after the first pass.\<close>

definition failing_script :: "kreply list" where
  "failing_script = lister_prologue @ [ret (- 5), ret 0, ret 0, ret 0]"

definition resume_callback :: "'w kern \<Rightarrow> int \<Rightarrow> int list \<Rightarrow> 'w st \<Rightarrow> (int \<times> 'w st) option" where
  "resume_callback K rc ps s = (let (_, s) = ResumeAllProcessThreads K ps s in Some (rc, s))"

lemma resumes_only_resume_callback: "resumes_only (resume_callback K rc)"
  by (auto simp: resumes_only_def resume_callback_def case_prod_unfold traced_Resume)

lemmas script_defs = script_start_def lister_prologue_def lister_script_def resume_script_def resumed_script_def
  good_script_def failing_script_def resume_callback_def

lemma lister_run_from:
  "\<exists>cs'. ListerThread scripted cb 1000 \<lparr>lp_result = -1, lp_err = 0\<rparr>
     \<lparr>errno = e, calls = cs, world = (lister_script @ rs, w)\<rparr> =
     do {
       (rc, s) \<leftarrow> cb [7, 8] \<lparr>errno = e, calls = cs', world = (rs, w)\<rparr>;
       let args = \<lparr>lp_result = rc, lp_err = errno s\<rparr>;
       let (resumed, s) = ResumeAllProcessThreads scripted [7, 8] s;
       let args = (if resumed then \<lparr>lp_result = -1, lp_err = EINVAL\<rparr> else args);
       Some ((0, args), sys_exit scripted 0 s)
     }"
  by (rule exI) (simp add: script_defs lister_defs lister_run Let_def del: scripted.simps cong: if_cong)

lemma resume_run:
  "e \<noteq> ENOSYS \<Longrightarrow> \<exists>cs'. ResumeAllProcessThreads scripted [7, 8] \<lparr>errno = e, calls = cs, world = (resume_script @ rs, w)\<rparr> =
     (True, \<lparr>errno = e, calls = cs', world = (rs, w)\<rparr>)"
  "\<exists>cs'. ResumeAllProcessThreads scripted [7, 8] \<lparr>errno = e, calls = cs, world = (resumed_script @ rs, w)\<rparr> =
     (False, \<lparr>errno = 3, calls = cs', world = (rs, w)\<rparr>)"
  by (simp_all add: script_defs lister_defs lister_run Let_def del: scripted.simps)

text \<open>A callback that consumes the replies \<open>rs1\<close> and returns \<open>rc\<close>.\<close>

definition callback_runs ::
    "(int list \<Rightarrow> (kreply list \<times> byte list) st \<Rightarrow> (int \<times> (kreply list \<times> byte list) st) option) \<Rightarrow> kreply list \<Rightarrow>
     int \<Rightarrow> byte list \<Rightarrow> int \<Rightarrow> int \<Rightarrow> byte list \<Rightarrow> bool" where
  "callback_runs cb rs1 e w rc e' w' \<longleftrightarrow>
     (\<forall>cs rs. \<exists>cs'. cb [7, 8] \<lparr>errno = e, calls = cs, world = (rs1 @ rs, w)\<rparr> =
       Some (rc, \<lparr>errno = e', calls = cs', world = (rs, w')\<rparr>))"

lemma lister_returns:
  assumes "callback_runs cb rs1 e w rc e' w'"
  shows "\<exists>cs'. ListerThread scripted cb 1000 \<lparr>lp_result = -1, lp_err = 0\<rparr>
     \<lparr>errno = e, calls = cs, world = (lister_script @ rs1 @ resumed_script @ [ret 0] @ rs, w)\<rparr> =
     Some ((0, \<lparr>lp_result = rc, lp_err = e'\<rparr>), \<lparr>errno = 3, calls = cs', world = (rs, w')\<rparr>)"
proof -
  obtain cs1 where 1: "ListerThread scripted cb 1000 \<lparr>lp_result = -1, lp_err = 0\<rparr>
     \<lparr>errno = e, calls = cs, world = (lister_script @ rs1 @ resumed_script @ [ret 0] @ rs, w)\<rparr> =
     do {
       (rc, s) \<leftarrow> cb [7, 8] \<lparr>errno = e, calls = cs1, world = (rs1 @ resumed_script @ [ret 0] @ rs, w)\<rparr>;
       let args = \<lparr>lp_result = rc, lp_err = errno s\<rparr>;
       let (resumed, s) = ResumeAllProcessThreads scripted [7, 8] s;
       let args = (if resumed then \<lparr>lp_result = -1, lp_err = EINVAL\<rparr> else args);
       Some ((0, args), sys_exit scripted 0 s)
     }" using lister_run_from by blast
  obtain cs2 where 2: "cb [7, 8] \<lparr>errno = e, calls = cs1, world = (rs1 @ resumed_script @ [ret 0] @ rs, w)\<rparr> =
       Some (rc, \<lparr>errno = e', calls = cs2, world = (resumed_script @ [ret 0] @ rs, w')\<rparr>)" using assms unfolding callback_runs_def by blast
  obtain cs3 where "ResumeAllProcessThreads scripted [7, 8] \<lparr>errno = e', calls = cs2, world = (resumed_script @ [ret 0] @ rs, w')\<rparr> =
     (False, \<lparr>errno = 3, calls = cs3, world = ([ret 0] @ rs, w')\<rparr>)" using resume_run(2) by blast
  with 1 2 show ?thesis by (simp add: sys_exit_def lister_run del: scripted.simps)
qed

lemma resume_callback_run:
  assumes "e \<noteq> ENOSYS"
  shows "callback_runs (resume_callback scripted rc) resume_script e w rc e w"
  unfolding callback_runs_def
proof (intro allI)
  fix cs rs
  show "\<exists>cs'. resume_callback scripted rc [7, 8] \<lparr>errno = e, calls = cs, world = (resume_script @ rs, w)\<rparr> =
      Some (rc, \<lparr>errno = e, calls = cs', world = (rs, w)\<rparr>)"
    using resume_run(1) [OF assms, of cs rs w] by (auto simp: resume_callback_def)
qed

lemma good_run_from:
  "e \<noteq> ENOSYS \<Longrightarrow> \<exists>cs'. ListerThread scripted (resume_callback scripted 5) 1000 \<lparr>lp_result = -1, lp_err = 0\<rparr>
     \<lparr>errno = e, calls = cs, world = (good_script @ rs, w)\<rparr> =
     Some ((0, \<lparr>lp_result = 5, lp_err = e\<rparr>), \<lparr>errno = 3, calls = cs', world = (rs, w)\<rparr>)"
  using lister_returns [OF resume_callback_run] by (simp add: good_script_def)

lemma good_run:
  "\<exists>s'. ListerThread scripted (resume_callback scripted 5) 1000 \<lparr>lp_result = -1, lp_err = 0\<rparr>
     (script_start good_script) = Some ((0, \<lparr>lp_result = 5, lp_err = 0\<rparr>), s')"
  using good_run_from [of 0 "[]" "[]" "[]"] by (auto simp: script_start_def)

lemma failing_run:
  "\<exists>s'. ListerThread scripted (resume_callback scripted 5) 1000 \<lparr>lp_result = -1, lp_err = 0\<rparr>
     (script_start failing_script) = Some ((1, \<lparr>lp_result = -1, lp_err = 5\<rparr>), s') \<and> traced (calls s') = {7, 8}"
  by (simp add: script_defs lister_defs lister_run Let_def traced_def call_ok_def del: scripted.simps) auto

text \<open>The whole call: the caller clones the lister, which runs as above, and reaps it.\<close>

lemma sys0_int_scripted:
  "\<not> outputs c \<Longrightarrow> fix_reply c r = r \<Longrightarrow> sys0_int scripted c e0 \<lparr>errno = e, calls = cs, world = (r # rs, w)\<rparr> =
   (case LSS_RETURN_int (kret r) e0 of (rc, e1) \<Rightarrow> ((rc, r, e1), \<lparr>errno = e, calls = cs @ [(c, r)], world = (rs, w)\<rparr>))"
  by (simp add: sys_defs scripted_input del: scripted.simps)

lemma MY_NO_INTR_once:
  "fn s = ((rc, r, e), s') \<Longrightarrow> rc \<ge> 0 \<or> e \<noteq> EINTR \<Longrightarrow> MY_NO_INTR fn s = Some ((rc, r, e), s')"
  by (auto simp: MY_NO_INTR_def no_intr.simps)

definition call_script :: "kreply list \<Rightarrow> kreply list" where
  "call_script rs = [ret (- 9), ret 2, ret 0, ret 9, ret 0, ret 0] @ lister_script @ rs @ resumed_script @ [ret 0] @
     [\<lparr>kret = 9, kbytes = [], kints = [0]\<rparr>]"

lemma run_lister_returns:
  assumes "callback_runs cb rs1 9 w rc e' w'"
  shows "\<exists>cs' e''. run_lister scripted cb 1000 old
      \<lparr>errno = 9, calls = cs, world = ([ret 9, ret 0, ret 0] @ lister_script @ rs1 @ resumed_script @ [ret 0] @
        [\<lparr>kret = 9, kbytes = [], kints = [0]\<rparr>], w)\<rparr> =
      Some (\<lparr>lp_result = rc, lp_err = e'\<rparr>, \<lparr>errno = e'', calls = cs', world = ([], w')\<rparr>)"
proof -
  obtain cs' where "ListerThread scripted cb 1000 \<lparr>lp_result = -1, lp_err = 0\<rparr>
      \<lparr>errno = 9, calls = cs @ [(NR_clone 0x800700, ret 9), (NR_prctl PR_SET_PTRACER 9, ret 0),
         (NR_rt_sigprocmask SIG_SETMASK (Some old) 8, ret 0)],
       world = (lister_script @ rs1 @ resumed_script @ [ret 0] @ [\<lparr>kret = 9, kbytes = [], kints = [0]\<rparr>], w)\<rparr> =
      Some ((0, \<lparr>lp_result = rc, lp_err = e'\<rparr>), \<lparr>errno = 3, calls = cs', world = ([\<lparr>kret = 9, kbytes = [], kints = [0]\<rparr>], w')\<rparr>)"
    using lister_returns [OF assms] by blast
  then show ?thesis
    by (simp add: run_lister_def local_clone_def lister_run sys0_int_scripted MY_NO_INTR_once exit_result_def
        WIFEXITED_def WEXITSTATUS_def Let_def del: scripted.simps)
qed

lemma call_returns:
  assumes "callback_runs cb rs1 9 w rc e' w'"
  shows "\<exists>cs'. ListAllProcessThreads scripted cb 1000 \<lparr>errno = e, calls = cs, world = (call_script rs1, w)\<rparr> =
    Some (rc, \<lparr>errno = e', calls = cs', world = ([], w')\<rparr>)"
proof -
  obtain blocked e1 where b: "unblock_sync sync_signals (sys_sigfillset \<lparr>sig = [0]\<rparr>, 9) = (blocked, e1)" by (metis surj_pair)
  have e: "e1 = 9" using b by (simp add: sys_sigfillset_def sys_sigdelset_def Let_def)
  from run_lister_returns [OF assms, of "\<lparr>sig = [of_le64 (stored 8 (kbytes (ret 0)))]\<rparr>"
      "cs @ [(NR_read (-1) 32768, ret (- 9)), (NR_prctl 3 0, ret 2), (NR_rt_sigprocmask 0 (Some blocked) 8, ret 0)]"]
  show ?thesis
    using b e by (auto simp: ListAllProcessThreads_def call_script_def DirtyStack_def sys_read_def
        lister_run Let_def simp del: unblock_sync.simps scripted.simps)
qed

lemma full_run:
  "\<exists>s'. ListAllProcessThreads scripted (resume_callback scripted 5) 1000 (script_start (call_script resume_script)) = Some (5, s')"
  using call_returns [OF resume_callback_run [of 9]] by (fastforce simp: script_start_def)

subsection \<open>Properties\<close>

text \<open>
  C12: when the lister calls its callback, every thread in the array is stopped and every
  stopped thread is in the array, once, and the lister itself is not among them: the run is
  the same with a callback that is only defined in such a state.
\<close>

theorem ListerThread_callback_all_stopped:
  assumes "ListerThread K callback addr args s = Some r" "traced (calls s) = {}"
  shows "ListerThread K (guarded (all_stopped (fst (sys_gettid K s))) callback) addr args s = Some r"
  by (rule ListerThread_guarded [OF assms])

lemma ListerThread_callback_all_stopped_witness:
  "\<exists>s'. ListerThread scripted
     (guarded (all_stopped (fst (sys_gettid scripted (script_start good_script)))) (resume_callback scripted 5)) 1000
     \<lparr>lp_result = -1, lp_err = 0\<rparr> (script_start good_script) = Some ((0, \<lparr>lp_result = 5, lp_err = 0\<rparr>), s')"
proof -
  obtain s' where r: "ListerThread scripted (resume_callback scripted 5) 1000 \<lparr>lp_result = -1, lp_err = 0\<rparr>
     (script_start good_script) = Some ((0, \<lparr>lp_result = 5, lp_err = 0\<rparr>), s')" using good_run by blast
  have "traced (calls (script_start good_script)) = {}" by (simp add: script_start_def)
  from ListerThread_callback_all_stopped [OF r this] show ?thesis by blast
qed

text \<open>
  C13: the lister leaves no thread stopped. Whatever the kernel answers, when the lister exits
  with another code than 1 every thread it attached to has been detached, provided the
  callback stops no further thread.
\<close>

theorem ListerThread_releases_threads:
  assumes "ListerThread K callback addr args s = Some ((code, args'), s')" "traced (calls s) = {}"
    "resumes_only callback"
  shows "code \<in> {0, 1, 3} \<and> (code \<noteq> 1 \<longrightarrow> traced (calls s') = {})"
  using assms(1,2)
proof (cases rule: ListerThread_cases)
  case (failure mk proc t)
  then show ?thesis by (auto dest: traced_lister_failure)
next
  case (run env l t)
  with assms(3) show ?thesis by (auto dest: run_callback_releases)
qed

lemma ListerThread_releases_threads_witness:
  "\<exists>s'. ListerThread scripted (resume_callback scripted 5) 1000 \<lparr>lp_result = -1, lp_err = 0\<rparr>
     (script_start good_script) = Some ((0, \<lparr>lp_result = 5, lp_err = 0\<rparr>), s') \<and> traced (calls s') = {}"
proof -
  obtain s' where r: "ListerThread scripted (resume_callback scripted 5) 1000 \<lparr>lp_result = -1, lp_err = 0\<rparr>
     (script_start good_script) = Some ((0, \<lparr>lp_result = 5, lp_err = 0\<rparr>), s')" using good_run by blast
  have "traced (calls (script_start good_script)) = {}" by (simp add: script_start_def)
  from ListerThread_releases_threads [OF r this resumes_only_resume_callback] r show ?thesis by simp
qed


text \<open>
  C16: \<open>ListAllProcessThreads\<close> returns -1, or the value its callback returned, with the
  \<open>errno\<close> the callback left: the callback was called with all threads stopped, and all of
  them have been resumed.
\<close>

theorem ListAllProcessThreads_sound:
  assumes "ListAllProcessThreads K callback addr s = Some (rc, s')" "traced (calls s) = {}"
    "resumes_only callback"
  shows "rc = -1 \<or> traced (calls s') = {} \<and>
    (\<exists>self ps t t'. callback ps t = Some (rc, t') \<and> all_stopped self ps t \<and> errno s' = errno t')"
  by (rule ListAll_result [OF assms])

lemma ListAllProcessThreads_sound_witness:
  "\<exists>s'. ListAllProcessThreads scripted (resume_callback scripted 5) 1000 (script_start (call_script resume_script)) = Some (5, s') \<and>
    traced (calls s') = {}"
proof -
  obtain s' where r: "ListAllProcessThreads scripted (resume_callback scripted 5) 1000 (script_start (call_script resume_script)) = Some (5, s')"
    using full_run by blast
  have "traced (calls (script_start (call_script resume_script))) = {}" by (simp add: script_start_def)
  from ListAllProcessThreads_sound [OF r this resumes_only_resume_callback] r show ?thesis by auto
qed



text \<open>
  \<open>local_atoi\<close> reads back what \<open>local_itoa\<close> wrote, up to the first character that is not a
  digit.
\<close>

lemma local_atoi_itoa:
  assumes "\<not> (\<exists>c cs. rest = c # cs \<and> is_digit c)"
  shows "local_atoi (local_itoa i @ rest) = i"
proof -
  have pos: "atoi_digits 0 (local_itoa j @ rest) = j" if "0 \<le> j" for j
    using atoi_itoa [OF that] atoi_stop [OF assms] by (metis add_0 mult_zero_left)
  have head: "\<exists>c cs. local_itoa j = c # cs \<and> c \<noteq> 45" if "0 \<le> j" for j
    using itoa_head [OF that] by (auto simp: is_digit_def)
  show ?thesis
  proof (cases "i < 0")
    case True
    then have "local_itoa i = 45 # local_itoa (- i)" by (subst local_itoa.simps) simp
    then show ?thesis using pos [of "- i"] True by (simp add: local_atoi_def)
  next
    case False
    then show ?thesis using pos [of i] head [of i] by (auto simp: local_atoi_def)
  qed
qed

end
