(* ===== verification/Proc_Info.thy ===== *)
theory Proc_Info
  imports Elf_Core Thread_Lister
begin

text \<open>
  The part of \<open>InternalGetCoreDump\<close> (\<open>coredumper/elfcore.c\<close>) that collects what is written into
  the notes: the registers of the stopped threads, \<open>struct core_user\<close>, \<open>struct prpsinfo\<close> and
  \<open>struct prstatus\<close>; and the snapshot of the caller's registers by the macros \<open>FRAME\<close> and
  \<open>SET_FRAME\<close> of \<open>coredumper/elfcore.h\<close>.
\<close>

subsection \<open>The caller's registers\<close>

text \<open>
  Positions in \<open>struct i386_regs\<close>, in words of 8 bytes. The assembly of \<open>FRAME\<close> (x86\_64) runs
  on a machine state with the general registers, the segment registers, the flags and a stack;
  \<open>frame\<close> is the object \<open>f.uregs\<close>, addressed through \<open>rax\<close>.
\<close>

datatype reg = R15 | R14 | R13 | R12 | RBP | RBX | R11 | R10 | R9 | R8 | RAX | RCX | RDX | RSI | RDI | RSP

datatype seg = DS | ES | FS | GS | CS | SS

record machine =
  gpr    :: "reg \<Rightarrow> u64"
  segr   :: "seg \<Rightarrow> u64"
  rflags :: u64
  stack  :: "u64 list"       \<comment> \<open>top first, below the address in \<open>RSP\<close>\<close>
  frame  :: "u64 list"

datatype instr =
  Push reg | Pop reg | Store reg nat | Mov_seg seg reg | Mov reg reg
| Call_pop reg u64           \<comment> \<open>\<open>call 0f; 0: pop r\<close> with the address of the label 0\<close>
| Pushf_pop reg
| Add32 reg u64              \<comment> \<open>\<open>add $n,%e..\<close>: 32 bits, the upper half becomes 0\<close>
| Add64 reg u64

definition set_reg :: "reg \<Rightarrow> u64 \<Rightarrow> machine \<Rightarrow> machine" where
  "set_reg r v m = m\<lparr>gpr := (gpr m)(r := v)\<rparr>"

text \<open>
  An addition sets the six arithmetic flags: carry, parity of the low byte, carry out of the low
  four bits, zero, sign and signed overflow.
\<close>

abbreviation (input) "arithmetic_flags \<equiv> (0x8D5::u64)"

definition add_flags :: "'a::len word \<Rightarrow> 'a word \<Rightarrow> u64" where
  "add_flags a b =
     (let r = a + b in
      of_bool (r < a) OR push_bit 2 (of_bool (even (length (filter (bit r) [0..<8])))) OR
      push_bit 4 (of_bool (bit (a XOR b XOR r) 4)) OR push_bit 6 (of_bool (r = 0)) OR
      push_bit 7 (of_bool (bit r (LENGTH('a) - 1))) OR
      push_bit 11 (of_bool (bit ((a XOR r) AND (b XOR r)) (LENGTH('a) - 1))))"

definition set_flags :: "u64 \<Rightarrow> machine \<Rightarrow> machine" where
  "set_flags fl m = m\<lparr>rflags := (rflags m AND NOT arithmetic_flags) OR fl\<rparr>"

fun exec_instr :: "instr \<Rightarrow> machine \<Rightarrow> machine" where
  "exec_instr (Push r) m = (set_reg RSP (gpr m RSP - 8) m)\<lparr>stack := gpr m r # stack m\<rparr>"
| "exec_instr (Pop r) m =
     (case stack m of v # st \<Rightarrow> set_reg r v ((set_reg RSP (gpr m RSP + 8) m)\<lparr>stack := st\<rparr>) | [] \<Rightarrow> m)"
| "exec_instr (Store r off) m = m\<lparr>frame := (frame m)[off div 8 := gpr m r]\<rparr>"
| "exec_instr (Mov_seg sg r) m = set_reg r (segr m sg) m"
| "exec_instr (Mov r1 r2) m = set_reg r2 (gpr m r1) m"
| "exec_instr (Call_pop r ip) m = set_reg r ip m"
| "exec_instr (Pushf_pop r) m = set_reg r (rflags m) m"
| "exec_instr (Add32 r n) m =
     set_flags (add_flags (ucast (gpr m r) :: u32) (ucast n)) (set_reg r (ucast (ucast (gpr m r + n) :: u32)) m)"
| "exec_instr (Add64 r n) m = set_flags (add_flags (gpr m r) n) (set_reg r (gpr m r + n) m)"

text \<open>The assembly, with the addresses of its labels 0 and 1.\<close>

definition FRAME_code :: "u64 \<times> u64 \<Rightarrow> instr list" where
  "FRAME_code labels =
     [Push RBP, Push RBX,
      Store R15 0, Store R14 8, Store R13 16, Store R12 24, Store RBP 32, Store RBX 40, Store R11 48,
      Store R10 56, Store R9 64, Store R8 72, Store RAX 80, Store RCX 88, Store RDX 96, Store RSI 104,
      Store RDI 112,
      Mov_seg DS RBX, Store RBX 184, Mov_seg ES RBX, Store RBX 192, Mov_seg FS RBX, Store RBX 200,
      Mov_seg GS RBX, Store RBX 208,
      Call_pop RBX (fst labels), Add64 RBX (snd labels - fst labels), Store RBX 128, Mov_seg CS RBX, Store RBX 136,
      Pushf_pop RBX, Store RBX 144, Mov RSP RBX, Add32 RBX 16, Store RBX 152, Mov_seg SS RBX, Store RBX 160,
      Pop RBX, Pop RBP]"

definition FRAME_asm :: "u64 \<times> u64 \<Rightarrow> machine \<Rightarrow> machine" where
  "FRAME_asm labels = fold exec_instr (FRAME_code labels)"

record Frame =
  f_uregs :: regs
  f_errno :: int
  f_tid   :: int

text \<open>The macro: \<open>errno\<close> and the thread id, then the registers.\<close>

definition FRAME :: "'w kern \<Rightarrow> u64 \<times> u64 \<Rightarrow> machine \<Rightarrow> 'w st \<Rightarrow> Frame \<times> 'w st" where
  "FRAME K labels m s =
     (let e = errno s; (tid, s) = sys_gettid K s
      in (\<lparr>f_uregs = frame (FRAME_asm labels m), f_errno = e, f_tid = tid\<rparr>, s))"

text \<open>
  \<open>SET_FRAME(f, r)\<close>: on x86\_64 the bases of \<open>fs\<close> and \<open>gs\<close> (words 21 and 22) stay as \<open>ptrace\<close>
  reported them.
\<close>

fun set_frame_regs :: "arch \<Rightarrow> Frame \<Rightarrow> regs \<Rightarrow> regs" where
  "set_frame_regs X86_64 f r = (f_uregs f)[21 := r ! 21, 22 := r ! 22]"
| "set_frame_regs AARCH64 f r = f_uregs f"

definition SET_FRAME :: "arch \<Rightarrow> Frame \<Rightarrow> regs \<Rightarrow> 'w st \<Rightarrow> regs \<times> 'w st" where
  "SET_FRAME a f r s = (set_frame_regs a f r, s\<lparr>errno := f_errno f\<rparr>)"

subsection \<open>Registers of the threads\<close>

abbreviation (input) "PTRACE_GETREGSET \<equiv> (0x4204::int)"

text \<open>
  A \<open>ptrace\<close> request that fills the buffer \<open>scratch\<close>, preset with \<open>0xFF\<close>: whether it
  succeeded, and the first \<open>n\<close> bytes.
\<close>

definition scratch_bytes :: "nat \<Rightarrow> kreply \<Rightarrow> byte list" where
  "scratch_bytes n r = take n (kbytes r @ replicate n 0xFF)"

fun get_regs :: "'w kern \<Rightarrow> arch \<Rightarrow> int \<Rightarrow> 'w st \<Rightarrow> byte list option \<times> 'w st" where
  "get_regs K X86_64 pid s =
     (case sys_ptrace K PTRACE_GETREGS pid 0 s of ((rc, r), s) \<Rightarrow>
      (if rc = 0 then Some (scratch_bytes (8 * nregs X86_64) r) else None, s))"
| "get_regs K AARCH64 pid s =
     (case sys_ptrace K PTRACE_GETREGSET pid 1 s of ((rc, r), s) \<Rightarrow>
      (if rc < 0 then None else Some (scratch_bytes (8 * nregs AARCH64) r), s))"

fun get_fpregs :: "'w kern \<Rightarrow> arch \<Rightarrow> int \<Rightarrow> 'w st \<Rightarrow> byte list option \<times> 'w st" where
  "get_fpregs K X86_64 pid s =
     (case sys_ptrace K PTRACE_GETFPREGS pid 0 s of ((rc, r), s) \<Rightarrow>
      (if rc = 0 then Some (scratch_bytes (sizeof_fpregs X86_64) r) else None, s))"
| "get_fpregs K AARCH64 pid s =
     (case sys_ptrace K PTRACE_GETREGSET pid 2 s of ((rc, r), s) \<Rightarrow>
      (if rc < 0 then None else Some (scratch_bytes (sizeof_fpregs AARCH64) r), s))"

definition dec_regs :: "arch \<Rightarrow> byte list \<Rightarrow> regs" where
  "dec_regs a bs = map (\<lambda>i. of_le64 (take 8 (drop (8 * i) bs))) [0..<nregs a]"

definition read_thread :: "'w kern \<Rightarrow> arch \<Rightarrow> Frame \<Rightarrow> int \<Rightarrow> 'w st \<Rightarrow> thread_regs option \<times> 'w st" where
  "read_thread K a fr pid s =
     (case get_regs K a pid s of
        (None, s) \<Rightarrow> (None, s)
      | (Some bs, s) \<Rightarrow>
        let (rs, s) = (if f_tid fr = pid then SET_FRAME a fr (dec_regs a bs) s else (dec_regs a bs, s))
        in case get_fpregs K a pid s of
             (None, s) \<Rightarrow> (None, s)
           | (Some fp, s) \<Rightarrow> (Some \<lparr>t_pid = pid, t_regs = rs, t_fpregs = fp\<rparr>, s))"

text \<open>The loop over all threads; \<open>None\<close> when one of them could not be read.\<close>

fun read_threads :: "'w kern \<Rightarrow> arch \<Rightarrow> Frame \<Rightarrow> int list \<Rightarrow> 'w st \<Rightarrow> thread_regs list option \<times> 'w st" where
  "read_threads K a fr [] s = (Some [], s)"
| "read_threads K a fr (pid # ps) s =
     (case read_thread K a fr pid s of
        (None, s) \<Rightarrow> (None, s)
      | (Some t, s) \<Rightarrow>
        case read_threads K a fr ps s of
          (None, s) \<Rightarrow> (None, s)
        | (Some ts, s) \<Rightarrow> (Some (t # ts), s))"

subsection \<open>\<open>struct core_user\<close>\<close>

text \<open>Each successful \<open>PTRACE_PEEKUSER\<close> stores a word at its offset; results are not checked.\<close>

definition overlay :: "nat \<Rightarrow> byte list \<Rightarrow> byte list \<Rightarrow> byte list" where
  "overlay i bs u = take (length u) (take i u @ bs @ drop (i + length bs) u)"

fun peek_user :: "'w kern \<Rightarrow> int \<Rightarrow> nat list \<Rightarrow> byte list \<Rightarrow> 'w st \<Rightarrow> byte list \<times> 'w st" where
  "peek_user K pid [] u s = (u, s)"
| "peek_user K pid (i # is) u s =
     (case sys_ptrace K PTRACE_PEEKUSER pid (of_nat i) s of ((rc, r), s) \<Rightarrow>
      peek_user K pid is (if rc < 0 then u else overlay i (take 8 (kbytes r)) u) s)"

definition read_core_user ::
    "'w kern \<Rightarrow> arch \<Rightarrow> int list \<Rightarrow> thread_regs list \<Rightarrow> 'w st \<Rightarrow> byte list \<times> 'w st" where
  "read_core_user K a ps ts s =
     (let n = sizeof_core_user a;
          (u, s) = peek_user K (case ps of p # _ \<Rightarrow> p | [] \<Rightarrow> 0) (map (\<lambda>i. 4 * i) [0..<n div 4]) (replicate n 0) s
      in (overlay 0 (case ts of t # _ \<Rightarrow> enc_regs (t_regs t) | [] \<Rightarrow> []) u, s))"

subsection \<open>\<open>struct prpsinfo\<close>\<close>

text \<open>The last component of a path: characters after the last slash, of at most \<open>size\<close> characters.\<close>

fun basename_loop :: "byte list \<Rightarrow> byte list \<Rightarrow> byte list" where
  "basename_loop cmd [] = cmd"
| "basename_loop cmd (c # cs) = (if c = 47 then basename_loop [] cs else basename_loop (cmd @ [c]) cs)"

text \<open>\<open>*ptr != 0 && size-- > 0\<close>; the buffer of 4096 bytes was cleared before \<open>readlink\<close>.\<close>

definition exe_name :: "int \<Rightarrow> byte list \<Rightarrow> byte list" where
  "exe_name sz bs = basename_loop [] (takeWhile (\<lambda>c. c \<noteq> 0) (take (nat sz) bs))"

definition pad_bytes :: "nat \<Rightarrow> byte list \<Rightarrow> byte list" where
  "pad_bytes n bs = take n (bs @ replicate n 0)"

definition cmdline_args :: "byte list \<Rightarrow> byte list" where
  "cmdline_args bs = map (\<lambda>c. if c = 0 then 32 else c) bs"

definition read_cmdline :: "'w kern \<Rightarrow> 'w st \<Rightarrow> (byte list \<times> 'w st) option" where
  "read_cmdline K s = do {
     ((fd, _), s) \<leftarrow> NO_INTR (sys_open K (str ''/proc/self/cmdline'') O_RDONLY 0) s;
     if fd < 0 then Some (replicate 80 0, s)
     else do {
       ((n, bs), s) \<leftarrow> c_read K fd 80 s;
       (_, s) \<leftarrow> NO_INTR (sys_close K fd) s;
       Some (pad_bytes 80 (cmdline_args bs), s)
     }
   }"

definition read_prpsinfo :: "'w kern \<Rightarrow> int \<Rightarrow> 'w st \<Rightarrow> (prpsinfo \<times> 'w st) option" where
  "read_prpsinfo K main_pid s = do {
     let ((nice, _), s) = sys_int K (NR_getpriority 0 0) s;
     let ((uid, _), s) = sys_int K NR_geteuid s;
     let ((gid, _), s) = sys_int K NR_getegid s;
     let ((parent, _), s) = sys_int K NR_getppid s;
     let ((pgrp, _), s) = sys_int K NR_getpgrp s;
     let ((sid, _), s) = sys_int K (NR_getsid 0) s;
     let ((sz, r), s) = sys_int K (NR_readlink (str ''/proc/self/exe'') 4096) s;
     (psargs, s) \<leftarrow> read_cmdline K s;
     Some (\<lparr>ps_state = 0, ps_sname = 82, ps_zomb = 0, ps_nice = of_int nice, ps_flag = 0,
            ps_uid = of_int uid, ps_gid = of_int gid, ps_pid = main_pid, ps_ppid = parent, ps_pgrp = pgrp,
            ps_sid = sid, ps_fname = pad_bytes 16 (exe_name sz (stored sz (kbytes r))), ps_psargs = psargs\<rparr>, s)
   }"

subsection \<open>\<open>struct prstatus\<close>\<close>

text \<open>
  Walking over \<open>/proc/self/stat\<close>, a string without its final 0. \<open>skip_words n\<close> is
  \<open>for (int i = n; i && *ptr; ptr++) if (*ptr == ' ') i--\<close>.
\<close>

fun skip_words :: "nat \<Rightarrow> byte list \<Rightarrow> byte list" where
  "skip_words 0 cs = cs"
| "skip_words (Suc n) [] = []"
| "skip_words (Suc n) (c # cs) = skip_words (if c = 32 then n else Suc n) cs"

fun read_number :: "u64 \<Rightarrow> byte list \<Rightarrow> u64 \<times> byte list" where
  "read_number n [] = (n, [])"
| "read_number n (c # cs) = (if c = 32 then (n, c # cs) else read_number (10 * n + scast c - 48) cs)"

definition skip_one :: "byte list \<Rightarrow> byte list" where
  "skip_one cs = drop 1 cs"

definition ms_timeval :: "u64 \<Rightarrow> elf_timeval" where
  "ms_timeval tms = \<lparr>tv_sec = tms div 1000, tv_usec = (tms mod 1000) * 1000\<rparr>"

definition parse_stat :: "byte list \<Rightarrow> prstatus \<Rightarrow> prstatus" where
  "parse_stat cs p =
     (let (ut, cs) = read_number 0 (skip_words 13 cs);
          (st, cs) = read_number 0 (skip_one cs);
          (cut, cs) = read_number 0 (skip_one cs);
          (cst, cs) = read_number 0 (skip_one cs);
          (pend, cs) = read_number (pr_sigpend p) (skip_words 14 cs);
          (pend, cs) = read_number pend (skip_one cs)
      in p\<lparr>pr_utime := ms_timeval ut, pr_stime := ms_timeval st, pr_cutime := ms_timeval cut,
           pr_cstime := ms_timeval cst, pr_sigpend := pend\<rparr>)"

definition init_prstatus :: "arch \<Rightarrow> prpsinfo \<Rightarrow> prstatus" where
  "init_prstatus a ps =
     \<lparr>pr_info = \<lparr>si_signo = 0, si_code = 0, si_errno = 0\<rparr>, pr_cursig = 0, pr_sigpend = 0, pr_sighold = 0,
      pr_pid = ps_pid ps, pr_ppid = ps_ppid ps, pr_pgrp = ps_pgrp ps, pr_sid = ps_sid ps,
      pr_utime = ms_timeval 0, pr_stime = ms_timeval 0, pr_cutime = ms_timeval 0, pr_cstime = ms_timeval 0,
      pr_reg = replicate (nregs a) 0, pr_fpvalid = 1\<rparr>"

definition read_prstatus :: "'w kern \<Rightarrow> arch \<Rightarrow> prpsinfo \<Rightarrow> 'w st \<Rightarrow> (prstatus \<times> 'w st) option" where
  "read_prstatus K a ps s = do {
     let p = init_prstatus a ps;
     ((fd, _), s) \<leftarrow> NO_INTR (sys_open K (str ''/proc/self/stat'') O_RDONLY 0) s;
     if fd < 0 then Some (p, s)
     else do {
       ((n, bs), s) \<leftarrow> c_read K fd 4095 s;
       let p = (if n \<ge> 0 then parse_stat (takeWhile (\<lambda>c. c \<noteq> 0) bs) p else p);
       (_, s) \<leftarrow> NO_INTR (sys_close K fd) s;
       Some (p, s)
     }
   }"

end
