(* ===== verification/Pipeline.thy ===== *)
theory Pipeline
  imports Core_Io Core_Params
begin

text \<open>
  The pipeline of \<open>coredumper/elfcore.c\<close>: \<open>CreatePipeline\<close> creates the pipe through which the
  core file leaves the process and, if the caller asked for it, starts a compressor in
  \<open>CreatePipelineChild\<close>.

  The child is cloned with \<open>CLONE_VM\<close>: it shares the memory of its parent (the record
  \<open>CreateArgs\<close>, with the array \<open>fds\<close> it points to) but not its table of descriptors. In the
  model the child runs up to its exit, or up to the \<open>execve\<close> that succeeds, before the parent
  goes on. Compressor tables live in a typed heap, so that \<open>++args->compressors\<close> is an addition
  and the pointer travels through the pipe as eight bytes.
\<close>

subsection \<open>State shared with the child\<close>

record CreateArgs =
  ca_fds         :: "int \<times> int"
  ca_openmax     :: nat
  ca_PATH        :: "byte list option"
  ca_compressors :: u64
  ca_zip_in      :: "int \<times> int"
  ca_zip_out     :: "int \<times> int"

subsection \<open>The child\<close>

text \<open>
  \<open>while (f <= 2) MY_NO_INTR(f = sys0_dup(f));\<close> A retry of the inner loop assigns \<open>f\<close> as
  the outer loop does, so the two are one loop.
\<close>

partial_function (option) dup_above :: "'w kern \<Rightarrow> int \<Rightarrow> 'w st \<Rightarrow> (int \<times> 'w st) option" where
  "dup_above K f s =
     (if f \<le> 2 then (case sys0_int K (NR_dup f) 0 s of ((f, _, _), s) \<Rightarrow> dup_above K f s)
      else Some (f, s))"

abbreviation (input) "O_WRONLY \<equiv> (1::int)"

text \<open>\<open>sys0_dup2(sys0_open("/dev/null", O_WRONLY, 0), 2)\<close>\<close>

definition open_null :: "'w kern \<Rightarrow> 'w st \<Rightarrow> (int \<times> kreply \<times> int) \<times> 'w st" where
  "open_null K s =
     (case sys0_int K (NR_open (str ''/dev/null'') O_WRONLY 0) 0 s of ((f, _, e), s) \<Rightarrow>
      sys0_int K (NR_dup2 f 2) e s)"

text \<open>The loop that closes the handles in a list but one.\<close>

fun close_others :: "('w st \<Rightarrow> int \<Rightarrow> 'w st option) \<Rightarrow> int \<Rightarrow> int list \<Rightarrow> 'w st \<Rightarrow> 'w st option" where
  "close_others cl keep [] s = Some s"
| "close_others cl keep (i # is) s = do {
     s \<leftarrow> (if i \<noteq> keep then cl s i else Some s);
     close_others cl keep is s
   }"

definition my_close :: "'w kern \<Rightarrow> 'w st \<Rightarrow> int \<Rightarrow> 'w st option" where
  "my_close K s f = do { (_, s) \<leftarrow> MY_NO_INTR (sys0_int K (NR_close f) 0) s; Some s }"

text \<open>The components of \<open>PATH\<close>, and the file names to try for a compressor.\<close>

fun path_dirs :: "byte list \<Rightarrow> byte list list" where
  "path_dirs [] = [[]]"
| "path_dirs (c # cs) = (if c = 58 then [] # path_dirs cs
     else case path_dirs cs of d # ds \<Rightarrow> (c # d) # ds | [] \<Rightarrow> [[c]])"

definition executable :: "byte list \<Rightarrow> byte list \<Rightarrow> byte list" where
  "executable dir prog = (if dir = [] then prog else dir @ 47 # prog)"

definition candidates :: "byte list option \<Rightarrow> byte list \<Rightarrow> byte list list" where
  "candidates PATH prog =
     (if 47 \<in> set prog then [prog]
      else case PATH of None \<Rightarrow> [] | Some p \<Rightarrow> map (\<lambda>dir. executable dir prog) (path_dirs p))"

text \<open>\<open>execve\<close> returns only if it fails; the flag says that the child became another program.\<close>

fun try_exec :: "'w kern \<Rightarrow> byte list list \<Rightarrow> byte list list \<Rightarrow> 'w st \<Rightarrow> bool \<times> 'w st" where
  "try_exec K [] cmd_args s = (False, s)"
| "try_exec K (f # fs) cmd_args s =
     (case sys0_int K (NR_execve f cmd_args) 0 s of ((rc, _, _), s) \<Rightarrow>
      if rc \<ge> 0 then (True, s) else try_exec K fs cmd_args s)"

text \<open>\<open>c_write\<close> with \<open>&ERRNO\<close>, which leaves the shared \<open>errno\<close> alone.\<close>

definition tell_parent :: "'w kern \<Rightarrow> int \<Rightarrow> u64 \<Rightarrow> 'w st \<Rightarrow> 'w st option" where
  "tell_parent K f p s = do {
     (_, s') \<leftarrow> c_write K f (Local (le64 p)) s;
     Some (s'\<lparr>errno := errno s\<rparr>)
   }"

partial_function (option) try_compressors ::
    "'w kern \<Rightarrow> compressor_heap \<Rightarrow> byte list option \<Rightarrow> int \<Rightarrow> u64 \<Rightarrow> 'w st \<Rightarrow> (bool \<times> u64 \<times> 'w st) option" where
  "try_compressors K heap PATH fd p s =
     (case compressor (heap p) of
        None \<Rightarrow> Some (False, p, s)
      | Some prog \<Rightarrow>
        if prog = [] then Some (False, p, s)
        else do {
          s \<leftarrow> tell_parent K fd p s;
          let (done, s) = try_exec K (candidates PATH prog)
                            (case cargs (heap p) of None \<Rightarrow> [] | Some a \<Rightarrow> a) s;
          if done then Some (True, p, s)
          else try_compressors K heap PATH fd (p + sizeof_CoredumperCompressor) s
        })"

text \<open>The flag of the result says that a compressor is running.\<close>

definition CreatePipelineChild ::
    "'w kern \<Rightarrow> compressor_heap \<Rightarrow> CreateArgs \<Rightarrow> 'w st \<Rightarrow> (bool \<times> CreateArgs \<times> 'w st) option" where
  "CreatePipelineChild K heap args s = do {
     s \<leftarrow> my_close K s (fst (ca_fds args));
     (fd, s) \<leftarrow> dup_above K (snd (ca_fds args)) s;
     let args = args\<lparr>ca_fds := (fst (ca_fds args), fd)\<rparr>;
     let (_, s) = sys0_int K (NR_fcntl fd F_SETFD FD_CLOEXEC) 0 s;
     (zin, s) \<leftarrow> dup_above K (fst (ca_zip_in args)) s;
     let args = args\<lparr>ca_zip_in := (zin, snd (ca_zip_in args))\<rparr>;
     (zout, s) \<leftarrow> dup_above K (snd (ca_zip_out args)) s;
     let args = args\<lparr>ca_zip_out := (fst (ca_zip_out args), zout)\<rparr>;
     (_, s) \<leftarrow> MY_NO_INTR (sys0_int K (NR_dup2 zin 0) 0) s;
     (_, s) \<leftarrow> MY_NO_INTR (sys0_int K (NR_dup2 zout 1) 0) s;
     s \<leftarrow> my_close K s 2;
     (_, s) \<leftarrow> MY_NO_INTR (open_null K) s;
     s \<leftarrow> close_others (my_close K) fd (map int [3..<ca_openmax args]) s;
     (running, p, s) \<leftarrow> try_compressors K heap (ca_PATH args) fd (ca_compressors args) s;
     let args = args\<lparr>ca_compressors := p\<rparr>;
     if running then Some (True, args, s)
     else do {
       s \<leftarrow> tell_parent K fd p s;
       s \<leftarrow> my_close K s fd;
       let (_, s) = sys_int K (NR_exit 0) s;
       Some (False, args, s)
     }
   }"

subsection \<open>The parent\<close>

text \<open>
  \<open>while (c_read(fds[0], compressors, sizeof(*compressors), &errno)) { }\<close>: every read
  overwrites the first bytes of the pointer.
\<close>

partial_function (option) read_choice ::
    "'w kern \<Rightarrow> int \<Rightarrow> byte list \<Rightarrow> 'w st \<Rightarrow> (byte list \<times> 'w st) option" where
  "read_choice K f ptr s = do {
     ((n, bs), s) \<leftarrow> c_read K f 8 s;
     if n = 0 then Some (ptr, s) else read_choice K f (bs @ drop (length bs) ptr) s
   }"

definition no_close :: "'w kern \<Rightarrow> int \<Rightarrow> 'w st \<Rightarrow> 'w st option" where
  "no_close K f s = do { (_, s) \<leftarrow> NO_INTR (sys_close K f) s; Some s }"

text \<open>Closing both ends of a pipe without losing \<open>errno\<close>.\<close>

definition close_pair :: "'w kern \<Rightarrow> int \<times> int \<Rightarrow> 'w st \<Rightarrow> 'w st option" where
  "close_pair K p s = do {
     s' \<leftarrow> no_close K (fst p) s;
     s' \<leftarrow> no_close K (snd p) s';
     Some (s'\<lparr>errno := errno s\<rparr>)
   }"

definition new_pipe :: "'w kern \<Rightarrow> 'w st \<Rightarrow> ((int \<times> int) option) \<times> 'w st" where
  "new_pipe K s =
     (case sys_pipe K s of ((rc, r), s) \<Rightarrow>
      (if rc < 0 then None else case kints r of a # b # _ \<Rightarrow> Some (a, b) | _ \<Rightarrow> Some (-1, -1), s))"

text \<open>
  From the \<open>clone\<close> to the end of \<open>CreatePipeline\<close>. The result holds the return value, the new
  \<open>fds\<close> and \<open>*compressors\<close>; the variables in \<open>args\<close> are those the child has left.
\<close>

definition wait_child :: "'w kern \<Rightarrow> int \<Rightarrow> 'w st \<Rightarrow> (bool \<times> 'w st) option" where
  "wait_child K pid s = do {
     ((rc, _), s) \<leftarrow> NO_INTR (sys_waitpid K pid 0) s;
     Some (rc \<ge> 0, s)
   }"

definition finish_pipeline ::
    "'w kern \<Rightarrow> compressor_heap \<Rightarrow> int \<Rightarrow> CreateArgs \<Rightarrow> 'w st \<Rightarrow> ((int \<times> (int \<times> int) \<times> u64) \<times> 'w st) option" where
  "finish_pipeline K heap comp_pid args s = do {
     s \<leftarrow> no_close K (snd (ca_fds args)) s;
     (ptr, s) \<leftarrow> read_choice K (fst (ca_fds args)) (replicate 8 0) s;
     let p = of_le64 ptr;
     s \<leftarrow> no_close K (fst (ca_fds args)) s;
     if p = 0 \<or> compressor (heap p) = None then do {
       s \<leftarrow> close_pair K (ca_zip_out args) s;
       s \<leftarrow> close_pair K (ca_zip_in args) s;
       Some ((-1, ca_fds args, p), s)
     }
     else if compressor (heap p) \<noteq> Some [] then do {
       s \<leftarrow> no_close K (fst (ca_zip_in args)) s;
       s \<leftarrow> no_close K (snd (ca_zip_out args)) s;
       Some ((0, (fst (ca_zip_out args), snd (ca_zip_in args)), p), s)
     }
     else do {
       s \<leftarrow> no_close K (fst (ca_zip_in args)) s;
       s \<leftarrow> no_close K (fst (ca_zip_out args)) s;
       s \<leftarrow> no_close K (snd (ca_zip_in args)) s;
       s \<leftarrow> no_close K (snd (ca_zip_out args)) s;
       (reaped, s) \<leftarrow> wait_child K comp_pid s;
       if reaped then Some ((0, (-1, -1), p), s)
       else do {
         s \<leftarrow> close_pair K (ca_zip_in args) s;
         Some ((-1, (-1, -1), p), s)
       }
     }
   }"

text \<open>\<open>CLONE_VM|CLONE_UNTRACED|SIGCHLD\<close>\<close>

abbreviation (input) "pipeline_clone \<equiv> NR_clone 0x800111"

text \<open>\<open>fds0\<close> is the contents of the caller's array before the call.\<close>

definition CreatePipeline ::
    "'w kern \<Rightarrow> compressor_heap \<Rightarrow> int \<times> int \<Rightarrow> nat \<Rightarrow> byte list option \<Rightarrow> u64 \<Rightarrow> 'w st
     \<Rightarrow> ((int \<times> (int \<times> int) \<times> u64) \<times> 'w st) option" where
  "CreatePipeline K heap fds0 openmax PATH compressors s =
     (case new_pipe K s of
        (None, s) \<Rightarrow> Some ((-1, fds0, compressors), s)
      | (Some fds, s) \<Rightarrow>
        if compressors = 0 \<or> compressor (heap compressors) = None then Some ((0, fds, compressors), s)
        else case new_pipe K s of
          (None, s) \<Rightarrow> do {
            s \<leftarrow> close_pair K fds s;
            Some ((-1, fds, compressors), s)
          }
        | (Some zip_in, s) \<Rightarrow>
          case new_pipe K s of
            (None, s) \<Rightarrow> do {
              s \<leftarrow> close_pair K zip_in s;
              s \<leftarrow> close_pair K fds s;
              Some ((-1, fds, compressors), s)
            }
          | (Some zip_out, s) \<Rightarrow>
            case sys_int K pipeline_clone s of ((comp_pid, _), s) \<Rightarrow>
              if comp_pid < 0 then do {
                s \<leftarrow> close_pair K zip_out s;
                s \<leftarrow> close_pair K zip_in s;
                s \<leftarrow> close_pair K fds s;
                Some ((-1, fds, compressors), s)
              }
              else do {
                (_, args, s) \<leftarrow> CreatePipelineChild K heap
                  \<lparr>ca_fds = fds, ca_openmax = openmax, ca_PATH = PATH, ca_compressors = compressors,
                   ca_zip_in = zip_in, ca_zip_out = zip_out\<rparr> s;
                finish_pipeline K heap comp_pid args s
              })"

end
