(* ===== verification/Core_Dump.thy ===== *)
theory Core_Dump
  imports Proc_Info Pipeline
begin

text \<open>
  Taking a dump: \<open>InternalGetCoreDump\<close> of \<open>coredumper/elfcore.c\<close>, which runs as the callback of the
  thread lister, and the entry points of \<open>coredumper/coredumper.c\<close>.

  With a file name the core file is written in place, through \<open>LimitWriter\<close> or through a
  compressor (\<open>write_file\<close>). Without one, a forked child writes it into a pipe
  (\<open>snapshot_child\<close>) and the parent receives the read end of the pipe from it
  (\<open>receive_pipe\<close>). The result \<open>Inl code\<close> says that the process (the forked child) ends with this
  exit code; \<open>Inr\<close> holds the return value and what was stored in \<open>*selected_compressor\<close>.
\<close>

subsection \<open>Environment\<close>

text \<open>What the code reads through pointers of its caller, and values of the C library.\<close>

record 'w dump_env =
  de_arch        :: arch
  de_memory      :: memory
  de_compressors :: compressor_heap
  de_notes       :: "u64 \<Rightarrow> CoredumperNote"
  de_callback    :: "u64 \<Rightarrow> u64 \<Rightarrow> 'w st \<Rightarrow> (int \<times> 'w st) option"
  de_openmax     :: nat            \<comment> \<open>\<open>sysconf(_SC_OPEN_MAX)\<close>\<close>
  de_pagesize    :: u64            \<comment> \<open>\<open>sysconf(_SC_PAGESIZE)\<close>\<close>
  de_PATH        :: "byte list option"   \<comment> \<open>\<open>getenv("PATH")\<close>\<close>

type_synonym dump_result = "int + int \<times> u64"

abbreviation (input) "sizeof_CoredumperNote \<equiv> (24::u64)"

definition notes_of :: "(u64 \<Rightarrow> CoredumperNote) \<Rightarrow> CoreDumpParameters \<Rightarrow> CoredumperNote list" where
  "notes_of heap p =
     map (\<lambda>i. heap (GetCoreDumpParameter F_notes cp_notes p + of_nat i * sizeof_CoredumperNote))
       [0..<nat (sint (GetCoreDumpParameter F_note_count cp_note_count p))]"

text \<open>The arguments of \<open>CreateElfCore\<close>.\<close>

record dump_info =
  di_prpsinfo :: prpsinfo
  di_prstatus :: prstatus
  di_user     :: "byte list"
  di_threads  :: "thread_regs list"

definition dump_args :: "'w dump_env \<Rightarrow> CoreDumpParameters \<Rightarrow> Frame \<Rightarrow> dump_info \<Rightarrow> u64 \<Rightarrow> core_args" where
  "dump_args env params fr d prio =
     \<lparr>c_prpsinfo = di_prpsinfo d, c_user = Some (di_user d), c_prstatus = di_prstatus d,
      c_threads = di_threads d, c_pagesize = de_pagesize env, c_prioritize = prio, c_main_pid = f_tid fr,
      c_extra_notes = notes_of (de_notes env) params\<rparr>"

text \<open>\<open>while (*sel && (*sel)->compressor != NULL) ++*sel\<close>\<close>

partial_function (option) table_end :: "compressor_heap \<Rightarrow> u64 \<Rightarrow> u64 option" where
  "table_end heap p =
     (if p \<noteq> 0 \<and> compressor (heap p) \<noteq> None then table_end heap (p + sizeof_CoredumperCompressor)
      else Some p)"

text \<open>With thread support the registers are known already, and this does nothing.\<close>

definition GetParentRegs :: int where
  "GetParentRegs = 1"

subsection \<open>A dump through a pipe\<close>

definition sys_close_all :: "'w kern \<Rightarrow> 'w st \<Rightarrow> int \<Rightarrow> 'w st option" where
  "sys_close_all K s f = no_close K f s"

text \<open>
  The forked child. It hands the read end of the pipe and the selected compressor to the
  parent, closes everything but the write end, and writes the core file.
\<close>

definition snapshot_child ::
    "'w kern \<Rightarrow> 'w dump_env \<Rightarrow> CoreDumpParameters \<Rightarrow> Frame \<Rightarrow> dump_info \<Rightarrow> int \<times> int \<Rightarrow> u64 \<Rightarrow> 'w st
     \<Rightarrow> (int \<times> 'w st) option" where
  "snapshot_child K env params fr d pair compressors s = do {
     ((rc, fds, compressors), s) \<leftarrow>
        CreatePipeline K (de_compressors env) (0, 0) (de_openmax env) (de_PATH env) compressors s;
     let (ok, fds, s) =
        (if rc < 0 then (False, fds, s)
         else if fst fds < 0 then (case new_pipe K s of (None, s) \<Rightarrow> (False, fds, s) | (Some p, s) \<Rightarrow> (True, p, s))
         else (True, fds, s));
     if \<not> ok then Some (1, sys_exit K 1 s)
     else do {
       ((rc, _), s) \<leftarrow> NO_INTR (sys_int K (NR_sendmsg (snd pair) (le64 compressors) (fst fds))) s;
       if rc < 0 then Some (1, sys_exit K 1 s)
       else do {
         ((rc, _), s) \<leftarrow> NO_INTR (sys_int K (NR_shutdown (snd pair) 2)) s;
         if rc < 0 then Some (1, sys_exit K 1 s)
         else do {
           s \<leftarrow> close_others (sys_close_all K) (snd fds) (map int [0..<de_openmax env]) s;
           if GetParentRegs = 0 then Some (1, sys_exit K 1 s)
           else do {
             (_, h, s) \<leftarrow> CreateElfCore K (SimpleWriter K) SimpleDone (de_arch env) (de_memory env)
                            (dump_args env params fr d 0) (snd fds, s);
             s \<leftarrow> no_close K (snd fds) s;
             Some (0, sys_exit K 0 s)
           }
         }
       }
     }
   }"

text \<open>The parent: \<open>kints\<close> of the reply holds the descriptor that came with the message, if any.\<close>

definition receive_pipe :: "'w kern \<Rightarrow> int \<Rightarrow> u64 \<Rightarrow> u64 \<Rightarrow> 'w st \<Rightarrow> ((int \<times> u64) \<times> 'w st) option" where
  "receive_pipe K sock selp sel s = do {
     ((nbytes, r), s) \<leftarrow> NO_INTR (sys_int K (NR_recvmsg sock 8)) s;
     let fd = (if nbytes > 0 then case kints r of f # _ \<Rightarrow> f | [] \<Rightarrow> -1 else -1);
     let p = of_le64 (stored nbytes (kbytes r));
     let sel = (if nbytes = 8 \<and> p \<noteq> 0 \<and> selp \<noteq> 0 then p else sel);
     let (_, s) = sys_int K (NR_shutdown sock 2) s;
     s \<leftarrow> no_close K sock s;
     Some ((fd, sel), s)
   }"

definition get_snapshot ::
    "'w kern \<Rightarrow> 'w dump_env \<Rightarrow> CoreDumpParameters \<Rightarrow> Frame \<Rightarrow> dump_info \<Rightarrow> u64 \<Rightarrow> u64 \<Rightarrow> 'w st
     \<Rightarrow> (dump_result \<times> 'w st) option" where
  "get_snapshot K env params fr d selp sel s =
     (let compressors = GetCoreDumpParameter F_compressors cp_compressors params in
      case sys_int K (NR_socketpair 1 1 0) s of ((rc, r), s) \<Rightarrow>
        if rc < 0 then Some (Inr (-1, sel), s)
        else let pair = (case kints r of x # y # _ \<Rightarrow> (x, y) | _ \<Rightarrow> (-1, -1));
                 ((_, r), s) = sys_int K (NR_rt_sigprocmask SIG_BLOCK (Some (sys_sigfillset \<lparr>sig = [0]\<rparr>)) 8) s;
                 old = \<lparr>sig = [of_le64 (stored 8 (kbytes r))]\<rparr>;
                 ((rc, _), s) = sys_int K NR_fork s
             in if rc = 0 then do {
                  (code, s) \<leftarrow> snapshot_child K env params fr d pair compressors s;
                  Some (Inl code, s)
                }
                else do {
                  let (_, s) = sys_int K (NR_rt_sigprocmask SIG_SETMASK (Some old) 8) s;
                  s \<leftarrow> no_close K (snd pair) s;
                  (res, s) \<leftarrow> receive_pipe K (fst pair) selp sel s;
                  Some (Inr res, s)
                })"

subsection \<open>A dump into a file\<close>

abbreviation (input) "O_CREAT_TRUNC \<equiv> (0x241::int)"     \<comment> \<open>\<open>O_WRONLY|O_CREAT|O_TRUNC\<close>\<close>
abbreviation (input) "O_LARGEFILE \<equiv> (0x8000::int)"

text \<open>Opening the output, a second time without \<open>O_LARGEFILE\<close> if the kernel does not know it.\<close>

definition open_output :: "'w kern \<Rightarrow> byte list \<Rightarrow> 'w st \<Rightarrow> (int \<times> 'w st) option" where
  "open_output K name s = do {
     ((fd, _), s) \<leftarrow> NO_INTR (sys_open K name (O_CREAT_TRUNC + O_LARGEFILE) 0x180) s;
     if fd < 0 \<and> errno s = EINVAL then do {
       ((fd, _), s) \<leftarrow> NO_INTR (sys_open K name O_CREAT_TRUNC 0x180) s;
       Some (fd, s)
     }
     else Some (fd, s)
   }"

definition set_nonblock :: "'w kern \<Rightarrow> int \<Rightarrow> 'w st \<Rightarrow> 'w st option" where
  "set_nonblock K f s = do {
     ((flags, _), s) \<leftarrow> NO_INTR (sys_fcntl K f F_GETFL 0) s;
     (_, s) \<leftarrow> NO_INTR (sys_fcntl K f F_SETFL (flags OR O_NONBLOCK)) s;
     Some s
   }"

text \<open>\<open>CreateElfCore\<close> with the writer that fits; the second component is what is left of \<open>fds\<close>.\<close>

definition write_output ::
    "'w kern \<Rightarrow> 'w dump_env \<Rightarrow> core_args \<Rightarrow> u64 \<Rightarrow> int \<times> int \<Rightarrow> int \<Rightarrow> 'w st
     \<Rightarrow> ((int \<times> int \<times> int) \<times> 'w st) option" where
  "write_output K env args max_len fds out s =
     (let h = \<lparr>max_length = unat max_len, write_fd = snd fds, compressed_fd = fst fds, out_fd = out\<rparr> in
      if fst fds \<ge> 0 then do {
        s \<leftarrow> set_nonblock K (fst fds) s;
        s \<leftarrow> set_nonblock K (snd fds) s;
        (rc, h, s) \<leftarrow> CreateElfCore K (PipeWriter K) PipeDone (de_arch env) (de_memory env) args (h, s);
        let saved_errno = errno s;
        s \<leftarrow> close_fd K (snd fds) s;
        let fds = (fst fds, if snd fds \<ge> 0 then -1 else snd fds);
        ((frc, h), s) \<leftarrow> FlushPipe K h s;
        Some (if frc < 0 then ((-1, fds), s) else ((rc, fds), s\<lparr>errno := saved_errno\<rparr>))
      }
      else do {
        (rc, h, s) \<leftarrow> CreateElfCore K (LimitWriter K) PipeDone (de_arch env) (de_memory env) args (h, s);
        Some ((rc, fds), s)
      })"

text \<open>
  The branch with a file name, up to the jump to \<open>error\<close> (-1) or the assignment \<open>fd = 0\<close>. The
  variable \<open>*selected_compressor\<close> is \<open>sel\<close>.
\<close>

definition write_file ::
    "'w kern \<Rightarrow> 'w dump_env \<Rightarrow> CoreDumpParameters \<Rightarrow> Frame \<Rightarrow> dump_info \<Rightarrow> byte list \<Rightarrow> u64 \<Rightarrow> u64 \<Rightarrow> 'w st
     \<Rightarrow> ((int \<times> u64) \<times> 'w st) option" where
  "write_file K env params fr d file_name selp sel s =
     (let heap = de_compressors env;
          max_len = GetCoreDumpParameter F_max_length cp_max_length params;
          prioritize = GetCoreDumpParameter F_flags cp_flags params AND COREDUMPER_FLAG_LIMITED_BY_PRIORITY;
          compressors = GetCoreDumpParameter F_compressors cp_compressors params
      in if GetParentRegs = 0 then Some ((-1, sel), s)
         else do {
           ((rc, fds, compressors), s) \<leftarrow>
             (if compressors \<noteq> 0 \<and> compressor (heap compressors) \<noteq> None
              then CreatePipeline K heap (-1, -1) (de_openmax env) (de_PATH env) compressors s
              else Some ((0, (-1, -1), compressors), s));
           if rc < 0 then Some ((-1, sel), s)
           else do {
             let sel = (if selp \<noteq> 0 then compressors else sel);
             (if max_len > 0 then do {
                let sfx = (if compressors \<noteq> 0 \<and> compressor (heap compressors) \<noteq> None
                           then case suffix (heap compressors) of None \<Rightarrow> [] | Some x \<Rightarrow> x else []);
                (out, s) \<leftarrow> open_output K (file_name @ sfx) s;
                if out < 0 then do {
                  let saved_errno = errno s;
                  s \<leftarrow> close_fd K (fst fds) s;
                  s \<leftarrow> close_fd K (snd fds) s;
                  Some ((-1, sel), s\<lparr>errno := saved_errno\<rparr>)
                }
                else do {
                  ((rc, fds), s) \<leftarrow> write_output K env
                     (dump_args env params fr d (if prioritize \<noteq> 0 then max_len else 0)) max_len fds out s;
                  let saved_errno = errno s;
                  s \<leftarrow> close_fd K out s;
                  s \<leftarrow> close_fd K (fst fds) s;
                  s \<leftarrow> close_fd K (snd fds) s;
                  Some ((if rc < 0 then -1 else 0, sel), s\<lparr>errno := saved_errno\<rparr>)
                }
              }
              else do {
                let saved_errno = errno s;
                s \<leftarrow> close_fd K (fst fds) s;
                s \<leftarrow> close_fd K (snd fds) s;
                Some ((0, sel), s\<lparr>errno := saved_errno\<rparr>)
              })
           }
         })"

subsection \<open>\<open>InternalGetCoreDump\<close>\<close>

text \<open>
  Everything that is collected before the core file is written; \<open>None\<close> after a failed
  \<open>ptrace\<close> request, when the threads have been resumed already.
\<close>

definition collect_info ::
    "'w kern \<Rightarrow> 'w dump_env \<Rightarrow> Frame \<Rightarrow> int list \<Rightarrow> 'w st \<Rightarrow> (dump_info option \<times> 'w st) option" where
  "collect_info K env fr ps s =
     (case read_threads K (de_arch env) fr ps s of
        (None, s) \<Rightarrow> Some (None, snd (ResumeAllProcessThreads K ps s))
      | (Some ts, s) \<Rightarrow> do {
          let (u, s) = read_core_user K (de_arch env) ps ts s;
          (pi, s) \<leftarrow> read_prpsinfo K (f_tid fr) s;
          (pst, s) \<leftarrow> read_prstatus K (de_arch env) pi s;
          Some (Some \<lparr>di_prpsinfo = pi, di_prstatus = pst, di_user = u, di_threads = ts\<rparr>, s)
        })"

text \<open>The user's callback; 0 lets the dump go on.\<close>

definition user_callback :: "'w dump_env \<Rightarrow> CoreDumpParameters \<Rightarrow> 'w st \<Rightarrow> (int \<times> 'w st) option" where
  "user_callback env params s =
     (let fn = GetCoreDumpParameter F_callback_fn cp_callback_fn params
      in if fn \<noteq> 0 then de_callback env fn (GetCoreDumpParameter F_callback_arg cp_callback_arg params) s
         else Some (0, s))"

text \<open>\<open>selp\<close> is the address \<open>selected_compressor\<close>; \<open>sel\<close> is what was stored there before the call.\<close>

definition InternalGetCoreDump ::
    "'w kern \<Rightarrow> 'w dump_env \<Rightarrow> CoreDumpParameters \<Rightarrow> byte list option \<Rightarrow> u64 \<Rightarrow> Frame \<Rightarrow> int list \<Rightarrow> 'w st
     \<Rightarrow> (dump_result \<times> 'w st) option" where
  "InternalGetCoreDump K env params file_name sel fr ps s = do {
     (crc, s) \<leftarrow> user_callback env params s;
     if crc \<noteq> 0 then Some (Inr (-1, sel), snd (ResumeAllProcessThreads K ps s))
     else do {
       (info, s) \<leftarrow> collect_info K env fr ps s;
       case info of
         None \<Rightarrow> Some (Inr (-1, sel), snd (ResumeAllProcessThreads K ps s))
       | Some d \<Rightarrow> do {
           let selp = GetCoreDumpParameter F_selected_compressor cp_selected_compressor params;
           sel \<leftarrow> (if selp \<noteq> 0
                   then table_end (de_compressors env) (GetCoreDumpParameter F_compressors cp_compressors params)
                   else Some sel);
           (res, s) \<leftarrow> (case file_name of
              None \<Rightarrow> get_snapshot K env params fr d selp sel s
            | Some name \<Rightarrow> do {
                ((rc, sel), s) \<leftarrow> write_file K env params fr d name selp sel s;
                Some (Inr (rc, sel), s)
              });
           case res of
             Inl code \<Rightarrow> Some (Inl code, s)
           | Inr r \<Rightarrow> Some (Inr r, snd (ResumeAllProcessThreads K ps s))
         }
     }
   }"

subsection \<open>Entry points\<close>

text \<open>
  As the callback of the lister, \<open>InternalGetCoreDump\<close> returns in the parent only: a forked child
  ends inside it. What was stored in \<open>*selected_compressor\<close> is part of the caller's memory and not
  followed here.
\<close>

definition dump_callback ::
    "'w kern \<Rightarrow> 'w dump_env \<Rightarrow> CoreDumpParameters \<Rightarrow> byte list option \<Rightarrow> Frame \<Rightarrow> int list \<Rightarrow> 'w st
     \<Rightarrow> (int \<times> 'w st) option" where
  "dump_callback K env params file_name fr ps s = do {
     (res, s) \<leftarrow> InternalGetCoreDump K env params file_name 0 fr ps s;
     case res of Inl code \<Rightarrow> None | Inr (rc, _) \<Rightarrow> Some (rc, s)
   }"

definition GetCoreDumpFunction ::
    "'w kern \<Rightarrow> 'w dump_env \<Rightarrow> u64 \<Rightarrow> Frame \<Rightarrow> CoreDumpParameters \<Rightarrow> 'w st \<Rightarrow> (int \<times> 'w st) option" where
  "GetCoreDumpFunction K env addr fr params =
     ListAllProcessThreads K (dump_callback K env params None fr) addr"

definition WriteCoreDumpFunction ::
    "'w kern \<Rightarrow> 'w dump_env \<Rightarrow> u64 \<Rightarrow> Frame \<Rightarrow> CoreDumpParameters \<Rightarrow> byte list \<Rightarrow> 'w st \<Rightarrow> (int \<times> 'w st) option" where
  "WriteCoreDumpFunction K env addr fr params file_name =
     ListAllProcessThreads K (dump_callback K env params (Some file_name) fr) addr"

text \<open>
  The entry points take the registers at their call (\<open>mc\<close>, \<open>lab\<close>) for \<open>FRAME\<close> and the
  uninitialised parameters \<open>p0\<close> on their stack. A setter that aborts, or \<open>abort()\<close> in
  \<open>ClearCoreDumpParameters\<close>, is \<open>None\<close>.
\<close>

record call_site =
  cs_machine :: machine
  cs_label   :: "u64 \<times> u64"
  cs_addr    :: u64
  cs_params  :: CoreDumpParameters

definition GetCoreDump :: "'w kern \<Rightarrow> 'w dump_env \<Rightarrow> call_site \<Rightarrow> 'w st \<Rightarrow> (int \<times> 'w st) option" where
  "GetCoreDump K env cs s = do {
     let (fr, s) = FRAME K (cs_label cs) (cs_machine cs) s;
     p \<leftarrow> ClearCoreDumpParameters (cs_params cs);
     GetCoreDumpFunction K env (cs_addr cs) fr p s
   }"

definition GetCoreDumpWith ::
    "'w kern \<Rightarrow> 'w dump_env \<Rightarrow> call_site \<Rightarrow> CoreDumpParameters \<Rightarrow> 'w st \<Rightarrow> (int \<times> 'w st) option" where
  "GetCoreDumpWith K env cs params s = do {
     let (fr, s) = FRAME K (cs_label cs) (cs_machine cs) s;
     if cp_flags params AND COREDUMPER_FLAG_LIMITED \<noteq> 0 \<or>
        cp_flags params AND COREDUMPER_FLAG_LIMITED_BY_PRIORITY \<noteq> 0
     then Some (-1, s\<lparr>errno := EINVAL\<rparr>)
     else GetCoreDumpFunction K env (cs_addr cs) fr params s
   }"

text \<open>The results of the setters are not looked at; \<open>errno\<close> is threaded through them.\<close>

definition GetCompressedCoreDump ::
    "'w kern \<Rightarrow> 'w dump_env \<Rightarrow> call_site \<Rightarrow> u64 \<Rightarrow> u64 \<Rightarrow> 'w st \<Rightarrow> (int \<times> 'w st) option" where
  "GetCompressedCoreDump K env cs compressors selected s = do {
     let (fr, s) = FRAME K (cs_label cs) (cs_machine cs) s;
     p \<leftarrow> ClearCoreDumpParameters (cs_params cs);
     (_, p, e) \<leftarrow> SetCoreDumpCompressed p compressors selected (errno s);
     GetCoreDumpFunction K env (cs_addr cs) fr p (s\<lparr>errno := e\<rparr>)
   }"

definition WriteCoreDump ::
    "'w kern \<Rightarrow> 'w dump_env \<Rightarrow> call_site \<Rightarrow> byte list \<Rightarrow> 'w st \<Rightarrow> (int \<times> 'w st) option" where
  "WriteCoreDump K env cs file_name s = do {
     let (fr, s) = FRAME K (cs_label cs) (cs_machine cs) s;
     p \<leftarrow> ClearCoreDumpParameters (cs_params cs);
     WriteCoreDumpFunction K env (cs_addr cs) fr p file_name s
   }"

definition WriteCoreDumpWith ::
    "'w kern \<Rightarrow> 'w dump_env \<Rightarrow> call_site \<Rightarrow> CoreDumpParameters \<Rightarrow> byte list \<Rightarrow> 'w st \<Rightarrow> (int \<times> 'w st) option" where
  "WriteCoreDumpWith K env cs params file_name s =
     (let (fr, s) = FRAME K (cs_label cs) (cs_machine cs) s
      in WriteCoreDumpFunction K env (cs_addr cs) fr params file_name s)"

definition WriteCoreDumpLimited ::
    "'w kern \<Rightarrow> 'w dump_env \<Rightarrow> call_site \<Rightarrow> byte list \<Rightarrow> u64 \<Rightarrow> 'w st \<Rightarrow> (int \<times> 'w st) option" where
  "WriteCoreDumpLimited K env cs file_name max_len s = do {
     let (fr, s) = FRAME K (cs_label cs) (cs_machine cs) s;
     p \<leftarrow> ClearCoreDumpParameters (cs_params cs);
     (_, p, e) \<leftarrow> SetCoreDumpLimited p max_len (errno s);
     WriteCoreDumpFunction K env (cs_addr cs) fr p file_name (s\<lparr>errno := e\<rparr>)
   }"

definition WriteCoreDumpLimitedByPriority ::
    "'w kern \<Rightarrow> 'w dump_env \<Rightarrow> call_site \<Rightarrow> byte list \<Rightarrow> u64 \<Rightarrow> 'w st \<Rightarrow> (int \<times> 'w st) option" where
  "WriteCoreDumpLimitedByPriority K env cs file_name max_len s = do {
     let (fr, s) = FRAME K (cs_label cs) (cs_machine cs) s;
     p \<leftarrow> ClearCoreDumpParameters (cs_params cs);
     (_, p, e) \<leftarrow> SetCoreDumpLimitedByPriority p max_len (errno s);
     WriteCoreDumpFunction K env (cs_addr cs) fr p file_name (s\<lparr>errno := e\<rparr>)
   }"

definition WriteCompressedCoreDump ::
    "'w kern \<Rightarrow> 'w dump_env \<Rightarrow> call_site \<Rightarrow> byte list \<Rightarrow> u64 \<Rightarrow> u64 \<Rightarrow> u64 \<Rightarrow> 'w st \<Rightarrow> (int \<times> 'w st) option" where
  "WriteCompressedCoreDump K env cs file_name max_len compressors selected s = do {
     let (fr, s) = FRAME K (cs_label cs) (cs_machine cs) s;
     p \<leftarrow> ClearCoreDumpParameters (cs_params cs);
     (_, p, e) \<leftarrow> SetCoreDumpCompressed p compressors selected (errno s);
     (_, p, e) \<leftarrow> SetCoreDumpLimited p max_len e;
     WriteCoreDumpFunction K env (cs_addr cs) fr p file_name (s\<lparr>errno := e\<rparr>)
   }"

end
