(* ===== verification/Calm_Calls.thy ===== *)
theory Calm_Calls
  imports Core_Io
begin

text \<open>
  Retry loops that end: what a kernel must guarantee for every loop around an interrupted call to
  return, and the results of calls whose C type is \<open>int\<close>.
\<close>

text \<open>
  Calls are interrupted only finitely often, and the calls that return an \<open>int\<close> return an error
  number or a value that an \<open>int\<close> can hold.
\<close>

fun int_call :: "syscall \<Rightarrow> bool" where
  "int_call (NR_close _) = True"
| "int_call (NR_dup2 _ _) = True"
| "int_call (NR_open _ _ _) = True"
| "int_call (NR_fcntl _ _ _) = True"
| "int_call (NR_execve _ _) = True"
| "int_call (NR_wait4 _ _) = True"
| "int_call (NR_exit _) = True"
| "int_call (NR_sendmsg _ _ _) = True"
| "int_call (NR_recvmsg _ _) = True"
| "int_call (NR_shutdown _ _) = True"
| "int_call _ = False"

definition calm :: "'w kern \<Rightarrow> ('w \<Rightarrow> nat) \<Rightarrow> bool" where
  "calm K q \<longleftrightarrow> intr_bounded K q \<and> (\<forall>c w r w'. K c w = (r, w') \<longrightarrow> q w' \<le> q w) \<and>
     (\<forall>c w r w'. int_call c \<longrightarrow> K c w = (r, w') \<longrightarrow> - 4095 \<le> sint (kret r) \<and> sint (kret r) < 2 ^ 31)"

lemma calm_bounded: "calm K q \<Longrightarrow> intr_bounded K q"
  by (simp add: calm_def)

lemma LSS_RETURN_int_small:
  assumes "0 \<le> sint k" "sint k < 2 ^ 31"
  shows "LSS_RETURN_int k e = (sint k, e)"
proof -
  have u: "uint k = sint k"
    using assms(1) unsigned_less [of k, where 'a = int] by (simp add: sint_u64 split: if_splits)
  have "uint (ucast k :: u32) = take_bit 32 (uint k)" by (simp add: unsigned_ucast_eq)
  also have "\<dots> = sint k" unfolding u using assms by (intro take_bit_int_eq_self) simp_all
  finally have v: "uint (ucast k :: u32) = sint k" .
  have "sint (ucast k :: u32) = signed_take_bit 31 (uint (ucast k :: u32))" by (simp only: sint_uint) simp
  also have "\<dots> = sint k" unfolding v using assms by (intro signed_take_bit_int_eq_self) simp_all
  finally show ?thesis using assms(1) by (simp add: LSS_RETURN_int_def LSS_error_range)
qed

lemma int_result:
  assumes "calm K q" "int_call c" "K c w = (r, w')"
  shows "q w' \<le> q w" "LSS_RETURN_int (kret r) e = (if sint (kret r) < 0 then (-1, - sint (kret r)) else (sint (kret r), e))"
    "sint (kret r) = - EINTR \<Longrightarrow> q w' < q w"
proof -
  have r: "- 4095 \<le> sint (kret r)" "sint (kret r) < 2 ^ 31" using assms unfolding calm_def by blast+
  show "q w' \<le> q w" "sint (kret r) = - EINTR \<Longrightarrow> q w' < q w" using assms unfolding calm_def intr_bounded_def by blast+
  show "LSS_RETURN_int (kret r) e = (if sint (kret r) < 0 then (-1, - sint (kret r)) else (sint (kret r), e))"
    using r sint_minus_u64 [of "kret r"] LSS_RETURN_int_small [of "kret r" e] by (auto simp: LSS_RETURN_int_def LSS_error_range)
qed

text \<open>Hence every retried call returns.\<close>

lemma sys0_int_progress:
  assumes "calm K q" "int_call c" "sys0_int K c e s = ((rc, r, e'), s')"
  shows "q (world s') \<le> q (world s)" "e' = EINTR \<longrightarrow> e = EINTR \<or> q (world s') < q (world s)"
  using assms(3) int_result [OF assms(1,2)] by (auto simp: sys0_int_def lss_syscall_def split: prod.splits if_splits)

lemma MY_NO_INTR_int:
  assumes "calm K q" "int_call c"
  shows "\<exists>x s'. MY_NO_INTR (sys0_int K c 0) s = Some (x, s')"
proof -
  have "\<exists>r. no_intr (\<lambda>(rc, _, e) s. rc < 0 \<and> e = EINTR) (sys0_int K c 0) s = Some r"
  proof (rule no_intr_returns [where P = "\<lambda>_. True" and m = "\<lambda>s. q (world s)"])
    fix s a s'
    assume call: "sys0_int K c 0 s = (a, s')" and again: "(\<lambda>(rc, _, e) s. rc < 0 \<and> e = EINTR) a s'"
    then show "True \<and> q (world s') < q (world s)"
      using sys0_int_progress(2) [OF assms, of 0 s "fst a" "fst (snd a)" "snd (snd a)" s'] by (cases a) auto
  qed simp
  then show ?thesis unfolding MY_NO_INTR_def by auto
qed

lemma MY_NO_INTR_int_call:
  assumes "calm K q" "int_call c" "P (world s)"
    and keep: "\<And>w r w'. P w \<Longrightarrow> K c w = (r, w') \<Longrightarrow> sint (kret r) = - EINTR \<Longrightarrow> P w'"
  shows "\<exists>r e s' w. MY_NO_INTR (sys0_int K c 0) s = Some ((if sint (kret r) < 0 then -1 else sint (kret r), r, e), s') \<and> P w \<and>
    K c w = (r, world s') \<and> sint (kret r) \<noteq> - EINTR"
proof -
  let ?again = "\<lambda>(rc, _, e) s. rc < 0 \<and> e = EINTR"
  obtain x s' where ret: "MY_NO_INTR (sys0_int K c 0) s = Some (x, s')" using MY_NO_INTR_int [OF assms(1,2)] by blast
  have world: "K c (world t) = (fst (snd a), world t') \<and> (?again a t' \<longleftrightarrow> sint (kret (fst (snd a))) = - EINTR) \<and>
      fst a = (if sint (kret (fst (snd a))) < 0 then -1 else sint (kret (fst (snd a))))" if "sys0_int K c 0 t = (a, t')" for t a t'
    using that int_result(2) [OF assms(1,2), of "world t" "fst (snd a)" "world t'" 0]
    by (cases a) (auto simp: sys0_int_def lss_syscall_def split: prod.splits if_splits)
  have "\<exists>s0. P (world s0) \<and> sys0_int K c 0 s0 = (x, s') \<and> \<not> ?again x s'"
    by (rule no_intr_result [OF ret [unfolded MY_NO_INTR_def], where P = "\<lambda>t. P (world t)", OF assms(3)]) (metis world keep)
  then obtain s0 where s0: "P (world s0)" "sys0_int K c 0 s0 = (x, s')" "\<not> ?again x s'" by blast
  obtain rc r e where x: "x = (rc, r, e)" by (metis surj_pair)
  from world [OF s0(2)] s0 ret show ?thesis unfolding x by auto
qed

text \<open>
  The same for calls that store their error in \<open>errno\<close>. \<open>P\<close> is what an interrupted call does not
  change.
\<close>

definition plain_call :: "'w kern \<Rightarrow> syscall \<Rightarrow> ('w st \<Rightarrow> (int \<times> kreply) \<times> 'w st) \<Rightarrow> bool" where
  "plain_call K c fn \<longleftrightarrow> (\<forall>s rc r s'. fn s = ((rc, r), s') \<longrightarrow> K c (world s) = (r, world s') \<and>
     rc = (if sint (kret r) < 0 then -1 else sint (kret r)) \<and> (sint (kret r) < 0 \<longrightarrow> errno s' = - sint (kret r)))"

lemma plain_callD:
  "plain_call K c fn \<Longrightarrow> fn s = ((rc, r), s') \<Longrightarrow> K c (world s) = (r, world s') \<and>
     rc = (if sint (kret r) < 0 then -1 else sint (kret r)) \<and> (sint (kret r) < 0 \<longrightarrow> errno s' = - sint (kret r))"
  unfolding plain_call_def by blast

lemma plain_int: "calm K q \<Longrightarrow> int_call c \<Longrightarrow> plain_call K c (sys_int K c)"
  unfolding plain_call_def using int_result(2) [of K q c]
  by (auto simp: sys_int_def lss_syscall_def split: prod.splits if_splits)

lemma plain_long: "(\<And>w r w'. K c w = (r, w') \<Longrightarrow> - 4095 \<le> sint (kret r)) \<Longrightarrow> plain_call K c (sys_long K c)"
  unfolding plain_call_def using sint_minus_u64
  by (auto simp: sys_long_def lss_syscall_def LSS_RETURN_def LSS_error_range split: prod.splits if_splits)

lemma NO_INTR_result:
  assumes "intr_bounded K q" "plain_call K c fn" "P (world s)"
    and keep: "\<And>w r w'. P w \<Longrightarrow> K c w = (r, w') \<Longrightarrow> sint (kret r) = - EINTR \<Longrightarrow> P w'"
  shows "\<exists>r s' w. NO_INTR fn s = Some ((if sint (kret r) < 0 then -1 else sint (kret r), r), s') \<and> P w \<and>
    K c w = (r, world s') \<and> sint (kret r) \<noteq> - EINTR \<and> (sint (kret r) < 0 \<longrightarrow> errno s' = - sint (kret r))"
proof -
  let ?again = "\<lambda>(rc, _) s. rc < 0 \<and> errno s = EINTR"
  have again: "?again a s' \<longleftrightarrow> sint (kret (snd a)) = - EINTR" if "fn s = (a, s')" for a s s'
    using plain_callD [OF assms(2), of s "fst a" "snd a" s'] that by (cases a) auto
  have "\<exists>r. no_intr ?again fn s = Some r"
  proof (rule no_intr_returns [where P = "\<lambda>_. True" and m = "\<lambda>s. q (world s)"])
    fix s a s'
    assume c: "fn s = (a, s')" "?again a s'"
    then have "K c (world s) = (snd a, world s')" using plain_callD [OF assms(2), of s "fst a" "snd a" s'] by simp
    with c again [OF c(1)] assms(1) show "True \<and> q (world s') < q (world s)" unfolding intr_bounded_def by blast
  qed simp
  then obtain rc r s' where ret: "no_intr ?again fn s = Some ((rc, r), s')" by auto
  have "\<exists>s0. P (world s0) \<and> fn s0 = ((rc, r), s') \<and> \<not> ?again (rc, r) s'"
  proof (rule no_intr_result [OF ret, where P = "\<lambda>t. P (world t)"])
    fix t a t'
    assume "P (world t)" "fn t = (a, t')" "?again a t'"
    then show "P (world t')" using again [of t a t'] plain_callD [OF assms(2), of t "fst a" "snd a" t'] keep by (cases a) auto
  qed (rule assms(3))
  then obtain s0 where s0: "P (world s0)" "fn s0 = ((rc, r), s')" "\<not> ?again (rc, r) s'" by blast
  then show ?thesis using ret again [OF s0(2)] plain_callD [OF assms(2) s0(2)] unfolding NO_INTR_def
    by (intro exI [of _ r] exI [of _ s'] exI [of _ "world s0"]) auto
qed

lemma NO_INTR_call:
  assumes "intr_bounded K q" "plain_call K c fn" "P (world s)"
    and "\<And>w r w'. P w \<Longrightarrow> K c w = (r, w') \<Longrightarrow> sint (kret r) = - EINTR \<Longrightarrow> P w'"
  shows "\<exists>r s' w. NO_INTR fn s = Some ((if sint (kret r) < 0 then -1 else sint (kret r), r), s') \<and> P w \<and>
    K c w = (r, world s') \<and> sint (kret r) \<noteq> - EINTR"
proof -
  have "\<exists>r s' w. NO_INTR fn s = Some ((if sint (kret r) < 0 then -1 else sint (kret r), r), s') \<and> P w \<and>
    K c w = (r, world s') \<and> sint (kret r) \<noteq> - EINTR \<and> (sint (kret r) < 0 \<longrightarrow> errno s' = - sint (kret r))"
    by (rule NO_INTR_result [where P = P, OF assms(1-3)]) (rule assms(4))
  then show ?thesis by blast
qed

lemma NO_INTR_int:
  assumes "calm K q" "int_call c"
  shows "\<exists>rc r s' w. NO_INTR (sys_int K c) s = Some ((rc, r), s') \<and> K c w = (r, world s') \<and>
    sint (kret r) \<noteq> - EINTR \<and> (rc < 0 \<longleftrightarrow> sint (kret r) < 0)"
  using NO_INTR_call [OF calm_bounded [OF assms(1)] plain_int [OF assms], of "\<lambda>_. True" s] by force

end
