(* ===== verification/Pipeline_Choice.thy ===== *)
theory Pipeline_Choice
  imports Pipeline Calm_Calls Call_Effects
begin

text \<open>
  Which compressor \<open>CreatePipeline\<close> chooses. The child announces every entry of the table through
  the pipe before it tries to execute it; the last announcement the parent reads is the choice.
\<close>

subsection \<open>What the pipeline relies on\<close>

text \<open>
  A pipe between the descriptors \<open>wfd\<close> and \<open>rfd\<close>, with the bytes in it as an observation \<open>chan\<close>:
  writes are atomic, a read takes what it can, up to the end of file, and no other call touches it.
\<close>

definition pipe_ok :: "'w kern \<Rightarrow> int \<Rightarrow> int \<Rightarrow> ('w \<Rightarrow> byte list) \<Rightarrow> bool" where
  "pipe_ok K rfd wfd chan \<longleftrightarrow>
     (\<forall>bs w r w'. K (NR_write wfd (Local bs)) w = (r, w') \<longrightarrow> length bs \<le> 4096 \<longrightarrow>
        sint (kret r) = - EINTR \<and> chan w' = chan w \<or>
        sint (kret r) = int (length bs) \<and> chan w' = chan w @ bs) \<and>
     (\<forall>n w r w'. K (NR_read rfd n) w = (r, w') \<longrightarrow> n \<le> 4096 \<longrightarrow>
        sint (kret r) = - EINTR \<and> chan w' = chan w \<or>
        sint (kret r) = int (min n (length (chan w))) \<and> kbytes r = take n (chan w) \<and> chan w' = drop n (chan w)) \<and>
     (\<forall>c w r w'. int_call c \<longrightarrow> K c w = (r, w') \<longrightarrow> chan w' = chan w)"

lemma pipe_observer: "pipe_ok K rfd wfd chan \<Longrightarrow> observer K int_call (\<lambda>s. chan (world s))"
  by unfold_locales (auto simp: pipe_ok_def lss_syscall_def split: prod.splits)

lemma pipe_write: "pipe_ok K rfd wfd chan \<Longrightarrow> K (NR_write wfd (Local bs)) w = (r, w') \<Longrightarrow> length bs \<le> 4096 \<Longrightarrow>
    sint (kret r) = - EINTR \<and> chan w' = chan w \<or> sint (kret r) = int (length bs) \<and> chan w' = chan w @ bs"
  unfolding pipe_ok_def by metis

lemma pipe_read: "pipe_ok K rfd wfd chan \<Longrightarrow> K (NR_read rfd n) w = (r, w') \<Longrightarrow> n \<le> 4096 \<Longrightarrow>
    sint (kret r) = - EINTR \<and> chan w' = chan w \<or>
    sint (kret r) = int (min n (length (chan w))) \<and> kbytes r = take n (chan w) \<and> chan w' = drop n (chan w)"
  unfolding pipe_ok_def by metis

lemma open_null_returns:
  assumes "calm K q"
  shows "\<exists>x s'. MY_NO_INTR (open_null K) s = Some (x, s')"
proof -
  have "\<exists>r. no_intr (\<lambda>(rc, _, e) s. rc < 0 \<and> e = EINTR) (open_null K) s = Some r"
  proof (rule no_intr_returns [where P = "\<lambda>_. True" and m = "\<lambda>s. q (world s)"])
    fix s a s'
    assume null: "open_null K s = (a, s')" and again: "(\<lambda>(rc, _, e) s. rc < 0 \<and> e = EINTR) a s'"
    obtain f r e t where "sys0_int K (NR_open (str ''/dev/null'') O_WRONLY 0) 0 s = ((f, r, e), t)" by (metis surj_pair)
    note o = this sys0_int_progress [OF assms _ this]
    then have "sys0_int K (NR_dup2 f 2) e t = (a, s')" using null by (simp add: open_null_def)
    from sys0_int_progress [OF assms, of "NR_dup2 f 2" e t "fst a" "fst (snd a)" "snd (snd a)" s'] this
    have "q (world s') \<le> q (world t)" "snd (snd a) = EINTR \<longrightarrow> e = EINTR \<or> q (world s') < q (world t)" by simp_all
    moreover have "snd (snd a) = EINTR" using again by (cases a) simp
    moreover have "q (world t) \<le> q (world s)" "e = EINTR \<longrightarrow> q (world t) < q (world s)" using o by simp_all
    ultimately show "True \<and> q (world s') < q (world s)" by auto
  qed simp
  then show ?thesis unfolding MY_NO_INTR_def by auto
qed

lemma MY_NO_INTR_quiet:
  assumes "calm K q" "pipe_ok K rfd wfd chan"
  shows "int_call c \<Longrightarrow> \<exists>x s'. MY_NO_INTR (sys0_int K c 0) s = Some (x, s') \<and> chan (world s') = chan (world s)"
    "\<exists>x s'. MY_NO_INTR (open_null K) s = Some (x, s') \<and> chan (world s') = chan (world s)"
proof -
  show "\<exists>x s'. MY_NO_INTR (sys0_int K c 0) s = Some (x, s') \<and> chan (world s') = chan (world s)" if "int_call c"
    using MY_NO_INTR_int [OF assms(1) that, of s] observer.obs_MY_NO_INTR(1) [OF pipe_observer [OF assms(2)] _ that, of 0 s] by auto
  have "chan (world t') = chan (world t)" if "open_null K t = (x, t')" for t x t'
  proof -
    obtain f r e u where o: "sys0_int K (NR_open (str ''/dev/null'') O_WRONLY 0) 0 t = ((f, r, e), u)" by (metis surj_pair)
    with that have d: "sys0_int K (NR_dup2 f 2) e u = (x, t')" by (simp add: open_null_def)
    show ?thesis using observer.obs_sys0_int [OF pipe_observer [OF assms(2)]] o d by (metis int_call.simps(2,3))
  qed
  with open_null_returns [OF assms(1), of s] observer.obs_no_intr [OF pipe_observer [OF assms(2)]]
  show "\<exists>x s'. MY_NO_INTR (open_null K) s = Some (x, s') \<and> chan (world s') = chan (world s)"
    unfolding MY_NO_INTR_def by metis
qed

subsection \<open>The choice\<close>

text \<open>
  An entry names a program; it is usable when one of the files it can stand for can be executed
  (\<open>can\<close>). A table in memory is the list of its programs and the entry that ends it.
\<close>

definition is_program :: "CoredumperCompressor \<Rightarrow> bool" where
  "is_program e \<longleftrightarrow> (case compressor e of None \<Rightarrow> False | Some prog \<Rightarrow> prog \<noteq> [])"

definition entry_args :: "CoredumperCompressor \<Rightarrow> byte list list" where
  "entry_args e = (case cargs e of None \<Rightarrow> [] | Some a \<Rightarrow> a)"

definition usable :: "(byte list \<Rightarrow> byte list list \<Rightarrow> bool) \<Rightarrow> byte list option \<Rightarrow> CoredumperCompressor \<Rightarrow> bool" where
  "usable can PATH e \<longleftrightarrow> (case compressor e of None \<Rightarrow> False | Some prog \<Rightarrow>
     (\<exists>f\<in>set (candidates PATH prog). can f (entry_args e)))"

fun table :: "compressor_heap \<Rightarrow> u64 \<Rightarrow> CoredumperCompressor list \<Rightarrow> bool" where
  "table heap p [] = (\<not> is_program (heap p))"
| "table heap p (e # es) = (heap p = e \<and> is_program e \<and> table heap (p + sizeof_CoredumperCompressor) es)"

text \<open>The choice: the first usable entry, or else the one at the end.\<close>

fun choice :: "(CoredumperCompressor \<Rightarrow> bool) \<Rightarrow> u64 \<Rightarrow> CoredumperCompressor list \<Rightarrow> bool \<times> u64" where
  "choice ok p [] = (False, p)"
| "choice ok p (e # es) = (if ok e then (True, p) else choice ok (p + sizeof_CoredumperCompressor) es)"

definition execs :: "'w kern \<Rightarrow> (byte list \<Rightarrow> byte list list \<Rightarrow> bool) \<Rightarrow> bool" where
  "execs K can \<longleftrightarrow> (\<forall>f a w r w'. K (NR_execve f a) w = (r, w') \<longrightarrow> (0 \<le> sint (kret r) \<longleftrightarrow> can f a))"

lemma execsD: "execs K can \<Longrightarrow> K (NR_execve f a) w = (r, w') \<Longrightarrow> 0 \<le> sint (kret r) \<longleftrightarrow> can f a"
  unfolding execs_def by metis

lemma try_exec_result:
  assumes "calm K q" "pipe_ok K rfd wfd chan" "execs K can"
  shows "\<exists>s'. try_exec K fs a s = (\<exists>f\<in>set fs. can f a, s') \<and> chan (world s') = chan (world s)"
proof (induction fs arbitrary: s)
  case (Cons f fs)
  obtain rc r e t where call: "sys0_int K (NR_execve f a) 0 s = ((rc, r, e), t)" by (metis surj_pair)
  have K: "K (NR_execve f a) (world s) = (r, world t)" and rc: "(rc, e) = LSS_RETURN_int (kret r) 0"
    using call by (auto simp: sys0_int_def lss_syscall_def split: prod.splits)
  have "0 \<le> rc \<longleftrightarrow> can f a"
    using int_result(2) [OF assms(1) _ K, of 0] rc execsD [OF assms(3) K] by (auto split: if_splits)
  moreover have "chan (world t) = chan (world s)" using observer.obs_sys0_int [OF pipe_observer [OF assms(2)] call] by simp
  ultimately show ?case using call Cons [of t] by auto
qed simp

lemma tell_parent_result:
  assumes "calm K q" "pipe_ok K rfd wfd chan"
  shows "\<exists>s'. tell_parent K wfd p s = Some s' \<and> chan (world s') = chan (world s) @ le64 p"
proof -
  let ?b = "Local (le64 p)"
  have w: "sint (kret r) = - EINTR \<and> chan w' = chan w \<or> sint (kret r) = 8 \<and> chan w' = chan w @ le64 p"
    if "K (NR_write wfd ?b) w = (r, w')" for w r w'
    using pipe_write [OF assms(2) that] by simp
  then have keep: "chan w' = X" if "chan w = X" "K (NR_write wfd ?b) w = (r, w')" "sint (kret r) = - EINTR" for w r w' X
    using that by fastforce
  from MY_NO_INTR_call [OF calm_bounded [OF assms(1)], where P = "\<lambda>w. chan w = chan (world s)" and c = "NR_write wfd ?b" and s = s]
  obtain rc r e s' w' where call: "MY_NO_INTR (sys0_long K (NR_write wfd ?b) 0) s = Some ((rc, r, e), s')"
    "chan w' = chan (world s)" "K (NR_write wfd ?b) w' = (r, world s')" "sint (kret r) \<noteq> - EINTR" "(rc, e) = LSS_RETURN (kret r) 0"
    using keep by blast
  then have "sint (kret r) = 8" "chan (world s') = chan (world s) @ le64 p" using w by metis+
  moreover from this have "rc = 8" using call(5) by (simp add: LSS_RETURN_def LSS_error_range)
  ultimately show ?thesis using call(1)
    by (simp add: tell_parent_def c_write_def c_write_loop.simps [of K wfd ?b] c_write_loop.simps [of K wfd "Local []"])
qed

text \<open>The pointers that the child writes into the pipe.\<close>

fun announced :: "(CoredumperCompressor \<Rightarrow> bool) \<Rightarrow> u64 \<Rightarrow> CoredumperCompressor list \<Rightarrow> u64 list" where
  "announced ok p [] = [p]"
| "announced ok p (e # es) = p # (if ok e then [] else announced ok (p + sizeof_CoredumperCompressor) es)"

lemma announced_choice: "announced ok p es \<noteq> [] \<and> last (announced ok p es) = snd (choice ok p es)"
  by (induction ok p es rule: announced.induct) auto

lemma announced_bytes:
  "concat (map le64 (announced ok p es)) = concat (map le64 (butlast (announced ok p es))) @ le64 (snd (choice ok p es))"
proof -
  have a: "announced ok p es = butlast (announced ok p es) @ [snd (choice ok p es)]"
    by (metis announced_choice append_butlast_last_id)
  show ?thesis by (subst a) (simp only: map_append concat_append list.map concat.simps append_Nil2)
qed

lemma try_compressors_result:
  assumes "calm K q" "pipe_ok K rfd wfd chan" "execs K can"
  shows "table heap p es \<Longrightarrow> \<exists>s'. try_compressors K heap PATH wfd p s =
      Some (fst (choice (usable can PATH) p es), snd (choice (usable can PATH) p es), s') \<and>
    chan (world s') = chan (world s) @ concat (map le64 (if fst (choice (usable can PATH) p es)
      then announced (usable can PATH) p es else butlast (announced (usable can PATH) p es)))"
proof (induction es arbitrary: p s)
  case Nil
  then show ?case by (subst try_compressors.simps) (auto simp: is_program_def split: option.splits)
next
  case (Cons e es)
  then obtain prog where prog: "compressor (heap p) = Some prog" "prog \<noteq> []" and e: "heap p = e"
    by (auto simp: is_program_def split: option.splits)
  obtain s1 where s1: "tell_parent K wfd p s = Some s1" "chan (world s1) = chan (world s) @ le64 p"
    using tell_parent_result [OF assms(1,2)] by blast
  obtain s2 where s2: "try_exec K (candidates PATH prog) (entry_args e) s1 = (usable can PATH e, s2)"
    "chan (world s2) = chan (world s1)"
    using try_exec_result [OF assms, of "candidates PATH prog" "entry_args e" s1] prog e by (auto simp: usable_def)
  have step: "try_compressors K heap PATH wfd p s = (if usable can PATH e then Some (True, p, s2)
      else try_compressors K heap PATH wfd (p + sizeof_CoredumperCompressor) s2)"
    using prog s1(1) s2(1) e by (subst try_compressors.simps) (simp add: entry_args_def)
  show ?case
  proof (cases "usable can PATH e")
    case True
    then show ?thesis using step s1 s2 by simp
  next
    case False
    then show ?thesis using step s1 s2 Cons.IH [of "p + sizeof_CoredumperCompressor" s2] Cons.prems announced_choice
      by auto
  qed
qed

lemma close_returns:
  assumes "calm K q" "pipe_ok K rfd wfd chan"
  shows "\<exists>s'. my_close K s f = Some s' \<and> chan (world s') = chan (world s)"
    "\<exists>s'. no_close K f s = Some s' \<and> chan (world s') = chan (world s)"
    "\<exists>s'. close_pair K pr s = Some s' \<and> chan (world s') = chan (world s)"
proof -
  note obs = observer.obs_MY_NO_INTR(1) [OF pipe_observer [OF assms(2)]] observer.obs_NO_INTR(1) [OF pipe_observer [OF assms(2)]]
  show "\<exists>s'. my_close K s f = Some s' \<and> chan (world s') = chan (world s)"
    using MY_NO_INTR_int [OF assms(1), of "NR_close f" s] obs(1) [of "NR_close f" 0 s] by (auto simp: my_close_def)
  have c: "\<exists>s'. no_close K f s = Some s' \<and> chan (world s') = chan (world s)" for f s
    using NO_INTR_int [OF assms(1), of "NR_close f" s] obs(2) [of "NR_close f" s] by (auto simp: no_close_def sys_close_def)
  show "\<exists>s'. no_close K f s = Some s' \<and> chan (world s') = chan (world s)" by (rule c)
  show "\<exists>s'. close_pair K pr s = Some s' \<and> chan (world s') = chan (world s)"
  proof -
    obtain s1 s2 where "no_close K (fst pr) s = Some s1" "chan (world s1) = chan (world s)"
      "no_close K (snd pr) s1 = Some s2" "chan (world s2) = chan (world s1)" using c by metis
    then show ?thesis by (simp add: close_pair_def)
  qed
qed

lemma close_others_returns:
  assumes "calm K q" "pipe_ok K rfd wfd chan"
  shows "\<exists>s'. close_others (my_close K) keep fs s = Some s' \<and> chan (world s') = chan (world s)"
proof (induction fs arbitrary: s)
  case (Cons f fs)
  obtain t where "(if f \<noteq> keep then my_close K s f else Some s) = Some t" "chan (world t) = chan (world s)"
    using close_returns(1) [OF assms, of s f] by (cases "f = keep") auto
  with Cons [of t] show ?case by auto
qed simp

text \<open>The end of the child, when no compressor was started.\<close>

definition child_end :: "'w kern \<Rightarrow> int \<Rightarrow> CreateArgs \<Rightarrow> bool \<Rightarrow> u64 \<Rightarrow> 'w st \<Rightarrow> (bool \<times> CreateArgs \<times> 'w st) option" where
  "child_end K f args running p s =
     (if running then Some (True, args\<lparr>ca_compressors := p\<rparr>, s)
      else do {
        s \<leftarrow> tell_parent K f p s;
        s \<leftarrow> my_close K s f;
        let (_, s) = sys_int K (NR_exit 0) s;
        Some (False, args\<lparr>ca_compressors := p\<rparr>, s)
      })"

lemma child_end_result:
  assumes "calm K q" "pipe_ok K rfd wfd chan"
  shows "\<exists>s'. child_end K wfd args running p s = Some (running, args\<lparr>ca_compressors := p\<rparr>, s') \<and>
    chan (world s') = chan (world s) @ (if running then [] else le64 p)"
proof (cases running)
  case False
  obtain s1 s2 where s: "tell_parent K wfd p s = Some s1" "chan (world s1) = chan (world s) @ le64 p"
    "my_close K s1 wfd = Some s2" "chan (world s2) = chan (world s1)"
    using tell_parent_result [OF assms] close_returns(1) [OF assms] by metis
  obtain x s3 where "sys_int K (NR_exit 0) s2 = (x, s3)" by (metis surj_pair)
  with s False observer.obs_sys_int [OF pipe_observer [OF assms(2)] this] show ?thesis by (simp add: child_end_def)
qed (simp add: child_end_def)

lemma CreatePipelineChild_result:
  assumes "calm K q" "pipe_ok K rfd wfd chan" "execs K can" "table heap (ca_compressors args) es"
    "snd (ca_fds args) = wfd" "wfd > 2" "fst (ca_zip_in args) > 2" "snd (ca_zip_out args) > 2"
  shows "\<exists>s'. CreatePipelineChild K heap args s =
      Some (fst (choice (usable can (ca_PATH args)) (ca_compressors args) es),
        args\<lparr>ca_compressors := snd (choice (usable can (ca_PATH args)) (ca_compressors args) es)\<rparr>, s') \<and>
    chan (world s') = chan (world s) @ concat (map le64 (announced (usable can (ca_PATH args)) (ca_compressors args) es))"
proof -
  let ?ok = "usable can (ca_PATH args)" and ?p = "ca_compressors args"
  note quiet = MY_NO_INTR_quiet [OF assms(1,2)]
  obtain s1 where s1: "my_close K s (fst (ca_fds args)) = Some s1" "chan (world s1) = chan (world s)"
    using close_returns(1) [OF assms(1,2)] by blast
  obtain x2 s2 where s2: "sys0_int K (NR_fcntl wfd F_SETFD FD_CLOEXEC) 0 s1 = (x2, s2)" by (metis surj_pair)
  have c2: "chan (world s2) = chan (world s1)" using observer.obs_sys0_int [OF pipe_observer [OF assms(2)] s2] by simp
  obtain x3 s3 where s3: "MY_NO_INTR (sys0_int K (NR_dup2 (fst (ca_zip_in args)) 0) 0) s2 = Some (x3, s3)"
    "chan (world s3) = chan (world s2)" using quiet(1) [of "NR_dup2 (fst (ca_zip_in args)) 0" s2] by auto
  obtain x4 s4 where s4: "MY_NO_INTR (sys0_int K (NR_dup2 (snd (ca_zip_out args)) 1) 0) s3 = Some (x4, s4)"
    "chan (world s4) = chan (world s3)" using quiet(1) [of "NR_dup2 (snd (ca_zip_out args)) 1" s3] by auto
  obtain s5 where s5: "my_close K s4 2 = Some s5" "chan (world s5) = chan (world s4)"
    using close_returns(1) [OF assms(1,2)] by blast
  obtain x6 s6 where s6: "MY_NO_INTR (open_null K) s5 = Some (x6, s6)" "chan (world s6) = chan (world s5)" using quiet(2) by blast
  obtain s7 where s7: "close_others (my_close K) wfd (map int [3..<ca_openmax args]) s6 = Some s7" "chan (world s7) = chan (world s6)"
    using close_others_returns [OF assms(1,2)] by blast
  have c7: "chan (world s7) = chan (world s)" using s1 c2 s3 s4 s5 s6 s7 by simp
  obtain s8 where s8: "try_compressors K heap (ca_PATH args) wfd ?p s7 = Some (fst (choice ?ok ?p es), snd (choice ?ok ?p es), s8)"
    "chan (world s8) = chan (world s7) @ concat (map le64 (if fst (choice ?ok ?p es) then announced ?ok ?p es
       else butlast (announced ?ok ?p es)))"
    using try_compressors_result [OF assms(1-4)] by blast
  have up: "dup_above K f s = Some (f, s)" if "2 < f" for f s using that by (subst dup_above.simps) simp
  have same: "args\<lparr>ca_fds := (fst (ca_fds args), wfd), ca_compressors := v\<rparr> = args\<lparr>ca_compressors := v\<rparr>" for v
    unfolding assms(5) [symmetric] by (cases args) simp
  have "CreatePipelineChild K heap args s = child_end K wfd args (fst (choice ?ok ?p es)) (snd (choice ?ok ?p es)) s8"
    using assms(5-8) s1(1) s2 s3(1) s4(1) s5(1) s6(1) s7(1) s8(1)
    by (simp add: CreatePipelineChild_def child_end_def up same Let_def)
  moreover obtain s9 where "child_end K wfd args (fst (choice ?ok ?p es)) (snd (choice ?ok ?p es)) s8 =
      Some (fst (choice ?ok ?p es), args\<lparr>ca_compressors := snd (choice ?ok ?p es)\<rparr>, s9)"
    "chan (world s9) = chan (world s8) @ (if fst (choice ?ok ?p es) then [] else le64 (snd (choice ?ok ?p es)))"
    using child_end_result [OF assms(1,2)] by blast
  ultimately show ?thesis using s8(2) c7 announced_bytes [of ?ok ?p es] by auto
qed

subsection \<open>The parent\<close>

lemma c_read_pipe:
  assumes "calm K q" "pipe_ok K rfd wfd chan" "n > 0" "n \<le> 4096"
  shows "\<exists>s'. c_read K rfd n s = Some ((int (min n (length (chan (world s)))), take n (chan (world s))), s') \<and>
    chan (world s') = drop n (chan (world s))"
proof -
  have keep: "chan w' = X" if "chan w = X" "K (NR_read rfd n) w = (r, w')" "sint (kret r) = - EINTR" for w r w' X
    using pipe_read [OF assms(2) that(2) assms(4)] that by auto
  from MY_NO_INTR_call [OF calm_bounded [OF assms(1)], where P = "\<lambda>w. chan w = chan (world s)" and c = "NR_read rfd n" and s = s]
  obtain rc r e s' w' where call: "MY_NO_INTR (sys0_long K (NR_read rfd n) 0) s = Some ((rc, r, e), s')"
    "chan w' = chan (world s)" "K (NR_read rfd n) w' = (r, world s')" "sint (kret r) \<noteq> - EINTR" "(rc, e) = LSS_RETURN (kret r) 0"
    using keep by blast
  then have r: "sint (kret r) = int (min n (length (chan (world s))))" "kbytes r = take n (chan (world s))"
    "chan (world s') = drop n (chan (world s))" using pipe_read [OF assms(2) call(3) assms(4)] by auto
  then have "rc = int (min n (length (chan (world s))))" using call(5) by (simp add: LSS_RETURN_def LSS_error_range)
  moreover have "stored rc (kbytes r) = take n (chan (world s))" using r calculation by (simp add: stored_exact)
  ultimately show ?thesis using call(1) r(3) assms(3) by (simp add: c_read_def)
qed

lemma read_choice_result:
  assumes "calm K q" "pipe_ok K rfd wfd chan"
  shows "chan (world s) = concat (map le64 ps) \<Longrightarrow> length ptr = 8 \<Longrightarrow>
    \<exists>s'. read_choice K rfd ptr s = Some (if ps = [] then ptr else le64 (last ps), s')"
proof (induction ps arbitrary: ptr s)
  case Nil
  then show ?case using c_read_pipe [OF assms, of 8 s] by (subst read_choice.simps) auto
next
  case (Cons p ps)
  then obtain t where t: "c_read K rfd 8 s = Some ((8, le64 p), t)" "chan (world t) = concat (map le64 ps)"
    using c_read_pipe [OF assms, of 8 s] by auto
  with Cons.IH [of t "le64 p"] Cons.prems(2) show ?case by (subst read_choice.simps) auto
qed

text \<open>
  What the caller of \<open>CreatePipeline\<close> gets: both ends of the chosen compressor, no pipe when the
  table ends with permission to write uncompressed files, or an error.
\<close>

definition pipeline_result ::
    "compressor_heap \<Rightarrow> int \<times> int \<Rightarrow> int \<times> int \<Rightarrow> int \<times> int \<Rightarrow> bool \<times> u64 \<Rightarrow> int \<times> (int \<times> int) \<times> u64" where
  "pipeline_result heap fds zip_in zip_out = (\<lambda>(found, p).
     if found then (0, (fst zip_out, snd zip_in), p)
     else if compressor (heap p) = None then (-1, fds, p)
     else (0, (-1, -1), p))"

lemma choice_entry:
  "table heap p es \<Longrightarrow> choice ok p es = (found, p') \<Longrightarrow> found = is_program (heap p')"
  by (induction ok p es rule: choice.induct) (auto split: if_splits)

lemma finish_pipeline_result:
  assumes "calm K q" "pipe_ok K (fst (ca_fds args)) wfd chan"
    "\<forall>w r w'. K (NR_wait4 pid 0) w = (r, w') \<longrightarrow> sint (kret r) = - EINTR \<or> 0 \<le> sint (kret r)"
    "compressor (heap 0) = None" "chan (world s) = concat (map le64 ps)" "ps \<noteq> []"
  shows "\<exists>s'. finish_pipeline K heap pid args s =
    Some (pipeline_result heap (ca_fds args) (ca_zip_in args) (ca_zip_out args) (is_program (heap (last ps)), last ps), s')"
proof -
  note close = close_returns(2,3) [OF assms(1,2)]
  have close1: "\<exists>s'. no_close K f s = Some s'" and close2: "\<exists>s'. close_pair K pr s = Some s'" for f pr s
    using close by blast+
  have wait: "\<exists>s'. wait_child K pid s = Some (True, s')" for s
    using NO_INTR_int [OF assms(1), of "NR_wait4 pid 0" s] assms(3) unfolding wait_child_def sys_waitpid_def
    by fastforce
  obtain s1 where s1: "no_close K (snd (ca_fds args)) s = Some s1" "chan (world s1) = chan (world s)" using close(1) by blast
  obtain s2 where s2: "read_choice K (fst (ca_fds args)) (replicate 8 0) s1 = Some (le64 (last ps), s2)"
    using read_choice_result [OF assms(1,2), of s1 ps "replicate 8 0"] s1(2) assms(5,6) by auto
  obtain s3 where s3: "no_close K (fst (ca_fds args)) s2 = Some s3" using close1 by blast
  note run = s1(1) s2 s3 and defs = finish_pipeline_def pipeline_result_def is_program_def Let_def
  consider "compressor (heap (last ps)) = None" | "compressor (heap (last ps)) = Some []"
    | prog where "compressor (heap (last ps)) = Some prog" "prog \<noteq> []" by (cases "compressor (heap (last ps))") auto
  then show ?thesis
  proof cases
    case 1
    obtain s4 s5 where "close_pair K (ca_zip_out args) s3 = Some s4" "close_pair K (ca_zip_in args) s4 = Some s5" using close2 by metis
    with 1 show ?thesis by (simp add: defs run)
  next
    case 2
    obtain s4 s5 s6 s7 s8 where "no_close K (fst (ca_zip_in args)) s3 = Some s4" "no_close K (fst (ca_zip_out args)) s4 = Some s5"
      "no_close K (snd (ca_zip_in args)) s5 = Some s6" "no_close K (snd (ca_zip_out args)) s6 = Some s7"
      "wait_child K pid s7 = Some (True, s8)" using close1 wait by metis
    moreover have "last ps \<noteq> 0" using 2 assms(4) by auto
    ultimately show ?thesis using 2 by (simp add: defs run)
  next
    case 3
    obtain s4 s5 where "no_close K (fst (ca_zip_in args)) s3 = Some s4" "no_close K (snd (ca_zip_out args)) s4 = Some s5"
      using close1 by metis
    moreover have "last ps \<noteq> 0" using 3 assms(4) by auto
    ultimately show ?thesis using 3 by (simp add: defs run)
  qed
qed

lemma choice_index:
  "choice ok p es = (let k = length (takeWhile (\<lambda>e. \<not> ok e) es)
     in (k < length es, p + sizeof_CoredumperCompressor * of_nat k))"
  by (induction ok p es rule: choice.induct) (auto simp: Let_def algebra_simps)


text \<open>
  C15: \<open>CreatePipeline\<close> refines the abstract choice of a compressor. Once the pipes and the child
  exist, it always returns; it hands out the first entry of the table that can be executed, connected through the
  new pipes, or reports that the table allows uncompressed output, or fails.
\<close>

theorem CreatePipeline_refines_choice:
  assumes "calm K q" "pipe_ok K rfd wfd chan" "execs K can" "table heap p es"
    "p \<noteq> 0" "compressor (heap p) \<noteq> None" "compressor (heap 0) = None"
    "new_pipe K s = (Some (rfd, wfd), s1)" "new_pipe K s1 = (Some zip_in, s2)" "new_pipe K s2 = (Some zip_out, s3)"
    "sys_int K pipeline_clone s3 = ((pid, r), s4)" "0 \<le> pid" "chan (world s4) = []"
    "wfd > 2" "fst zip_in > 2" "snd zip_out > 2"
    "\<forall>w r w'. K (NR_wait4 pid 0) w = (r, w') \<longrightarrow> sint (kret r) = - EINTR \<or> 0 \<le> sint (kret r)"
  shows "\<exists>s'. CreatePipeline K heap fds0 openmax PATH p s =
    Some (pipeline_result heap (rfd, wfd) zip_in zip_out (choice (usable can PATH) p es), s')"
proof -
  let ?args = "\<lparr>ca_fds = (rfd, wfd), ca_openmax = openmax, ca_PATH = PATH, ca_compressors = p, ca_zip_in = zip_in, ca_zip_out = zip_out\<rparr>"
  let ?c = "choice (usable can PATH) p es" and ?ps = "announced (usable can PATH) p es"
  obtain s5 where s5: "CreatePipelineChild K heap ?args s4 = Some (fst ?c, ?args\<lparr>ca_compressors := snd ?c\<rparr>, s5)"
    "chan (world s5) = concat (map le64 ?ps)"
    using CreatePipelineChild_result [OF assms(1-3), of heap ?args es s4] assms(4,13-16) by auto
  obtain s6 where "finish_pipeline K heap pid (?args\<lparr>ca_compressors := snd ?c\<rparr>) s5 =
      Some (pipeline_result heap (rfd, wfd) zip_in zip_out (is_program (heap (last ?ps)), last ?ps), s6)"
    using finish_pipeline_result [of K q "?args\<lparr>ca_compressors := snd ?c\<rparr>" wfd chan pid heap s5 ?ps]
      assms(1,2,7,17) s5(2) announced_choice by auto
  moreover have "(is_program (heap (last ?ps)), last ?ps) = ?c"
    using choice_entry [OF assms(4), of "usable can PATH" "fst ?c" "snd ?c"]
      announced_choice [of "usable can PATH" p es] by (simp add: prod_eq_iff)
  ultimately show ?thesis using s5(1) assms by (auto simp: CreatePipeline_def)
qed

subsection \<open>A kernel with one pipe\<close>

text \<open>
  The pipe between the descriptors 4 and 3, the next free descriptor, and the files that can be executed.
\<close>

fun pipe_kernel :: "byte list list \<Rightarrow> (byte list \<times> int) kern" where
  "pipe_kernel fs NR_pipe (ch, n) = (\<lparr>kret = 0, kbytes = [], kints = [n, n + 1]\<rparr>, (ch, n + 2))"
| "pipe_kernel fs (NR_write f b) (ch, n) =
     (\<lparr>kret = of_nat (min (buf_len b) 4096), kbytes = [], kints = []\<rparr>, (if f = 4 then ch @ take 4096 (buf_bytes (\<lambda>_. 0) b) else ch, n))"
| "pipe_kernel fs (NR_read f k) (ch, n) =
     (if f = 3 then (\<lparr>kret = of_nat (min (min k 4096) (length ch)), kbytes = take (min k 4096) ch, kints = []\<rparr>, (drop (min k 4096) ch, n))
      else (\<lparr>kret = 0, kbytes = [], kints = []\<rparr>, (ch, n)))"
| "pipe_kernel fs (NR_execve f a) w = (\<lparr>kret = (if f \<in> set fs then 0 else - 2), kbytes = [], kints = []\<rparr>, w)"
| "pipe_kernel fs (NR_clone fl) w = (\<lparr>kret = 100, kbytes = [], kints = []\<rparr>, w)"
| "pipe_kernel fs (NR_wait4 p opt) w = (\<lparr>kret = 100, kbytes = [], kints = []\<rparr>, w)"
| "pipe_kernel fs c w = (\<lparr>kret = 0, kbytes = [], kints = []\<rparr>, w)"

lemma small_result:
  assumes "k \<le> 4096"
  shows "sint (of_nat k :: u64) = int k"
proof -
  have "unat (of_nat k :: u64) = k" using assms by (simp add: unat_of_nat_u64)
  then have "uint (of_nat k :: u64) = int k" by (metis uint_nat)
  then show ?thesis using assms by (simp add: sint_u64)
qed

lemma pipe_kernel_calls: "int_call c \<Longrightarrow> snd (pipe_kernel fs c w) = w \<and> kret (fst (pipe_kernel fs c w)) \<in> {0, - 2, 100}"
  by (cases c; cases w) auto

lemma pipe_kernel_range:
  "- 4095 \<le> sint (kret (fst (pipe_kernel fs c w))) \<and> sint (kret (fst (pipe_kernel fs c w))) < 2 ^ 31 \<and>
   sint (kret (fst (pipe_kernel fs c w))) \<noteq> - EINTR"
  by (cases c; cases w) (auto simp: small_result)

lemma pipe_kernel_ok:
  "calm (pipe_kernel fs) (\<lambda>_. 0)" "pipe_ok (pipe_kernel fs) 3 4 fst" "execs (pipe_kernel fs) (\<lambda>f a. f \<in> set fs)"
proof -
  show "calm (pipe_kernel fs) (\<lambda>_. 0)"
    unfolding calm_def intr_bounded_def using pipe_kernel_range by (metis fst_conv le_refl)
  show "execs (pipe_kernel fs) (\<lambda>f a. f \<in> set fs)" by (auto simp: execs_def)
  show "pipe_ok (pipe_kernel fs) 3 4 fst" unfolding pipe_ok_def
  proof (intro conjI allI impI)
    fix c w r w' assume "int_call c" "pipe_kernel fs c w = (r, w')"
    then show "fst w' = fst w" using pipe_kernel_calls [of c fs w] by simp
  qed (auto simp: small_result)
qed

definition demo_table :: compressor_heap where
  "demo_table = table_at 4096 COREDUMPER_TRY_GZIP_COMPRESSED"

lemma demo_table: "table demo_table 4096 gzip_entries" "compressor (demo_table 0) = None" "compressor (demo_table 4096) \<noteq> None"
  by (simp_all add: demo_table_def table_at_def COREDUMPER_TRY_GZIP_COMPRESSED_def gzip_entries_def entry_def is_program_def
     uncompressed_entry_def end_entry_def)

lemma demo_choice:
  "choice (usable (\<lambda>f a. f \<in> set [str ''/opt/gzip'']) (Some (str ''/sbin:/opt''))) 4096 gzip_entries = (True, 4144)"
  by (simp add: gzip_entries_def entry_def usable_def candidates_def executable_def)


theorem CreatePipeline_refines_choice_witness:
  "\<exists>s'. CreatePipeline (pipe_kernel [str ''/opt/gzip'']) demo_table (0, 0) 9 (Some (str ''/sbin:/opt'')) 4096
      \<lparr>errno = 0, calls = [], world = ([], 3)\<rparr> = Some ((0, (7, 6), 4144), s')"
proof -
  let ?K = "pipe_kernel [str ''/opt/gzip'']" and ?s = "\<lparr>errno = 0, calls = [], world = ([], 3)\<rparr> :: (byte list \<times> int) st"
  obtain s1 s2 s3 r s4 where "new_pipe ?K ?s = (Some (3, 4), s1)" "new_pipe ?K s1 = (Some (5, 6), s2)"
    "new_pipe ?K s2 = (Some (7, 8), s3)" "sys_int ?K pipeline_clone s3 = ((100, r), s4)" "fst (world s4) = []"
    by (simp add: new_pipe_def sys_pipe_def sys_int_def lss_syscall_def LSS_RETURN_int_def)
  from CreatePipeline_refines_choice [OF pipe_kernel_ok demo_table(1) _ demo_table(3,2) this(1-4) _ this(5), of "(0, 0)" 9 "Some (str ''/sbin:/opt'')"]
  show ?thesis using demo_choice by (simp add: pipeline_result_def)
qed

end
