(* ===== verification/Pipeline_Fds.thy ===== *)
theory Pipeline_Fds
  imports Pipeline_Choice "HOL-Library.Multiset"
begin

text \<open>
  Descriptors of the pipeline: what the parent closes, counted with multiplicity.
\<close>

subsection \<open>Calls of \<open>close\<close>\<close>

text \<open>The descriptors that have been closed, in order; an interrupted call is tried again.\<close>

fun closing :: "syscall \<times> kreply \<Rightarrow> int list" where
  "closing (NR_close f, r) = (if sint (kret r) = - EINTR then [] else [f])"
| "closing _ = []"

definition closes :: "(syscall \<times> kreply) list \<Rightarrow> int list" where
  "closes cs = concat (map closing cs)"

fun is_close :: "syscall \<Rightarrow> bool" where
  "is_close (NR_close f) = True"
| "is_close _ = False"

lemma closing_other: "\<not> is_close c \<Longrightarrow> closing (c, r) = []"
  by (cases c) auto

interpretation closed: observer K "\<lambda>c. \<not> is_close c" "\<lambda>s. closes (calls s)" for K
  by unfold_locales (auto simp: closes_def closing_other dest!: calls_lss_syscall)

lemma no_close_closes:
  assumes "calm K q" "no_close K f s = Some s'"
  shows "closes (calls s') = closes (calls s) @ [f]"
proof -
  obtain rc r where ret: "no_intr (\<lambda>(rc, _) s. rc < 0 \<and> errno s = EINTR) (sys_int K (NR_close f)) s = Some ((rc, r), s')"
    using assms(2) by (auto simp: no_close_def sys_close_def NO_INTR_def split: bind_splits)
  have step: "closes (calls t') = closes (calls t) @ (if rc < 0 \<and> errno t' = EINTR then [] else [f])"
    if "sys_int K (NR_close f) t = ((rc, r), t')" for t rc r t'
    using that int_result(2) [OF assms(1), of "NR_close f"]
    by (auto simp: sys_int_def lss_syscall_def closes_def split: prod.splits if_splits)
  have "\<exists>s0. closes (calls s0) = closes (calls s) \<and> sys_int K (NR_close f) s0 = ((rc, r), s') \<and> \<not> (\<lambda>(rc, _) s. rc < 0 \<and> errno s = EINTR) (rc, r) s'"
    by (rule no_intr_result [OF ret]) (auto dest: step)
  then show ?thesis using step by auto
qed

lemma close_pair_closes:
  assumes "calm K q" "close_pair K p s = Some s'"
  shows "closes (calls s') = closes (calls s) @ [fst p, snd p]"
  using assms(2) by (auto simp: close_pair_def split: bind_splits dest!: no_close_closes [OF assms(1)])

lemma read_choice_closes:
  assumes "read_choice K f ptr s = Some r"
  shows "closes (calls (snd r)) = closes (calls s)"
proof -
  let ?P = "\<lambda>K' (f::int) (ptr::byte list) s r. K' = K \<longrightarrow> closes (calls (snd r)) = closes (calls s)"
  have "?P K f ptr s r"
    by (rule read_choice.raw_induct [where P = ?P, OF _ assms])
      (fastforce split: if_splits bind_splits dest: closed.obs_c_read)
  then show ?thesis by simp
qed

lemma wait_child_closes: "wait_child K pid s = Some (b, s') \<Longrightarrow> closes (calls s') = closes (calls s)"
  by (auto simp: wait_child_def sys_waitpid_def split: bind_splits dest!: closed.obs_NO_INTR(1))

text \<open>
  C25: after the child has run, \<open>CreatePipeline\<close> accounts for each of the six descriptors of its
  three pipes: it closes each exactly once, except for the two that it returns with a running
  compressor. There is one exception: when the child cannot be reaped, both ends of \<open>zip_in\<close> are closed a
  second time.
\<close>

theorem finish_pipeline_closes:
  assumes "calm K q" "compressor (heap 0) = None" "finish_pipeline K heap pid args s = Some ((rc, fds, p), s')"
  shows "\<exists>fs. closes (calls s') = closes (calls s) @ fs \<and>
    mset fs + (if rc = 0 \<and> is_program (heap p) then {#fst fds, snd fds#} else {#}) =
      {#fst (ca_fds args), snd (ca_fds args), fst (ca_zip_in args), snd (ca_zip_in args), fst (ca_zip_out args), snd (ca_zip_out args)#} +
      (if rc \<noteq> 0 \<and> compressor (heap p) = Some [] then {#fst (ca_zip_in args), snd (ca_zip_in args)#} else {#}) \<and>
    (rc = 0 \<longrightarrow> fds = (if is_program (heap p) then (fst (ca_zip_out args), snd (ca_zip_in args)) else (-1, -1)))"
proof -
  let ?f0 = "fst (ca_fds args)" and ?f1 = "snd (ca_fds args)"
  obtain s1 s2 s3 ptr where s: "no_close K ?f1 s = Some s1" "read_choice K ?f0 (replicate 8 0) s1 = Some (ptr, s2)"
    "no_close K ?f0 s2 = Some s3" and p: "p = of_le64 ptr"
    using assms(3) by (auto simp: finish_pipeline_def Let_def split: bind_splits if_splits)
  then have c3: "closes (calls s3) = closes (calls s) @ [?f1, ?f0]"
    using read_choice_closes [OF s(2)] no_close_closes [OF assms(1)] by simp
  note run = assms(3) [unfolded finish_pipeline_def Let_def, simplified s bind.bind_lunit prod.case]
    and close = no_close_closes [OF assms(1)] close_pair_closes [OF assms(1)]
  consider "compressor (heap p) = None" | "compressor (heap p) = Some []" "p \<noteq> 0" | prog where "compressor (heap p) = Some prog" "prog \<noteq> []" "p \<noteq> 0"
    using assms(2) by (cases "compressor (heap p)"; cases "p = 0") auto
  then show ?thesis
  proof cases
    case 1
    then show ?thesis using run p c3 by (auto simp: is_program_def split: bind_splits dest!: close)
  next
    case 2
    then show ?thesis using run p c3 by (auto simp: is_program_def split: bind_splits if_splits dest!: close wait_child_closes)
  next
    case 3
    then show ?thesis using run p c3 by (auto simp: is_program_def split: bind_splits dest!: close)
  qed
qed

theorem finish_pipeline_closes_witness:
  "\<exists>s'. finish_pipeline (pipe_kernel []) demo_table 100
      \<lparr>ca_fds = (3, 4), ca_openmax = 9, ca_PATH = None, ca_compressors = 4144, ca_zip_in = (5, 6), ca_zip_out = (7, 8)\<rparr>
      \<lparr>errno = 0, calls = [], world = (le64 4144, 9)\<rparr> = Some ((0, (7, 6), 4144), s') \<and>
    mset (closes (calls s')) + {#7, 6#} = {#3, 4, 5, 6, 7, 8#}"
proof -
  let ?args = "\<lparr>ca_fds = (3, 4), ca_openmax = 9, ca_PATH = None, ca_compressors = 4144, ca_zip_in = (5, 6), ca_zip_out = (7, 8)\<rparr>"
  let ?s = "\<lparr>errno = 0, calls = [], world = (le64 4144, 9)\<rparr> :: (byte list \<times> int) st"
  have prog: "is_program (demo_table 4144)"
    by (simp add: is_program_def demo_table_def table_at_def COREDUMPER_TRY_GZIP_COMPRESSED_def gzip_entries_def entry_def)
  obtain s' where run: "finish_pipeline (pipe_kernel []) demo_table 100 ?args ?s = Some ((0, (7, 6), 4144), s')"
    using finish_pipeline_result [OF pipe_kernel_ok(1), of "[]" ?args 4 fst 100 demo_table ?s "[4144]"] pipe_kernel_ok(2) [of "[]"]
      demo_table(2) prog by (auto simp: pipeline_result_def)
  from finish_pipeline_closes [OF pipe_kernel_ok(1) demo_table(2) this] prog run show ?thesis
    by (auto simp: closes_def)
qed

end
