(* ===== verification/Elf_Dump.thy ===== *)
theory Elf_Dump
  imports Call_Effects
begin

text \<open>
  \<open>CreateElfCore\<close> as a whole: over every writer that meets the contract \<open>core_writer\<close>, what
  the program adds to its output is the core file of \<open>Elf_File\<close> or an initial part of it,
  reading \<open>/proc\<close> adds nothing, and the size limit holds for the whole run.
\<close>

subsection \<open>From the calls of the writer to the bytes of the file\<close>

text \<open>
  \<open>emits ok out p B\<close>: whatever \<open>p\<close> adds to the output is an initial part of some bytes in \<open>B\<close>,
  and all of them when \<open>p\<close> reports success.
\<close>

definition emits :: "('h \<Rightarrow> bool) \<Rightarrow> ('w \<Rightarrow> byte list) \<Rightarrow> ('h \<times> 'w st \<Rightarrow> (bool \<times> 'h \<times> 'w st) option) \<Rightarrow>
    (byte list \<Rightarrow> bool) \<Rightarrow> bool" where
  "emits ok out p B \<longleftrightarrow> (\<forall>h s r h' s'. ok h \<longrightarrow> p (h, s) = Some (r, h', s') \<longrightarrow>
     ok h' \<and> (\<exists>bs k. B bs \<and> k \<le> length bs \<and> out (world s') = out (world s) @ take k bs \<and> (r \<longrightarrow> k = length bs)))"

lemma emitsD:
  "emits ok out p B \<Longrightarrow> ok h \<Longrightarrow> p (h, s) = Some (r, h', s') \<Longrightarrow>
     ok h' \<and> (\<exists>bs k. B bs \<and> k \<le> length bs \<and> out (world s') = out (world s) @ take k bs \<and> (r \<longrightarrow> k = length bs))"
  unfolding emits_def by blast

lemma emits_weaken: "emits ok out p B \<Longrightarrow> (\<And>x. B x \<Longrightarrow> C x) \<Longrightarrow> emits ok out p C"
  unfolding emits_def by meson

lemma emits_skip: "emits ok out (\<lambda>x. Some (True, x)) (\<lambda>x. x = [])"
  by (simp add: emits_def)

lemma emits_seq_Nil: "emits ok out (seq_all f []) (\<lambda>x. x = [])"
  by (simp add: emits_def)

lemma emits_seq_Cons:
  assumes p: "emits ok out (f a) B" and q: "emits ok out (seq_all f as) C" and c: "C c0"
  shows "emits ok out (seq_all f (a # as)) (\<lambda>x. \<exists>b c. B b \<and> C c \<and> x = b @ c)"
  unfolding emits_def
proof (intro allI impI)
  fix h s r h' s'
  assume h: "ok h" and run: "seq_all f (a # as) (h, s) = Some (r, h', s')"
  obtain r1 h1 s1 where 1: "f a (h, s) = Some (r1, h1, s1)"
    and rest: "if r1 then seq_all f as (h1, s1) = Some (r, h', s') else (r, h', s') = (False, h1, s1)"
    using run by (auto simp: bind_eq_Some_conv split: if_splits)
  obtain bs k where P: "ok h1" "B bs" "k \<le> length bs" "out (world s1) = out (world s) @ take k bs" "r1 \<longrightarrow> k = length bs"
    using p h 1 unfolding emits_def by blast
  show "ok h' \<and> (\<exists>bs k. (\<exists>b c. B b \<and> C c \<and> bs = b @ c) \<and> k \<le> length bs \<and>
      out (world s') = out (world s) @ take k bs \<and> (r \<longrightarrow> k = length bs))"
  proof (cases r1)
    case True
    obtain cs j where Q: "ok h'" "C cs" "j \<le> length cs" "out (world s') = out (world s1) @ take j cs" "r \<longrightarrow> j = length cs"
      using emitsD [OF q P(1)] rest True by (metis (full_types))
    have "(\<exists>b c. B b \<and> C c \<and> bs @ cs = b @ c) \<and> length bs + j \<le> length (bs @ cs) \<and>
        out (world s') = out (world s) @ take (length bs + j) (bs @ cs) \<and> (r \<longrightarrow> length bs + j = length (bs @ cs))"
      using P Q True by auto
    then show ?thesis using Q(1) by blast
  next
    case False
    have "(\<exists>b c. B b \<and> C c \<and> bs @ c0 = b @ c) \<and> k \<le> length (bs @ c0) \<and>
        out (world s') = out (world s) @ take k (bs @ c0) \<and> (r \<longrightarrow> k = length (bs @ c0))"
      using P rest c False by auto
    moreover have "ok h'" using P(1) rest False by simp
    ultimately show ?thesis by blast
  qed
qed

lemma seq_all_pair:
  "seq_all (\<lambda>step. step) [p, q] x = do { (ok, x) \<leftarrow> p x; if ok then q x else Some (False, x) }"
proof -
  have "(do { (ok, x) \<leftarrow> q y; if ok then Some (True, x) else Some (False, x) }) = q y" for y
    by (cases "q y") (auto split: prod.splits)
  then show ?thesis by (simp cong: if_cong)
qed

lemma emits_steps:
  assumes "list_all2 (\<lambda>p B. emits ok out p B) ps Bs" "\<forall>B \<in> set Bs. \<exists>b. B b"
  shows "emits ok out (seq_all (\<lambda>step. step) ps) (\<lambda>x. \<exists>bs. list_all2 (\<lambda>B b. B b) Bs bs \<and> x = concat bs)"
  using assms
proof (induction ps arbitrary: Bs)
  case Nil
  then show ?case by (simp add: emits_def)
next
  case (Cons p ps)
  then obtain B Cs where Bs: "Bs = B # Cs" "emits ok out p B" "list_all2 (\<lambda>p B. emits ok out p B) ps Cs"
    by (auto simp: list_all2_Cons1)
  have IH: "emits ok out (seq_all (\<lambda>step. step) ps) (\<lambda>x. \<exists>bs. list_all2 (\<lambda>B b. B b) Cs bs \<and> x = concat bs)"
    using Cons.IH [OF Bs(3)] Cons.prems(2) Bs(1) by simp
  have "\<exists>bs. list_all2 (\<lambda>B b. B b) Cs bs"
    using Cons.prems(2) Bs(1) by (intro exI [of _ "map (\<lambda>B. SOME b. B b) Cs"]) (auto simp: list_all2_conv_all_nth intro: someI_ex)
  then obtain c0 where "\<exists>bs. list_all2 (\<lambda>B b. B b) Cs bs \<and> c0 = concat bs" by blast
  from emits_seq_Cons [where f = "\<lambda>step. step", OF Bs(2) IH this] show ?case
    unfolding Bs(1) by (rule emits_weaken) (metis concat.simps(2) list_all2_Cons)
qed

text \<open>The output of the run belongs to one descriptor: no other call changes it.\<close>

definition output_only :: "'w kern \<Rightarrow> int \<Rightarrow> ('w \<Rightarrow> byte list) \<Rightarrow> bool" where
  "output_only K f out \<longleftrightarrow> (\<forall>c w r w'. K c w = (r, w') \<longrightarrow> (\<forall>b. c \<noteq> NR_write f b) \<longrightarrow> out w' = out w)"

lemma out_observer:
  "output_only K f out \<Longrightarrow> io_observer K (\<lambda>c. \<forall>b. c \<noteq> NR_write f b) (\<lambda>s. out (world s))"
  by unfold_locales (auto simp: output_only_def lss_syscall_def split: prod.splits)

lemmas quiet_calls = io_observer.obs_silent(1,2,3) [OF out_observer]

lemmas keeps_out_GetChar = io_observer.keeps_GetChar [OF out_observer]

lemmas CountAUXV_output = io_observer.obs_CountAUXV [OF out_observer]

lemma keeps_out_scan_zeros:
  "output_only K f out \<Longrightarrow> snd lb \<noteq> f \<Longrightarrow> keeps (\<lambda>(_, s). out (world s) = X) (scan_zeros K lb pg a n)"
  by (rule io_observer.keeps_scan_zeros [OF out_observer]) auto

context core_writer
begin

lemma emits_put: "emits ok out (put writer b) (\<lambda>x. x = buf_bytes mem b)"
  unfolding emits_def
proof (intro allI impI)
  fix h s r h' s'
  assume "ok h" "put writer b (h, s) = Some (r, h', s')"
  then obtain rc where rc: "writer h b s = Some ((rc, h'), s')" "r \<longleftrightarrow> rc = int (buf_len b)"
    by (auto simp: put_def bind_eq_Some_conv)
  from writer_ok [OF \<open>ok h\<close> rc(1)] rc(2)
  show "ok h' \<and> (\<exists>bs k. bs = buf_bytes mem b \<and> k \<le> length bs \<and> out (world s') = out (world s) @ take k bs \<and> (r \<longrightarrow> k = length bs))"
    by auto
qed

lemma emits_put_all: "emits ok out (put_all writer bs) (\<lambda>x. x = bufs_bytes mem bs)"
proof (induction bs)
  case Nil
  then show ?case by (simp add: emits_def)
next
  case (Cons b bs)
  show ?case
    by (rule emits_weaken [OF emits_seq_Cons [OF emits_put Cons.IH refl]]) simp
qed

lemma emits_loop:
  assumes "\<And>x. x \<in> set xs \<Longrightarrow> emits ok out (f x) (\<lambda>y. y = g x)"
  shows "emits ok out (seq_all f xs) (\<lambda>y. y = concat (map g xs))"
  using assms
proof (induction xs)
  case Nil
  then show ?case by (simp add: emits_def)
next
  case (Cons x xs)
  have 1: "emits ok out (f x) (\<lambda>y. y = g x)" and 2: "emits ok out (seq_all f xs) (\<lambda>y. y = concat (map g xs))"
    using Cons by auto
  show ?case
    by (rule emits_weaken [OF emits_seq_Cons [OF 1 2 refl]]) simp
qed

lemma emits_copy_auxv:
  assumes "output_only K f out"
  shows "emits ok out (copy_auxv K writer fd u) (\<lambda>x. \<exists>e. x = enc_auxv e)"
  unfolding emits_def
proof (intro allI impI)
  fix h s r h' s'
  assume h: "ok h" and run: "copy_auxv K writer fd u (h, s) = Some (r, h', s')"
  obtain n kr s1 where rd: "NO_INTR (sys_read K fd 16) s = Some ((n, kr), s1)"
    using run by (auto simp: copy_auxv_def bind_eq_Some_conv)
  have o: "out (world s1) = out (world s)" by (rule quiet_calls(2) [OF assms rd])
  show "ok h' \<and> (\<exists>bs k. (\<exists>e. bs = enc_auxv e) \<and> k \<le> length bs \<and> out (world s') = out (world s) @ take k bs \<and> (r \<longrightarrow> k = length bs))"
  proof (cases "n = 16")
    case False
    then show ?thesis using run rd h o by (auto simp: copy_auxv_def intro!: exI [of _ 0])
  next
    case True
    then have "put writer (Local (stored 16 (kbytes kr))) (h, s1) = Some (r, h', s')"
      using run rd by (simp add: copy_auxv_def)
    from emitsD [OF emits_put h this] obtain k where
      "ok h'" "k \<le> 16" "out (world s') = out (world s1) @ take k (stored 16 (kbytes kr))" "r \<longrightarrow> k = 16"
      by auto
    moreover have "stored 16 (kbytes kr) = enc_auxv (dec_auxv (stored 16 (kbytes kr)))"
      by (rule dec_auxv_enc [symmetric]) simp
    ultimately show ?thesis using o by (metis length_stored nat_numeral)
  qed
qed

lemma emits_copy_all:
  assumes "output_only K f out"
  shows "emits ok out (seq_all (copy_auxv K writer fd) (replicate n ())) (\<lambda>x. \<exists>av. length av = n \<and> x = concat (map enc_auxv av))"
proof (induction n)
  case 0
  then show ?case by (simp add: emits_def)
next
  case (Suc n)
  have "emits ok out (seq_all (copy_auxv K writer fd) (() # replicate n ()))
     (\<lambda>x. \<exists>b c. (\<exists>e. b = enc_auxv e) \<and> (\<exists>av. length av = n \<and> c = concat (map enc_auxv av)) \<and> x = b @ c)"
    by (rule emits_seq_Cons [OF emits_copy_auxv [OF assms] Suc, of "concat (map enc_auxv (replicate n (dec_auxv [])))"])
      (metis length_replicate)
  then show ?case
    unfolding replicate_Suc by (rule emits_weaken) (metis length_Cons list.simps(9) concat.simps(2))
qed

lemma emits_write_auxv:
  assumes o: "output_only K f out"
  shows "emits ok out (write_auxv K writer n) (\<lambda>x. \<exists>av. length av = n \<and> x = bufs_bytes mem (auxv_bufs av))"
  unfolding emits_def
proof (intro allI impI)
  fix h s r h' s'
  assume h: "ok h" and run: "write_auxv K writer n (h, s) = Some (r, h', s')"
  let ?hd = "[nhdr_buf 5 (of_nat n * 16) NT_AUXV, CORE_name]"
  let ?B = "\<lambda>x. \<exists>av. length av = n \<and> x = bufs_bytes mem (auxv_bufs av)"
  have B: "?B (bufs_bytes mem (auxv_bufs (replicate n (dec_auxv []))))" by (metis length_replicate)
  show "ok h' \<and> (\<exists>bs k. ?B bs \<and> k \<le> length bs \<and> out (world s') = out (world s) @ take k bs \<and> (r \<longrightarrow> k = length bs))"
  proof (cases "n = 0")
    case True
    then show ?thesis using run h by (auto simp: write_auxv_def auxv_bufs_def)
  next
    case n: False
    obtain fd kr s1 where op: "NO_INTR (sys_open K (str ''/proc/self/auxv'') 0 0) s = Some ((fd, kr), s1)"
      using run n by (auto simp: write_auxv_def bind_eq_Some_conv)
    have o1: "out (world s1) = out (world s)" by (rule quiet_calls(1) [OF o op])
    show ?thesis
    proof (cases "fd = -1")
      case True
      then show ?thesis using run n op h o1 B
        by (simp add: write_auxv_def) (metis le0 append_Nil2 take_0)
    next
      case fd: False
      let ?p = "\<lambda>x. do { (ok, x) \<leftarrow> put_all writer ?hd x;
         if ok then seq_all (copy_auxv K writer fd) (replicate n ()) x else Some (False, x) }"
      obtain ok2 h2 s2 where p: "?p (h, s1) = Some (ok2, h2, s2)"
        and fin: "if ok2 then (r, h', s') = (True, h2, s2)
          else \<exists>x. NO_INTR (sys_close K fd) s2 = Some (x, s') \<and> r = False \<and> h' = h2"
        using run n op fd by (fastforce simp: write_auxv_def bind_eq_Some_conv split: if_splits)
      have "emits ok out (seq_all (\<lambda>st. st) [put_all writer ?hd, seq_all (copy_auxv K writer fd) (replicate n ())])
         (\<lambda>x. \<exists>bs. list_all2 (\<lambda>B b. B b) [\<lambda>x. x = bufs_bytes mem ?hd, \<lambda>x. \<exists>av. length av = n \<and> x = concat (map enc_auxv av)] bs \<and> x = concat bs)"
        by (rule emits_steps) (auto simp: emits_put_all emits_copy_all [OF o] simp del: seq_all.simps bufs_bytes_simps intro: exI [of _ "replicate n (dec_auxv [])"])
      then have em: "emits ok out (seq_all (\<lambda>st. st) [put_all writer ?hd, seq_all (copy_auxv K writer fd) (replicate n ())])
         (\<lambda>x. \<exists>av. length av = n \<and> x = bufs_bytes mem ?hd @ concat (map enc_auxv av))"
        by (rule emits_weaken) (auto simp: list_all2_Cons1 simp del: bufs_bytes_simps)
      have "seq_all (\<lambda>st. st) [put_all writer ?hd, seq_all (copy_auxv K writer fd) (replicate n ())] (h, s1) = Some (ok2, h2, s2)"
        using p by (simp only: seq_all_pair)
      from emitsD [OF em h this] obtain av k where e: "ok h2" "length av = n" "k \<le> length (bufs_bytes mem ?hd @ concat (map enc_auxv av))"
         "out (world s2) = out (world s1) @ take k (bufs_bytes mem ?hd @ concat (map enc_auxv av))"
         "ok2 \<longrightarrow> k = length (bufs_bytes mem ?hd @ concat (map enc_auxv av))"
        by blast
      have eq: "bufs_bytes mem ?hd @ concat (map enc_auxv av) = bufs_bytes mem (auxv_bufs av)"
        using n e(2) by (auto simp: auxv_bufs_def bufs_bytes_Local)
      have "out (world s') = out (world s2)" "ok h'" "r \<longrightarrow> ok2"
        using fin e(1) quiet_calls(3) [OF o] by (auto split: if_splits)
      then show ?thesis using e(2-5) o1 unfolding eq by (metis (no_types, lifting))
    qed
  qed
qed

lemma emits_write_core:
  assumes o: "output_only K f out"
  shows "emits ok out (write_core K writer a args n extra ms) (\<lambda>x. \<exists>av. length av = n \<and> x = core_image mem a args av extra ms)"
proof -
  let ?l = "core_layout_of a args n extra ms"
  have th: "emits ok out (seq_all (WriteThreadRegs writer a p) ts) (\<lambda>y. y = bufs_bytes mem (concat (map (thread_bufs a p) ts)))" for p ts
    unfolding bufs_bytes_concat by (rule emits_loop) (simp add: WriteThreadRegs_def emits_put_all)
  have ex: "emits ok out (seq_all (\<lambda>n. put_all writer (extra_note_bufs n)) ns) (\<lambda>y. y = bufs_bytes mem (concat (map extra_note_bufs ns)))" for ns
    unfolding bufs_bytes_concat by (rule emits_loop) (rule emits_put_all)
  have al: "emits ok out (if l_align ?l \<noteq> 0 then put writer (Local (replicate (unat (l_align ?l)) 0)) else (\<lambda>x. Some (True, x)))
     (\<lambda>y. y = bufs_bytes mem (if l_align ?l \<noteq> 0 then [Local (replicate (unat (l_align ?l)) 0)] else []))"
    using emits_put [of "Local (replicate (unat (l_align ?l)) 0)"] by (simp add: emits_def)
  let ?steps = "[put writer (Local (enc_Ehdr (l_ehdr ?l))),
         put_all writer (map (\<lambda>p. Local (enc_Phdr p)) (l_phdrs ?l)),
         put_all writer (process_bufs a args), write_auxv K writer n,
         seq_all (WriteThreadRegs writer a (c_prstatus args)) (thread_order (c_main_pid args) (c_threads args)),
         seq_all (\<lambda>n. put_all writer (extra_note_bufs n)) (c_extra_notes args),
         put_all writer (nt_file_bufs (c_pagesize args) (l_mappings ?l)),
         (if l_align ?l \<noteq> 0 then put writer (Local (replicate (unat (l_align ?l)) 0)) else (\<lambda>x. Some (True, x))),
         put_all writer (segment_bufs (l_mappings ?l)), put_all writer (vdso_bufs extra)]"
  let ?Bs = "[\<lambda>x. x = enc_Ehdr (l_ehdr ?l), \<lambda>x. x = bufs_bytes mem (map (\<lambda>p. Local (enc_Phdr p)) (l_phdrs ?l)),
     \<lambda>x. x = bufs_bytes mem (process_bufs a args), \<lambda>x. \<exists>av. length av = n \<and> x = bufs_bytes mem (auxv_bufs av),
     \<lambda>y. y = bufs_bytes mem (concat (map (thread_bufs a (c_prstatus args)) (thread_order (c_main_pid args) (c_threads args)))),
     \<lambda>y. y = bufs_bytes mem (concat (map extra_note_bufs (c_extra_notes args))),
     \<lambda>x. x = bufs_bytes mem (nt_file_bufs (c_pagesize args) (l_mappings ?l)),
     \<lambda>y. y = bufs_bytes mem (if l_align ?l \<noteq> 0 then [Local (replicate (unat (l_align ?l)) 0)] else []),
     \<lambda>x. x = bufs_bytes mem (segment_bufs (l_mappings ?l)), \<lambda>x. x = bufs_bytes mem (vdso_bufs extra)]"
  have ehdr: "emits ok out (put writer (Local (enc_Ehdr (l_ehdr ?l)))) (\<lambda>x. x = enc_Ehdr (l_ehdr ?l))"
    using emits_put [of "Local (enc_Ehdr (l_ehdr ?l))"] by simp
  have list: "list_all2 (\<lambda>p B. emits ok out p B) ?steps ?Bs"
    by (intro list_all2_Cons [THEN iffD2] conjI list.rel_intros(1) ehdr emits_put_all emits_write_auxv [OF o] th ex al)
  have inh: "\<forall>B \<in> set ?Bs. \<exists>b. B b"
    by (auto intro: exI [of _ "replicate n (dec_auxv [])"])
  show ?thesis
    unfolding write_core_def Let_def
    by (rule emits_weaken [OF emits_steps [OF list, OF inh]])
      (auto simp: list_all2_Cons1 core_image_def core_bufs_def note_bufs_def Let_def bufs_bytes_Local)
qed

end

subsection \<open>The whole of \<open>CreateElfCore\<close>\<close>

text \<open>A new pipe does not get the descriptor of the output.\<close>

definition pipe_fresh :: "'w kern \<Rightarrow> int \<Rightarrow> bool" where
  "pipe_fresh K f \<longleftrightarrow> (\<forall>w r w'. K NR_pipe w = (r, w') \<longrightarrow> f \<notin> set (take 2 (kints r)))"

lemma pipe_fresh_fds:
  assumes "pipe_fresh K f" "f \<noteq> -1" "K NR_pipe w = (r, w')"
  shows "snd (pipe_fds (rc, r)) \<noteq> f"
proof -
  have "f \<notin> set (take 2 (kints r))" using assms(1,3) unfolding pipe_fresh_def by blast
  then show ?thesis using assms(2) by (auto simp: pipe_fds_def numeral_2_eq_2 split: list.splits)
qed

text \<open>What the output can be: the file for some list of mappings that is well formed.\<close>

definition some_image :: "memory \<Rightarrow> arch \<Rightarrow> core_args \<Rightarrow> byte list \<Rightarrow> bool" where
  "some_image m a args x \<longleftrightarrow> (\<exists>ms av v. list_all (mapping_ok (c_pagesize args)) ms \<and>
     x = core_image m a args av (vdso_extra m v) ms)"

lemma some_image_exists: "\<exists>x. some_image m a args x"
  unfolding some_image_def by (intro exI [of _ "core_image m a args [] (vdso_extra m 0) []"] exI [of _ "[]"] exI [of _ 0]) simp

lemma emits_fail:
  assumes "ok h" "out (world s') = out (world s)" "\<exists>x. B x"
  shows "ok h \<and> (\<exists>bs k. B bs \<and> k \<le> length bs \<and> out (world s') = out (world s) @ take k bs \<and> (False \<longrightarrow> k = length bs))"
  using assms by (metis append_Nil2 le0 take_0)

text \<open>
  Either the mappings could not be read, and nothing was written, or the file for a list of
  well-formed mappings was, from a state with the same output.
\<close>

lemma dump_mappings_cases:
  assumes o: "output_only K f out" and lb: "snd lb \<noteq> f"
    and run: "dump_mappings K writer a m args lb (h, s) = Some (r, h', s')"
  shows "r = False \<and> h' = h \<and> out (world s') = out (world s) \<or>
    (\<exists>na v ms t. out (world t) = out (world s) \<and> list_all (mapping_ok (c_pagesize args)) ms \<and>
       write_core K writer a args na (vdso_extra m v) ms (h, t) = Some (r, h', s'))"
    (is "?fail \<or> ?go")
proof -
  obtain fd kr s1 where 1: "NO_INTR (sys_open K (str ''/proc/self/maps'') 0 0) s = Some ((fd, kr), s1)"
    using run by (auto simp: dump_mappings_def bind_eq_Some_conv)
  note o1 = quiet_calls(1) [OF o 1]
  show ?thesis
  proof (cases "fd < 0")
    case True
    then show ?thesis using run 1 o1 by (auto simp: dump_mappings_def)
  next
    case fd: False
    obtain n i s2 where 2: "count_lines (GetChar K) 0 (\<lparr>io_fd = fd, io_rest = []\<rparr>, s1) = Some (n, i, s2)"
      using run 1 fd by (auto simp: dump_mappings_def bind_eq_Some_conv)
    have o2: "out (world s2) = out (world s)"
      using keepsD [OF keeps_count_lines [OF keeps_out_GetChar [OF o]] _ 2, of "out (world s)"] o1 by simp
    obtain c1 s3 where 3: "NO_INTR (sys_close K fd) s2 = Some (c1, s3)"
      using run 1 fd 2 by (auto simp: dump_mappings_def bind_eq_Some_conv split: if_splits)
    note o3 = quiet_calls(3) [OF o 3]
    show ?thesis
    proof (cases "errno s2 = 0")
      case False
      then show ?thesis using run 1 fd 2 3 o2 o3 by (auto simp: dump_mappings_def)
    next
      case e: True
      obtain na v s4 where 4: "CountAUXV K s3 = Some ((na, v), s4)"
        using run 1 fd 2 3 e by (auto simp: dump_mappings_def bind_eq_Some_conv)
      note o4 = CountAUXV_output [OF o 4]
      obtain fd' kr' s5 where 5: "NO_INTR (sys_open K (str ''/proc/self/smaps'') 0 0) s4 = Some ((fd', kr'), s5)"
        using run 1 fd 2 3 e 4 by (auto simp: dump_mappings_def bind_eq_Some_conv)
      note o5 = quiet_calls(1) [OF o 5]
      show ?thesis
      proof (cases "fd' < 0")
        case True
        then show ?thesis using run 1 fd 2 3 e 4 5 o2 o3 o4 o5 by (auto simp: dump_mappings_def)
      next
        case fd': False
        let ?lz = "scan_zeros K lb (c_pagesize args)"
        obtain res i' s6 where 6: "read_smaps (GetChar K) ?lz (is_aarch64 a) m (c_pagesize args) n (\<lparr>io_fd = fd', io_rest = []\<rparr>, s5) = Some (res, i', s6)"
          using run 1 fd 2 3 e 4 5 fd' by (auto simp: dump_mappings_def bind_eq_Some_conv)
        have o6: "out (world s6) = out (world s)"
          using keepsD [OF keeps_read_smaps [OF keeps_out_GetChar [OF o] keeps_out_scan_zeros [OF o lb]] _ 6, of "out (world s)"] o2 o3 o4 o5 by simp
        obtain c2 s7 where 7: "NO_INTR (sys_close K fd') s6 = Some (c2, s7)"
          using run 1 fd 2 3 e 4 5 fd' 6 by (auto simp: dump_mappings_def bind_eq_Some_conv)
        note o7 = quiet_calls(3) [OF o 7]
        show ?thesis
        proof (cases res)
          case None
          then show ?thesis using run 1 fd 2 3 e 4 5 fd' 6 7 o6 o7 by (auto simp: dump_mappings_def)
        next
          case (Some ms)
          have w: "write_core K writer a args na (vdso_extra m (find_vdso m ms v)) ms (h, s7) = Some (r, h', s')"
            using run 1 fd 2 3 e 4 5 fd' 6 7 Some by (simp add: dump_mappings_def)
          have ms: "list_all (mapping_ok (c_pagesize args)) ms"
            using read_smaps_ok [OF 6 [unfolded Some]] by (simp add: list_all_iff)
          show ?thesis using w ms o6 o7 by auto
        qed
      qed
    qed
  qed
qed

context core_writer
begin

lemma emits_dump:
  assumes o: "output_only K f out" and lb: "snd lb \<noteq> f"
  shows "emits ok out (dump_mappings K writer a mem args lb) (some_image mem a args)"
  unfolding emits_def
proof (intro allI impI)
  fix h s r h' s'
  assume h: "ok h" and run: "dump_mappings K writer a mem args lb (h, s) = Some (r, h', s')"
  from dump_mappings_cases [OF o lb run]
  show "ok h' \<and> (\<exists>bs k. some_image mem a args bs \<and> k \<le> length bs \<and> out (world s') = out (world s) @ take k bs \<and> (r \<longrightarrow> k = length bs))"
  proof (elim disjE exE conjE)
    assume "r = False" "h' = h" "out (world s') = out (world s)"
    then show ?thesis using emits_fail [of ok h out s' s "some_image mem a args"] h some_image_exists by simp
  next
    fix na v ms t
    assume t: "out (world t) = out (world s)" and ms: "list_all (mapping_ok (c_pagesize args)) ms"
      and w: "write_core K writer a args na (vdso_extra mem v) ms (h, t) = Some (r, h', s')"
    have im: "some_image mem a args (core_image mem a args av (vdso_extra mem v) ms)" for av
      unfolding some_image_def using ms by blast
    from emitsD [OF emits_write_core [OF o] h w] im t show ?thesis by auto
  qed
qed

lemma CreateElfCore_output:
  assumes o: "output_only K f out" and p: "pipe_fresh K f" and f: "f \<noteq> -1" and h: "ok h"
    and run: "CreateElfCore K writer is_done a mem args (h, s) = Some (rc, h', s')"
  shows "ok h' \<and> (\<exists>img k. some_image mem a args img \<and> k \<le> length img \<and> out (world s') = out (world s) @ take k img \<and>
     (rc = 0 \<and> \<not> is_done h' \<longrightarrow> k = length img)) \<and> (rc = 0 \<or> rc = -1) \<and> (is_done h' \<longrightarrow> rc = 0)"
proof -
  obtain prc r s1 where 1: "sys_pipe K s = ((prc, r), s1)" by (metis surj_pair)
  let ?lb = "pipe_fds (prc, r)"
  have K1: "K NR_pipe (world s) = (r, world s1)" using 1 by (auto simp: sys_pipe_def sys_defs split: prod.splits)
  have lb: "snd ?lb \<noteq> f" by (rule pipe_fresh_fds [OF p f K1])
  have o1: "out (world s1) = out (world s)"
    using o K1 unfolding output_only_def by blast
  obtain ok2 s2 where 2: "(if prc < 0 then Some (False, h, s1) else dump_mappings K writer a mem args ?lb (h, s1)) = Some (ok2, h', s2)"
    and rc: "rc = (if ok2 \<or> is_done h' then 0 else -1)"
    and fin: "\<exists>x s3 y. (if fst ?lb \<ge> 0 then NO_INTR (sys_close K (fst ?lb)) s2 else Some ((0, r), s2)) = Some (x, s3) \<and>
        (if snd ?lb \<ge> 0 then NO_INTR (sys_close K (snd ?lb)) s3 else Some ((0, r), s3)) = Some (y, s')"
    using run 1 by (auto simp: CreateElfCore_def Let_def bind_eq_Some_conv)
  have o2: "out (world s') = out (world s2)"
    using fin quiet_calls(3) [OF o] by (auto split: if_splits)
  have "ok h' \<and> (\<exists>bs k. some_image mem a args bs \<and> k \<le> length bs \<and> out (world s2) = out (world s1) @ take k bs \<and> (ok2 \<longrightarrow> k = length bs))"
  proof (cases "prc < 0")
    case True
    then show ?thesis using 2 emits_fail [of ok h out s1 s1 "some_image mem a args"] h some_image_exists by simp
  next
    case False
    then show ?thesis using emitsD [OF emits_dump [OF o lb] h] 2 by auto
  qed
  then show ?thesis using rc o1 o2 by auto
qed

end

subsection \<open>The size limit over the whole run\<close>

text \<open>
  \<open>within out p\<close>: \<open>p\<close> adds at most \<open>max_length\<close> bytes to the output; unless it fails the limit
  goes down by what it adds, and it cannot reach 0 in any other way.
\<close>

definition in_budget :: "('w \<Rightarrow> byte list) \<Rightarrow> WriterFds \<Rightarrow> 'w st \<Rightarrow> bool \<Rightarrow> WriterFds \<Rightarrow> 'w st \<Rightarrow> bool" where
  "in_budget out h s r h' s' \<longleftrightarrow>
     out_fd h' = out_fd h \<and> length (out (world s')) \<le> length (out (world s)) + max_length h \<and>
     (r \<or> max_length h' = 0 \<longrightarrow> length (out (world s')) + max_length h' = length (out (world s)) + max_length h)"

definition within :: "'w kern \<Rightarrow> memory \<Rightarrow> ('w \<Rightarrow> byte list) \<Rightarrow> (WriterFds \<times> 'w st \<Rightarrow> (bool \<times> WriterFds \<times> 'w st) option) \<Rightarrow> bool" where
  "within K m out p \<longleftrightarrow> (\<forall>h s r h' s'. write_ok K m (out_fd h) out \<longrightarrow> p (h, s) = Some (r, h', s') \<longrightarrow>
     in_budget out h s r h' s')"

lemma withinD:
  "within K m out p \<Longrightarrow> write_ok K m (out_fd h) out \<Longrightarrow> p (h, s) = Some (r, h', s') \<Longrightarrow> in_budget out h s r h' s'"
  unfolding within_def by blast

lemma in_budget_same: "out (world s') = out (world s) \<Longrightarrow> in_budget out h s r h s'"
  by (simp add: in_budget_def)

lemma in_budget_trans: "in_budget out h s True h1 s1 \<Longrightarrow> in_budget out h1 s1 r h' s' \<Longrightarrow> in_budget out h s r h' s'"
  by (auto simp: in_budget_def)

lemma in_budget_out:
  "out (world t) = out (world s) \<Longrightarrow> in_budget out h t r h' s' = in_budget out h s r h' s'"
  "out (world t) = out (world s') \<Longrightarrow> in_budget out h s r h' t = in_budget out h s r h' s'"
  by (simp_all add: in_budget_def)

lemma within_put: "within K m out (put (LimitWriter K) b)"
  unfolding within_def
proof (intro allI impI)
  fix h s r h' s'
  assume ok: "write_ok K m (out_fd h) out" and run: "put (LimitWriter K) b (h, s) = Some (r, h', s')"
  then obtain rc where w: "LimitWriter K h b s = Some ((rc, h'), s')" "r \<longleftrightarrow> rc = int (buf_len b)"
    by (auto simp: put_def bind_eq_Some_conv)
  show "in_budget out h s r h' s'"
    using LimitWriter_budget [OF ok w(1)] LimitWriter_c_write(2) [OF w(1)] w(2)
    by (cases "rc \<ge> 0") (auto simp: in_budget_def)
qed

lemma within_seq:
  assumes "\<And>x. x \<in> set xs \<Longrightarrow> within K m out (f x)"
  shows "within K m out (seq_all f xs)"
  using assms
proof (induction xs)
  case Nil
  then show ?case by (simp add: within_def in_budget_same)
next
  case (Cons x xs)
  have fx: "within K m out (f x)" and IH: "within K m out (seq_all f xs)" using Cons by auto
  show ?case
    unfolding within_def
  proof (intro allI impI)
    fix h s r h' s'
    assume ok: "write_ok K m (out_fd h) out" and run: "seq_all f (x # xs) (h, s) = Some (r, h', s')"
    obtain r1 h1 s1 where 1: "f x (h, s) = Some (r1, h1, s1)"
      and rest: "if r1 then seq_all f xs (h1, s1) = Some (r, h', s') else (r, h', s') = (False, h1, s1)"
      using run by (auto simp: bind_eq_Some_conv split: if_splits)
    note F = withinD [OF fx ok 1]
    show "in_budget out h s r h' s'"
    proof (cases r1)
      case True
      have ok1: "write_ok K m (out_fd h1) out" using F ok by (simp add: in_budget_def)
      have r2: "seq_all f xs (h1, s1) = Some (r, h', s')" using rest True by simp
      from withinD [OF IH ok1 r2] True F show ?thesis by (auto intro: in_budget_trans)
    qed (use F rest in auto)
  qed
qed

lemma within_copy_auxv:
  assumes o: "output_only K f out"
  shows "within K m out (copy_auxv K (LimitWriter K) fd u)"
  unfolding within_def
proof (intro allI impI)
  fix h s r h' s'
  assume ok: "write_ok K m (out_fd h) out" and run: "copy_auxv K (LimitWriter K) fd u (h, s) = Some (r, h', s')"
  obtain n kr s1 where rd: "NO_INTR (sys_read K fd 16) s = Some ((n, kr), s1)"
    using run by (auto simp: copy_auxv_def bind_eq_Some_conv)
  note o1 = quiet_calls(2) [OF o rd]
  show "in_budget out h s r h' s'"
  proof (cases "n = 16")
    case True
    then have "put (LimitWriter K) (Local (stored 16 (kbytes kr))) (h, s1) = Some (r, h', s')"
      using run rd by (simp add: copy_auxv_def)
    from withinD [OF within_put ok this] show ?thesis unfolding in_budget_out(1) [OF o1] .
  next
    case False
    then show ?thesis using run rd o1 by (auto simp: copy_auxv_def in_budget_same)
  qed
qed

lemma within_write_auxv:
  assumes o: "output_only K f out"
  shows "within K m out (write_auxv K (LimitWriter K) n)"
  unfolding within_def
proof (intro allI impI)
  fix h s r h' s'
  assume ok: "write_ok K m (out_fd h) out" and run: "write_auxv K (LimitWriter K) n (h, s) = Some (r, h', s')"
  show "in_budget out h s r h' s'"
  proof (cases "n = 0")
    case True
    then show ?thesis using run by (auto simp: write_auxv_def in_budget_same)
  next
    case n: False
    obtain fd kr s1 where op: "NO_INTR (sys_open K (str ''/proc/self/auxv'') 0 0) s = Some ((fd, kr), s1)"
      using run n by (auto simp: write_auxv_def bind_eq_Some_conv)
    note o1 = quiet_calls(1) [OF o op]
    let ?hd = "[nhdr_buf 5 (of_nat n * 16) NT_AUXV, CORE_name]"
    let ?ps = "[put_all (LimitWriter K) ?hd, seq_all (copy_auxv K (LimitWriter K) fd) (replicate n ())]"
    show ?thesis
    proof (cases "fd = -1")
      case True
      then show ?thesis using run n op o1 by (auto simp: write_auxv_def in_budget_same)
    next
      case fd: False
      obtain ok2 h2 s2 where p: "seq_all (\<lambda>st. st) ?ps (h, s1) = Some (ok2, h2, s2)"
        and fin: "if ok2 then (r, h', s') = (True, h2, s2)
          else \<exists>x. NO_INTR (sys_close K fd) s2 = Some (x, s') \<and> r = False \<and> h' = h2"
        using run n op fd unfolding seq_all_pair by (fastforce simp: write_auxv_def bind_eq_Some_conv split: if_splits)
      have ps: "within K m out (seq_all (\<lambda>st. st) ?ps)"
        by (rule within_seq) (auto intro!: within_seq within_put within_copy_auxv [OF o] simp del: seq_all.simps)
      have "in_budget out h s ok2 h2 s2"
        using withinD [OF ps ok p] unfolding in_budget_out(1) [OF o1] .
      then have "in_budget out h s ok2 h2 t" if "NO_INTR (sys_close K fd) s2 = Some (x, t)" for x t
        using quiet_calls(3) [OF o that] by (simp add: in_budget_def)
      with fin \<open>in_budget out h s ok2 h2 s2\<close> show ?thesis by (auto split: if_splits)
    qed
  qed
qed

lemma within_write_core:
  assumes o: "output_only K f out"
  shows "within K m out (write_core K (LimitWriter K) a args n extra ms)"
  unfolding write_core_def Let_def
proof (rule within_seq)
  let ?l = "core_layout_of a args n extra ms"
  have skip: "within K m out (\<lambda>x. Some (True, x))" by (simp add: within_def in_budget_same)
  fix p
  assume "p \<in> set [put (LimitWriter K) (Local (enc_Ehdr (l_ehdr ?l))),
         put_all (LimitWriter K) (map (\<lambda>p. Local (enc_Phdr p)) (l_phdrs ?l)),
         put_all (LimitWriter K) (process_bufs a args), write_auxv K (LimitWriter K) n,
         seq_all (WriteThreadRegs (LimitWriter K) a (c_prstatus args)) (thread_order (c_main_pid args) (c_threads args)),
         seq_all (\<lambda>n. put_all (LimitWriter K) (extra_note_bufs n)) (c_extra_notes args),
         put_all (LimitWriter K) (nt_file_bufs (c_pagesize args) (l_mappings ?l)),
         (if l_align ?l \<noteq> 0 then put (LimitWriter K) (Local (replicate (unat (l_align ?l)) 0)) else (\<lambda>x. Some (True, x))),
         put_all (LimitWriter K) (segment_bufs (l_mappings ?l)), put_all (LimitWriter K) (vdso_bufs extra)]"
  then show "within K m out p"
    by (auto intro!: within_put within_seq within_write_auxv [OF o] skip simp: WriteThreadRegs_def simp del: seq_all.simps)
qed

lemma CreateElfCore_limit:
  assumes o: "output_only K (out_fd h) out" and p: "pipe_fresh K (out_fd h)" and f: "out_fd h \<noteq> -1"
    and ok: "write_ok K m (out_fd h) out"
    and run: "CreateElfCore K (LimitWriter K) PipeDone a m args (h, s) = Some (rc, h', s')"
  shows "length (out (world s')) \<le> length (out (world s)) + max_length h"
    and "PipeDone h' \<Longrightarrow> length (out (world s')) = length (out (world s)) + max_length h"
proof -
  obtain prc r s1 where 1: "sys_pipe K s = ((prc, r), s1)" by (metis surj_pair)
  let ?lb = "pipe_fds (prc, r)"
  have K1: "K NR_pipe (world s) = (r, world s1)" using 1 by (auto simp: sys_pipe_def sys_defs split: prod.splits)
  have lb: "snd ?lb \<noteq> out_fd h" by (rule pipe_fresh_fds [OF p f K1])
  have o1: "out (world s1) = out (world s)" using o K1 unfolding output_only_def by blast
  obtain ok2 s2 where 2: "(if prc < 0 then Some (False, h, s1) else dump_mappings K (LimitWriter K) a m args ?lb (h, s1)) = Some (ok2, h', s2)"
    and fin: "\<exists>x s3 y. (if fst ?lb \<ge> 0 then NO_INTR (sys_close K (fst ?lb)) s2 else Some ((0, r), s2)) = Some (x, s3) \<and>
        (if snd ?lb \<ge> 0 then NO_INTR (sys_close K (snd ?lb)) s3 else Some ((0, r), s3)) = Some (y, s')"
    using run 1 by (auto simp: CreateElfCore_def Let_def bind_eq_Some_conv)
  have o2: "out (world s') = out (world s2)"
    using fin quiet_calls(3) [OF o] by (auto split: if_splits)
  have "in_budget out h s1 ok2 h' s2"
  proof (cases "prc < 0")
    case False
    then have "dump_mappings K (LimitWriter K) a m args ?lb (h, s1) = Some (ok2, h', s2)" using 2 by simp
    from dump_mappings_cases [OF o lb this] withinD [OF within_write_core [OF o] ok] show ?thesis
      by (metis in_budget_out(1) in_budget_same)
  qed (use 2 in \<open>auto intro: in_budget_same\<close>)
  then show "length (out (world s')) \<le> length (out (world s)) + max_length h"
    and "PipeDone h' \<Longrightarrow> length (out (world s')) = length (out (world s)) + max_length h"
    using o1 o2 by (auto simp: in_budget_def PipeDone_def)
qed

subsection \<open>A kernel for concrete runs\<close>

text \<open>
  Descriptor 1 is the output, 4 and 5 are the ends of the pipe, 3 is the file that was
  opened last; its content is given by \<open>content\<close>.
\<close>

record core_world =
  cw_out  :: "byte list"
  cw_pipe :: "byte list"
  cw_rest :: "byte list"

definition core_kernel :: "memory \<Rightarrow> (byte list \<Rightarrow> byte list) \<Rightarrow> core_world kern" where
  "core_kernel m content c w =
     (case c of
        NR_write f b \<Rightarrow> let k = min (buf_len b) 1000; bs = take k (buf_bytes m b) in
          (\<lparr>kret = of_nat k, kbytes = [], kints = []\<rparr>,
           if f = 1 then w\<lparr>cw_out := cw_out w @ bs\<rparr>
           else if f = 5 then w\<lparr>cw_pipe := cw_pipe w @ bs\<rparr> else w)
      | NR_read f n \<Rightarrow>
          if f = 3 then let k = min n (min (length (cw_rest w)) 1000) in
            (\<lparr>kret = of_nat k, kbytes = take k (cw_rest w), kints = []\<rparr>, w\<lparr>cw_rest := drop k (cw_rest w)\<rparr>)
          else if f = 4 then let k = min n (min (length (cw_pipe w)) 1000) in
            (\<lparr>kret = of_nat k, kbytes = take k (cw_pipe w), kints = []\<rparr>, w\<lparr>cw_pipe := drop k (cw_pipe w)\<rparr>)
          else (\<lparr>kret = 0, kbytes = [], kints = []\<rparr>, w)
      | NR_open p _ _ \<Rightarrow> (\<lparr>kret = 3, kbytes = [], kints = []\<rparr>, w\<lparr>cw_rest := content p\<rparr>)
      | NR_pipe \<Rightarrow> (\<lparr>kret = 0, kbytes = [], kints = [4, 5]\<rparr>, w\<lparr>cw_pipe := []\<rparr>)
      | _ \<Rightarrow> (\<lparr>kret = 0, kbytes = [], kints = []\<rparr>, w))"

definition core_state :: "core_world st" where
  "core_state = \<lparr>errno = 0, calls = [], world = \<lparr>cw_out = [], cw_pipe = [], cw_rest = []\<rparr>\<rparr>"

lemma core_state_out: "cw_out (world core_state) = []"
  by (simp add: core_state_def)

lemma core_write_ok: "write_ok (core_kernel m ct) m 1 cw_out"
  unfolding write_ok_def by (auto simp: core_kernel_def Let_def)

lemma core_output_only: "output_only (core_kernel m ct) 1 cw_out"
  unfolding output_only_def
proof (intro allI impI)
  fix c w r w'
  assume "core_kernel m ct c w = (r, w')" "\<forall>b. c \<noteq> NR_write 1 b"
  then show "cw_out w' = cw_out w"
    by (cases c) (auto simp: core_kernel_def Let_def split: if_splits)
qed

lemma core_pipe_fresh: "pipe_fresh (core_kernel m ct) 1"
  unfolding pipe_fresh_def by (auto simp: core_kernel_def)

subsection \<open>Properties of the run\<close>

text \<open>
  C9: whatever the kernel reports in \<open>/proc\<close> and whichever call fails, what
  \<open>CreateElfCore\<close> adds to its output is the core file of some list of well-formed mappings,
  complete when it returns 0 and cut off when it returns -1. There is no other result.
\<close>

theorem CreateElfCore_writes_core_file:
  assumes "write_ok K m f out" "output_only K f out" "pipe_fresh K f" "f \<noteq> -1"
  shows "case CreateElfCore K (SimpleWriter K) SimpleDone a m args (f, s) of
      None \<Rightarrow> True
    | Some (rc, _, s') \<Rightarrow> (rc = 0 \<or> rc = -1) \<and> (\<exists>ms av v k. list_all (mapping_ok (c_pagesize args)) ms \<and>
        (let img = core_image m a args av (vdso_extra m v) ms
         in out (world s') = out (world s) @ take k img \<and> (rc = 0 \<longrightarrow> k = length img)))"
proof (cases "CreateElfCore K (SimpleWriter K) SimpleDone a m args (f, s)")
  case (Some x)
  obtain rc f' s' where x: "x = (rc, f', s')" by (rule prod_cases3)
  from simple.CreateElfCore_output [OF assms(2-4) assms(1) Some [unfolded x]]
  obtain ms av v k where "rc = 0 \<or> rc = -1" "list_all (mapping_ok (c_pagesize args)) ms"
      "out (world s') = out (world s) @ take k (core_image m a args av (vdso_extra m v) ms)"
      "rc = 0 \<longrightarrow> k = length (core_image m a args av (vdso_extra m v) ms)"
    unfolding some_image_def SimpleDone_def by blast
  then show ?thesis unfolding Some x Let_def by auto
qed simp

theorem CreateElfCore_writes_core_file_witness:
  "case CreateElfCore (core_kernel demo_memory (\<lambda>_. str ''0'')) (SimpleWriter (core_kernel demo_memory (\<lambda>_. str ''0''))) SimpleDone X86_64 demo_memory demo_args (1, core_state) of
      None \<Rightarrow> True
    | Some (rc, _, s') \<Rightarrow> (rc = 0 \<or> rc = -1) \<and> (\<exists>ms av v k. list_all (mapping_ok 16) ms \<and>
        (let img = core_image demo_memory X86_64 demo_args av (vdso_extra demo_memory v) ms
         in cw_out (world s') = take k img \<and> (rc = 0 \<longrightarrow> k = length img)))"
proof -
  have pg: "c_pagesize demo_args = 16" by (simp add: demo_args_def)
  show ?thesis
    using CreateElfCore_writes_core_file [where a = X86_64 and args = demo_args and s = core_state,
        OF core_write_ok [of demo_memory "\<lambda>_. str ''0''"] core_output_only core_pipe_fresh]
    by (simp only: pg core_state_def st.simps core_world.simps append_Nil)
qed

text \<open>
  C18: with a size limit (\<open>LimitWriter\<close>), a whole run of \<open>CreateElfCore\<close> never adds
  more than \<open>max_length\<close> bytes to the output, whether it succeeds or fails.
\<close>

theorem CreateElfCore_respects_limit:
  assumes "write_ok K m (out_fd h) out" "output_only K (out_fd h) out" "pipe_fresh K (out_fd h)" "out_fd h \<noteq> -1"
  shows "case CreateElfCore K (LimitWriter K) PipeDone a m args (h, s) of
      None \<Rightarrow> True
    | Some (_, _, s') \<Rightarrow> length (out (world s')) \<le> length (out (world s)) + max_length h"
proof (cases "CreateElfCore K (LimitWriter K) PipeDone a m args (h, s)")
  case (Some x)
  obtain rc f' s' where x: "x = (rc, f', s')" by (rule prod_cases3)
  from CreateElfCore_limit(1) [OF assms(2-4) assms(1) Some [unfolded x]] show ?thesis unfolding Some x by simp
qed simp

theorem CreateElfCore_respects_limit_witness:
  "case CreateElfCore (core_kernel demo_memory (\<lambda>_. str ''0'')) (LimitWriter (core_kernel demo_memory (\<lambda>_. str ''0''))) PipeDone X86_64 demo_memory demo_args
      (\<lparr>max_length = 100, write_fd = 0, compressed_fd = 0, out_fd = 1\<rparr>, core_state) of
      None \<Rightarrow> True | Some (_, _, s') \<Rightarrow> length (cw_out (world s')) \<le> 100"
  using CreateElfCore_respects_limit [where K = "core_kernel demo_memory (\<lambda>_. str ''0'')" and m = demo_memory and out = cw_out
      and h = "\<lparr>max_length = 100, write_fd = 0, compressed_fd = 0, out_fd = 1\<rparr>" and a = X86_64 and args = demo_args and s = core_state]
    core_write_ok core_output_only core_pipe_fresh core_state_out
  by (simp split: option.splits prod.splits)

end
