(* ===== verification/Full_Writes.thy ===== *)
theory Full_Writes
  imports Elf_Dump Calm_Calls
begin

text \<open>
  Output that does not fail: with a sink that takes every byte sooner or later, the writers and all
  the steps of \<open>CreateElfCore\<close> that use them return, report success and write everything.
\<close>

subsection \<open>Sinks\<close>

text \<open>
  A descriptor that accepts at least one byte unless the call is interrupted, and whose writes leave
  alone what \<open>keep\<close> observes.
\<close>

definition sink_ok :: "'w kern \<Rightarrow> memory \<Rightarrow> int \<Rightarrow> ('w \<Rightarrow> byte list) \<Rightarrow> ('w \<Rightarrow> 'k) \<Rightarrow> bool" where
  "sink_ok K m f out keep \<longleftrightarrow> write_ok K m f out \<and>
     (\<forall>b w r w'. K (NR_write f b) w = (r, w') \<longrightarrow> keep w' = keep w \<and>
       (buf_len b > 0 \<longrightarrow> sint (kret r) = - EINTR \<or> 0 < sint (kret r)))"

lemma sink_write:
  assumes "sink_ok K m f out keep" "intr_bounded K q"
  shows "\<exists>s'. c_write_loop K f b s = Some (Inr (buf_drop (buf_len b) b), s') \<and>
    out (world s') = out (world s) @ buf_bytes m b \<and> keep (world s') = keep (world s)"
proof (induction "buf_len b" arbitrary: b s rule: less_induct)
  case less
  have w: "write_ok K m f out" and kp: "\<And>b w r w'. K (NR_write f b) w = (r, w') \<Longrightarrow> keep w' = keep w"
    and acc: "\<And>b w r w'. K (NR_write f b) w = (r, w') \<Longrightarrow> buf_len b > 0 \<Longrightarrow> sint (kret r) = - EINTR \<or> 0 < sint (kret r)"
    using assms(1) unfolding sink_ok_def by blast+
  show ?case
  proof (cases "buf_len b > 0")
    case True
    let ?P = "\<lambda>w. out w = out (world s) \<and> keep w = keep (world s)"
    have "out w' = out w" if "K (NR_write f b) w = (r, w')" "sint (kret r) = - EINTR" for w r w'
      using write_okD [OF w that(1)] that(2) by auto
    then obtain rc kr e t v where call: "MY_NO_INTR (sys0_long K (NR_write f b) 0) s = Some ((rc, kr, e), t)" "?P v"
      "K (NR_write f b) v = (kr, world t)" "sint (kret kr) \<noteq> - EINTR" "(rc, e) = LSS_RETURN (kret kr) 0"
      using MY_NO_INTR_call [OF assms(2), of ?P s "NR_write f b"] kp by (metis (no_types, lifting))
    then have pos: "0 < sint (kret kr)" using acc [OF call(3) True] by blast
    then have rc: "rc = sint (kret kr)" using call(5) by (auto simp: LSS_RETURN_def LSS_error_range split: if_splits)
    have t: "rc \<le> int (buf_len b)" "out (world t) = out (world s) @ take (nat rc) (buf_bytes m b)" "keep (world t) = keep (world s)"
      using write_okD [OF w call(3)] pos rc call(2) kp [OF call(3)] by auto
    obtain s' where s': "c_write_loop K f (buf_drop (nat rc) b) t = Some (Inr (buf_drop (buf_len (buf_drop (nat rc) b)) (buf_drop (nat rc) b)), s')"
      "out (world s') = out (world t) @ buf_bytes m (buf_drop (nat rc) b)" "keep (world s') = keep (world t)"
      using less.hyps [of "buf_drop (nat rc) b" t] pos rc True by auto
    have "nat rc + (buf_len b - nat rc) = buf_len b" using t(1) pos rc by simp
    then show ?thesis using s' t call(1) True pos rc
      by (subst c_write_loop.simps) simp
  next
    case False
    then show ?thesis by (subst c_write_loop.simps) auto
  qed
qed

lemma sink_c_write:
  assumes "sink_ok K m f out keep" "intr_bounded K q"
  shows "\<exists>s'. c_write K f b s = Some (int (buf_len b), s') \<and>
    out (world s') = out (world s) @ buf_bytes m b \<and> keep (world s') = keep (world s)"
  using sink_write [OF assms, of b s] by (auto simp: c_write_def)

subsection \<open>Writers that take everything\<close>

text \<open>
  \<open>fits n h l\<close>: the handle \<open>h\<close> has room for \<open>n\<close> more bytes when the state of the output is \<open>l\<close>, as \<open>lim\<close> observes it.
\<close>

locale full_writer =
  fixes writer :: "('h, 'w) writer"
    and fits :: "nat \<Rightarrow> 'h \<Rightarrow> 'l \<Rightarrow> bool"
    and mem :: memory
    and out :: "'w \<Rightarrow> byte list"
    and keep :: "'w \<Rightarrow> 'k"
    and lim :: "'w \<Rightarrow> 'l"
  assumes full_write: "fits (buf_len b + n) h (lim (world s)) \<Longrightarrow> \<exists>h' s'. writer h b s = Some ((int (buf_len b), h'), s') \<and> fits n h' (lim (world s')) \<and>
     out (world s') = out (world s) @ buf_bytes mem b \<and> keep (world s') = keep (world s)"
begin

text \<open>\<open>puts p bs\<close>: \<open>p\<close> succeeds and writes exactly \<open>bs\<close>, if there is room for them.\<close>

definition puts :: "('h \<times> 'w st \<Rightarrow> (bool \<times> 'h \<times> 'w st) option) \<Rightarrow> byte list \<Rightarrow> bool" where
  "puts p bs \<longleftrightarrow> (\<forall>h s n. fits (length bs + n) h (lim (world s)) \<longrightarrow> (\<exists>h' s'. p (h, s) = Some (True, h', s') \<and> fits n h' (lim (world s')) \<and>
     out (world s') = out (world s) @ bs))"

lemma put_full:
  "fits (buf_len b + n) h (lim (world s)) \<Longrightarrow> \<exists>h' s'. put writer b (h, s) = Some (True, h', s') \<and> fits n h' (lim (world s')) \<and>
     out (world s') = out (world s) @ buf_bytes mem b \<and> keep (world s') = keep (world s)"
  using full_write [of b n h s] by (auto simp: put_def)

lemma puts_put: "puts (put writer b) (buf_bytes mem b)"
  unfolding puts_def using put_full by (metis length_buf_bytes)

lemma puts_skip: "puts (\<lambda>x. Some (True, x)) []"
  by (simp add: puts_def)

lemma puts_Cons:
  assumes "puts (f a) bs" "puts (seq_all f as) cs"
  shows "puts (seq_all f (a # as)) (bs @ cs)"
  unfolding puts_def
proof (intro allI impI)
  fix h n and s :: "'w st"
  assume "fits (length (bs @ cs) + n) h (lim (world s))"
  then have "fits (length bs + (length cs + n)) h (lim (world s))" by (simp add: add.assoc)
  then obtain h1 s1 where 1: "f a (h, s) = Some (True, h1, s1)" "fits (length cs + n) h1 (lim (world s1))" "out (world s1) = out (world s) @ bs"
    using assms(1) unfolding puts_def by blast
  obtain h2 s2 where "seq_all f as (h1, s1) = Some (True, h2, s2)" "fits n h2 (lim (world s2))" "out (world s2) = out (world s1) @ cs"
    using assms(2) 1(2) unfolding puts_def by blast
  with 1 show "\<exists>h' s'. seq_all f (a # as) (h, s) = Some (True, h', s') \<and> fits n h' (lim (world s')) \<and>
     out (world s') = out (world s) @ bs @ cs" by simp
qed

lemma puts_seq: "(\<And>a. a \<in> set as \<Longrightarrow> puts (f a) (g a)) \<Longrightarrow> puts (seq_all f as) (concat (map g as))"
proof (induction as)
  case Nil
  then show ?case by (simp add: puts_def)
next
  case (Cons a as)
  then show ?case using puts_Cons [of f a "g a" as "concat (map g as)"] by (simp del: seq_all.simps)
qed

lemma put_all_full:
  "fits (length (bufs_bytes mem bs) + n) h (lim (world s)) \<Longrightarrow> \<exists>h' s'. put_all writer bs (h, s) = Some (True, h', s') \<and> fits n h' (lim (world s')) \<and>
     out (world s') = out (world s) @ bufs_bytes mem bs \<and> keep (world s') = keep (world s)"
proof (induction bs arbitrary: h s)
  case (Cons b bs)
  have "fits (buf_len b + (length (bufs_bytes mem bs) + n)) h (lim (world s))" using Cons.prems by (simp add: add.assoc)
  from put_full [OF this] obtain h1 s1 where 1: "put writer b (h, s) = Some (True, h1, s1)" "fits (length (bufs_bytes mem bs) + n) h1 (lim (world s1))"
    "out (world s1) = out (world s) @ buf_bytes mem b" "keep (world s1) = keep (world s)" by blast
  from Cons.IH [OF 1(2)] 1 show ?case by auto
qed simp

lemma puts_put_all: "puts (put_all writer bs) (bufs_bytes mem bs)"
  unfolding puts_def using put_all_full by blast

lemma puts_steps: "list_all2 puts ps bss \<Longrightarrow> puts (seq_all (\<lambda>step. step) ps) (concat bss)"
proof (induction ps bss rule: list_all2_induct)
  case (Cons p ps bs bss)
  then show ?case using puts_Cons [of "\<lambda>step. step" p bs ps "concat bss"] by (simp del: seq_all.simps)
qed (simp add: puts_def)

end

interpretation simple_full: full_writer "SimpleWriter K" "\<lambda>n f l. sink_ok K m f out keep \<and> intr_bounded K q" m out keep "\<lambda>_. ()"
  for K m out keep q
proof
  fix b n f s
  assume "sink_ok K m f out keep \<and> intr_bounded K q"
  with sink_c_write [of K m f out keep q b s]
  show "\<exists>h' s'. SimpleWriter K f b s = Some ((int (buf_len b), h'), s') \<and> (sink_ok K m h' out keep \<and> intr_bounded K q) \<and>
      out (world s') = out (world s) @ buf_bytes m b \<and> keep (world s') = keep (world s)"
    by (auto simp: SimpleWriter_def)
qed

interpretation limit_full: full_writer "LimitWriter K"
    "\<lambda>n h l. sink_ok K m (out_fd h) out keep \<and> intr_bounded K q \<and> n \<le> max_length h" m out keep "\<lambda>_. ()"
  for K m out keep q
proof
  fix b n and h :: WriterFds and s
  assume h: "sink_ok K m (out_fd h) out keep \<and> intr_bounded K q \<and> buf_len b + n \<le> max_length h"
  then obtain s' where "c_write K (out_fd h) b s = Some (int (buf_len b), s')"
    "out (world s') = out (world s) @ buf_bytes m b" "keep (world s') = keep (world s)" using sink_c_write by blast
  with h show "\<exists>h' s'. LimitWriter K h b s = Some ((int (buf_len b), h'), s') \<and>
      (sink_ok K m (out_fd h') out keep \<and> intr_bounded K q \<and> n \<le> max_length h') \<and>
      out (world s') = out (world s) @ buf_bytes m b \<and> keep (world s') = keep (world s)"
    by (auto simp: LimitWriter_def)
qed

end
