(* ===== verification/Process_Dump.thy ===== *)
theory Process_Dump
  imports Full_Writes
begin

text \<open>
  The core file of a process. \<open>CreateElfCore\<close> runs against a kernel whose files under \<open>/proc/self\<close>
  show the segments and the auxiliary vector of the process in the format of \<open>proc(5)\<close>: it returns,
  succeeds, and writes the core file of exactly these segments.
\<close>

subsection \<open>The files under \<open>/proc/self\<close>\<close>

abbreviation "proc_maps \<equiv> str ''/proc/self/maps''"
abbreviation "proc_auxv \<equiv> str ''/proc/self/auxv''"
abbreviation "proc_smaps \<equiv> str ''/proc/self/smaps''"

text \<open>
  Each file gets the descriptor \<open>fp\<close>, the lowest that is free; \<open>content\<close> is what is in the files and
  \<open>frest\<close> what is still to be read from the one that is open. Entries of the auxiliary vector are
  read as a whole.
\<close>

definition proc_ok :: "'w kern \<Rightarrow> int \<Rightarrow> ('w \<Rightarrow> byte list) \<Rightarrow> (byte list \<Rightarrow> byte list) \<Rightarrow> bool" where
  "proc_ok K fp frest content \<longleftrightarrow> 0 \<le> fp \<and> read_ok K fp frest \<and>
     (\<forall>p w r w'. K (NR_open p 0 0) w = (r, w') \<longrightarrow> p \<in> {proc_maps, proc_auxv, proc_smaps} \<longrightarrow>
        sint (kret r) = - EINTR \<or> sint (kret r) = fp \<and> frest w' = content p) \<and>
     (\<forall>w r w'. K (NR_read fp 16) w = (r, w') \<longrightarrow> sint (kret r) = - EINTR \<or> sint (kret r) = int (min 16 (length (frest w))))"

text \<open>The bytes in the loop-back pipe change only through its ends.\<close>

fun touches_pipe :: "int \<times> int \<Rightarrow> syscall \<Rightarrow> bool" where
  "touches_pipe lb (NR_write f b) = (f = snd lb)"
| "touches_pipe lb (NR_read f n) = (f = fst lb)"
| "touches_pipe lb NR_pipe = True"
| "touches_pipe lb _ = False"

definition pipe_only :: "'w kern \<Rightarrow> int \<times> int \<Rightarrow> ('w \<Rightarrow> byte list) \<Rightarrow> bool" where
  "pipe_only K lb pipe \<longleftrightarrow> (\<forall>c w r w'. \<not> touches_pipe lb c \<longrightarrow> K c w = (r, w') \<longrightarrow> pipe w' = pipe w)"

text \<open>In the world \<open>w\<close>, the next pipe is \<open>lb\<close>, and there is nothing in it.\<close>

definition pipe_next :: "'w kern \<Rightarrow> int \<times> int \<Rightarrow> ('w \<Rightarrow> byte list) \<Rightarrow> 'w \<Rightarrow> bool" where
  "pipe_next K lb pipe w \<longleftrightarrow>
     (\<forall>r w'. K NR_pipe w = (r, w') \<longrightarrow> kret r = 0 \<and> kints r = [fst lb, snd lb] \<and> pipe w' = [])"

lemma pipe_only_observer: "pipe_only K lb pipe \<Longrightarrow> observer K (\<lambda>c. \<not> touches_pipe lb c) (\<lambda>s. pipe (world s))"
  by unfold_locales (auto simp: pipe_only_def lss_syscall_def split: prod.splits)

lemma open_proc:
  assumes "calm K q" "proc_ok K fp frest content" "p \<in> {proc_maps, proc_auxv, proc_smaps}"
  shows "\<exists>r s'. NO_INTR (sys_open K p 0 0) s = Some ((fp, r), s') \<and> frest (world s') = content p"
proof -
  obtain r s' w where call: "NO_INTR (sys_int K (NR_open p 0 0)) s = Some ((if sint (kret r) < 0 then -1 else sint (kret r), r), s')"
    "K (NR_open p 0 0) w = (r, world s')" "sint (kret r) \<noteq> - EINTR"
    using NO_INTR_call [OF calm_bounded [OF assms(1)] plain_int [OF assms(1)], of "NR_open p 0 0" "\<lambda>_. True" s] by auto
  have "sint (kret r) = - EINTR \<or> sint (kret r) = fp \<and> frest (world s') = content p" "0 \<le> fp"
    using assms(2,3) call(2) unfolding proc_ok_def by blast+
  with call show ?thesis by (auto simp: sys_open_def)
qed

lemma close_any:
  assumes "calm K q"
  shows "\<exists>x s'. NO_INTR (sys_close K g) s = Some (x, s')"
  using NO_INTR_call [OF calm_bounded [OF assms] plain_int [OF assms], of "NR_close g" "\<lambda>_. True" s] by (auto simp: sys_close_def)

lemma read_entry:
  assumes "intr_bounded K q" "proc_ok K fp frest content" "frest (world s) = enc_auxv e @ cs"
  shows "\<exists>r s'. NO_INTR (sys_read K fp 16) s = Some ((16, r), s') \<and> stored 16 (kbytes r) = enc_auxv e \<and> frest (world s') = cs"
proof -
  have rd: "sint (kret r) = - EINTR \<and> frest w' = frest w \<or>
      sint (kret r) = int (min 16 (length (frest w))) \<and> kbytes r = take 16 (frest w) \<and> frest w' = drop 16 (frest w)"
    if "K (NR_read fp 16) w = (r, w')" for w r w'
  proof -
    have "sint (kret r) = - EINTR \<or> sint (kret r) = int (min 16 (length (frest w)))" "read_ok K fp frest"
      using assms(2) that unfolding proc_ok_def by blast+
    with read_okD [OF this(2) _ that] show ?thesis by (auto simp: min_def split: if_splits)
  qed
  have range: "- 4095 \<le> sint (kret r)" if "K (NR_read fp 16) w = (r, w')" for w r w' using rd [OF that] by auto
  have keep: "frest w' = frest (world s)" if "frest w = frest (world s)" "K (NR_read fp 16) w = (r, w')" "sint (kret r) = - EINTR" for w r w'
    using rd [OF that(2)] that by auto
  have plain: "plain_call K (NR_read fp 16) (sys_long K (NR_read fp 16))" by (rule plain_long) (rule range)
  have ex: "\<exists>r s' w. NO_INTR (sys_long K (NR_read fp 16)) s = Some ((if sint (kret r) < 0 then -1 else sint (kret r), r), s') \<and>
    frest w = frest (world s) \<and> K (NR_read fp 16) w = (r, world s') \<and> sint (kret r) \<noteq> - EINTR"
    by (rule NO_INTR_call [OF assms(1) plain, where P = "\<lambda>w. frest w = frest (world s)", OF refl]) (rule keep)
  obtain r s' w where call: "NO_INTR (sys_long K (NR_read fp 16)) s = Some ((if sint (kret r) < 0 then -1 else sint (kret r), r), s')"
    "frest w = frest (world s)" "K (NR_read fp 16) w = (r, world s')" "sint (kret r) \<noteq> - EINTR"
    using ex by blast
  have len: "length (enc_auxv e) = 16" by simp
  show ?thesis using rd [OF call(3)] call assms(3) len by (auto simp: sys_read_def stored_exact)
qed

subsection \<open>The auxiliary vector\<close>

fun terminated :: "auxv_t list \<Rightarrow> bool" where
  "terminated [] = False"
| "terminated (e # es) = (if es = [] then a_type e = AT_NULL else a_type e \<noteq> AT_NULL \<and> terminated es)"

definition auxv_vdso :: "u64 \<Rightarrow> auxv_t list \<Rightarrow> u64" where
  "auxv_vdso = foldl (\<lambda>v e. if a_type e = AT_SYSINFO_EHDR then a_val e else v)"

lemma CountAUXV_loop_entries:
  assumes "intr_bounded K q" "proc_ok K fp frest content"
  shows "terminated av \<Longrightarrow> frest (world s) = concat (map enc_auxv av) \<Longrightarrow>
    \<exists>s'. CountAUXV_loop K fp n v s = Some ((n + length av, auxv_vdso v av), s')"
proof (induction av arbitrary: n v s)
  case (Cons e av)
  obtain r s1 where r: "NO_INTR (sys_read K fp 16) s = Some ((16, r), s1)" "stored 16 (kbytes r) = enc_auxv e"
    "frest (world s1) = concat (map enc_auxv av)"
    using read_entry [OF assms, of s e "concat (map enc_auxv av)"] Cons.prems by auto
  have "dec_auxv (enc_auxv e) = e" using auxv.dec_enc [of e "[]"] by simp
  with r Cons.prems Cons.IH [of s1 "Suc n" "if a_type e = AT_SYSINFO_EHDR then a_val e else v"] show ?case
    by (subst CountAUXV_loop.simps) (auto simp: Let_def auxv_vdso_def split: if_splits)
qed simp

context observer
begin

lemma obs_CountAUXV_loop_fd:
  assumes "CountAUXV_loop K fd n v s = Some r" "allowed (NR_read fd 16)"
  shows "obs (snd r) = obs s"
proof -
  let ?P = "\<lambda>K' fd' (n::nat) (v::u64) s r. K' = K \<and> fd' = fd \<longrightarrow> obs (snd r) = obs s"
  have "?P K fd n v s r"
    by (rule CountAUXV_loop.raw_induct [where P = ?P, OF _ assms(1)])
      (fastforce simp: sys_read_def Let_def split: if_splits bind_splits dest: obs_NO_INTR(2) intro: assms(2))
  then show ?thesis by simp
qed

end

lemma CountAUXV_entries:
  assumes "calm K q" "proc_ok K fp frest content" "content proc_auxv = concat (map enc_auxv av)" "terminated av"
    and o: "observer K al obs" "al (NR_open proc_auxv 0 0)" "al (NR_read fp 16)" "al (NR_close fp)"
  shows "\<exists>s'. CountAUXV K s = Some ((length av, auxv_vdso 0 av), s') \<and> obs s' = obs s"
proof -
  obtain r s1 where 1: "NO_INTR (sys_open K proc_auxv 0 0) s = Some ((fp, r), s1)" "frest (world s1) = content proc_auxv"
    using open_proc [OF assms(1,2), of proc_auxv s] by auto
  obtain s2 where 2: "CountAUXV_loop K fp 0 0 s1 = Some ((length av, auxv_vdso 0 av), s2)"
    using CountAUXV_loop_entries [OF calm_bounded [OF assms(1)] assms(2,4), of s1 0 0] 1(2) assms(3) by auto
  obtain x s3 where 3: "NO_INTR (sys_close K fp) s2 = Some (x, s3)" using close_any [OF assms(1)] by blast
  have "obs s3 = obs s"
    using observer.obs_NO_INTR(1) [OF o(1) 1(1) [unfolded sys_open_def] o(2)] observer.obs_CountAUXV_loop_fd [OF o(1) 2 o(3)]
      observer.obs_NO_INTR(1) [OF o(1) 3 [unfolded sys_close_def] o(4)] by simp
  moreover have "0 \<le> fp" using assms(2) by (simp add: proc_ok_def)
  ultimately show ?thesis using 1 2 3 by (simp add: CountAUXV_def)
qed

text \<open>
  Between its writes a dump opens, reads and closes its input files and uses the loop-back pipe; it makes no other call.
  A writer relies on it that these calls do not change the state of its output.
\<close>

fun dump_call :: "int \<Rightarrow> int \<times> int \<Rightarrow> syscall \<Rightarrow> bool" where
  "dump_call fp lb (NR_open p fl md) = True"
| "dump_call fp lb (NR_close g) = (g \<in> {fp, fst lb, snd lb})"
| "dump_call fp lb (NR_read g n) = (g \<in> {fp, fst lb})"
| "dump_call fp lb (NR_write g b) = (g = snd lb)"
| "dump_call fp lb NR_pipe = True"
| "dump_call fp lb _ = False"

lemma unit_observer: "observer K allowed (\<lambda>s. ())"
  by unfold_locales simp_all

text \<open>Copying the entries into the file, when the writer leaves \<open>frest\<close> alone.\<close>

lemma copy_entries:
  assumes "full_writer writer fits m out frest lim" "intr_bounded K q" "proc_ok K fp frest content" "output_only K f out"
    and l: "observer K (dump_call fp lb) (\<lambda>s. lim (world s))"
  shows "fits (16 * length av + n) h (lim (world s)) \<Longrightarrow> frest (world s) = concat (map enc_auxv av) \<Longrightarrow>
    \<exists>h' s'. seq_all (copy_auxv K writer fp) (replicate (length av) ()) (h, s) = Some (True, h', s') \<and> fits n h' (lim (world s')) \<and>
      out (world s') = out (world s) @ concat (map enc_auxv av)"
proof (induction av arbitrary: h s)
  case (Cons e av)
  obtain r s1 where r: "NO_INTR (sys_read K fp 16) s = Some ((16, r), s1)" "stored 16 (kbytes r) = enc_auxv e"
    "frest (world s1) = concat (map enc_auxv av)" using read_entry [OF assms(2,3), of s e] Cons.prems by auto
  have o: "out (world s1) = out (world s)" by (rule quiet_calls(2) [OF assms(4) r(1)])
  have l1: "lim (world s1) = lim (world s)" using observer.obs_NO_INTR(2) [OF l r(1) [unfolded sys_read_def]] by simp
  obtain h2 s2 where p: "put writer (Local (enc_auxv e)) (h, s1) = Some (True, h2, s2)" "fits (16 * length av + n) h2 (lim (world s2))"
    "out (world s2) = out (world s1) @ enc_auxv e" "frest (world s2) = frest (world s1)"
    using full_writer.put_full [OF assms(1), of "Local (enc_auxv e)" "16 * length av + n" h s1] Cons.prems(1) l1 by (auto simp: add.assoc)
  have c: "copy_auxv K writer fp () (h, s) = Some (True, h2, s2)" using r p(1) by (simp add: copy_auxv_def)
  obtain h3 s3 where "seq_all (copy_auxv K writer fp) (replicate (length av) ()) (h2, s2) = Some (True, h3, s3)" "fits n h3 (lim (world s3))"
    "out (world s3) = out (world s2) @ concat (map enc_auxv av)" using Cons.IH [OF p(2)] p(4) r(3) by auto
  with c p(3) o show ?case by auto
qed auto

lemma puts_write_auxv:
  fixes writer :: "('h, 'w) writer"
  assumes w: "full_writer writer fits m out frest lim" and "calm K q" "proc_ok K fp frest content" "output_only K f out"
    and l: "observer K (dump_call fp lb) (\<lambda>s. lim (world s))"
    and av: "content proc_auxv = concat (map enc_auxv av)"
  shows "full_writer.puts fits out lim (write_auxv K writer (length av)) (bufs_bytes m (auxv_bufs av))"
  unfolding full_writer.puts_def [OF w]
proof (intro allI impI)
  fix h n and s :: "'w st"
  let ?hd = "[nhdr_buf 5 (of_nat (length av) * 16) NT_AUXV, CORE_name]"
  assume fit: "fits (length (bufs_bytes m (auxv_bufs av)) + n) h (lim (world s))"
  show "\<exists>h' s'. write_auxv K writer (length av) (h, s) = Some (True, h', s') \<and> fits n h' (lim (world s')) \<and>
     out (world s') = out (world s) @ bufs_bytes m (auxv_bufs av)"
  proof (cases "av = []")
    case True
    then show ?thesis using fit by (simp add: write_auxv_def auxv_bufs_def)
  next
    case False
    have eq: "bufs_bytes m (auxv_bufs av) = bufs_bytes m ?hd @ concat (map enc_auxv av)"
      using False by (auto simp: auxv_bufs_def bufs_bytes_Local)
    have len: "length (concat (map enc_auxv av)) = 16 * length av" by (induction av) simp_all
    obtain r s1 where o: "NO_INTR (sys_open K proc_auxv 0 0) s = Some ((fp, r), s1)" "frest (world s1) = content proc_auxv"
      using open_proc [OF assms(2,3), of proc_auxv s] by auto
    have o1: "out (world s1) = out (world s)" by (rule quiet_calls(1) [OF assms(4) o(1)])
    have "lim (world s1) = lim (world s)" using observer.obs_NO_INTR(1) [OF l o(1) [unfolded sys_open_def]] by simp
    then have fit2: "fits (length (bufs_bytes m ?hd) + (16 * length av + n)) h (lim (world s1))" using fit unfolding eq by (simp add: len add.assoc)
    obtain h2 s2 where 2: "put_all writer ?hd (h, s1) = Some (True, h2, s2)" "fits (16 * length av + n) h2 (lim (world s2))"
      "out (world s2) = out (world s1) @ bufs_bytes m ?hd" "frest (world s2) = frest (world s1)"
      using full_writer.put_all_full [OF w fit2] by blast
    obtain h3 s3 where 3: "seq_all (copy_auxv K writer fp) (replicate (length av) ()) (h2, s2) = Some (True, h3, s3)" "fits n h3 (lim (world s3))"
      "out (world s3) = out (world s2) @ concat (map enc_auxv av)"
      using copy_entries [OF w calm_bounded [OF assms(2)] assms(3,4) l 2(2)] 2(4) o(2) av by auto
    have "fp \<noteq> -1" using assms(3) by (auto simp: proc_ok_def)
    then show ?thesis using False o(1) 2 3 o1 unfolding eq by (simp add: write_auxv_def del: seq_all.simps bufs_bytes_simps)
  qed
qed

subsection \<open>The whole file\<close>

lemma puts_write_core:
  assumes w: "full_writer writer fits m out frest lim" and "calm K q" "proc_ok K fp frest content" "output_only K f out"
    and l: "observer K (dump_call fp lb) (\<lambda>s. lim (world s))"
    and av: "content proc_auxv = concat (map enc_auxv av)"
  shows "full_writer.puts fits out lim (write_core K writer a args (length av) extra ms) (core_image m a args av extra ms)"
proof -
  let ?l = "core_layout_of a args (length av) extra ms"
  let ?puts = "full_writer.puts fits out lim"
  note put = full_writer.puts_put [OF w] and put_all = full_writer.puts_put_all [OF w] and seq = full_writer.puts_seq [OF w]
  have th: "?puts (seq_all (WriteThreadRegs writer a p) ts) (bufs_bytes m (concat (map (thread_bufs a p) ts)))" for p ts
    unfolding bufs_bytes_concat by (rule seq) (simp add: WriteThreadRegs_def put_all)
  have ex: "?puts (seq_all (\<lambda>n. put_all writer (extra_note_bufs n)) ns) (bufs_bytes m (concat (map extra_note_bufs ns)))" for ns
    unfolding bufs_bytes_concat by (rule seq) (rule put_all)
  have al: "?puts (if l_align ?l \<noteq> 0 then put writer (Local (replicate (unat (l_align ?l)) 0)) else (\<lambda>x. Some (True, x)))
     (bufs_bytes m (if l_align ?l \<noteq> 0 then [Local (replicate (unat (l_align ?l)) 0)] else []))"
    using put [of "Local (replicate (unat (l_align ?l)) 0)"] full_writer.puts_skip [OF w] by simp
  let ?bss = "[buf_bytes m (Local (enc_Ehdr (l_ehdr ?l))), bufs_bytes m (map (\<lambda>p. Local (enc_Phdr p)) (l_phdrs ?l)),
     bufs_bytes m (process_bufs a args), bufs_bytes m (auxv_bufs av),
     bufs_bytes m (concat (map (thread_bufs a (c_prstatus args)) (thread_order (c_main_pid args) (c_threads args)))),
     bufs_bytes m (concat (map extra_note_bufs (c_extra_notes args))),
     bufs_bytes m (nt_file_bufs (c_pagesize args) (l_mappings ?l)),
     bufs_bytes m (if l_align ?l \<noteq> 0 then [Local (replicate (unat (l_align ?l)) 0)] else []),
     bufs_bytes m (segment_bufs (l_mappings ?l)), bufs_bytes m (vdso_bufs extra)]"
  have "core_image m a args av extra ms = concat ?bss"
    by (simp add: core_image_def core_bufs_def note_bufs_def Let_def)
  then show ?thesis unfolding write_core_def Let_def
    by (simp only:) (intro full_writer.puts_steps [OF w] list_all2_Cons [THEN iffD2] conjI list.rel_intros(1)
      put put_all puts_write_auxv [OF w assms(2-4) l av] th ex al)
qed

text \<open>
  What \<open>/proc/self\<close> shows of a process with the segments \<open>segs\<close> and the auxiliary vector \<open>av\<close>:
  the lines of \<open>maps\<close> are the header lines of \<open>smaps\<close>. No segment is a mapped device, and all consist of
  whole pages.
\<close>

definition shows_process :: "(byte list \<Rightarrow> byte list) \<Rightarrow> nat \<Rightarrow> smaps_segment list \<Rightarrow> auxv_t list \<Rightarrow> bool" where
  "shows_process content P segs av \<longleftrightarrow>
     content proc_maps = concat (map (\<lambda>d. print_header (segment.truncate d)) segs) \<and>
     content proc_smaps = concat (map print_segment segs) \<and> content proc_auxv = concat (map enc_auxv av) \<and>
     terminated av \<and> segs \<noteq> [] \<and>
     (\<forall>d\<in>set segs. wf_segment d \<and> \<not> is_device (rtrim (take 255 (sd_name d))) \<and> P dvd unat (sd_end d - sd_start d))"

lemma count_print_hex: "count_list (print_hex x) 10 = 0"
  using print_hex_is_hex [of 10 x] by (auto simp: count_list_0_iff is_hex_def)

lemma count_header: "wf_header d \<Longrightarrow> count_list (print_header d) 10 = 1"
  by (auto simp: print_header_def wf_header_def print_perms_def count_print_hex count_list_0_iff)

lemma count_maps: "\<forall>d\<in>set segs. wf_segment d \<Longrightarrow>
    count_list (concat (map (\<lambda>d. print_header (segment.truncate d)) segs)) 10 = length segs"
  by (induction segs) (auto simp: wf_segment_def count_header)

definition process_mappings :: "arch \<Rightarrow> memory \<Rightarrow> (u64 \<Rightarrow> bool) \<Rightarrow> nat \<Rightarrow> smaps_segment list \<Rightarrow> mapping list" where
  "process_mappings a m readable P segs =
     List.map_filter (kept_mapping (zero_bytes m readable P) (is_aarch64 a) m (of_nat P)) segs"

definition process_image ::
    "memory \<Rightarrow> arch \<Rightarrow> core_args \<Rightarrow> (u64 \<Rightarrow> bool) \<Rightarrow> smaps_segment list \<Rightarrow> auxv_t list \<Rightarrow> byte list" where
  "process_image m a args readable segs av =
     (let ms = process_mappings a m readable (unat (c_pagesize args)) segs
      in core_image m a args av (vdso_extra m (find_vdso m ms (auxv_vdso 0 av))) ms)"

text \<open>The loopback pipe and the limit of the writer together.\<close>

lemma pipe_lim_observer:
  assumes po: "pipe_only K lb pipe" and sm: "smaps_ok K m readable lb P pipe frest fp" and l: "observer K (dump_call fp lb) (\<lambda>s. lim (world s))"
  shows "observer K (\<lambda>c. (\<not> touches_pipe lb c \<or> (\<exists>n. c = NR_read fp n)) \<and> dump_call fp lb c) (\<lambda>s. (pipe (world s), lim (world s)))"
proof -
  let ?al = "\<lambda>c. \<not> touches_pipe lb c \<or> (\<exists>n. c = NR_read fp n)"
  have po': "observer K ?al (\<lambda>s. pipe (world s))"
    using po sm unfolding pipe_only_def smaps_ok_def read_keeps_def
    by unfold_locales (auto simp: lss_syscall_def split: prod.splits)
  show ?thesis
  proof unfold_locales
    fix c s r s'
    assume "?al c \<and> dump_call fp lb c" "lss_syscall K c s = (r, s')"
    then show "(pipe (world s'), lim (world s')) = (pipe (world s), lim (world s))"
      using observer.allowed_call [OF po', of c s r s'] observer.allowed_call [OF l, of c s r s'] by simp
  qed simp
qed

text \<open>\<open>CreateElfCore\<close> reads the segments and the auxiliary vector, and goes on to write them.\<close>

lemma dump_reads_process:
  assumes "calm K q" and p: "proc_ok K fp frest content"
    and l: "observer K (dump_call fp lb) (\<lambda>s. lim (world s))"
    and o: "output_only K f out" "snd lb \<noteq> f" and sm: "smaps_ok K m readable lb (2 ^ k) pipe frest fp" and po: "pipe_only K lb pipe"
    and k: "k < 64" "c_pagesize args = 2 ^ k" and pr: "shows_process content (2 ^ k) segs av" and empty: "pipe (world s) = []"
  shows "\<exists>s'. dump_mappings K writer a m args lb (h, s) =
      (let ms = process_mappings a m readable (2 ^ k) segs
       in write_core K writer a args (length av) (vdso_extra m (find_vdso m ms (auxv_vdso 0 av))) ms (h, s')) \<and>
    out (world s') = out (world s) \<and> lim (world s') = lim (world s)"
proof -
  let ?io = "\<lparr>io_fd = fp, io_rest = []\<rparr>" and ?ms = "process_mappings a m readable (2 ^ k) segs"
  note q = calm_bounded [OF assms(1)]
  note ob = pipe_lim_observer [OF po sm l]
  note obs = observer.obs_NO_INTR(1) [OF ob]
  obtain r1 s1 where 1: "NO_INTR (sys_open K proc_maps 0 0) s = Some ((fp, r1), s1)" "frest (world s1) = content proc_maps"
    using open_proc [OF assms(1) p, of proc_maps s] by auto
  have e1: "pipe (world s1) = []" using obs [OF 1(1) [unfolded sys_open_def]] empty by simp
  obtain i2 s2 where 2: "count_lines (GetChar K) 0 (?io, s1) = Some (length segs, i2, s2)" "errno s2 = 0" "pipe (world s2) = []"
    using smaps_file.count_lines_rest [of K m readable lb "2 ^ k" pipe frest q "(?io, s1)" 0] sm q e1 1(2) pr count_maps [of segs]
    by (auto simp: shows_process_def)
  obtain x3 s3 where 3: "NO_INTR (sys_close K fp) s2 = Some (x3, s3)" using close_any [OF assms(1)] by blast
  have e3: "pipe (world s3) = []" using obs [OF 3 [unfolded sys_close_def]] 2(3) by simp
  obtain s4 where 4: "CountAUXV K s3 = Some ((length av, auxv_vdso 0 av), s4)" "pipe (world s4) = pipe (world s3)" "lim (world s4) = lim (world s3)"
    using CountAUXV_entries [OF assms(1) p _ _ ob, of av s3] pr by (auto simp: shows_process_def)
  obtain r5 s5 where 5: "NO_INTR (sys_open K proc_smaps 0 0) s4 = Some ((fp, r5), s5)" "frest (world s5) = content proc_smaps"
    using open_proc [OF assms(1) p, of proc_smaps s4] by auto
  have e5: "pipe (world s5) = []" using obs [OF 5(1) [unfolded sys_open_def]] 4(2) e3 by simp
  obtain i6 s6 where 6: "read_smaps (GetChar K) (scan_zeros K lb (2 ^ k)) (is_aarch64 a) m (2 ^ k) (length segs) (?io, s5) = Some (Some ?ms, i6, s6)"
    using read_smaps_process [OF sm q k(1) e5, of segs "is_aarch64 a"] 5(2) pr
    by (auto simp: shows_process_def process_mappings_def)
  obtain x7 s7 where 7: "NO_INTR (sys_close K fp) s6 = Some (x7, s7)" using close_any [OF assms(1)] by blast
  have o2: "out (world s2) = out (world s)"
    using keepsD [OF keeps_count_lines [OF keeps_out_GetChar [OF o(1)]] _ 2(1), of "out (world s)"] quiet_calls(1) [OF o(1) 1(1)] by simp
  have o5: "out (world s5) = out (world s)"
    using o2 quiet_calls(3) [OF o(1) 3] CountAUXV_output [OF o(1) 4(1)] quiet_calls(1) [OF o(1) 5(1)] by simp
  have o7: "out (world s7) = out (world s)"
    using keepsD [OF keeps_read_smaps [OF keeps_out_GetChar [OF o(1)] keeps_out_scan_zeros [OF o]] _ 6, of "out (world s)"]
      o5 quiet_calls(3) [OF o(1) 7] by simp
  have kg: "keeps (\<lambda>(i, s). io_fd i = fp \<and> lim (world s) = X) (GetChar K)" for X by (rule observer.keeps_GetChar_fd [OF l]) simp
  have kz: "keeps (\<lambda>(i, s). io_fd i = fp \<and> lim (world s) = X) (scan_zeros K lb pg x y)" for X pg x y
    by (rule observer.keeps_scan_zeros_fd [OF l]) simp_all
  have l7: "lim (world s7) = lim (world s)"
    using obs [OF 1(1) [unfolded sys_open_def]] keepsD [OF keeps_count_lines [OF kg] _ 2(1), of "lim (world s1)"] obs [OF 3 [unfolded sys_close_def]] 4(3)
      obs [OF 5(1) [unfolded sys_open_def]] keepsD [OF keeps_read_smaps [OF kg kz] _ 6, of "lim (world s5)"] obs [OF 7 [unfolded sys_close_def]]
    by simp
  have "0 \<le> fp" using p by (simp add: proc_ok_def)
  then show ?thesis using 1(1) 2(1,2) 3 4(1) 5(1) 6 7 o7 l7 by (intro exI [of _ s7]) (simp add: dump_mappings_def k(2) Let_def)
qed

lemma dump_process:
  assumes w: "full_writer writer fits m out frest lim" and "calm K q" and p: "proc_ok K fp frest content"
    and l: "observer K (dump_call fp lb) (\<lambda>s. lim (world s))"
    and o: "output_only K f out" "snd lb \<noteq> f" and sm: "smaps_ok K m readable lb (2 ^ k) pipe frest fp" and po: "pipe_only K lb pipe"
    and k: "k < 64" "c_pagesize args = 2 ^ k" and pr: "shows_process content (2 ^ k) segs av"
    and empty: "pipe (world s) = []" and fit: "fits (length (process_image m a args readable segs av) + n) h (lim (world s))"
  shows "\<exists>h' s'. dump_mappings K writer a m args lb (h, s) = Some (True, h', s') \<and> fits n h' (lim (world s')) \<and>
    out (world s') = out (world s) @ process_image m a args readable segs av"
proof -
  let ?ms = "process_mappings a m readable (2 ^ k) segs"
  let ?ex = "vdso_extra m (find_vdso m ?ms (auxv_vdso 0 av))"
  obtain s1 where 1: "dump_mappings K writer a m args lb (h, s) = write_core K writer a args (length av) ?ex ?ms (h, s1)"
    "out (world s1) = out (world s)" "lim (world s1) = lim (world s)"
    using dump_reads_process [OF assms(2) p l o sm po k pr empty, of writer a h] by (auto simp: Let_def)
  have img: "process_image m a args readable segs av = core_image m a args av ?ex ?ms"
    by (simp add: process_image_def Let_def k unat_exp_u64)
  have "full_writer.puts fits out lim (write_core K writer a args (length av) ?ex ?ms) (core_image m a args av ?ex ?ms)"
    using puts_write_core [OF w assms(2) p o(1) l] pr by (simp add: shows_process_def)
  then obtain h' s' where "write_core K writer a args (length av) ?ex ?ms (h, s1) = Some (True, h', s')" "fits n h' (lim (world s'))"
    "out (world s') = out (world s1) @ process_image m a args readable segs av"
    using fit [folded 1(3)] unfolding full_writer.puts_def [OF w] img by blast
  then show ?thesis using 1(1,2) by simp
qed

lemma CreateElfCore_process:
  assumes w: "full_writer writer fits m out frest lim" and l: "observer K (dump_call fp lb) (\<lambda>s. lim (world s))"
    and c: "calm K q" and p: "proc_ok K fp frest content" and o: "output_only K f out"
    and lb: "0 \<le> fst lb" "0 \<le> snd lb" "snd lb \<noteq> f" and sm: "smaps_ok K m readable lb (2 ^ k) pipe frest fp" "pipe_only K lb pipe"
    and k: "k < 64" "c_pagesize args = 2 ^ k" and pr: "shows_process content (2 ^ k) segs av" and fresh: "pipe_next K lb pipe (world s)"
    and fit: "fits (length (process_image m a args readable segs av) + n) h (lim (world s))"
  shows "\<exists>h' s'. CreateElfCore K writer is_done a m args (h, s) = Some (0, h', s') \<and> fits n h' (lim (world s')) \<and>
    out (world s') = out (world s) @ process_image m a args readable segs av"
proof -
  obtain prc r s1 where 1: "sys_pipe K s = ((prc, r), s1)" by (metis surj_pair)
  have K1: "K NR_pipe (world s) = (r, world s1)" using 1 by (auto simp: sys_pipe_def sys_defs split: prod.splits)
  then have r: "kret r = 0" "kints r = [fst lb, snd lb]" "pipe (world s1) = []" using fresh unfolding pipe_next_def by blast+
  have prc: "prc = 0" using 1 r(1) K1 by (auto simp: sys_pipe_def sys_defs LSS_RETURN_int_def split: prod.splits)
  have fds: "pipe_fds (0, r) = lb" using r(2) by (simp add: pipe_fds_def)
  have o1: "out (world s1) = out (world s)" using o K1 unfolding output_only_def by blast
  have l1: "lim (world s1) = lim (world s)" using observer.obs_sys_int [OF l 1 [unfolded sys_pipe_def]] by simp
  obtain h2 s2 where 2: "dump_mappings K writer a m args lb (h, s1) = Some (True, h2, s2)" "fits n h2 (lim (world s2))"
    "out (world s2) = out (world s1) @ process_image m a args readable segs av"
    using dump_process [OF w c p l o lb(3) sm k pr r(3) fit [folded l1]] by blast
  obtain x3 s3 where 3: "NO_INTR (sys_close K (fst lb)) s2 = Some (x3, s3)" using close_any [OF c] by blast
  obtain x4 s4 where 4: "NO_INTR (sys_close K (snd lb)) s3 = Some (x4, s4)" using close_any [OF c] by blast
  have "out (world s4) = out (world s2)" using quiet_calls(3) [OF o 3] quiet_calls(3) [OF o 4] by simp
  moreover have "lim (world s4) = lim (world s2)"
    using observer.obs_NO_INTR(1) [OF l 3 [unfolded sys_close_def]] observer.obs_NO_INTR(1) [OF l 4 [unfolded sys_close_def]] by simp
  ultimately show ?thesis using 1 prc fds 2 3 4 lb o1 by (simp add: CreateElfCore_def)
qed

subsection \<open>The kernel of a process\<close>

text \<open>
  Everything \<open>CreateElfCore\<close> relies on: a descriptor \<open>f\<close> that takes the output, the files under
  \<open>/proc/self\<close>, and the pipe \<open>lb\<close> it looks for unreadable pages with.
\<close>

definition process_files ::
    "'w kern \<Rightarrow> ('w \<Rightarrow> nat) \<Rightarrow> memory \<Rightarrow> (u64 \<Rightarrow> bool) \<Rightarrow> int \<Rightarrow> ('w \<Rightarrow> byte list) \<Rightarrow> int \<Rightarrow> ('w \<Rightarrow> byte list) \<Rightarrow>
     (byte list \<Rightarrow> byte list) \<Rightarrow> int \<times> int \<Rightarrow> ('w \<Rightarrow> byte list) \<Rightarrow> nat \<Rightarrow> bool" where
  "process_files K q m readable f out fp frest content lb pipe P \<longleftrightarrow>
     calm K q \<and> sink_ok K m f out frest \<and> output_only K f out \<and> proc_ok K fp frest content \<and>
     smaps_ok K m readable lb P pipe frest fp \<and> pipe_only K lb pipe \<and> 0 \<le> fst lb \<and> 0 \<le> snd lb \<and> snd lb \<noteq> f"

definition process_kernel ::
    "'w kern \<Rightarrow> ('w \<Rightarrow> nat) \<Rightarrow> memory \<Rightarrow> (u64 \<Rightarrow> bool) \<Rightarrow> int \<Rightarrow> ('w \<Rightarrow> byte list) \<Rightarrow> int \<Rightarrow> ('w \<Rightarrow> byte list) \<Rightarrow>
     (byte list \<Rightarrow> byte list) \<Rightarrow> int \<times> int \<Rightarrow> ('w \<Rightarrow> byte list) \<Rightarrow> nat \<Rightarrow> bool" where
  "process_kernel K q m readable f out fp frest content lb pipe P \<longleftrightarrow>
     process_files K q m readable f out fp frest content lb pipe P \<and> (\<forall>w. pipe_next K lb pipe w)"

text \<open>
  C6: \<open>CreateElfCore\<close> dumps the process. When \<open>/proc/self\<close> shows the segments and the auxiliary
  vector of a process, it returns 0 however often its calls are interrupted and however the
  kernel splits reads and writes, and the output has grown by exactly the core file of these
  segments; with a size limit, whenever the file fits into it.
\<close>

theorem CreateElfCore_dumps_process:
  assumes "process_kernel K q m readable f out fp frest content lb pipe (2 ^ k)" "k < 64" "c_pagesize args = 2 ^ k"
    "shows_process content (2 ^ k) segs av"
    "length (process_image m a args readable segs av) \<le> max_length h" "out_fd h = f"
  shows "(\<exists>f' s'. CreateElfCore K (SimpleWriter K) SimpleDone a m args (f, s) = Some (0, f', s') \<and>
      out (world s') = out (world s) @ process_image m a args readable segs av) \<and>
    (\<exists>h' s'. CreateElfCore K (LimitWriter K) PipeDone a m args (h, s) = Some (0, h', s') \<and>
      out (world s') = out (world s) @ process_image m a args readable segs av)"
proof -
  have c: "calm K q" "sink_ok K m f out frest" "output_only K f out" "proc_ok K fp frest content"
     "smaps_ok K m readable lb (2 ^ k) pipe frest fp" "pipe_only K lb pipe" "0 \<le> fst lb" "0 \<le> snd lb" "snd lb \<noteq> f"
     "\<And>w. pipe_next K lb pipe w"
    using assms(1) by (simp_all add: process_kernel_def process_files_def)
  note b = calm_bounded [OF c(1)]
  note run = CreateElfCore_process [OF _ unit_observer c(1,4,3,7,8,9,5,6) assms(2-4) c(10), where n = 0 and s = s]
  show ?thesis
    using run [OF simple_full.full_writer_axioms [where K = K and q = q], where h = f and a = a and is_done = SimpleDone]
      run [OF limit_full.full_writer_axioms [where K = K and q = q], where h = h and a = a and is_done = PipeDone]
      c(2) b assms(5,6) by auto
qed

subsection \<open>A process with one segment\<close>

definition demo_auxv :: "auxv_t list" where
  "demo_auxv = [\<lparr>a_type = 6, a_val = 16\<rparr>, \<lparr>a_type = AT_NULL, a_val = 0\<rparr>]"

definition demo_proc :: "byte list \<Rightarrow> byte list" where
  "demo_proc p =
     (if p = proc_maps then print_header (segment.truncate demo_segment)
      else if p = proc_smaps then print_segment demo_segment else concat (map enc_auxv demo_auxv))"

lemma demo_shows_process: "shows_process demo_proc (2 ^ 4) [demo_segment] demo_auxv"
  using demo_segment_ok by (simp add: shows_process_def demo_proc_def demo_auxv_def)

lemma core_calm: "calm (core_kernel m ct) (\<lambda>_. 0)"
  unfolding calm_def intr_bounded_def
proof (intro conjI allI impI)
  fix c w r w'
  assume K: "core_kernel m ct c w = (r, w')"
  { assume e: "sint (kret r) = - EINTR"
    show "(0::nat) < 0" using K e by (cases c) (auto simp: core_kernel_def Let_def split: if_splits) }
  { assume i: "int_call c"
    show "- 4095 \<le> sint (kret r)" using K i by (cases c) (auto simp: core_kernel_def Let_def split: if_splits)
    show "sint (kret r) < 2 ^ 31" using K i by (cases c) (auto simp: core_kernel_def Let_def split: if_splits) }
qed simp

lemma core_reads: "read_ok (core_kernel m ct) 3 cw_rest"
  unfolding read_ok_def by (auto simp: core_kernel_def Let_def min_def)

lemma core_loopback: "P \<le> 1000 \<Longrightarrow> loopback_ok (core_kernel m ct) m (\<lambda>_. True) (4, 5) P cw_pipe cw_rest"
  unfolding loopback_ok_def by (auto simp: core_kernel_def Let_def min_def)

lemma core_pipe_next: "pipe_next (core_kernel m ct) (4, 5) cw_pipe w"
  by (auto simp: pipe_next_def core_kernel_def)

lemma core_pipe_only: "pipe_only (core_kernel m ct) (4, 5) cw_pipe"
  unfolding pipe_only_def
proof (intro allI impI)
  fix c w r w'
  assume "\<not> touches_pipe (4, 5) c" "core_kernel m ct c w = (r, w')"
  then show "cw_pipe w' = cw_pipe w" by (cases c) (auto simp: core_kernel_def Let_def split: if_splits)
qed

lemma core_process_kernel:
  assumes "P \<le> 1000"
  shows "process_kernel (core_kernel m ct) (\<lambda>_. 0) m (\<lambda>_. True) 1 cw_out 3 cw_rest ct (4, 5) cw_pipe P"
proof -
  have "sink_ok (core_kernel m ct) m 1 cw_out cw_rest"
    using core_write_ok unfolding sink_ok_def by (auto simp: core_kernel_def Let_def)
  moreover have "proc_ok (core_kernel m ct) 3 cw_rest ct"
    using core_reads unfolding proc_ok_def by (auto simp: core_kernel_def Let_def min_def)
  moreover have "smaps_ok (core_kernel m ct) m (\<lambda>_. True) (4, 5) P cw_pipe cw_rest 3"
    using core_reads core_loopback [OF assms] by (auto simp: smaps_ok_def read_keeps_def core_kernel_def Let_def)
  ultimately show ?thesis using core_calm core_output_only core_pipe_only core_pipe_next by (simp add: process_kernel_def process_files_def)
qed

theorem CreateElfCore_dumps_process_witness:
  "let K = core_kernel demo_memory demo_proc;
       img = process_image demo_memory X86_64 demo_args (\<lambda>_. True) [demo_segment] demo_auxv;
       h = \<lparr>max_length = length img, write_fd = 0, compressed_fd = 0, out_fd = 1\<rparr>
   in (\<exists>f' s'. CreateElfCore K (SimpleWriter K) SimpleDone X86_64 demo_memory demo_args (1, core_state) = Some (0, f', s') \<and>
         cw_out (world s') = img) \<and>
      (\<exists>h' s'. CreateElfCore K (LimitWriter K) PipeDone X86_64 demo_memory demo_args (h, core_state) = Some (0, h', s') \<and>
         cw_out (world s') = img)"
proof -
  let ?img = "process_image demo_memory X86_64 demo_args (\<lambda>_. True) [demo_segment] demo_auxv"
  have P: "(2::nat) ^ 4 \<le> 1000" "4 < (64::nat)" "c_pagesize demo_args = 2 ^ 4" by (simp_all add: demo_args_def)
  show ?thesis
    using CreateElfCore_dumps_process [where a = X86_64 and s = core_state and
        h = "\<lparr>max_length = length ?img, write_fd = 0, compressed_fd = 0, out_fd = 1\<rparr>",
        OF core_process_kernel [OF P(1)] P(2,3) demo_shows_process]
    by (simp add: core_state_out Let_def)
qed

end
