(* ===== verification/Lister_Effects.thy ===== *)
theory Lister_Effects
  imports Lister_Safety
begin

text \<open>
  The thread lister, to an observer who sees only output: it calls its callback at most once, and
  nothing else it does is seen.
\<close>

locale input_observer = observer K allowed obs
  for K :: "'w kern" and allowed and obs :: "'w st \<Rightarrow> 'o" +
  assumes input: "\<not> outputs c \<Longrightarrow> c \<noteq> NR_pipe \<Longrightarrow> allowed c"

sublocale input_observer \<subseteq> io_observer
  by unfold_locales (auto intro: input)

context input_observer
begin

lemma obs_any:
  "sys_int K c s = (x, s') \<Longrightarrow> \<not> outputs c \<Longrightarrow> c \<noteq> NR_pipe \<Longrightarrow> obs s' = obs s"
  "sys_long K c s = (x, s') \<Longrightarrow> \<not> outputs c \<Longrightarrow> c \<noteq> NR_pipe \<Longrightarrow> obs s' = obs s"
  "NO_INTR (sys_int K c) s = Some (x, s') \<Longrightarrow> \<not> outputs c \<Longrightarrow> c \<noteq> NR_pipe \<Longrightarrow> obs s' = obs s"
  by (auto dest!: obs_sys_int obs_sys_long obs_NO_INTR(1) intro: input)

lemma obs_input_snd [simp]:
  "\<not> outputs c \<Longrightarrow> c \<noteq> NR_pipe \<Longrightarrow> obs (snd (sys_int K c s)) = obs s"
  "\<not> outputs c \<Longrightarrow> c \<noteq> NR_pipe \<Longrightarrow> obs (snd (sys_long K c s)) = obs s"
  by (simp_all add: input)

lemma obs_detach [simp]: "obs (snd (sys_ptrace_detach K pid s)) = obs s"
  by (auto simp: sys_ptrace_detach_def sys_ptrace_def Let_def split: prod.splits dest!: obs_any)

lemma obs_Resume_loop [simp]: "obs (snd (Resume_loop K ps d s)) = obs s"
  by (induction ps arbitrary: d s) (simp_all add: case_prod_unfold)

lemma obs_Resume [simp]: "obs (snd (ResumeAllProcessThreads K ps s)) = obs s"
  by (simp add: ResumeAllProcessThreads_def)

lemma obs_Resume_eq: "ResumeAllProcessThreads K ps s = (x, s') \<Longrightarrow> obs s' = obs s"
  by (metis obs_Resume snd_conv)

lemma obs_same_address_space: "same_address_space K pid a i s = (x, s') \<Longrightarrow> obs s' = obs s"
  by (auto simp: same_address_space_def same_word_def sys_ptrace_def split: prod.splits if_splits dest!: obs_any)

lemma obs_attach_thread: "attach_thread K env pid l s = Some (l', s') \<Longrightarrow> obs s' = obs s"
  by (auto simp: attach_thread_def sys_ptrace_def sys_waitpid_def Let_def split: prod.splits bind_splits if_splits
      dest!: obs_any obs_same_address_space)

lemma obs_proc_entry: "proc_entry K env d l s = Some (x, l', s') \<Longrightarrow> obs s' = obs s"
  by (auto simp: proc_entry_def split: option.splits prod.splits bind_splits if_splits
      dest!: obs_any(1) obs_silent(3) obs_attach_thread)

lemma obs_proc_entries:
  assumes "proc_entries K env buf pos l s = Some r"
  shows "obs (snd (snd r)) = obs s"
proof -
  let ?P = "\<lambda>K' (env::lister_env) (buf::byte list) (pos::nat) (l::lister) s r. K' = K \<longrightarrow> obs (snd (snd r)) = obs s"
  have "?P K env buf pos l s r"
    by (rule proc_entries.raw_induct [where P = ?P, OF _ assms])
      (auto simp: Let_def split: if_splits bind_splits dest!: obs_proc_entry)
  then show ?thesis by simp
qed

lemma obs_scan_proc:
  assumes "scan_proc K env l s = Some r"
  shows "obs (snd (snd r)) = obs s"
proof -
  let ?P = "\<lambda>K' (env::lister_env) (l::lister) s r. K' = K \<longrightarrow> obs (snd (snd r)) = obs s"
  have "?P K env l s r"
    by (rule scan_proc.raw_induct [where P = ?P, OF _ assms])
      (auto split: if_splits bind_splits prod.splits dest!: obs_any(1,2) obs_proc_entries)
  then show ?thesis by simp
qed

lemma obs_search_dir: "search_dir K env path lst l s = Some (x, l', s') \<Longrightarrow> obs s' = obs s"
  by (auto simp: search_dir_def c_open_def Let_def split: bind_splits if_splits prod.splits
      dest!: obs_silent(1,3) obs_any(1) obs_scan_proc obs_Resume_eq)

lemma obs_find_threads:
  assumes "find_threads K env paths l s = Some r"
  shows "obs (snd (snd r)) = obs s"
proof -
  let ?P = "\<lambda>K' (env::lister_env) (paths::byte list list) (l::lister) s r. K' = K \<longrightarrow> obs (snd (snd r)) = obs s"
  have "?P K env paths l s r"
    by (rule find_threads.raw_induct [where P = ?P, OF _ assms])
      (auto split: list.splits if_splits bind_splits dest!: obs_search_dir)
  then show ?thesis by simp
qed

text \<open>How a run of the lister depends on its callback: not at all, or through one call.\<close>

definition one_call :: "(int list \<Rightarrow> 'w st \<Rightarrow> (int \<times> 'w st) option) \<Rightarrow> 'o \<Rightarrow> int \<Rightarrow> 'o \<Rightarrow> bool" where
  "one_call cb X rc X' \<longleftrightarrow> rc = -1 \<and> X' = X \<or>
     (\<exists>ps t rc' t'. cb ps t = Some (rc', t') \<and> obs t = X \<and> obs t' = X' \<and> (rc = rc' \<or> rc = -1))"

lemma one_call_none [simp]: "one_call cb X (-1) X"
  by (simp add: one_call_def)

lemma one_call_fail: "one_call cb X rc X' \<Longrightarrow> one_call cb X (-1) X'"
  by (auto simp: one_call_def)

lemma obs_exit [simp]: "obs (sys_exit K code s) = obs s"
  by (simp add: sys_exit_def)

lemma one_call_run_callback:
  assumes "run_callback K cb env args l s = Some ((code, args'), s')" "lp_result args = -1"
  shows "one_call cb (obs s) (lp_result args') (obs s')"
  using assms
  by (auto simp: run_callback_def one_call_def Let_def split: bind_splits if_splits prod.splits
      dest!: obs_silent(3) obs_Resume_eq) (metis)+

lemma obs_close_open_fd: "close_fd K f s = Some s' \<Longrightarrow> obs s' = obs s"
  by (auto simp: close_fd_def split: if_splits bind_splits dest!: obs_silent(3))

lemma one_call_failure:
  "lister_failure K mk proc s = Some ((code, args'), s') \<Longrightarrow> lp_result args' = -1 \<and> obs s' = obs s"
  by (auto simp: lister_failure_def Let_def split: bind_splits dest!: obs_close_open_fd)

lemma obs_install_handlers [simp]: "obs (install_handlers K sgs s) = obs s"
  by (induction sgs arbitrary: s) simp_all

lemma obs_gettid: "sys_gettid K s = (x, s') \<Longrightarrow> obs s' = obs s"
  by (auto simp: sys_gettid_def split: prod.splits if_splits dest!: obs_any(1))

lemma one_call_ListerThread:
  assumes "ListerThread K cb addr args s = Some ((code, args'), s')" "lp_result args = -1"
  shows "one_call cb (obs s) (lp_result args') (obs s')"
  using assms(1)
  by (auto simp: ListerThread_def sys_fcntl_def Let_def simp del: install_handlers.simps
      split: prod.splits bind_splits if_splits
      dest!: obs_gettid obs_any(1) obs_find_threads one_call_failure one_call_run_callback [OF _ assms(2)])

lemma one_call_run_lister:
  assumes "run_lister K cb addr old s = Some (args, s')"
  shows "one_call cb (obs s) (lp_result args) (obs s')"
proof -
  have w: "\<And>pid x t t'. MY_NO_INTR (sys0_int K (NR_wait4 pid WALL) 0) t = Some (x, t') \<Longrightarrow> obs t' = obs t"
    by (erule obs_MY_NO_INTR(1)) (simp add: input)
  have e: "one_call cb X (lp_result (exit_result status largs)) X'" if "one_call cb X (lp_result largs) X'" for status largs X X'
    using exit_result_cases [of status largs] that one_call_fail by metis
  show ?thesis
    using assms
    by (auto simp: run_lister_def local_clone_def Let_def split: prod.splits bind_splits if_splits
        dest!: obs_any(1) w one_call_ListerThread intro!: e dest: one_call_fail)
qed

lemma one_call_ListAll:
  assumes "ListAllProcessThreads K cb addr s = Some (rc, s')"
  shows "one_call cb (obs s) rc (obs s')"
  using assms
  by (auto simp: ListAllProcessThreads_def DirtyStack_def sys_read_def Let_def simp del: unblock_sync.simps
      split: prod.splits bind_splits if_splits dest!: obs_any(1) one_call_run_lister)

end

end
