(* ===== verification/Dump_Effects.thy ===== *)
theory Dump_Effects
  imports Lister_Safety Core_Dump
begin

text \<open>
  The observers of \<open>Call_Effects\<close>, continued over the operations that write the core file,
  start compressors and collect process information.
\<close>

subsection \<open>Writing\<close>

lemma keeps_seq_all: "(\<And>x. x \<in> set xs \<Longrightarrow> keeps Q (f x)) \<Longrightarrow> keeps Q (seq_all f xs)"
proof (induction xs)
  case Nil
  then show ?case by (auto simp: keeps_def)
next
  case (Cons x xs)
  have "seq_all f (x # xs) = (\<lambda>i. f x i \<bind> (\<lambda>(ok, i). if ok then seq_all f xs i else Some (False, i)))"
    by (rule ext) simp
  then show ?case using Cons by (auto intro!: keeps_rules)
qed

locale writing_observer = io_observer K allowed obs
  for K :: "'w kern" and allowed and obs :: "'w st \<Rightarrow> 'o" +
  assumes writes_allowed: "allowed (NR_write f b)"
    and pipes_allowed: "allowed NR_pipe"
begin

lemma obs_pipe: "sys_pipe K s = (x, s') \<Longrightarrow> obs s' = obs s"
  by (auto simp: sys_pipe_def dest!: obs_sys_int intro: pipes_allowed)

lemma obs_write: "c_write K f b s = Some (x, s') \<Longrightarrow> obs s' = obs s"
  by (erule obs_c_write) (rule writes_allowed)

lemma obs_sys_write: "NO_INTR (sys_write K f b) s = Some (x, s') \<Longrightarrow> obs s' = obs s"
  by (auto simp: sys_write_def dest!: obs_NO_INTR intro: writes_allowed)

lemma obs_PipeWriter_copy:
  assumes "PipeWriter_copy K fds s = Some r"
  shows "obs (snd r) = obs s"
proof -
  let ?P = "\<lambda>K' (fds::WriterFds) s r. K' = K \<longrightarrow> obs (snd r) = obs s"
  have "?P K fds s r"
    by (rule PipeWriter_copy.raw_induct [where P = ?P, OF _ assms])
      (auto simp: Let_def split: if_splits bind_splits dest!: obs_silent(2) obs_write)
  then show ?thesis by simp
qed

lemma obs_PipeWriter_loop:
  assumes "PipeWriter_loop K b pos fds s = Some r"
  shows "obs (snd r) = obs s"
proof -
  let ?P = "\<lambda>K' (b::buf) (pos::int) (fds::WriterFds) s r. K' = K \<longrightarrow> obs (snd r) = obs s"
  have "?P K b pos fds s r"
    by (rule PipeWriter_loop.raw_induct [where P = ?P, OF _ assms])
      (auto simp: Let_def split: if_splits bind_splits prod.splits
        dest!: obs_silent obs_sys_write obs_PipeWriter_copy)
  then show ?thesis by simp
qed

lemma obs_FlushPipe_loop:
  assumes "FlushPipe_loop K fds s = Some r"
  shows "obs (snd r) = obs s"
proof -
  let ?P = "\<lambda>K' (fds::WriterFds) s r. K' = K \<longrightarrow> obs (snd r) = obs s"
  have "?P K fds s r"
    by (rule FlushPipe_loop.raw_induct [where P = ?P, OF _ assms])
      (auto simp: Let_def split: if_splits bind_splits dest!: obs_silent(2) obs_write)
  then show ?thesis by simp
qed

lemma obs_FlushPipe: "FlushPipe K fds s = Some (x, s') \<Longrightarrow> obs s' = obs s"
  by (auto simp: FlushPipe_def split: bind_splits dest!: obs_silent obs_FlushPipe_loop)

text \<open>A writer none of whose calls is seen.\<close>

definition unseen :: "('h, 'w) writer \<Rightarrow> bool" where
  "unseen w \<longleftrightarrow> (\<forall>h b s x s'. w h b s = Some (x, s') \<longrightarrow> obs s' = obs s)"

lemma unseen_writers: "unseen (SimpleWriter K)" "unseen (LimitWriter K)" "unseen (PipeWriter K)"
  by (auto simp: unseen_def SimpleWriter_def LimitWriter_def PipeWriter_def Let_def
      split: bind_splits if_splits dest!: obs_write obs_PipeWriter_loop)

abbreviation (input) same :: "'o \<Rightarrow> 'h \<times> 'w st \<Rightarrow> bool" where
  "same X \<equiv> \<lambda>(_, s). obs s = X"

lemma keeps_put: "unseen w \<Longrightarrow> keeps (same X) (put w b)"
  by (auto simp: keeps_def put_def unseen_def split: bind_splits)

lemma keeps_obs: "(\<And>X. keeps (same X) p) \<Longrightarrow> p (h, s) = Some (r, h', s') \<Longrightarrow> obs s' = obs s"
  unfolding keeps_def by fastforce

lemma obs_reading:
  "count_lines (GetChar K) n (i, s) = Some (x, i', s') \<Longrightarrow> obs s' = obs s"
  "read_smaps (GetChar K) (scan_zeros K lb pg) arch m pg n (i, s) = Some (y, i', s') \<Longrightarrow> obs s' = obs s"
  by (erule keeps_obs [rotated], intro keeps_count_lines keeps_read_smaps keeps_GetChar keeps_scan_zeros writes_allowed)+

text \<open>What is written, and the whole of \<open>CreateElfCore\<close>.\<close>

lemma keeps_write_auxv:
  assumes w: "unseen w"
  shows "keeps (same X) (write_auxv K w n)"
proof -
  have "keeps (same X) (copy_auxv K w fd u)" for X fd u
    using w by (auto simp: keeps_def copy_auxv_def put_def unseen_def split: bind_splits if_splits dest!: obs_silent)
  note c = keeps_obs [OF keeps_seq_all [OF this]] and p = keeps_obs [OF keeps_seq_all [OF keeps_put [OF w]]]
  show ?thesis
    unfolding keeps_def write_auxv_def
    by (auto simp del: seq_all.simps split: bind_splits if_splits dest!: obs_silent(1,3) c p)
qed

lemma obs_write_core:
  assumes w: "unseen w"
  shows "write_core K w a args n extra ms (h, s) = Some (r, h', s') \<Longrightarrow> obs s' = obs s"
  unfolding write_core_def Let_def
  by (erule keeps_obs [rotated], intro keeps_seq_all)
    (auto intro!: keeps_put [OF w] keeps_seq_all keeps_write_auxv [OF w] keeps_return simp: WriteThreadRegs_def simp del: seq_all.simps)

lemma obs_dump_mappings:
  assumes w: "unseen w"
  shows "dump_mappings K w a m args lb (h, s) = Some (r, h', s') \<Longrightarrow> obs s' = obs s"
  unfolding dump_mappings_def
  by (auto split: bind_splits if_splits option.splits
      dest!: obs_silent(1,3) obs_CountAUXV obs_reading obs_write_core [OF w])

lemma obs_CreateElfCore:
  "CreateElfCore K w is_done a m args (h, s) = Some (rc, h', s') \<Longrightarrow> unseen w \<Longrightarrow> obs s' = obs s"
  by (auto simp: CreateElfCore_def Let_def split: bind_splits if_splits prod.splits
      dest!: obs_silent obs_pipe obs_dump_mappings)

end

subsection \<open>Starting a compressor\<close>

context writing_observer
begin

lemma not_stops: "\<not> stops c \<Longrightarrow> \<not> conveys c \<Longrightarrow> allowed c"
  using silent [of c] writes_allowed by (cases c) auto

lemmas obs_silent0 = obs_MY_NO_INTR(1) [OF _ not_stops] obs_sys0_int [OF _ not_stops]
  obs_sys_int [OF _ not_stops] obs_NO_INTR(1) [OF _ not_stops]

lemma obs_dup_above:
  assumes "dup_above K f s = Some r"
  shows "obs (snd r) = obs s"
proof -
  let ?P = "\<lambda>K' (f::int) s r. K' = K \<longrightarrow> obs (snd r) = obs s"
  have "?P K f s r"
    by (rule dup_above.raw_induct [where P = ?P, OF _ assms])
      (fastforce split: if_splits prod.splits dest: obs_silent0(2))
  then show ?thesis by simp
qed

lemma obs_my_close: "my_close K s f = Some s' \<Longrightarrow> obs s' = obs s"
  by (auto simp: my_close_def split: bind_splits dest!: obs_silent0(1))

lemma obs_no_close: "no_close K f s = Some s' \<Longrightarrow> obs s' = obs s"
  by (auto simp: no_close_def split: bind_splits dest!: obs_silent(3))

lemma obs_close_others:
  "(\<And>s i s'. cl s i = Some s' \<Longrightarrow> obs s' = obs s) \<Longrightarrow> close_others cl keep is s = Some s' \<Longrightarrow> obs s' = obs s"
  by (induction "is" arbitrary: s) (force split: if_splits bind_splits)+

lemma obs_open_null: "MY_NO_INTR (open_null K) s = Some (x, s') \<Longrightarrow> obs s' = obs s"
  unfolding MY_NO_INTR_def
  by (erule obs_no_intr) (fastforce simp: open_null_def split: prod.splits dest: obs_silent0(2))

lemma obs_tell_parent: "tell_parent K f p s = Some s' \<Longrightarrow> obs s' = obs s"
  by (auto simp: tell_parent_def split: bind_splits dest!: obs_write)

lemma obs_try_exec: "try_exec K fs a s = (d, s') \<Longrightarrow> obs s' = obs s"
  by (induction fs arbitrary: s) (fastforce split: if_splits prod.splits dest: obs_silent0(2))+

lemma obs_try_compressors:
  assumes "try_compressors K heap PATH fd p s = Some r"
  shows "obs (snd (snd r)) = obs s"
proof -
  let ?P = "\<lambda>K' (heap::compressor_heap) (PATH::byte list option) (fd::int) (p::u64) s r.
     K' = K \<longrightarrow> obs (snd (snd r)) = obs s"
  have "?P K heap PATH fd p s r"
    by (rule try_compressors.raw_induct [where P = ?P, OF _ assms])
      (fastforce simp: Let_def split: option.splits if_splits bind_splits prod.splits dest: obs_tell_parent obs_try_exec)
  then show ?thesis by simp
qed

lemma obs_CreatePipelineChild:
  "CreatePipelineChild K heap args s = Some (x, args', s') \<Longrightarrow> obs s' = obs s"
  by (auto simp: CreatePipelineChild_def Let_def split: bind_splits if_splits prod.splits
      dest!: obs_my_close obs_dup_above obs_silent0 obs_close_others [rotated] obs_open_null obs_tell_parent
        obs_try_compressors)

lemma obs_read_choice:
  assumes "read_choice K f ptr s = Some r"
  shows "obs (snd r) = obs s"
proof -
  let ?P = "\<lambda>K' (f::int) (ptr::byte list) s r. K' = K \<longrightarrow> obs (snd r) = obs s"
  have "?P K f ptr s r"
    by (rule read_choice.raw_induct [where P = ?P, OF _ assms])
      (fastforce split: if_splits bind_splits dest: obs_read)
  then show ?thesis by simp
qed

lemma obs_close_pair: "close_pair K p s = Some s' \<Longrightarrow> obs s' = obs s"
  by (auto simp: close_pair_def split: bind_splits dest!: obs_no_close)

lemma obs_new_pipe: "new_pipe K s = (p, s') \<Longrightarrow> obs s' = obs s"
  by (auto simp: new_pipe_def split: prod.splits dest!: obs_pipe)

lemma obs_finish_pipeline: "finish_pipeline K heap pid args s = Some (x, s') \<Longrightarrow> obs s' = obs s"
  by (auto simp: finish_pipeline_def wait_child_def sys_waitpid_def Let_def split: bind_splits if_splits
      dest!: obs_no_close obs_read_choice obs_close_pair obs_silent0)

lemma obs_CreatePipeline: "CreatePipeline K heap fds0 om PATH c s = Some (x, s') \<Longrightarrow> obs s' = obs s"
  by (auto simp: CreatePipeline_def Let_def split: bind_splits if_splits prod.splits option.splits
      dest!: obs_new_pipe obs_close_pair obs_silent0 obs_CreatePipelineChild obs_finish_pipeline)

end

subsection \<open>Collecting information\<close>

context io_observer
begin

lemma obs_peek: "sys_ptrace K req pid a s = (x, s') \<Longrightarrow> req \<noteq> PTRACE_ATTACH \<Longrightarrow> req \<noteq> PTRACE_DETACH \<Longrightarrow> obs s' = obs s"
  by (auto simp: sys_ptrace_def dest!: obs_sys_long intro: silent)

lemma obs_read_thread: "read_thread K a fr pid s = (x, s') \<Longrightarrow> obs s' = obs s"
  by (cases a) (auto simp: read_thread_def SET_FRAME_def split: prod.splits if_splits option.splits dest!: obs_peek)

lemma obs_read_threads: "read_threads K a fr ps s = (x, s') \<Longrightarrow> obs s' = obs s"
  by (induction ps arbitrary: s x) (fastforce split: prod.splits option.splits dest: obs_read_thread)+

lemma obs_peek_user: "peek_user K pid is u s = (x, s') \<Longrightarrow> obs s' = obs s"
  by (induction "is" arbitrary: u s) (fastforce split: prod.splits dest: obs_peek)+

lemma obs_read_core_user: "read_core_user K a ps ts s = (x, s') \<Longrightarrow> obs s' = obs s"
  by (auto simp: read_core_user_def Let_def split: prod.splits dest!: obs_peek_user)

lemma obs_sys_silent:
  "sys_int K c s = (x, s') \<Longrightarrow> \<not> outputs c \<Longrightarrow> \<not> stops c \<Longrightarrow> \<not> conveys c \<Longrightarrow> obs s' = obs s"
  "NO_INTR (sys_int K c) s = Some (x, s') \<Longrightarrow> \<not> outputs c \<Longrightarrow> \<not> stops c \<Longrightarrow> \<not> conveys c \<Longrightarrow> obs s' = obs s"
  by (auto dest!: obs_sys_int obs_NO_INTR intro: silent)

lemma obs_read_cmdline: "read_cmdline K s = Some (x, s') \<Longrightarrow> obs s' = obs s"
  by (auto simp: read_cmdline_def split: bind_splits if_splits dest!: obs_silent obs_read)

lemma obs_read_prpsinfo:
  assumes "read_prpsinfo K pid s = Some (x, s')"
  shows "obs s' = obs s"
proof -
  have step: "obs (snd (sys_int K c t)) = obs t" if "\<not> outputs c" "\<not> stops c" "\<not> conveys c" for c t
    using that by (simp add: silent)
  obtain y t where "read_cmdline K t = Some (y, s')" "obs t = obs s"
    using assms by (auto simp: read_prpsinfo_def Let_def case_prod_unfold step simp del: stored_def split: bind_splits)
  then show ?thesis by (simp add: obs_read_cmdline)
qed

lemma obs_read_prstatus: "read_prstatus K a ps s = Some (x, s') \<Longrightarrow> obs s' = obs s"
  by (auto simp: read_prstatus_def Let_def split: bind_splits if_splits dest!: obs_silent obs_read)

end

subsection \<open>Writing the dump\<close>

context writing_observer
begin

lemma obs_sys_exit: "obs (sys_exit K code s) = obs s"
  by (auto simp: sys_exit_def intro!: obs_snd_sys_int silent)

lemma obs_close_fd: "close_fd K f s = Some s' \<Longrightarrow> obs s' = obs s"
  by (auto simp: close_fd_def split: if_splits bind_splits dest!: obs_silent)

lemma obs_send:
  "NO_INTR (sys_int K (NR_sendmsg sock b f)) s = Some (x, s') \<Longrightarrow> allowed (NR_sendmsg sock b f) \<Longrightarrow> obs s' = obs s"
  by (rule obs_NO_INTR(1))

end

locale dumping_observer = writing_observer K allowed obs
  for K :: "'w kern" and allowed and obs :: "'w st \<Rightarrow> 'o" +
  assumes sends_allowed: "allowed (NR_sendmsg sock b f)"
begin

lemma obs_snapshot_child:
  "snapshot_child K env params fr d pair c s = Some (code, s') \<Longrightarrow> obs s' = obs s"
  by (auto simp: snapshot_child_def sys_close_all_def Let_def obs_sys_exit unseen_writers
      split: bind_splits if_splits prod.splits option.splits
      dest!: obs_CreatePipeline obs_new_pipe obs_send [OF _ sends_allowed] obs_silent0 obs_close_others [rotated] obs_no_close obs_CreateElfCore)

lemma obs_receive_pipe: "receive_pipe K sock selp sel s = Some (x, s') \<Longrightarrow> obs s' = obs s"
  by (auto simp: receive_pipe_def Let_def split: bind_splits prod.splits dest!: obs_silent0 obs_no_close)

lemma obs_get_snapshot: "get_snapshot K env params fr d selp sel s = Some (x, s') \<Longrightarrow> obs s' = obs s"
  by (auto simp: get_snapshot_def Let_def split: bind_splits if_splits prod.splits
      dest!: obs_silent0 obs_snapshot_child obs_receive_pipe obs_no_close)

lemma obs_write_output:
  "write_output K env args max_len fds out s = Some (x, s') \<Longrightarrow> obs s' = obs s"
  by (auto simp: write_output_def set_nonblock_def Let_def unseen_writers split: bind_splits if_splits
      dest!: obs_silent obs_CreateElfCore obs_close_fd obs_FlushPipe)

lemma obs_open_output: "open_output K name s = Some (x, s') \<Longrightarrow> obs s' = obs s"
  by (auto simp: open_output_def split: bind_splits if_splits dest!: obs_silent(1))

lemma obs_write_file:
  "write_file K env params fr d name selp sel s = Some (x, s') \<Longrightarrow> obs s' = obs s"
  by (auto simp: write_file_def Let_def split: bind_splits if_splits
      dest!: obs_CreatePipeline obs_open_output obs_close_fd obs_write_output)

end

end
