(* ===== verification/Dump_Safety.thy ===== *)
theory Dump_Safety
  imports Lister_Effects Dump_Effects Elf_Dump
begin

text \<open>
  Correctness of taking a dump, over all components: the threads that were stopped for the dump
  run again when an entry point returns, and what was written is the core file of the information
  collected while they were stopped.
\<close>

subsection \<open>Threads\<close>

interpretation dump_threads: dumping_observer K quiet "\<lambda>s. traced (calls s)" for K :: "'w kern"
  by unfold_locales (simp_all add: not_stops_quiet)

text \<open>What the library expects of the callback a user registers: it stops no thread.\<close>

definition callback_quiet :: "'w dump_env \<Rightarrow> bool" where
  "callback_quiet env \<longleftrightarrow>
     (\<forall>fn arg s rc s'. de_callback env fn arg s = Some (rc, s') \<longrightarrow> traced (calls s') \<subseteq> traced (calls s))"

lemma traced_user_callback:
  "callback_quiet env \<Longrightarrow> user_callback env params s = Some (rc, s') \<Longrightarrow> traced (calls s') \<subseteq> traced (calls s)"
  by (auto simp: user_callback_def callback_quiet_def Let_def split: if_splits)

lemma traced_collect_info:
  assumes "collect_info K env fr ps s = Some (info, s')"
  shows "traced (calls s') \<subseteq> traced (calls s)"
proof -
  obtain x s1 where t: "read_threads K (de_arch env) fr ps s = (x, s1)" by force
  note t1 = threads.obs_read_threads [OF t]
  show ?thesis
  proof (cases x)
    case (Some ts)
    obtain u s2 where u: "read_core_user K (de_arch env) ps ts s1 = (u, s2)" by force
    obtain pi s3 pst where "read_prpsinfo K (f_tid fr) s2 = Some (pi, s3)"
        "read_prstatus K (de_arch env) pi s3 = Some (pst, s')"
      using assms t Some u by (auto simp: collect_info_def split: bind_splits)
    then show ?thesis
      using t1 threads.obs_read_core_user [OF u] threads.obs_read_prpsinfo threads.obs_read_prstatus by fast
  next
    case None
    with assms t have "s' = snd (ResumeAllProcessThreads K ps s1)" by (simp add: collect_info_def)
    then show ?thesis using traced_Resume [of K ps s1] t1 by simp
  qed
qed

lemma traced_InternalGetCoreDump:
  assumes "InternalGetCoreDump K env params name sel fr ps s = Some (Inr r, s')" "callback_quiet env"
  shows "traced (calls s') \<subseteq> traced (calls s) - set ps"
proof -
  from assms(1) obtain crc s1 where c: "user_callback env params s = Some (crc, s1)"
    by (auto simp: InternalGetCoreDump_def split: bind_splits)
  have "\<exists>t. s' = snd (ResumeAllProcessThreads K ps t) \<and> traced (calls t) \<subseteq> traced (calls s1)"
  proof (cases "crc = 0")
    case True
    then obtain info s2 where i: "collect_info K env fr ps s1 = Some (info, s2)"
      using assms(1) c by (auto simp: InternalGetCoreDump_def split: bind_splits)
    then show ?thesis
      using assms(1) c True traced_collect_info [OF i]
      by (auto simp: InternalGetCoreDump_def Let_def split: bind_splits option.splits sum.splits if_splits
          dest!: dump_threads.obs_get_snapshot dump_threads.obs_write_file) blast+
  qed (use assms(1) c in \<open>auto simp: InternalGetCoreDump_def\<close>)
  then show ?thesis using traced_user_callback [OF assms(2) c] by (auto simp: traced_Resume)
qed

lemma dump_callback_releases:
  "dump_callback K env params name fr ps s = Some (rc, s') \<Longrightarrow> callback_quiet env \<Longrightarrow>
   traced (calls s') \<subseteq> traced (calls s) - set ps"
  by (auto simp: dump_callback_def split: bind_splits sum.splits dest!: traced_InternalGetCoreDump)

lemma resumes_only_dump: "callback_quiet env \<Longrightarrow> resumes_only (dump_callback K env params name fr)"
  unfolding resumes_only_def using dump_callback_releases by blast

subsection \<open>Output\<close>

lemma out_input_observer:
  "output_only K f out \<Longrightarrow> input_observer K (\<lambda>c. \<forall>b. c \<noteq> NR_write f b) (\<lambda>s. out (world s))"
  by unfold_locales (auto simp: output_only_def lss_syscall_def split: prod.splits)

context input_observer
begin

lemma obs_collect_info:
  assumes "collect_info K env fr ps s = Some (info, s')"
  shows "obs s' = obs s"
proof -
  obtain x s1 where t: "read_threads K (de_arch env) fr ps s = (x, s1)" by force
  show ?thesis
  proof (cases x)
    case (Some ts)
    obtain u s2 where u: "read_core_user K (de_arch env) ps ts s1 = (u, s2)" by force
    obtain pi s3 pst where "read_prpsinfo K (f_tid fr) s2 = Some (pi, s3)"
        "read_prstatus K (de_arch env) pi s3 = Some (pst, s')"
      using assms t Some u by (auto simp: collect_info_def split: bind_splits)
    then show ?thesis
      using obs_read_threads [OF t] obs_read_core_user [OF u] obs_read_prpsinfo obs_read_prstatus by metis
  next
    case None
    with assms t have "s' = snd (ResumeAllProcessThreads K ps s1)" by (simp add: collect_info_def)
    then show ?thesis using obs_read_threads [OF t] by simp
  qed
qed

text \<open>A dump into a file without a callback: everything seen happens in \<open>write_file\<close>.\<close>

lemma dump_callback_file:
  assumes "dump_callback K env params (Some name) fr ps s = Some (rc, s')"
    and "GetCoreDumpParameter F_callback_fn cp_callback_fn params = 0"
  shows "rc = -1 \<and> obs s' = obs s \<or>
    (\<exists>d t selp sel sel' t'. collect_info K env fr ps s = Some (Some d, t) \<and> obs t = obs s \<and>
       write_file K env params fr d name selp sel t = Some ((rc, sel'), t') \<and> obs s' = obs t')"
proof -
  from assms obtain info t where i: "collect_info K env fr ps s = Some (info, t)"
    by (auto simp: dump_callback_def InternalGetCoreDump_def user_callback_def Let_def split: bind_splits)
  show ?thesis
  proof (cases info)
    case None
    with assms i obs_collect_info [OF i] show ?thesis
      by (auto simp: dump_callback_def InternalGetCoreDump_def user_callback_def Let_def)
  next
    case (Some d)
    then obtain selp sel sel' t' where "write_file K env params fr d name selp sel t = Some ((rc, sel'), t')"
        "s' = snd (ResumeAllProcessThreads K ps t')"
      using assms i by (auto simp: dump_callback_def InternalGetCoreDump_def user_callback_def Let_def
          split: bind_splits)
    then show ?thesis using i Some obs_collect_info [OF i] obs_Resume by metis
  qed
qed

end

text \<open>Opening the output file gives the descriptor \<open>f\<close>, or fails.\<close>

definition opens_as :: "'w kern \<Rightarrow> byte list \<Rightarrow> int \<Rightarrow> bool" where
  "opens_as K name f \<longleftrightarrow>
     (\<forall>fl md w r w'. K (NR_open name fl md) w = (r, w') \<longrightarrow> fst (LSS_RETURN_int (kret r) 0) \<in> {f, -1})"

lemma opens_as_sys_open:
  assumes "opens_as K name f" "NO_INTR (sys_open K name fl md) s = Some ((fd, r), s')"
  shows "fd = f \<or> fd = -1"
proof -
  obtain s0 where "sys_open K name fl md s0 = ((fd, r), s')"
    using NO_INTR_last [OF assms(2), of "\<lambda>_. True"] by auto
  then show ?thesis
    using assms(1) unfolding opens_as_def
    by (fastforce simp: sys_open_def sys_defs LSS_RETURN_int_def split: prod.splits if_splits)
qed

lemma open_output_fd:
  assumes "opens_as K name f" "open_output K name s = Some (fd, s')"
  shows "fd = f \<or> fd = -1"
  using assms(2) by (auto simp: open_output_def split: bind_splits if_splits dest: opens_as_sys_open [OF assms(1)])

text \<open>The hypotheses about the output file \<open>f\<close> that the results below share.\<close>

definition output_file :: "'w kern \<Rightarrow> memory \<Rightarrow> byte list \<Rightarrow> int \<Rightarrow> ('w \<Rightarrow> byte list) \<Rightarrow> bool" where
  "output_file K m name f out \<longleftrightarrow> 0 \<le> f \<and> write_ok K m f out \<and> output_only K f out \<and> pipe_fresh K f \<and> opens_as K name f"

definition image_part ::
    "('w \<Rightarrow> byte list) \<Rightarrow> 'w st \<Rightarrow> 'w st \<Rightarrow> memory \<Rightarrow> arch \<Rightarrow> core_args \<Rightarrow> nat \<Rightarrow> bool \<Rightarrow> bool" where
  "image_part out s s' m a args n all \<longleftrightarrow> (\<exists>img k. some_image m a args img \<and> k \<le> length img \<and> k \<le> n \<and>
     out (world s') = out (world s) @ take k img \<and> (all \<longrightarrow> k = length img \<or> k = n))"

lemma image_part_none:
  assumes "out (world s') = out (world s)" "all \<longrightarrow> n = 0"
  shows "image_part out s s' m a args n all"
proof -
  obtain img where "some_image m a args img" using some_image_exists by blast
  then show ?thesis unfolding image_part_def using assms by (intro exI [of _ img] exI [of _ 0]) auto
qed

lemma image_part_out:
  assumes "image_part out s s' m a args n all" "out (world s) = out (world t)" "out (world s') = out (world t')"
  shows "image_part out t t' m a args n all"
  using assms unfolding image_part_def by metis

lemma image_part_mono:
  "image_part out s s' m a args n all \<Longrightarrow> (all' \<longrightarrow> all) \<Longrightarrow> image_part out s s' m a args n all'"
  unfolding image_part_def by blast

lemma write_output_plain:
  assumes f: "output_file K (de_memory env) name f out"
    and run: "write_output K env args n (-1, -1) f s = Some ((rc, fds), s')"
  shows "(rc = 0 \<or> rc = -1) \<and> fds = (-1, -1) \<and>
    image_part out s s' (de_memory env) (de_arch env) args (unat n) (rc = 0)"
proof -
  let ?h = "\<lparr>max_length = unat n, write_fd = -1, compressed_fd = -1, out_fd = f\<rparr>"
  have ok: "output_only K (out_fd ?h) out" "pipe_fresh K (out_fd ?h)" "out_fd ?h \<noteq> -1"
    "write_ok K (de_memory env) (out_fd ?h) out" using f by (auto simp: output_file_def)
  obtain h' where c: "CreateElfCore K (LimitWriter K) PipeDone (de_arch env) (de_memory env) args (?h, s) = Some (rc, h', s')"
    and fds: "fds = (-1, -1)"
    using run by (auto simp: write_output_def Let_def split: bind_splits)
  note lim = CreateElfCore_limit [OF ok c]
  from limit.CreateElfCore_output [OF ok c] obtain img k where img: "some_image (de_memory env) (de_arch env) args img"
      "k \<le> length img" "out (world s') = out (world s) @ take k img" "rc = 0 \<and> \<not> PipeDone h' \<longrightarrow> k = length img"
    and rc: "rc = 0 \<or> rc = -1" by blast
  have "k \<le> unat n" "PipeDone h' \<longrightarrow> k = unat n" using lim img(2,3) by auto
  then show ?thesis unfolding image_part_def using img rc fds by blast
qed

lemma write_file_plain:
  assumes f: "output_file K (de_memory env) name f out"
    and params: "GetCoreDumpParameter F_compressors cp_compressors params = 0"
      "GetCoreDumpParameter F_flags cp_flags params AND COREDUMPER_FLAG_LIMITED_BY_PRIORITY = 0"
    and run: "write_file K env params fr d name selp sel s = Some ((rc, sel'), s')"
  shows "(rc = 0 \<or> rc = -1) \<and> image_part out s s' (de_memory env) (de_arch env) (dump_args env params fr d 0)
    (unat (GetCoreDumpParameter F_max_length cp_max_length params)) (rc = 0)"
proof -
  let ?n = "GetCoreDumpParameter F_max_length cp_max_length params"
  have o: "output_only K f out" and f0: "0 \<le> f" and op: "opens_as K name f" using f by (auto simp: output_file_def)
  have cl: "close_fd K (-1) t = Some t" for t :: "'a st" by (simp add: close_fd_def)
  have cl_out: "out (world t') = out (world t)" if "close_fd K g t = Some t'" for g t t'
    by (rule input_observer.obs_close_open_fd [OF out_input_observer [OF o] that])
  show ?thesis
  proof (cases "?n = 0")
    case True
    then show ?thesis
      using run params by (auto simp: write_file_def GetParentRegs_def Let_def cl split: if_splits intro!: image_part_none)
  next
    case n: False
    then obtain fd s1 where 1: "open_output K name s = Some (fd, s1)"
      using run params by (auto simp: write_file_def GetParentRegs_def Let_def word_neq_0_conv split: bind_splits if_splits)
    have o1: "out (world s1) = out (world s)"
      using 1 io_observer.obs_silent(1) [OF out_observer [OF o]] by (fastforce simp: open_output_def split: bind_splits if_splits)
    show ?thesis
    proof (cases "fd = f")
      case False
      then have "fd = -1" using open_output_fd [OF op 1] by simp
      then show ?thesis using run params 1 n o1
        by (auto simp: write_file_def GetParentRegs_def Let_def cl word_neq_0_conv split: if_splits intro!: image_part_none)
    next
      case True
      then obtain rc1 fds s2 where 2: "write_output K env (dump_args env params fr d 0) ?n (-1, -1) f s1 = Some ((rc1, fds), s2)"
        using run params 1 n f0 by (auto simp: write_file_def GetParentRegs_def Let_def word_neq_0_conv split: bind_splits if_splits)
      note w = write_output_plain [OF f 2]
      then obtain s3 where 3: "close_fd K f s2 = Some s3" "s' = s3\<lparr>errno := errno s2\<rparr>" "rc = (if rc1 < 0 then -1 else 0)"
        using run params 1 2 n f0 True
        by (auto simp: write_file_def GetParentRegs_def Let_def cl word_neq_0_conv split: bind_splits if_splits)
      have "out (world s') = out (world s2)" using 3 cl_out by simp
      then show ?thesis using w 3(3) image_part_out [OF _ o1, of s2] by auto
    qed
  qed
qed

subsection \<open>The entry points\<close>

text \<open>The parameters of \<open>WriteCoreDumpLimited\<close> do not depend on what was on the stack.\<close>

definition limited_params :: "u64 \<Rightarrow> CoreDumpParameters" where
  "limited_params n = \<lparr>cp_size = 72, cp_flags = 1, cp_max_length = n, cp_compressors = 0, cp_selected_compressor = 0,
     cp_notes = 0, cp_note_count = 0, cp_callback_fn = 0, cp_callback_arg = 0\<rparr>"

lemma Clear_all:
  "ClearCoreDumpParameters p = Some \<lparr>cp_size = 72, cp_flags = 0, cp_max_length = - 1, cp_compressors = 0,
     cp_selected_compressor = 0, cp_notes = 0, cp_note_count = 0, cp_callback_fn = 0, cp_callback_arg = 0\<rparr>"
  by (simp add: ClearCoreDumpParameters_def ClearCoreDumpParametersInternal_def SetCoreDumpParameter_def
      CoreDumpParametersHas_def memset_params_def memset_field_inside)

lemma WriteCoreDumpLimited_run:
  "WriteCoreDumpLimited K env cs name n s =
   (let (fr, s) = FRAME K (cs_label cs) (cs_machine cs) s
    in ListAllProcessThreads K (dump_callback K env (limited_params n) (Some name) fr) (cs_addr cs) s)"
  by (simp add: WriteCoreDumpLimited_def Clear_all SetCoreDumpLimited_def SetCoreDumpParameter_def
      CoreDumpParametersHas_def WriteCoreDumpFunction_def limited_params_def Let_def split: prod.splits)

lemma limited_params_get [simp]:
  "GetCoreDumpParameter F_callback_fn cp_callback_fn (limited_params n) = 0"
  "GetCoreDumpParameter F_compressors cp_compressors (limited_params n) = 0"
  "GetCoreDumpParameter F_max_length cp_max_length (limited_params n) = n"
  "GetCoreDumpParameter F_flags cp_flags (limited_params n) AND COREDUMPER_FLAG_LIMITED_BY_PRIORITY = 0"
  by (simp_all add: GetCoreDumpParameter_def CoreDumpParametersHas_def limited_params_def)

lemma FRAME_observed:
  assumes "FRAME K lab mc s = (fr, s1)"
  shows "traced (calls s1) = traced (calls s)"
    and "output_only K f out \<Longrightarrow> out (world s1) = out (world s)"
  using assms traced_gettid [of K s] input_observer.obs_gettid [OF out_input_observer, of K f out s]
  by (auto simp: FRAME_def split: prod.splits)

lemma WriteCoreDumpLimited_result:
  assumes f: "output_file K (de_memory env) name f out" and t: "traced (calls s) = {}"
    and run: "WriteCoreDumpLimited K env cs name n s = Some (rc, s')"
  shows "rc = -1 \<and> out (world s') = out (world s) \<or>
    (\<exists>self ps t d t'. all_stopped self ps t \<and>
       collect_info K env (fst (FRAME K (cs_label cs) (cs_machine cs) s)) ps t = Some (Some d, t') \<and>
       image_part out s s' (de_memory env) (de_arch env)
         (dump_args env (limited_params n) (fst (FRAME K (cs_label cs) (cs_machine cs) s)) d 0) (unat n) (rc = 0)) \<and>
    (rc = 0 \<or> rc = -1)"
proof -
  obtain fr s1 where fr: "FRAME K (cs_label cs) (cs_machine cs) s = (fr, s1)" by force
  have o: "output_only K f out" using f by (simp add: output_file_def)
  have t1: "traced (calls s1) = {}" and o1: "out (world s1) = out (world s)"
    using FRAME_observed(1) [OF fr] FRAME_observed(2) [OF fr o] t by auto
  let ?cb = "dump_callback K env (limited_params n) (Some name) fr"
  have "ListAllProcessThreads K ?cb (cs_addr cs) s1 = Some (rc, s')"
    using run fr by (simp add: WriteCoreDumpLimited_run)
  from ListAll_guarded [OF this t1] obtain self where
    "ListAllProcessThreads K (guarded (all_stopped self) ?cb) (cs_addr cs) s1 = Some (rc, s')" by blast
  from input_observer.one_call_ListAll [OF out_input_observer [OF o] this]
  consider (none) "rc = -1" "out (world s') = out (world s1)"
    | (cb) ps u rc' u' where "guarded (all_stopped self) ?cb ps u = Some (rc', u')" "out (world u) = out (world s1)"
        "out (world u') = out (world s')" "rc = rc' \<or> rc = -1"
    unfolding input_observer.one_call_def [OF out_input_observer [OF o]] by blast
  then show ?thesis
  proof cases
    case cb
    have st: "all_stopped self ps u" and run: "?cb ps u = Some (rc', u')"
      using cb(1) by (auto simp: guarded_def split: if_splits)
    from input_observer.dump_callback_file [OF out_input_observer [OF o] run limited_params_get(1)]
    consider (skip) "rc' = -1" "out (world u') = out (world u)"
      | (written) d t selp sel sel' t' where "collect_info K env fr ps u = Some (Some d, t)" "out (world t) = out (world u)"
          "write_file K env (limited_params n) fr d name selp sel t = Some ((rc', sel'), t')" "out (world u') = out (world t')"
      by blast
    then show ?thesis
    proof cases
      case skip
      then show ?thesis using cb o1 by auto
    next
      case written
      have w: "rc' = 0 \<or> rc' = -1" "image_part out t t' (de_memory env) (de_arch env) (dump_args env (limited_params n) fr d 0) (unat n) (rc' = 0)"
        using write_file_plain [OF f limited_params_get(2,4) written(3)] by auto
      have "image_part out s s' (de_memory env) (de_arch env) (dump_args env (limited_params n) fr d 0) (unat n) (rc' = 0)"
        by (rule image_part_out [OF w(2)]) (use written cb o1 in auto)
      then have "image_part out s s' (de_memory env) (de_arch env) (dump_args env (limited_params n) fr d 0) (unat n) (rc = 0)"
        using cb(4) image_part_mono by (metis one_neq_neg_one zero_neq_neg_one)
      then show ?thesis using st written(1) w(1) cb(4) fr by (metis fst_conv)
    qed
  qed (use o1 in auto)
qed

lemma ListAll_dump:
  assumes "ListAllProcessThreads K (dump_callback K env params name fr) addr s = Some (rc, s')"
    "traced (calls s) = {}" "callback_quiet env"
  shows "rc = -1 \<or> traced (calls s') = {}"
  using ListAll_result [OF assms(1,2) resumes_only_dump [OF assms(3)]] by blast

lemmas entry_defs = GetCoreDump_def GetCoreDumpWith_def GetCompressedCoreDump_def WriteCoreDump_def WriteCoreDumpWith_def
  WriteCoreDumpLimited_def WriteCoreDumpLimitedByPriority_def WriteCompressedCoreDump_def
  GetCoreDumpFunction_def WriteCoreDumpFunction_def

end
