(* ===== verification/Dump_Run.thy ===== *)
theory Dump_Run
  imports Dump_Safety
begin

text \<open>
  A complete run of \<open>WriteCoreDumpLimited\<close> on a scripted kernel: two threads are stopped and their
  state collected, four bytes of the core file are written and exhaust the limit, and the
  threads are resumed.
\<close>

definition demo_env :: "(kreply list \<times> byte list) dump_env" where
  "demo_env = \<lparr>de_arch = X86_64, de_memory = demo_memory, de_compressors = (\<lambda>_. end_entry),
     de_notes = (\<lambda>_. \<lparr>note_name = [], note_type = 0, description = []\<rparr>), de_callback = (\<lambda>_ _ _. None), de_openmax = 0,
     de_pagesize = 16, de_PATH = None\<rparr>"

definition demo_site :: call_site where
  "demo_site = \<lparr>cs_machine = \<lparr>gpr = (\<lambda>_. 0), segr = (\<lambda>_. 0), rflags = 0, stack = [], frame = replicate 27 0\<rparr>, cs_label = (0, 0),
     cs_addr = 1000, cs_params = limited_params 9\<rparr>"

lemma peek_user_run:
  "\<exists>cs'. peek_user scripted pid is u \<lparr>errno = e, calls = cs, world = (replicate (length is) (ret (- 5)) @ rs, w)\<rparr> =
     (u, \<lparr>errno = (if is = [] then e else 5), calls = cs', world = (rs, w)\<rparr>)"
proof (induction "is" arbitrary: e cs)
  case (Cons i "is")
  show ?case using Cons [of 5] by (simp add: sys_ptrace_def lister_run del: scripted.simps)
qed simp

text \<open>The registers of both threads.\<close>

lemma read_threads_run:
  "f_tid fr = 7 \<Longrightarrow> \<exists>cs' ts. read_threads scripted X86_64 fr [7, 8] \<lparr>errno = e, calls = cs, world = ([ret 0, ret 0, ret 0, ret 0] @ rs, w)\<rparr> =
     (Some ts, \<lparr>errno = f_errno fr, calls = cs', world = (rs, w)\<rparr>)"
  by (simp add: read_thread_def sys_ptrace_def SET_FRAME_def lister_run Let_def del: scripted.simps)

definition peek_script :: "kreply list" where
  "peek_script = replicate 232 (ret (- 5))"

lemma sizeof_core_user_4: "sizeof_core_user X86_64 div 4 = 232" by simp

lemma read_core_user_run:
  "\<exists>cs' u. read_core_user scripted X86_64 [7, 8] ts \<lparr>errno = e, calls = cs, world = (peek_script @ rs, w)\<rparr> =
     (u, \<lparr>errno = 5, calls = cs', world = (rs, w)\<rparr>)"
  using peek_user_run [of 7 "map (\<lambda>i. 4 * i) [0..<232]" "replicate (sizeof_core_user X86_64) 0" e cs rs w]
  by (auto simp: read_core_user_def peek_script_def sizeof_core_user_4 simp del: upt_Suc peek_user.simps replicate.simps)


definition info_script :: "kreply list" where
  "info_script = [ret 0, ret 0, ret 0, ret 0] @ peek_script @ [ret 0, ret 0, ret 0, ret 0, ret 0, ret 0, ret 0] @ [ret (- 2), ret (- 2)]"

lemma read_prpsinfo_run:
  "\<exists>cs' pi. read_prpsinfo scripted pid \<lparr>errno = e, calls = cs, world = ([ret 0, ret 0, ret 0, ret 0, ret 0, ret 0, ret 0, ret (- 2)] @ rs, w)\<rparr> =
     Some (pi, \<lparr>errno = 2, calls = cs', world = (rs, w)\<rparr>)"
  by (simp add: read_prpsinfo_def read_cmdline_def sys_open_def lister_run Let_def del: scripted.simps)

lemma read_prstatus_run:
  "\<exists>cs' pst. read_prstatus scripted a pi \<lparr>errno = e, calls = cs, world = (ret (- 2) # rs, w)\<rparr> =
     Some (pst, \<lparr>errno = 2, calls = cs', world = (rs, w)\<rparr>)"
  by (simp add: read_prstatus_def sys_open_def lister_run Let_def del: scripted.simps)

lemma collect_info_run:
  assumes "f_tid fr = 7"
  shows "\<exists>cs' d. collect_info scripted demo_env fr [7, 8] \<lparr>errno = e, calls = cs, world = (info_script @ rs, w)\<rparr> =
     Some (Some d, \<lparr>errno = 2, calls = cs', world = (rs, w)\<rparr>)"
proof -
  obtain cs1 ts where 1: "read_threads scripted X86_64 fr [7, 8] \<lparr>errno = e, calls = cs, world = (info_script @ rs, w)\<rparr> =
     (Some ts, \<lparr>errno = f_errno fr, calls = cs1, world = (peek_script @ [ret 0, ret 0, ret 0, ret 0, ret 0, ret 0, ret 0] @ [ret (- 2), ret (- 2)] @ rs, w)\<rparr>)"
    using read_threads_run [OF assms] unfolding info_script_def append.assoc by blast
  obtain cs2 u where 2: "read_core_user scripted X86_64 [7, 8] ts
      \<lparr>errno = f_errno fr, calls = cs1, world = (peek_script @ [ret 0, ret 0, ret 0, ret 0, ret 0, ret 0, ret 0] @ [ret (- 2), ret (- 2)] @ rs, w)\<rparr> =
     (u, \<lparr>errno = 5, calls = cs2, world = ([ret 0, ret 0, ret 0, ret 0, ret 0, ret 0, ret 0] @ [ret (- 2), ret (- 2)] @ rs, w)\<rparr>)"
    using read_core_user_run by blast
  obtain cs3 pi where 3: "read_prpsinfo scripted (f_tid fr)
      \<lparr>errno = 5, calls = cs2, world = ([ret 0, ret 0, ret 0, ret 0, ret 0, ret 0, ret 0] @ [ret (- 2), ret (- 2)] @ rs, w)\<rparr> =
     Some (pi, \<lparr>errno = 2, calls = cs3, world = (ret (- 2) # rs, w)\<rparr>)"
    using read_prpsinfo_run [of "f_tid fr" 5 cs2 "ret (- 2) # rs" w] by auto
  obtain cs4 pst where "read_prstatus scripted X86_64 pi \<lparr>errno = 2, calls = cs3, world = (ret (- 2) # rs, w)\<rparr> =
     Some (pst, \<lparr>errno = 2, calls = cs4, world = (rs, w)\<rparr>)" using read_prstatus_run by blast
  then show ?thesis using 1 2 3 by (simp add: collect_info_def demo_env_def)
qed

definition file_script :: "kreply list" where
  "file_script = [ret 6, \<lparr>kret = 0, kbytes = [], kints = [4, 5]\<rparr>, ret 3, ret 0, ret 0, ret (- 2), ret (- 9), ret 3,
     \<lparr>kret = 2, kbytes = [48, 48], kints = []\<rparr>, ret 0, ret 4, ret 0, ret 0, ret 0]"


lemma sys0_long_scripted:
  "\<not> outputs c \<Longrightarrow> fix_reply c r = r \<Longrightarrow> sys0_long scripted c e0 \<lparr>errno = e, calls = cs, world = (r # rs, w)\<rparr> =
   (case LSS_RETURN (kret r) e0 of (rc, e1) \<Rightarrow> ((rc, r, e1), \<lparr>errno = e, calls = cs @ [(c, r)], world = (rs, w)\<rparr>))"
  by (simp add: sys_defs scripted_input del: scripted.simps)

lemmas file_run = lister_run sys0_long_scripted MY_NO_INTR_once c_read_def

text \<open>Reading the memory map: no line in \<open>maps\<close>, no auxiliary vector, and an empty list of mappings.\<close>

lemma dump_mappings_run:
  "\<exists>cs'. dump_mappings scripted wr X86_64 m args lb (h, \<lparr>errno = e, calls = cs,
     world = ([ret 3, ret 0, ret 0, ret (- 2), ret (- 9), ret 3, \<lparr>kret = 2, kbytes = [48, 48], kints = []\<rparr>, ret 0] @ rs, w)\<rparr>) =
   write_core scripted wr X86_64 args 0 [] [] (h, \<lparr>errno = 9, calls = cs', world = (rs, w)\<rparr>)"
  by (rule exI) (simp add: dump_mappings_def sys_open_def sys_close_def count_lines.simps GetChar_def CountAUXV_def read_smaps_def
      find_vdso_def vdso_extra_def file_run Let_def del: scripted.simps)

text \<open>The first four bytes of the file.\<close>

definition elf_head :: "byte list" where
  "elf_head = take 4 (enc_Ehdr (core_ehdr X86_64 1))"

lemma write_core_run:
  "\<exists>cs'. write_core scripted (LimitWriter scripted) X86_64 args 0 [] []
     (\<lparr>max_length = 4, write_fd = a, compressed_fd = b, out_fd = 6\<rparr>, \<lparr>errno = e, calls = cs, world = (ret 4 # rs, w)\<rparr>) =
   Some (False, \<lparr>max_length = 0, write_fd = a, compressed_fd = b, out_fd = 6\<rparr>, \<lparr>errno = e, calls = cs', world = (rs, w @ elf_head)\<rparr>)"
proof -
  let ?bs = "enc_Ehdr (l_ehdr (core_layout_of X86_64 args 0 [] []))"
  have "l_ehdr (core_layout_of X86_64 args 0 [] []) = core_ehdr X86_64 1"
    by (simp add: core_layout_of_def Let_def split: prod.splits)
  then have len: "length ?bs = 64" "take 4 ?bs = elf_head" using ehdr.enc_length [OF core_ehdr_ident] by (simp_all add: elf_head_def)
  have "length elf_head = 4" using arg_cong [OF len(2), of length] len(1) by simp
  with len have "\<exists>cs'. LimitWriter scripted \<lparr>max_length = 4, write_fd = a, compressed_fd = b, out_fd = 6\<rparr> (Local ?bs)
     \<lparr>errno = e, calls = cs, world = (ret 4 # rs, w)\<rparr> =
     Some ((4, \<lparr>max_length = 0, write_fd = a, compressed_fd = b, out_fd = 6\<rparr>), \<lparr>errno = e, calls = cs', world = (rs, w @ elf_head)\<rparr>)"
    by (simp add: LimitWriter_def c_write_def c_write_loop.simps MY_NO_INTR_once sys0_long_def lss_syscall_def LSS_RETURN_def Let_def)
  then show ?thesis using len by (fastforce simp: write_core_def put_def Let_def)
qed


lemma write_file_run:
  "\<exists>cs'. write_file scripted demo_env (limited_params 4) fr d (str ''core'') selp sel
      \<lparr>errno = e, calls = cs, world = (file_script @ rs, w)\<rparr> =
    Some ((0, if selp \<noteq> 0 then 0 else sel), \<lparr>errno = 9, calls = cs', world = (rs, w @ elf_head)\<rparr>)"
proof -
  let ?args = "dump_args demo_env (limited_params 4) fr d 0"
  let ?h = "\<lparr>max_length = 4, write_fd = -1, compressed_fd = -1, out_fd = 6\<rparr>"
  have "\<exists>cs'. CreateElfCore scripted (LimitWriter scripted) PipeDone X86_64 demo_memory ?args
      (?h, \<lparr>errno = e, calls = cs, world = (tl file_script @ rs, w)\<rparr>) =
      Some (0, ?h\<lparr>max_length := 0\<rparr>, \<lparr>errno = 9, calls = cs', world = (ret 0 # rs, w @ elf_head)\<rparr>)" for cs
  proof -
    let ?cs = "cs @ [(NR_pipe, \<lparr>kret = 0, kbytes = [], kints = [4, 5]\<rparr>)]"
    obtain cs1 where 1: "dump_mappings scripted (LimitWriter scripted) X86_64 demo_memory ?args (4, 5)
       (?h, \<lparr>errno = e, calls = ?cs, world = ([ret 3, ret 0, ret 0, ret (- 2), ret (- 9), ret 3,
          \<lparr>kret = 2, kbytes = [48, 48], kints = []\<rparr>, ret 0] @ ret 4 # [ret 0, ret 0, ret 0] @ rs, w)\<rparr>) =
       write_core scripted (LimitWriter scripted) X86_64 ?args 0 [] []
         (?h, \<lparr>errno = 9, calls = cs1, world = (ret 4 # [ret 0, ret 0, ret 0] @ rs, w)\<rparr>)"
      by (rule exE [OF dump_mappings_run])
    obtain cs2 where "write_core scripted (LimitWriter scripted) X86_64 ?args 0 [] []
         (?h, \<lparr>errno = 9, calls = cs1, world = (ret 4 # [ret 0, ret 0, ret 0] @ rs, w)\<rparr>) =
       Some (False, ?h\<lparr>max_length := 0\<rparr>, \<lparr>errno = 9, calls = cs2, world = ([ret 0, ret 0, ret 0] @ rs, w @ elf_head)\<rparr>)"
      using write_core_run [of ?args "-1" "-1" 9 cs1 "[ret 0, ret 0, ret 0] @ rs" w] by auto
    with 1 show ?thesis
      by (simp add: CreateElfCore_def sys_pipe_def sys_close_def pipe_fds_def file_script_def file_run PipeDone_def Let_def
          del: scripted.simps)
  qed
  from this [of "cs @ [(NR_open (str ''core'') (O_CREAT_TRUNC + O_LARGEFILE) 0x180, ret 6)]"] show ?thesis
    by (auto simp: write_file_def GetParentRegs_def open_output_def sys_open_def close_fd_def sys_close_def write_output_def
        demo_env_def file_script_def file_run Let_def simp del: scripted.simps)
qed

lemma dump_callback_run:
  assumes "f_tid fr = 7"
  shows "callback_runs (dump_callback scripted demo_env (limited_params 4) (Some (str ''core'')) fr)
    (info_script @ file_script @ resume_script) e w 0 9 (w @ elf_head)"
  unfolding callback_runs_def
proof (intro allI)
  fix cs rs
  obtain cs1 d where 1: "collect_info scripted demo_env fr [7, 8]
      \<lparr>errno = e, calls = cs, world = (info_script @ file_script @ resume_script @ rs, w)\<rparr> =
     Some (Some d, \<lparr>errno = 2, calls = cs1, world = (file_script @ resume_script @ rs, w)\<rparr>)"
    using collect_info_run [OF assms] by blast
  obtain cs2 where 2: "write_file scripted demo_env (limited_params 4) fr d (str ''core'') 0 0
      \<lparr>errno = 2, calls = cs1, world = (file_script @ resume_script @ rs, w)\<rparr> =
    Some ((0, 0), \<lparr>errno = 9, calls = cs2, world = (resume_script @ rs, w @ elf_head)\<rparr>)"
    using write_file_run [of fr d 0 0 2 cs1 "resume_script @ rs" w] by auto
  obtain cs3 where "ResumeAllProcessThreads scripted [7, 8] \<lparr>errno = 9, calls = cs2, world = (resume_script @ rs, w @ elf_head)\<rparr> =
     (True, \<lparr>errno = 9, calls = cs3, world = (rs, w @ elf_head)\<rparr>)"
    using resume_run(1) [of 9 cs2 rs "w @ elf_head"] by auto
  moreover have "GetCoreDumpParameter F_selected_compressor cp_selected_compressor (limited_params 4) = 0"
    by (simp add: GetCoreDumpParameter_def limited_params_def)
  ultimately show "\<exists>cs'. dump_callback scripted demo_env (limited_params 4) (Some (str ''core'')) fr [7, 8]
       \<lparr>errno = e, calls = cs, world = ((info_script @ file_script @ resume_script) @ rs, w)\<rparr> =
      Some (0, \<lparr>errno = 9, calls = cs', world = (rs, w @ elf_head)\<rparr>)"
    using 1 2 by (simp add: dump_callback_def InternalGetCoreDump_def user_callback_def)
qed

definition dump_script :: "kreply list" where
  "dump_script = ret 7 # call_script (info_script @ file_script @ resume_script)"

lemma dump_run:
  "\<exists>cs'. WriteCoreDumpLimited scripted demo_env demo_site (str ''core'') 4 (script_start dump_script) =
    Some (0, \<lparr>errno = 9, calls = cs', world = ([], elf_head)\<rparr>)"
proof -
  obtain fr cs1 where fr: "FRAME scripted (cs_label demo_site) (cs_machine demo_site) (script_start dump_script) =
      (fr, \<lparr>errno = 0, calls = cs1, world = (call_script (info_script @ file_script @ resume_script), [])\<rparr>)" "f_tid fr = 7"
    by (simp add: FRAME_def sys_gettid_def script_start_def dump_script_def lister_run Let_def del: scripted.simps)
  from call_returns [OF dump_callback_run [OF fr(2), of 9 "[]"], of 0 cs1] fr(1) show ?thesis
    by (simp add: WriteCoreDumpLimited_run demo_site_def)
qed

text \<open>Descriptor 6 of the scripted kernel is an output file.\<close>

lemma scripted_file: "output_file scripted demo_memory (str ''core'') 6 snd"
proof -
  have w: "write_ok scripted demo_memory 6 snd"
    unfolding write_ok_def
  proof (intro allI impI)
    fix b w r w'
    assume "scripted (NR_write 6 b) w = (r, w')"
    then show "- 4095 \<le> sint (kret r) \<and> sint (kret r) < 0 \<and> snd w' = snd w \<or>
       0 \<le> sint (kret r) \<and> sint (kret r) \<le> int (buf_len b) \<and>
       snd w' = snd w @ take (nat (sint (kret r))) (buf_bytes demo_memory b)"
      by (cases "(NR_write 6 b, w)" rule: scripted.cases) (auto simp: Let_def)
  qed
  have o: "output_only scripted 6 snd"
    unfolding output_only_def
  proof (intro allI impI)
    fix c w r w'
    assume "scripted c w = (r, w')" "\<forall>b. c \<noteq> NR_write 6 b"
    then show "snd w' = snd w"
      by (cases "(c, w)" rule: scripted.cases) (auto split: syscall.splits if_splits)
  qed
  have p: "pipe_fresh scripted 6"
    unfolding pipe_fresh_def
  proof (intro allI impI)
    fix w r w'
    assume "scripted NR_pipe w = (r, w')"
    then show "6 \<notin> set (take 2 (kints r))"
      by (cases "(NR_pipe, w)" rule: scripted.cases) (auto dest!: in_set_takeD split: if_splits)
  qed
  have "opens_as scripted (str ''core'') 6"
    unfolding opens_as_def
  proof (intro allI impI)
    fix fl md w r w'
    assume "scripted (NR_open (str ''core'') fl md) w = (r, w')"
    then show "fst (LSS_RETURN_int (kret r) 0) \<in> {6, -1}"
      by (cases "(NR_open (str ''core'') fl md, w)" rule: scripted.cases) (auto simp: LSS_RETURN_int_def)
  qed
  with w o p show ?thesis by (simp add: output_file_def)
qed

end
