(* ===== verification/Dump_Info.thy ===== *)
theory Dump_Info
  imports Dump_Run
begin

text \<open>
  The information collected for a dump fits the structures of the core file, whatever the kernel
  replies: this is what the theorems about the contents of the file assume of their arguments.
\<close>

lemma length_scratch_bytes [simp]: "length (scratch_bytes n r) = n"
  by (simp add: scratch_bytes_def)

lemma length_pad_bytes [simp]: "length (pad_bytes n bs) = n"
  by (simp add: pad_bytes_def)

lemma length_overlay [simp]: "length (overlay i bs u) = length u"
  by (simp add: overlay_def)

lemma length_dec_regs [simp]: "length (dec_regs a bs) = nregs a"
  by (simp add: dec_regs_def)

lemma length_set_frame_regs [simp]: "length (set_frame_regs a fr r) = length (f_uregs fr)"
  by (cases a) simp_all

lemma get_fpregs_length: "get_fpregs K a pid s = (Some fp, s') \<Longrightarrow> length fp = sizeof_fpregs a"
  by (cases a) (auto split: prod.splits if_splits)

lemma read_thread_ok:
  assumes "read_thread K a fr pid s = (Some t, s')" "regs_ok a (f_uregs fr)"
  shows "thread_ok a t \<and> t_pid t = pid"
  using assms
  by (auto simp: read_thread_def thread_ok_def regs_ok_def SET_FRAME_def Let_def
      split: prod.splits option.splits if_splits dest!: get_fpregs_length)

lemma read_threads_ok:
  assumes "regs_ok a (f_uregs fr)"
  shows "read_threads K a fr ps s = (Some ts, s') \<Longrightarrow> list_all (thread_ok a) ts \<and> map t_pid ts = ps"
proof (induction ps arbitrary: s ts s')
  case (Cons p ps)
  then show ?case by (auto split: prod.splits option.splits dest!: read_thread_ok [OF _ assms])
qed simp

lemma peek_user_length: "peek_user K pid is u s = (u', s') \<Longrightarrow> length u' = length u"
  by (induction "is" arbitrary: u s) (fastforce split: prod.splits)+

lemma read_core_user_length: "read_core_user K a ps ts s = (u, s') \<Longrightarrow> length u = sizeof_core_user a"
  by (auto simp: read_core_user_def Let_def split: prod.splits dest!: peek_user_length)

lemma read_prpsinfo_ok: "read_prpsinfo K pid s = Some (p, s') \<Longrightarrow> prpsinfo_ok p"
  by (auto simp: read_prpsinfo_def read_cmdline_def prpsinfo_ok_def Let_def split: prod.splits bind_splits if_splits)

lemma read_prstatus_regs: "read_prstatus K a ps s = Some (p, s') \<Longrightarrow> regs_ok a (pr_reg p)"
  by (auto simp: read_prstatus_def parse_stat_def init_prstatus_def regs_ok_def Let_def split: prod.splits bind_splits if_splits)

lemma collect_info_ok:
  assumes "collect_info K env fr ps s = Some (Some d, s')" "distinct ps"
    "length (f_uregs fr) = nregs (de_arch env)" "k < 64" "de_pagesize env = 2 ^ k"
  shows "args_ok (de_arch env) (dump_args env params fr d prio) \<and>
    map t_pid (c_threads (dump_args env params fr d prio)) = ps \<and>
    length (enc_prstatus (c_prstatus (dump_args env params fr d prio))) = sizeof_prstatus (de_arch env)"
proof -
  have fr: "regs_ok (de_arch env) (f_uregs fr)" using assms(3) by (simp add: regs_ok_def)
  show ?thesis using assms(1,2,4,5)
    by (auto simp: collect_info_def args_ok_def dump_args_def Let_def split: prod.splits option.splits bind_splits
      dest!: read_threads_ok [OF fr] read_core_user_length read_prpsinfo_ok read_prstatus_regs intro: length_enc_prstatus)
qed

text \<open>
  C17: whatever \<open>ptrace\<close>, \<open>readlink\<close> and the files under \<open>/proc/self\<close> deliver, what is collected
  has the sizes of the C structures, and there is one entry for each of the threads that were
  stopped, in their order. So the arguments of \<open>CreateElfCore\<close> are well formed.
\<close>

theorem collected_args_ok:
  assumes "collect_info K env fr ps s = Some (Some d, s')" "distinct ps"
    "length (f_uregs fr) = nregs (de_arch env)" "k < 64" "de_pagesize env = 2 ^ k"
  shows "args_ok (de_arch env) (dump_args env params fr d prio) \<and>
    map t_pid (c_threads (dump_args env params fr d prio)) = ps \<and>
    length (enc_prstatus (c_prstatus (dump_args env params fr d prio))) = sizeof_prstatus (de_arch env)"
  using assms by (rule collect_info_ok)

theorem collected_args_ok_witness:
  "\<exists>s d s'. collect_info scripted demo_env \<lparr>f_uregs = replicate 27 0, f_errno = 0, f_tid = 7\<rparr> [7, 8] s = Some (Some d, s') \<and>
     args_ok X86_64 (dump_args demo_env (limited_params 4) \<lparr>f_uregs = replicate 27 0, f_errno = 0, f_tid = 7\<rparr> d 0) \<and>
     map t_pid (di_threads d) = [7, 8]"
proof -
  let ?fr = "\<lparr>f_uregs = replicate 27 0, f_errno = 0, f_tid = 7\<rparr>"
  obtain cs d where run: "collect_info scripted demo_env ?fr [7, 8] \<lparr>errno = 0, calls = [], world = (info_script @ [], [])\<rparr> =
     Some (Some d, \<lparr>errno = 2, calls = cs, world = ([], [])\<rparr>)" using collect_info_run [of ?fr 0 "[]" "[]" "[]"] by auto
  have "de_arch demo_env = X86_64" "de_pagesize demo_env = 2 ^ 4" by (simp_all add: demo_env_def)
  moreover have "c_threads (dump_args demo_env (limited_params 4) ?fr d 0) = di_threads d" by (simp add: dump_args_def)
  ultimately have "args_ok X86_64 (dump_args demo_env (limited_params 4) ?fr d 0) \<and> map t_pid (di_threads d) = [7, 8]"
    using collected_args_ok [OF run, of 4 "limited_params 4" 0] by simp
  with run show ?thesis by (intro exI conjI) auto
qed

end
