(* ===== verification/Thread_Search.thy ===== *)
theory Thread_Search
  imports Lister_Safety Calm_Calls
begin

text \<open>
  The search for threads is complete. New threads may appear while \<open>ListerThread\<close> reads the
  directories, as long as there is a thread that is not stopped; the search ends, and then it has
  stopped every thread of the process.
\<close>

subsection \<open>What the kernel shows of the threads\<close>

text \<open>
  The threads of the process and those that are attached or stopped; the threads whose entries are
  still to come in the pass over the open directory (\<open>pend\<close>), a bound on the calls of \<open>getdents\<close>
  left in it, and whether this is the directory \<open>task\<close>. \<open>self_pid\<close> is the lister, \<open>caller_pid\<close> the
  thread that waits for it, and \<open>all_pids\<close> bounds the tasks that ever show the marker.
\<close>

record 'w view =
  live       :: "'w \<Rightarrow> int set"
  attached   :: "'w \<Rightarrow> int set"
  stopped    :: "'w \<Rightarrow> int set"
  pend       :: "'w \<Rightarrow> int set"
  passes     :: "'w \<Rightarrow> nat"
  in_task    :: "'w \<Rightarrow> bool"
  exit_code  :: "'w \<Rightarrow> int"
  self_pid   :: int
  parent_pid :: int
  caller_pid :: int
  mark_fd    :: int
  mark_ino   :: u64
  dir_fd     :: int
  all_pids   :: "int set"

fun releases :: "int \<Rightarrow> syscall \<Rightarrow> bool" where
  "releases p (NR_ptrace req q a) = (q = p \<and> (req = PTRACE_DETACH \<or> req = PTRACE_KILL))"
| "releases p (NR_tkill q sg) = (q = p)"
| "releases p (NR_kill q sg) = (q = p)"
| "releases p (NR_exit code) = True"
| "releases p _ = False"

fun moves_dir :: "syscall \<Rightarrow> bool" where
  "moves_dir (NR_open p fl md) = True"
| "moves_dir (NR_lseek f off wh) = True"
| "moves_dir (NR_getdents f n) = True"
| "moves_dir _ = False"

text \<open>
  No thread ends during the search, and only a thread that is neither stopped nor waiting for the
  lister creates another one.
\<close>

definition threads_ok :: "'w kern \<Rightarrow> 'w view \<Rightarrow> bool" where
  "threads_ok K v \<longleftrightarrow> (\<forall>c w r w'. K c w = (r, w') \<longrightarrow>
       live v w \<subseteq> live v w' \<and> (live v w \<subseteq> insert (caller_pid v) (stopped v w) \<longrightarrow> live v w' = live v w) \<and>
       attached v w' = trace_step (c, r) (attached v w) \<and> (\<forall>p\<in>stopped v w. releases p c \<or> p \<in> stopped v w') \<and>
       (moves_dir c \<or> pend v w' = pend v w \<and> in_task v w' = in_task v w \<and> passes v w' = passes v w))"

text \<open>
  What the lister's calls find out about a thread of the process: it can be attached, it stops, it has the same
  memory and shows the marker.
\<close>

definition can_attach :: "'w kern \<Rightarrow> 'w view \<Rightarrow> bool" where
  "can_attach K v \<longleftrightarrow> (\<forall>p w r w'. K (NR_ptrace PTRACE_ATTACH p 0) w = (r, w') \<longrightarrow> p \<in> live v w \<longrightarrow> p \<notin> attached v w \<longrightarrow> kret r = 0)"

definition can_wait :: "'w kern \<Rightarrow> 'w view \<Rightarrow> bool" where
  "can_wait K v \<longleftrightarrow> (\<forall>p w r w'. K (NR_wait4 p WALL) w = (r, w') \<longrightarrow> p \<in> attached v w \<longrightarrow>
     (0 \<le> sint (kret r) \<longrightarrow> p \<in> stopped v w') \<and> (p \<in> live v w \<longrightarrow> sint (kret r) = - EINTR \<or> 0 < sint (kret r)))"

definition can_peek :: "'w kern \<Rightarrow> 'w view \<Rightarrow> bool" where
  "can_peek K v \<longleftrightarrow> (\<forall>p a i w r w'. K (NR_peekdata p a i) w = (r, w') \<longrightarrow> p \<in> live v w \<longrightarrow> p \<in> stopped v w \<longrightarrow> kret r = 0 \<and> kints r = [i])"

definition has_marker :: "'w kern \<Rightarrow> 'w view \<Rightarrow> bool" where
  "has_marker K v \<longleftrightarrow> (\<forall>name w r w'. K (NR_stat (str ''/proc/'' @ name @ marker_suffix (mark_fd v))) w = (r, w') \<longrightarrow>
     (\<forall>p\<in>live v w. name = local_itoa p \<longrightarrow> kret r = 0 \<and> stat_ino r = mark_ino v) \<and>
     (\<forall>p. entry_pid name = Some p \<longrightarrow> stat_ino r = mark_ino v \<longrightarrow>
        - 4095 \<le> sint (kret r) \<and> sint (kret r) < 0 \<or> p \<in> all_pids v))"

definition thread_calls_ok :: "'w kern \<Rightarrow> 'w view \<Rightarrow> bool" where
  "thread_calls_ok K v \<longleftrightarrow> can_attach K v \<and> can_wait K v \<and> can_peek K v \<and> has_marker K v"

lemma attach_live:
  "thread_calls_ok K v \<Longrightarrow> K (NR_ptrace PTRACE_ATTACH p 0) w = (r, w') \<Longrightarrow> p \<in> live v w \<Longrightarrow> p \<notin> attached v w \<Longrightarrow> kret r = 0"
  unfolding thread_calls_ok_def can_attach_def by blast

lemma wait_attached:
  assumes "thread_calls_ok K v" "K (NR_wait4 p WALL) w = (r, w')" "p \<in> attached v w"
  shows "0 \<le> sint (kret r) \<Longrightarrow> p \<in> stopped v w'" "p \<in> live v w \<Longrightarrow> sint (kret r) = - EINTR \<or> 0 < sint (kret r)"
  using assms unfolding thread_calls_ok_def can_wait_def by blast+

lemma peek_live:
  "thread_calls_ok K v \<Longrightarrow> K (NR_peekdata p a i) w = (r, w') \<Longrightarrow> p \<in> live v w \<Longrightarrow> p \<in> stopped v w \<Longrightarrow> kret r = 0 \<and> kints r = [i]"
  unfolding thread_calls_ok_def can_peek_def by blast

lemma stat_marker:
  assumes "thread_calls_ok K v" "K (NR_stat (str ''/proc/'' @ name @ marker_suffix (mark_fd v))) w = (r, w')"
  shows "p \<in> live v w \<Longrightarrow> name = local_itoa p \<Longrightarrow> kret r = 0 \<and> stat_ino r = mark_ino v"
    "entry_pid name = Some p \<Longrightarrow> stat_ino r = mark_ino v \<Longrightarrow> - 4095 \<le> sint (kret r) \<and> sint (kret r) < 0 \<or> p \<in> all_pids v"
  using assms unfolding thread_calls_ok_def has_marker_def by blast+

subsection \<open>Directories\<close>

text \<open>A directory entry as the kernel stores it: with its offset and padding.\<close>

record dir_entry = kernel_dirent +
  d_off :: u64
  d_pad :: "byte list"

definition enc_dirent :: "dir_entry \<Rightarrow> byte list" where
  "enc_dirent d = le64 (d_ino d) @ le64 (d_off d) @ le_nat 2 (d_reclen d) @ d_name d @ 0 # d_pad d"

definition wf_dirent :: "dir_entry \<Rightarrow> bool" where
  "wf_dirent d \<longleftrightarrow> d_reclen d = length (enc_dirent d) \<and> d_reclen d < 65536 \<and> 0 \<notin> set (d_name d)"

lemma length_enc_dirent [simp]: "length (enc_dirent d) = 19 + length (d_name d) + length (d_pad d)"
  by (simp add: enc_dirent_def)

lemma enc_dirent_not_Nil [simp]: "enc_dirent d \<noteq> []"
  by (simp add: enc_dirent_def)

lemma takeWhile_name: "0 \<notin> set xs \<Longrightarrow> takeWhile (\<lambda>c. c \<noteq> (0::byte)) (xs @ 0 # ys) = xs"
  by (induction xs) auto

lemma dirent_at_enc:
  assumes "wf_dirent d"
  shows "dirent_at (xs @ enc_dirent d @ ys) (length xs) = kernel_dirent.truncate d"
proof -
  have "d_reclen d mod 256 ^ 2 = d_reclen d" using assms by (simp add: wf_dirent_def)
  moreover have "takeWhile (\<lambda>c. c \<noteq> 0) (d_name d @ 0 # zs) = d_name d" for zs
    using assms by (intro takeWhile_name) (simp add: wf_dirent_def)
  ultimately show ?thesis
    by (simp add: dirent_at_def enc_dirent_def kernel_dirent.truncate_def Let_def nat_le_le_nat)
qed

abbreviation task_dir :: "'w view \<Rightarrow> byte list" where
  "task_dir v \<equiv> proc_dir (parent_pid v) @ str ''/task/''"

definition shown :: "'w view \<Rightarrow> 'w \<Rightarrow> int set" where
  "shown v w = (if in_task v w then live v w else live v w \<inter> {parent_pid v})"

text \<open>
  The directory \<open>task\<close> lists all threads, \<open>/proc\<close> only the main thread. A pass reports every thread that
  was there when it began.
\<close>

definition listing_ok :: "'w kern \<Rightarrow> 'w view \<Rightarrow> bool" where
  "listing_ok K v \<longleftrightarrow> 0 \<le> dir_fd v \<and>
     (\<forall>p w r w'. K (NR_open p O_DIRECTORY 0) w = (r, w') \<longrightarrow> p \<in> {task_dir v, str ''/proc/''} \<longrightarrow>
        sint (kret r) = - EINTR \<or> sint (kret r) = dir_fd v \<and> in_task v w' = (p = task_dir v) \<and> shown v w' \<subseteq> pend v w') \<and>
     (\<forall>w r w'. K (NR_fstat (dir_fd v)) w = (r, w') \<longrightarrow> kret r = 0 \<and> unat (stat_nlink r) < 2 ^ 30) \<and>
     (\<forall>w r w'. K (NR_lseek (dir_fd v) 0 0) w = (r, w') \<longrightarrow> in_task v w' = in_task v w \<and> shown v w' \<subseteq> pend v w') \<and>
     (\<forall>w r w'. K (NR_getdents (dir_fd v) 4096) w = (r, w') \<longrightarrow> in_task v w' = in_task v w \<and>
        (\<exists>ds. kbytes r = concat (map enc_dirent ds) \<and> sint (kret r) = int (length (kbytes r)) \<and> length (kbytes r) \<le> 4096 \<and>
           (\<forall>d\<in>set ds. wf_dirent d) \<and> (if ds = [] then pend v w = {} else passes v w' < passes v w) \<and>
           (\<forall>p\<in>pend v w. p \<in> pend v w' \<or> (\<exists>d\<in>set ds. d_ino d \<noteq> 0 \<and> d_name d = local_itoa p))))"

definition pids_ok :: "'w view \<Rightarrow> bool" where
  "pids_ok v \<longleftrightarrow> finite (all_pids v) \<and> card (all_pids v) < 2 ^ 30 \<and>
     (\<forall>w. parent_pid v \<in> live v w \<and> caller_pid v \<in> live v w \<and> self_pid v \<notin> live v w \<and> (\<forall>p\<in>live v w. 0 < p))"

definition search_ok :: "'w kern \<Rightarrow> ('w \<Rightarrow> nat) \<Rightarrow> 'w view \<Rightarrow> bool" where
  "search_ok K q v \<longleftrightarrow> calm K q \<and> threads_ok K v \<and> thread_calls_ok K v \<and> listing_ok K v \<and> pids_ok v"

subsection \<open>Steps that keep the threads\<close>

text \<open>
  What the calls outside the directory do, when the threads in \<open>P\<close> are stopped: these stay stopped,
  and no thread appears once all others are in \<open>P\<close>.
\<close>

definition holds :: "'w view \<Rightarrow> int set \<Rightarrow> 'w \<Rightarrow> 'w \<Rightarrow> bool" where
  "holds v P w w' \<longleftrightarrow> live v w \<subseteq> live v w' \<and> (P \<subseteq> stopped v w \<longrightarrow> P \<subseteq> stopped v w' \<and>
     (live v w \<subseteq> insert (caller_pid v) P \<longrightarrow> live v w' = live v w))"

definition same_dir :: "'w view \<Rightarrow> 'w \<Rightarrow> 'w \<Rightarrow> bool" where
  "same_dir v w w' \<longleftrightarrow> pend v w' = pend v w \<and> in_task v w' = in_task v w \<and> passes v w' = passes v w"

lemma holds_refl [simp]: "holds v P w w" "same_dir v w w"
  by (simp_all add: holds_def same_dir_def)

lemma holds_trans: "holds v P w w1 \<Longrightarrow> holds v P w1 w2 \<Longrightarrow> holds v P w w2"
  unfolding holds_def by auto

lemma same_dir_trans: "same_dir v w w1 \<Longrightarrow> same_dir v w1 w2 \<Longrightarrow> same_dir v w w2"
  unfolding same_dir_def by auto

lemma holds_call:
  assumes "threads_ok K v" "K c w = (r, w')" "\<forall>p\<in>P. \<not> releases p c"
  shows "holds v P w w'" "attached v w' = trace_step (c, r) (attached v w)"
proof -
  have t: "live v w \<subseteq> live v w'" "live v w \<subseteq> insert (caller_pid v) (stopped v w) \<longrightarrow> live v w' = live v w"
    "attached v w' = trace_step (c, r) (attached v w)" "\<forall>p\<in>stopped v w. releases p c \<or> p \<in> stopped v w'"
    using assms(1,2) unfolding threads_ok_def by blast+
  then show "holds v P w w'" using assms(3) unfolding holds_def by blast
  show "attached v w' = trace_step (c, r) (attached v w)" by (rule t)
qed

lemma same_dir_call: "threads_ok K v \<Longrightarrow> K c w = (r, w') \<Longrightarrow> \<not> moves_dir c \<Longrightarrow> same_dir v w w'"
  unfolding threads_ok_def same_dir_def by blast

lemma sys_world:
  "sys_int K c s = ((rc, r), s') \<Longrightarrow> K c (world s) = (r, world s')"
  "sys_long K c s = ((rc, r), s') \<Longrightarrow> K c (world s) = (r, world s')"
  by (auto simp: sys_defs split: prod.splits)

text \<open>A call that is neither \<open>ptrace\<close> nor about a directory, and sends no signal.\<close>

definition idle :: "syscall \<Rightarrow> bool" where
  "idle c \<longleftrightarrow> quiet c \<and> (\<forall>p. \<not> releases p c) \<and> \<not> moves_dir c"

definition idles :: "'w view \<Rightarrow> 'w \<Rightarrow> 'w \<Rightarrow> bool" where
  "idles v w w' \<longleftrightarrow> (\<forall>P. holds v P w w') \<and> same_dir v w w' \<and> attached v w' = attached v w"

lemma idles_refl [simp]: "idles v w w"
  by (simp add: idles_def)

lemma idles_trans: "idles v w w1 \<Longrightarrow> idles v w1 w2 \<Longrightarrow> idles v w w2"
  unfolding idles_def by (blast intro: holds_trans same_dir_trans trans)

lemma idle_simps [simp]:
  "idle (NR_close f)" "idle (NR_wait4 p opts)" "idle NR_sched_yield" "idle NR_gettid" "idle NR_getpid" "idle NR_getppid"
  "idle (NR_socket d t x)" "idle (NR_fcntl f cmd x)" "idle (NR_stat path)" "idle (NR_fstat f)" "idle (NR_peekdata p a i)"
  "idle NR_sigaltstack" "idle (NR_rt_sigaction sg flags ss n)" "idle (NR_prctl op x)" "idle (NR_rt_sigprocmask how ms n)" "idle (NR_read f n)"
  "idle (NR_clone fl)"
  by (simp_all add: idle_def)

lemma idles_call: "threads_ok K v \<Longrightarrow> K c w = (r, w') \<Longrightarrow> idle c \<Longrightarrow> idles v w w'"
  unfolding idles_def idle_def quiet_def using holds_call [of K v c w r w'] same_dir_call [of K v c w r w'] by auto

lemma idles_sys:
  "threads_ok K v \<Longrightarrow> sys_int K c s = (x, s') \<Longrightarrow> idle c \<Longrightarrow> idles v (world s) (world s')"
  "threads_ok K v \<Longrightarrow> sys_long K c s = (x, s') \<Longrightarrow> idle c \<Longrightarrow> idles v (world s) (world s')"
  by (cases x; auto dest: sys_world idles_call)+

lemma idles_NO_INTR:
  assumes "calm K q" "threads_ok K v" "int_call c" "idle c"
  shows "\<exists>r s' w. NO_INTR (sys_int K c) s = Some ((if sint (kret r) < 0 then -1 else sint (kret r), r), s') \<and> idles v (world s) w \<and>
    K c w = (r, world s') \<and> sint (kret r) \<noteq> - EINTR"
  by (rule NO_INTR_call [OF calm_bounded [OF assms(1)] plain_int [OF assms(1,3)], where P = "idles v (world s)", OF idles_refl])
    (rule idles_trans, assumption, rule idles_call [OF assms(2) _ assms(4)])

text \<open>Both for the threads in \<open>P\<close> only.\<close>

definition steady :: "'w view \<Rightarrow> int set \<Rightarrow> 'w \<Rightarrow> 'w \<Rightarrow> bool" where
  "steady v P w w' \<longleftrightarrow> holds v P w w' \<and> same_dir v w w'"

lemma steady_refl [simp]: "steady v P w w"
  by (simp add: steady_def)

lemma steady_trans: "steady v P w w1 \<Longrightarrow> steady v P w1 w2 \<Longrightarrow> steady v P w w2"
  unfolding steady_def by (blast intro: holds_trans same_dir_trans)

lemma steady_idles: "idles v w w' \<Longrightarrow> steady v P w w'"
  by (simp add: idles_def steady_def)

lemma steady_call:
  "threads_ok K v \<Longrightarrow> K c w = (r, w') \<Longrightarrow> \<forall>p\<in>P. \<not> releases p c \<Longrightarrow> \<not> moves_dir c \<Longrightarrow> steady v P w w'"
  using holds_call(1) [of K v c w r w' P] same_dir_call [of K v c w r w'] by (simp add: steady_def)

lemma detach_steady:
  assumes "threads_ok K v" "sys_ptrace_detach K p s = (rc, s')" "p \<notin> P"
  shows "steady v P (world s) (world s')" "attached v (world s') = attached v (world s) - {p}"
proof -
  obtain x1 s1 where 1: "sys_int K NR_sched_yield s = (x1, s1)" by (metis surj_pair)
  obtain x2 r2 s2 where 2: "sys_ptrace K PTRACE_DETACH p 0 s1 = ((x2, r2), s2)" by (metis surj_pair)
  obtain x3 r3 s3 where 3: "sys_int K (NR_tkill p SIGCONT) s2 = ((x3, r3), s3)" by (metis surj_pair)
  obtain x4 r4 s4 where 4: "sys_int K (NR_kill p SIGCONT) s3 = ((x4, r4), s4)" by (metis surj_pair)
  note c = sys_world(2) [OF 2 [unfolded sys_ptrace_def]] sys_world(1) [OF 3] sys_world(1) [OF 4]
  have nr: "\<forall>x\<in>P. \<not> releases x (NR_ptrace PTRACE_DETACH p 0)" "\<forall>x\<in>P. \<not> releases x (NR_tkill p SIGCONT)" "\<forall>x\<in>P. \<not> releases x (NR_kill p SIGCONT)"
    using assms(3) by auto
  have i1: "idles v (world s) (world s1)" using idles_sys(1) [OF assms(1) 1] by simp
  have "steady v P (world s) (world s2)" using steady_trans [OF steady_idles [OF i1] steady_call [OF assms(1) c(1) nr(1)]] by simp
  then have h3: "steady v P (world s) (world s3)" by (rule steady_trans) (simp add: steady_call [OF assms(1) c(2) nr(2)])
  then have h4: "steady v P (world s) (world s4)" by (rule steady_trans) (simp add: steady_call [OF assms(1) c(3) nr(3)])
  have a: "attached v (world s3) = attached v (world s) - {p}" "attached v (world s4) = attached v (world s) - {p}"
    using i1 holds_call(2) [OF assms(1) c(1) nr(1)] holds_call(2) [OF assms(1) c(2) nr(2)] holds_call(2) [OF assms(1) c(3) nr(3)]
    by (simp_all add: idles_def)
  have "world s' = world s3 \<or> world s' = world s4"
    using assms(2) by (auto simp: sys_ptrace_detach_def 1 2 3 4 split: if_splits)
  then show "steady v P (world s) (world s')" "attached v (world s') = attached v (world s) - {p}"
    using h3 h4 a by (elim disjE; simp)+
qed

subsection \<open>Attaching to a thread\<close>

text \<open>
  While a directory is read: the array holds the attached threads, each once, and they are stopped.
\<close>

definition view_env :: "'w view \<Rightarrow> u64 \<Rightarrow> lister_env" where
  "view_env v addr = \<lparr>clone_pid = self_pid v, ppid = parent_pid v, marker = mark_fd v, marker_path = marker_suffix (mark_fd v),
     marker_ino = mark_ino v, addr_i = addr\<rparr>"

lemma view_env_simps [simp]:
  "clone_pid (view_env v addr) = self_pid v" "ppid (view_env v addr) = parent_pid v" "marker (view_env v addr) = mark_fd v"
  "marker_path (view_env v addr) = marker_suffix (mark_fd v)" "marker_ino (view_env v addr) = mark_ino v" "addr_i (view_env v addr) = addr"
  by (simp_all add: view_env_def)

definition search_inv :: "'w view \<Rightarrow> lister \<Rightarrow> 'w \<Rightarrow> bool" where
  "search_inv v l w \<longleftrightarrow> attached v w = set (pids l) \<and> set (pids l) \<subseteq> stopped v w \<and> distinct (pids l) \<and>
     set (pids l) \<subseteq> all_pids v - {self_pid v} \<and> (parent_pid v \<in> set (pids l) \<longrightarrow> found_parent l) \<and>
     sig_proc l = dir_fd v \<and> num_threads l \<le> max_threads l"

lemma same_address_space_idles:
  assumes "threads_ok K v" "same_address_space K p a i s = (same, s')"
  shows "idles v (world s) (world s')"
proof -
  have word: "idles v (world t) (world t')" if "same_word K p a j t = (b, t')" for j b t t'
    using that idles_sys(2) [OF assms(1)] by (auto simp: same_word_def split: prod.splits)
  show ?thesis using assms(2) by (auto simp: same_address_space_def split: prod.splits if_splits intro: word idles_trans)
qed

lemma same_word_live:
  assumes "thread_calls_ok K v" "p \<in> live v (world s)" "p \<in> stopped v (world s)"
  shows "\<exists>s'. same_word K p a i s = (True, s')"
proof -
  obtain rc r s' where c: "sys_long K (NR_peekdata p a i) s = ((rc, r), s')" by (metis surj_pair)
  have "kret r = 0 \<and> kints r = [i]" using peek_live [OF assms(1) sys_world(2) [OF c]] assms(2,3) by simp
  then show ?thesis using c by (auto simp: same_word_def sys_long_def lss_syscall_def LSS_RETURN_def split: prod.splits)
qed

lemma same_address_space_live:
  assumes "threads_ok K v" "thread_calls_ok K v" "p \<in> live v (world s)" "p \<in> stopped v (world s)"
  shows "\<exists>s'. same_address_space K p a i s = (True, s')"
proof -
  obtain s1 where 1: "same_word K p a i s = (True, s1)" using same_word_live [OF assms(2-4)] by blast
  have "idles v (world s) (world s1)" using 1 idles_sys(2) [OF assms(1)] by (auto simp: same_word_def split: prod.splits)
  then have "p \<in> live v (world s1)" "p \<in> stopped v (world s1)" using assms(3,4) by (auto simp: idles_def holds_def)
  then show ?thesis using same_word_live [OF assms(2), of p s1 a "i + 1"] 1 by (simp add: same_address_space_def)
qed

lemma attach_call:
  assumes "threads_ok K v" "sys_ptrace K PTRACE_ATTACH p 0 s = ((rc, r), s')"
  shows "steady v P (world s) (world s')" "attached v (world s') = (if rc < 0 then attached v (world s) else insert p (attached v (world s)))"
proof -
  note c = sys_world(2) [OF assms(2) [unfolded sys_ptrace_def]]
  show "steady v P (world s) (world s')" by (rule steady_call [OF assms(1) c]) simp_all
  have "call_ok r \<longleftrightarrow> rc \<ge> 0"
    using assms(2) by (auto simp: sys_ptrace_def sys_long_def lss_syscall_def LSS_RETURN_def call_ok_def split: prod.splits if_splits)
  then show "attached v (world s') = (if rc < 0 then attached v (world s) else insert p (attached v (world s)))"
    using holds_call(2) [OF assms(1) c, of "{}"] by simp
qed

lemma search_inv_unpushed:
  assumes "search_inv v l w" "steady v (set (pids l)) w w'" "attached v w' = attached v w"
  shows "search_inv v (pop_pid (push_pid p l)) w'"
  using assms by (auto simp: search_inv_def steady_def holds_def)

lemma wait_search:
  assumes "calm K q" "threads_ok K v" "thread_calls_ok K v" "p \<in> attached v (world s)"
  shows "\<exists>r s'. NO_INTR (sys_waitpid K p WALL) s = Some ((if sint (kret r) < 0 then -1 else sint (kret r), r), s') \<and>
    idles v (world s) (world s') \<and> (0 \<le> sint (kret r) \<longrightarrow> p \<in> stopped v (world s')) \<and> (p \<in> live v (world s) \<longrightarrow> 0 < sint (kret r))"
proof -
  obtain r s' w where c: "NO_INTR (sys_waitpid K p WALL) s = Some ((if sint (kret r) < 0 then -1 else sint (kret r), r), s')"
      "idles v (world s) w" "K (NR_wait4 p WALL) w = (r, world s')" "sint (kret r) \<noteq> - EINTR"
    using idles_NO_INTR [OF assms(1,2), of "NR_wait4 p WALL" s] by (auto simp: sys_waitpid_def)
  have "p \<in> attached v w" "p \<in> live v (world s) \<longrightarrow> p \<in> live v w" using c(2) assms(4) by (auto simp: idles_def holds_def)
  moreover have "idles v (world s) (world s')" by (rule idles_trans [OF c(2) idles_call [OF assms(2) c(3)]]) simp
  ultimately show ?thesis using c(1,4) wait_attached [OF assms(3) c(3)] by auto
qed

text \<open>Detaching from a thread that turned out not to be one of the process.\<close>

lemma undo_attach:
  assumes "threads_ok K v" "search_inv v l w" "p \<notin> set (pids l)" "steady v (set (pids l)) w (world s)" "attached v (world s) = insert p (set (pids l))"
  shows "search_inv v (pop_pid (push_pid p l)) (world (snd (sys_ptrace_detach K p s)))"
    "steady v (set (pids l)) w (world (snd (sys_ptrace_detach K p s)))"
proof -
  obtain x s' where d: "sys_ptrace_detach K p s = (x, s')" by (metis surj_pair)
  have st: "steady v (set (pids l)) w (world s')" by (rule steady_trans [OF assms(4) detach_steady(1) [OF assms(1) d assms(3)]])
  have "attached v (world s') = attached v w"
    using detach_steady(2) [OF assms(1) d assms(3)] assms(2,3,5) by (simp add: search_inv_def)
  then show "search_inv v (pop_pid (push_pid p l)) (world (snd (sys_ptrace_detach K p s)))"
    using search_inv_unpushed [OF assms(2) st] d by simp
  show "steady v (set (pids l)) w (world (snd (sys_ptrace_detach K p s)))" using st d by simp
qed

lemma attach_search:
  assumes ok: "search_ok K q v" and inv: "search_inv v l (world s)"
    and p: "p \<notin> set (pids l)" "p \<in> all_pids v" "p \<noteq> self_pid v" "num_threads l < max_threads l"
  shows "\<exists>l' s'. attach_thread K (view_env v addr) p l s = Some (l', s') \<and> search_inv v l' (world s') \<and>
     steady v (set (pids l)) (world s) (world s') \<and> max_threads l' = max_threads l \<and>
     (pids l' = pids l \<and> added_entries l' = added_entries l \<and> p \<notin> live v (world s) \<or>
      pids l' = pids l @ [p] \<and> added_entries l' = Suc (added_entries l))"
proof -
  let ?P = "set (pids l)" and ?undone = "pop_pid (push_pid p l)"
  have oks: "calm K q" "threads_ok K v" "thread_calls_ok K v" using ok by (simp_all add: search_ok_def)
  have att: "attached v (world s) = ?P" using inv by (simp add: search_inv_def)
  obtain rc r s1 where 1: "sys_ptrace K PTRACE_ATTACH p 0 s = ((rc, r), s1)" by (metis surj_pair)
  note a1 = attach_call(1) [OF oks(2) 1, where P = ?P] attach_call(2) [OF oks(2) 1]
  have rc: "rc = 0" if "p \<in> live v (world s)"
    using attach_live [OF oks(3) sys_world(2) [OF 1 [unfolded sys_ptrace_def]] that] att p(1) 1
    by (auto simp: sys_ptrace_def sys_long_def lss_syscall_def LSS_RETURN_def split: prod.splits)
  show ?thesis
  proof (cases "rc < 0")
    case True
    then have "attach_thread K (view_env v addr) p l s = Some (?undone, s1)" using 1 by (simp add: attach_thread_def Let_def)
    moreover have "search_inv v ?undone (world s1)" using search_inv_unpushed [OF inv a1(1)] a1(2) True by simp
    ultimately show ?thesis using rc True a1(1) by auto
  next
    case False
    obtain r2 s2 where 2: "NO_INTR (sys_waitpid K p WALL) s1 = Some ((if sint (kret r2) < 0 then -1 else sint (kret r2), r2), s2)"
        "idles v (world s1) (world s2)" "0 \<le> sint (kret r2) \<longrightarrow> p \<in> stopped v (world s2)" "p \<in> live v (world s1) \<longrightarrow> 0 < sint (kret r2)"
      using wait_search [OF oks, of p s1] a1(2) False by auto
    obtain same s3 where 3: "same_address_space K p addr (num_threads l) s2 = (same, s3)" by (metis surj_pair)
    note i3 = same_address_space_idles [OF oks(2) 3]
    have st: "steady v ?P (world s) (world s2)" "steady v ?P (world s) (world s3)"
      using steady_trans [OF a1(1) steady_idles [OF 2(2)]] steady_trans [OF _ steady_idles [OF i3]] by blast+
    have at: "attached v (world s2) = insert p ?P" "attached v (world s3) = insert p ?P"
      using a1(2) False att 2(2) i3 by (simp_all add: idles_def)
    have alive: "p \<in> live v (world s1)" "p \<in> live v (world s2)" if "p \<in> live v (world s)"
      using that a1(1) 2(2) by (auto simp: steady_def idles_def holds_def)
    have ok: "0 < sint (kret r2) \<and> same" if "p \<in> live v (world s)"
      using same_address_space_live [OF oks(2,3) alive(2) [OF that], of addr "num_threads l"] 2(3,4) 3 alive(1) [OF that] by auto
    show ?thesis
    proof (cases "0 \<le> sint (kret r2) \<and> same")
      case True
      then have run: "attach_thread K (view_env v addr) p l s = Some ((push_pid p l)\<lparr>found_parent := found_parent l \<or> p = parent_pid v,
          added_entries := added_entries l + 1\<rparr>, s3)" (is "_ = Some (?l, _)")
        using 1 2(1) False 3 by (simp add: attach_thread_def Let_def push_pid_def)
      have "p \<in> stopped v (world s3)" using i3 2(3) True by (auto simp: idles_def holds_def)
      then have "search_inv v ?l (world s3)" using inv p at(2) st(2) by (auto simp: search_inv_def push_pid_def steady_def holds_def)
      then show ?thesis using run st(2) by (auto simp: push_pid_def)
    next
      case no: False
      then have "attach_thread K (view_env v addr) p l s = Some (?undone, snd (sys_ptrace_detach K p (if sint (kret r2) < 0 then s2 else s3)))"
        using 1 2(1) False 3 by (auto simp: attach_thread_def Let_def)
      then show ?thesis using undo_attach [OF oks(2) inv p(1) st(1) at(1)] undo_attach [OF oks(2) inv p(1) st(2) at(2)] ok no by auto
    qed
  qed
qed

subsection \<open>Reading a directory\<close>

text \<open>How a part of the search changes the array; \<open>new\<close> are the threads it found.\<close>

definition progress :: "'w view \<Rightarrow> lister \<Rightarrow> 'w \<Rightarrow> lister \<Rightarrow> 'w \<Rightarrow> bool" where
  "progress v l w l' w' \<longleftrightarrow> search_inv v l' w' \<and> steady v (set (pids l)) w w' \<and> max_threads l' = max_threads l \<and>
     (\<exists>new. pids l' = pids l @ new \<and> added_entries l' = added_entries l + length new)"

lemma steady_mono: "steady v P' w w' \<Longrightarrow> P \<subseteq> P' \<Longrightarrow> P' \<subseteq> stopped v w \<Longrightarrow> steady v P w w'"
  unfolding steady_def holds_def by blast

lemma progress_refl: "search_inv v l w \<Longrightarrow> progress v l w l w"
  by (simp add: progress_def)

lemma progress_trans:
  assumes "progress v l w l1 w1" "progress v l1 w1 l2 w2"
  shows "progress v l w l2 w2"
proof -
  have "set (pids l) \<subseteq> set (pids l1)" "set (pids l1) \<subseteq> stopped v w1" using assms(1) by (auto simp: progress_def search_inv_def)
  then have "steady v (set (pids l)) w w2"
    using assms steady_trans steady_mono unfolding progress_def by metis
  then show ?thesis using assms by (auto simp: progress_def)
qed

lemma progress_idles: "search_inv v l w \<Longrightarrow> idles v w w' \<Longrightarrow> progress v l w l w'"
  by (auto simp: progress_def search_inv_def idles_def steady_def holds_def)

definition names :: "kernel_dirent \<Rightarrow> int \<Rightarrow> bool" where
  "names d p \<longleftrightarrow> d_ino d \<noteq> 0 \<and> d_name d = local_itoa p"

lemma entry_pid_itoa:
  assumes "0 < p"
  shows "entry_pid (local_itoa p) = Some p"
proof -
  obtain c cs where h: "local_itoa p = c # cs" "is_digit c" using itoa_head [of p] assms by auto
  then have "c \<noteq> 45" "c \<noteq> 46" by (auto simp: is_digit_def)
  moreover obtain k where "\<And>n rest. atoi_digits n (local_itoa p @ rest) = atoi_digits (n * 10 ^ k + p) rest"
    using atoi_itoa [of p] assms by auto
  from this [of 0 "[]"] have "atoi_digits 0 (c # cs) = p" using h by simp
  ultimately show ?thesis using h by (simp add: entry_pid_def local_atoi_def)
qed

text \<open>An entry whose marker shows that it is one of the threads.\<close>

lemma new_thread_search:
  assumes ok: "search_ok K q v" and inv: "search_inv v l (world s)" and p: "p \<notin> set (pids l)" "p \<in> all_pids v" "p \<noteq> self_pid v"
  shows "\<exists>full l' s'. (if num_threads l \<ge> max_threads l then do { (_, s) \<leftarrow> NO_INTR (sys_close K (sig_proc l)) s; Some (True, l, s) }
       else do { (l, s) \<leftarrow> attach_thread K (view_env v addr) p l s; Some (False, l, s) }) = Some (full, l', s') \<and>
     progress v l (world s) l' (world s') \<and> (full \<longrightarrow> max_threads l' \<le> num_threads l') \<and> (full \<or> (p \<in> live v (world s) \<longrightarrow> p \<in> set (pids l')))"
proof (cases "max_threads l \<le> num_threads l")
  case True
  have oks: "calm K q" "threads_ok K v" using ok by (simp_all add: search_ok_def)
  obtain x s2 w2 where c: "NO_INTR (sys_close K (sig_proc l)) s = Some (x, s2)" "idles v (world s) w2" "K (NR_close (sig_proc l)) w2 = (snd x, world s2)"
    using idles_NO_INTR [OF oks, of "NR_close (sig_proc l)" s] by (auto simp: sys_close_def)
  have "idles v (world s) (world s2)" by (rule idles_trans [OF c(2) idles_call [OF oks(2) c(3)]]) simp
  then show ?thesis using c(1) True progress_idles [OF inv] by (auto split: prod.splits)
next
  case False
  obtain l' s' where a: "attach_thread K (view_env v addr) p l s = Some (l', s')" "search_inv v l' (world s')"
     "steady v (set (pids l)) (world s) (world s')" "max_threads l' = max_threads l"
     "pids l' = pids l \<and> added_entries l' = added_entries l \<and> p \<notin> live v (world s) \<or>
      pids l' = pids l @ [p] \<and> added_entries l' = Suc (added_entries l)"
    using attach_search [OF ok inv p] False by fastforce
  then have "progress v l (world s) l' (world s')" by (auto simp: progress_def)
  moreover have "p \<in> live v (world s) \<longrightarrow> p \<in> set (pids l')" using a(5) by auto
  ultimately show ?thesis using a(1) False by (intro exI [of _ False] exI [of _ l'] exI [of _ s']) simp
qed

lemma proc_entry_search:
  assumes ok: "search_ok K q v" and inv: "search_inv v l (world s)"
  shows "\<exists>full l' s'. proc_entry K (view_env v addr) d l s = Some (full, l', s') \<and> progress v l (world s) l' (world s') \<and>
     (full \<longrightarrow> max_threads l' \<le> num_threads l') \<and> (full \<or> (\<forall>p\<in>live v (world s). names d p \<longrightarrow> p \<in> set (pids l')))"
proof -
  have oks: "threads_ok K v" "thread_calls_ok K v" "pids_ok v" using ok by (simp_all add: search_ok_def)
  have pos: "0 < p \<and> p \<noteq> self_pid v" if "p \<in> live v w" for p w using oks(3) that unfolding pids_ok_def by metis
  have nm: "entry_pid (d_name d) = Some p" if "names d p" "p \<in> live v (world s)" for p
    using that pos entry_pid_itoa by (auto simp: names_def)
  show ?thesis
  proof (cases "d_ino d = 0 \<or> entry_pid (d_name d) \<in> {None, Some 0, Some (self_pid v)}")
    case True
    then have "proc_entry K (view_env v addr) d l s = Some (False, l, s)" by (auto simp: proc_entry_def)
    moreover have "\<forall>p\<in>live v (world s). \<not> names d p" using True nm pos by (fastforce simp: names_def)
    ultimately show ?thesis using progress_refl [OF inv] by auto
  next
    case False
    then obtain p where p: "d_ino d \<noteq> 0" "entry_pid (d_name d) = Some p" "p \<noteq> 0" "p \<noteq> self_pid v" by auto
    have named: "x = p" if "names d x" "x \<in> live v (world s)" for x using nm [OF that] p(2) by simp
    obtain rc r s1 where st: "sys_int K (NR_stat (str ''/proc/'' @ d_name d @ marker_suffix (mark_fd v))) s = ((rc, r), s1)" by (metis surj_pair)
    note call = sys_world(1) [OF st]
    have pr1: "progress v l (world s) l (world s1)" by (rule progress_idles [OF inv idles_sys(1) [OF oks(1) st]]) simp
    then have inv1: "search_inv v l (world s1)" and sub: "live v (world s) \<subseteq> live v (world s1)"
      by (simp_all add: progress_def steady_def holds_def)
    show ?thesis
    proof (cases "rc < 0 \<or> stat_ino r \<noteq> mark_ino v \<or> p \<in> set (pids l)")
      case True
      then have "proc_entry K (view_env v addr) d l s = Some (False, l, s1)" using p st by (auto simp: proc_entry_def)
      moreover have "x \<in> set (pids l)" if "x \<in> live v (world s)" "names d x" for x
        using stat_marker(1) [OF oks(2) call that(1)] True st that named
        by (auto simp: names_def sys_int_def lss_syscall_def LSS_RETURN_int_def split: prod.splits)
      ultimately show ?thesis using pr1 by auto
    next
      case False
      then have "\<not> (- 4095 \<le> sint (kret r) \<and> sint (kret r) < 0)"
        using st by (auto simp: sys_int_def lss_syscall_def LSS_RETURN_int_def LSS_error_range split: prod.splits if_splits)
      then have "p \<in> all_pids v" using stat_marker(2) [OF oks(2) call p(2)] False by blast
      from new_thread_search [OF ok inv1 _ this p(4), of addr] False
      obtain full l' s' where n: "(if num_threads l \<ge> max_threads l then do { (_, s) \<leftarrow> NO_INTR (sys_close K (sig_proc l)) s1; Some (True, l, s) }
          else do { (l, s) \<leftarrow> attach_thread K (view_env v addr) p l s1; Some (False, l, s) }) = Some (full, l', s')"
        "progress v l (world s1) l' (world s')" "full \<longrightarrow> max_threads l' \<le> num_threads l'" "full \<or> (p \<in> live v (world s1) \<longrightarrow> p \<in> set (pids l'))" by blast
      have "proc_entry K (view_env v addr) d l s = Some (full, l', s')" using p st False n(1) by (simp add: proc_entry_def)
      then show ?thesis using progress_trans [OF pr1 n(2)] n(3,4) named sub by blast
    qed
  qed
qed

lemma proc_entries_search:
  assumes ok: "search_ok K q v"
  shows "\<forall>d\<in>set ds. wf_dirent d \<Longrightarrow> search_inv v l (world s) \<Longrightarrow>
    \<exists>full l' s'. proc_entries K (view_env v addr) (pre @ concat (map enc_dirent ds)) (length pre) l s = Some (full, l', s') \<and>
      progress v l (world s) l' (world s') \<and> (full \<longrightarrow> max_threads l' \<le> num_threads l') \<and>
      (full \<or> (\<forall>p\<in>live v (world s). (\<exists>d\<in>set ds. names (kernel_dirent.truncate d) p) \<longrightarrow> p \<in> set (pids l')))"
proof (induction ds arbitrary: pre l s)
  case Nil
  then show ?case using progress_refl [of v l "world s"] by (auto simp: proc_entries.simps [of K _ pre])
next
  case (Cons d ds)
  let ?buf = "pre @ enc_dirent d @ concat (map enc_dirent ds)" and ?d = "kernel_dirent.truncate d"
  have at: "dirent_at ?buf (length pre) = ?d" and len: "d_reclen ?d = length (enc_dirent d)"
    using Cons.prems(1) dirent_at_enc [of d pre "concat (map enc_dirent ds)"] by (simp_all add: wf_dirent_def kernel_dirent.truncate_def)
  obtain full l1 s1 where e: "proc_entry K (view_env v addr) ?d l s = Some (full, l1, s1)" "progress v l (world s) l1 (world s1)"
     "full \<longrightarrow> max_threads l1 \<le> num_threads l1" "full \<or> (\<forall>p\<in>live v (world s). names ?d p \<longrightarrow> p \<in> set (pids l1))"
    using proc_entry_search [OF ok Cons.prems(2)] by blast
  have step: "proc_entries K (view_env v addr) ?buf (length pre) l s =
      (if full then Some (True, l1, s1) else proc_entries K (view_env v addr) ?buf (length (pre @ enc_dirent d)) l1 s1)"
    using at len e(1) by (subst proc_entries.simps) (simp add: Let_def)
  show ?case
  proof (cases full)
    case True
    then show ?thesis using step e by auto
  next
    case False
    obtain full' l' s' where r: "proc_entries K (view_env v addr) ((pre @ enc_dirent d) @ concat (map enc_dirent ds)) (length (pre @ enc_dirent d)) l1 s1 = Some (full', l', s')"
      "progress v l1 (world s1) l' (world s')" "full' \<longrightarrow> max_threads l' \<le> num_threads l'"
      "full' \<or> (\<forall>p\<in>live v (world s1). (\<exists>d\<in>set ds. names (kernel_dirent.truncate d) p) \<longrightarrow> p \<in> set (pids l'))"
      using Cons.IH [of l1 s1 "pre @ enc_dirent d"] Cons.prems(1) e(2) unfolding progress_def by auto
    have sub: "live v (world s) \<subseteq> live v (world s1)" "set (pids l1) \<subseteq> set (pids l')"
      using e(2) r(2) by (auto simp: progress_def steady_def holds_def)
    have "progress v l (world s) l' (world s')" by (rule progress_trans [OF e(2) r(2)])
    then show ?thesis using step False r e(4) sub by auto
  qed
qed

text \<open>The open directory lists all threads: it is the directory \<open>task\<close>, or there is only the main thread.\<close>

definition listed :: "'w view \<Rightarrow> bool \<Rightarrow> 'w \<Rightarrow> bool" where
  "listed v task w \<longleftrightarrow> in_task v w = task \<and> (task \<or> live v w = {parent_pid v})"

lemma listed_shown: "listed v task w \<Longrightarrow> shown v w = live v w"
  by (auto simp: listed_def shown_def)

lemma alone_holds:
  assumes "pids_ok v" "live v w = {parent_pid v}" "holds v P w w'" "P \<subseteq> stopped v w"
  shows "live v w' = {parent_pid v}"
proof -
  have "caller_pid v \<in> live v w" using assms(1) by (simp add: pids_ok_def)
  then show ?thesis using assms(2-4) by (auto simp: holds_def)
qed

lemma listed_holds:
  "pids_ok v \<Longrightarrow> listed v task w \<Longrightarrow> holds v P w w' \<Longrightarrow> P \<subseteq> stopped v w \<Longrightarrow> in_task v w' = in_task v w \<Longrightarrow> listed v task w'"
  using alone_holds [of v w P w'] by (auto simp: listed_def)

lemma search_inv_holds:
  "search_inv v l w \<Longrightarrow> holds v (set (pids l)) w w' \<Longrightarrow> attached v w' = attached v w \<Longrightarrow> search_inv v l w'"
  by (auto simp: search_inv_def holds_def)

lemma getdents_call:
  assumes "threads_ok K v" "listing_ok K v" "sys_int K (NR_getdents (dir_fd v) 4096) s = ((n, r), s')"
  shows "\<exists>ds. stored n (kbytes r) = concat (map enc_dirent ds) \<and> n = int (length (concat (map enc_dirent ds))) \<and> (\<forall>d\<in>set ds. wf_dirent d) \<and>
     (if ds = [] then pend v (world s) = {} else passes v (world s') < passes v (world s)) \<and>
     (\<forall>p\<in>pend v (world s). p \<in> pend v (world s') \<or> (\<exists>d\<in>set ds. names (kernel_dirent.truncate d) p))"
    "holds v P (world s) (world s')" "attached v (world s') = attached v (world s)" "in_task v (world s') = in_task v (world s)"
proof -
  note c = sys_world(1) [OF assms(3)]
  have g: "in_task v (world s') = in_task v (world s) \<and>
        (\<exists>ds. kbytes r = concat (map enc_dirent ds) \<and> sint (kret r) = int (length (kbytes r)) \<and> length (kbytes r) \<le> 4096 \<and>
           (\<forall>d\<in>set ds. wf_dirent d) \<and> (if ds = [] then pend v (world s) = {} else passes v (world s') < passes v (world s)) \<and>
           (\<forall>p\<in>pend v (world s). p \<in> pend v (world s') \<or> (\<exists>d\<in>set ds. d_ino d \<noteq> 0 \<and> d_name d = local_itoa p)))"
    using assms(2) c unfolding listing_ok_def by blast
  then obtain ds where ds: "kbytes r = concat (map enc_dirent ds)" "sint (kret r) = int (length (kbytes r))" "length (kbytes r) \<le> 4096"
     "\<forall>d\<in>set ds. wf_dirent d" "if ds = [] then pend v (world s) = {} else passes v (world s') < passes v (world s)"
     "\<forall>p\<in>pend v (world s). p \<in> pend v (world s') \<or> (\<exists>d\<in>set ds. d_ino d \<noteq> 0 \<and> d_name d = local_itoa p)" by blast
  have n: "n = int (length (kbytes r))"
    using assms(3) ds(2,3) LSS_RETURN_int_small [of "kret r"] by (auto simp: sys_int_def lss_syscall_def split: prod.splits)
  then have "stored n (kbytes r) = kbytes r" by (simp add: stored_def)
  with n ds show "\<exists>ds. stored n (kbytes r) = concat (map enc_dirent ds) \<and> n = int (length (concat (map enc_dirent ds))) \<and> (\<forall>d\<in>set ds. wf_dirent d) \<and>
     (if ds = [] then pend v (world s) = {} else passes v (world s') < passes v (world s)) \<and>
     (\<forall>p\<in>pend v (world s). p \<in> pend v (world s') \<or> (\<exists>d\<in>set ds. names (kernel_dirent.truncate d) p))"
    by (intro exI [of _ ds]) (simp add: names_def kernel_dirent.truncate_def)
  show "in_task v (world s') = in_task v (world s)" using g by blast
  show "holds v P (world s) (world s')" using holds_call(1) [OF assms(1) c] by simp
  show "attached v (world s') = attached v (world s)" using holds_call(2) [OF assms(1) c, of "{}"] by simp
qed

text \<open>
  Passes over the directory end, since every pass but the last finds a thread. \<open>C\<close> are the threads
  there were when the pass began: each of them is in the array or its entry is still to come, and
  if the pass has found no thread then there are no others once all of \<open>C\<close> are stopped.
\<close>

definition covers :: "'w view \<Rightarrow> int set \<Rightarrow> lister \<Rightarrow> 'w \<Rightarrow> bool" where
  "covers v C l w \<longleftrightarrow> C \<subseteq> live v w \<and> C \<subseteq> set (pids l) \<union> pend v w \<and>
     (added_entries l = 0 \<longrightarrow> C \<subseteq> set (pids l) \<longrightarrow> live v w = C)"

definition scan_done :: "'w view \<Rightarrow> bool \<Rightarrow> lister \<Rightarrow> scan_result \<Rightarrow> lister \<Rightarrow> 'w \<Rightarrow> bool" where
  "scan_done v task l res l' w' \<longleftrightarrow> search_inv v l' w' \<and> listed v task w' \<and> max_threads l' = max_threads l \<and>
     (res = Scanned \<and> live v w' \<subseteq> set (pids l') \<or> res = Scan_full \<and> max_threads l' \<le> num_threads l')"

lemma covers_getdents:
  assumes "covers v C l w" "search_inv v l w" "holds v (set (pids l)) w w1"
    "progress v l w1 l' w'" "\<forall>p\<in>pend v w. p \<in> pend v w1 \<or> N p" "\<forall>p\<in>live v w1. N p \<longrightarrow> p \<in> set (pids l')"
  shows "covers v C l' w'"
proof -
  have st: "set (pids l) \<subseteq> stopped v w" using assms(2) by (simp add: search_inv_def)
  have mono: "live v w \<subseteq> live v w1" "live v w1 \<subseteq> live v w'" "pend v w' = pend v w1" "set (pids l) \<subseteq> set (pids l')"
    using assms(3,4) by (auto simp: holds_def progress_def steady_def same_dir_def)
  have "live v w' = C" if "added_entries l' = 0" "C \<subseteq> set (pids l')"
  proof -
    have "pids l' = pids l" "added_entries l = 0" using assms(4) that(1) by (auto simp: progress_def)
    then have "live v w = C" using assms(1) that(2) by (simp add: covers_def)
    then show ?thesis using st assms(3,4) that(2) \<open>pids l' = pids l\<close> by (auto simp: holds_def progress_def steady_def)
  qed
  moreover have "p \<in> set (pids l') \<union> pend v w'" if "p \<in> C" for p
  proof -
    have "p \<in> live v w1" "p \<in> set (pids l) \<or> p \<in> pend v w" using that assms(1) mono(1) unfolding covers_def by blast+
    then show ?thesis using assms(5,6) mono(3,4) by blast
  qed
  moreover have "C \<subseteq> live v w'" using assms(1) mono(1,2) unfolding covers_def by blast
  ultimately show ?thesis by (auto simp: covers_def)
qed

text \<open>One call of \<open>getdents\<close> and the entries it returns: the pass goes on, it is over, or the array is full.\<close>

abbreviation scan_measure :: "'w view \<Rightarrow> ((lister \<times> 'w st) \<times> (lister \<times> 'w st)) set" where
  "scan_measure v \<equiv> measures [\<lambda>(l, s). nat (max_threads l) - length (pids l) + added_entries l, \<lambda>(l, s). passes v (world s)]"

lemma scan_entries:
  assumes ok: "search_ok K q v" and inv: "search_inv v l (world s)" and li: "listed v task (world s)" and cov: "covers v C l (world s)"
    and g: "sys_int K (NR_getdents (dir_fd v) 4096) s = ((n, r), s1)" "n \<noteq> 0"
  shows "\<exists>full l' s'. scan_proc K (view_env v addr) l s = (if full then Some (Scan_full, l', s') else scan_proc K (view_env v addr) l' s') \<and>
    search_inv v l' (world s') \<and> listed v task (world s') \<and> max_threads l' = max_threads l \<and> (full \<longrightarrow> max_threads l' \<le> num_threads l') \<and>
    (full \<or> covers v C l' (world s')) \<and> ((l', s'), (l, s)) \<in> scan_measure v"
proof -
  let ?P = "set (pids l)"
  have oks: "threads_ok K v" "listing_ok K v" "pids_ok v" using ok by (simp_all add: search_ok_def)
  have st: "?P \<subseteq> stopped v (world s)" "sig_proc l = dir_fd v" "length (pids l) \<le> nat (max_threads l)" using inv by (auto simp: search_inv_def)
  note h1 = getdents_call(2) [OF oks(1,2) g(1), where P = ?P] getdents_call(3,4) [OF oks(1,2) g(1)]
  obtain ds where ds: "stored n (kbytes r) = concat (map enc_dirent ds)" "n = int (length (concat (map enc_dirent ds)))" "\<forall>d\<in>set ds. wf_dirent d"
    "if ds = [] then pend v (world s) = {} else passes v (world s1) < passes v (world s)"
    "\<forall>p\<in>pend v (world s). p \<in> pend v (world s1) \<or> (\<exists>d\<in>set ds. names (kernel_dirent.truncate d) p)"
    using getdents_call(1) [OF oks(1,2) g(1)] by blast
  have inv1: "search_inv v l (world s1)" by (rule search_inv_holds [OF inv h1(1,2)])
  have li1: "listed v task (world s1)" by (rule listed_holds [OF oks(3) li h1(1) st(1) h1(3)])
  obtain full l' s' where e: "proc_entries K (view_env v addr) (stored n (kbytes r)) 0 l s1 = Some (full, l', s')" "progress v l (world s1) l' (world s')"
     "full \<longrightarrow> max_threads l' \<le> num_threads l'"
     "full \<or> (\<forall>p\<in>live v (world s1). (\<exists>d\<in>set ds. names (kernel_dirent.truncate d) p) \<longrightarrow> p \<in> set (pids l'))"
    using proc_entries_search [OF ok ds(3) inv1, of addr "[]"] ds(1) by auto
  have run: "scan_proc K (view_env v addr) l s = (if full then Some (Scan_full, l', s') else scan_proc K (view_env v addr) l' s')"
  proof -
    have "0 < n" using ds(2) g(2) by simp
    then show ?thesis using g(1) e(1) st(2) by (subst scan_proc.simps) simp
  qed
  have pr: "search_inv v l' (world s')" "max_threads l' = max_threads l" "passes v (world s') = passes v (world s1)"
     "in_task v (world s') = in_task v (world s1)" "holds v ?P (world s1) (world s')"
    using e(2) by (auto simp: progress_def steady_def same_dir_def)
  have li': "listed v task (world s')" using listed_holds [OF oks(3) li1 pr(5)] pr(4) inv1 by (simp add: search_inv_def)
  have cov': "full \<or> covers v C l' (world s')" using covers_getdents [OF cov inv h1(1) e(2) ds(5)] e(4) by blast
  have "nat (max_threads l') - length (pids l') + added_entries l' = nat (max_threads l) - length (pids l) + added_entries l"
    using e(2) pr(1,2) st(3) by (auto simp: progress_def search_inv_def)
  then have "((l', s'), (l, s)) \<in> scan_measure v" using ds(2,4) g(2) pr(3) by auto
  then show ?thesis using run pr(1,2) li' e(3) cov' by blast
qed

lemma pass_end:
  assumes ok: "search_ok K q v" and inv: "search_inv v l (world s)" and li: "listed v task (world s)" and cov: "covers v C l (world s)"
    and g: "sys_int K (NR_getdents (dir_fd v) 4096) s = ((0, r), s1)"
  shows "search_inv v l (world s1)" "listed v task (world s1)" "added_entries l = 0 \<Longrightarrow> live v (world s1) \<subseteq> set (pids l)"
proof -
  have oks: "threads_ok K v" "listing_ok K v" "pids_ok v" using ok by (simp_all add: search_ok_def)
  have st: "set (pids l) \<subseteq> stopped v (world s)" using inv by (simp add: search_inv_def)
  note h1 = getdents_call(2) [OF oks(1,2) g, where P = "set (pids l)"] getdents_call(3,4) [OF oks(1,2) g]
  show "search_inv v l (world s1)" by (rule search_inv_holds [OF inv h1(1,2)])
  show "listed v task (world s1)" by (rule listed_holds [OF oks(3) li h1(1) st h1(3)])
  have "pend v (world s) = {}" using getdents_call(1) [OF oks(1,2) g] by (auto split: if_splits)
  then show "live v (world s1) \<subseteq> set (pids l)" if "added_entries l = 0" using that cov h1(1) st by (auto simp: covers_def holds_def)
qed

lemma scan_rewind:
  assumes ok: "search_ok K q v" and inv: "search_inv v l (world s)" and li: "listed v task (world s)"
    and k: "sys_long K (NR_lseek (dir_fd v) 0 0) s = (x, s1)"
  shows "search_inv v (l\<lparr>added_entries := 0\<rparr>) (world s1)" "listed v task (world s1)"
    "covers v (live v (world s1)) (l\<lparr>added_entries := 0\<rparr>) (world s1)"
proof -
  have oks: "threads_ok K v" "listing_ok K v" "pids_ok v" using ok by (simp_all add: search_ok_def)
  obtain rc r where c: "K (NR_lseek (dir_fd v) 0 0) (world s) = (r, world s1)" using sys_world(2) k by (metis surj_pair)
  have h: "holds v (set (pids l)) (world s) (world s1)" "attached v (world s1) = attached v (world s)"
    using holds_call [OF oks(1) c, of "set (pids l)"] by simp_all
  have sk: "in_task v (world s1) = in_task v (world s)" "shown v (world s1) \<subseteq> pend v (world s1)"
    using oks(2) c unfolding listing_ok_def by blast+
  show "search_inv v (l\<lparr>added_entries := 0\<rparr>) (world s1)" using search_inv_holds [OF inv h] by (simp add: search_inv_def)
  show li1: "listed v task (world s1)" using listed_holds [OF oks(3) li h(1) _ sk(1)] inv by (simp add: search_inv_def)
  show "covers v (live v (world s1)) (l\<lparr>added_entries := 0\<rparr>) (world s1)" using sk(2) listed_shown [OF li1] by (auto simp: covers_def)
qed

lemma scan_search:
  assumes ok: "search_ok K q v"
  shows "search_inv v l (world s) \<Longrightarrow> listed v task (world s) \<Longrightarrow> covers v C l (world s) \<Longrightarrow>
     \<exists>res l' s'. scan_proc K (view_env v addr) l s = Some (res, l', s') \<and> scan_done v task l res l' (world s')"
proof (induction "(l, s)" arbitrary: l s C rule: wf_induct_rule [OF wf_measures [of "[\<lambda>(l, s). nat (max_threads l) - length (pids l) + added_entries l, \<lambda>(l, s). passes v (world s)]"]])
  case (1 l s)
  note asm = 1(2-4)
  obtain n r s1 where g: "sys_int K (NR_getdents (dir_fd v) 4096) s = ((n, r), s1)" by (metis surj_pair)
  have fd: "sig_proc l = dir_fd v" using asm(1) by (simp add: search_inv_def)
  consider "n \<noteq> 0" | "n = 0" "added_entries l = 0" | "n = 0" "added_entries l > 0" by auto
  then show ?case
  proof cases
    case 1
    from scan_entries [OF ok asm g 1, of addr] obtain full l' s' where
      e: "scan_proc K (view_env v addr) l s = (if full then Some (Scan_full, l', s') else scan_proc K (view_env v addr) l' s')"
      "search_inv v l' (world s')" "listed v task (world s')" "max_threads l' = max_threads l" "full \<longrightarrow> max_threads l' \<le> num_threads l'"
      "full \<or> covers v C l' (world s')" "((l', s'), (l, s)) \<in> scan_measure v" by blast
    show ?thesis
    proof (cases full)
      case False
      then show ?thesis using "1.hyps" [OF e(7,2,3)] e(1,4,6) by (simp add: scan_done_def)
    qed (use e in \<open>auto simp: scan_done_def\<close>)
  next
    case 2
    then have "scan_proc K (view_env v addr) l s = Some (Scanned, l, s1)" using g fd by (subst scan_proc.simps) simp
    then show ?thesis using pass_end [OF ok asm g [unfolded 2(1)]] 2(2) by (simp add: scan_done_def)
  next
    case 3
    obtain x s2 where k: "sys_long K (NR_lseek (dir_fd v) 0 0) s1 = (x, s2)" by (metis surj_pair)
    have run: "scan_proc K (view_env v addr) l s = scan_proc K (view_env v addr) (l\<lparr>added_entries := 0\<rparr>) s2"
      using g fd 3 k by (subst scan_proc.simps) simp
    have "((l\<lparr>added_entries := 0\<rparr>, s2), (l, s)) \<in> scan_measure v" using 3(2) by simp
    from "1.hyps" [OF this scan_rewind [OF ok pass_end(1,2) [OF ok asm g [unfolded 3(1)]] k]] show ?thesis
      using run by (simp add: scan_done_def)
  qed
qed

subsection \<open>The rounds of the search\<close>

lemma grow_threads_max:
  assumes "0 \<le> n" "n < 2 ^ 31" "unat nlink < 2 ^ 30"
  shows "grow_threads nlink n = max n (int (unat nlink) + 100)"
proof -
  obtain N where N: "unat nlink = N" "N < 2 ^ 30" using assms(3) by blast
  have u: "unat (nlink + 100) = N + 100" using N by (subst unat_add_lem [THEN iffD1]) simp_all
  have n: "unat (of_int n :: u64) = nat n" using assms(1,2) by (simp add: unat_eq_nat_uint uint_word_of_int)
  have "uint (ucast (nlink + 100) :: 32 word) = take_bit 32 (uint (nlink + 100))" by (simp add: unsigned_ucast_eq)
  also have "\<dots> = int N + 100" unfolding uint_nat u using N(2) by (subst take_bit_int_eq_self) simp_all
  finally have v: "uint (ucast (nlink + 100) :: 32 word) = int N + 100" .
  have "sint (ucast (nlink + 100) :: 32 word) = signed_take_bit 31 (uint (ucast (nlink + 100) :: 32 word))" by (simp only: sint_uint) simp
  also have "\<dots> = int N + 100" unfolding v using N(2) by (intro signed_take_bit_int_eq_self) simp_all
  finally show ?thesis using u n assms(1) unfolding N(1) by (auto simp: grow_threads_def Let_def word_less_nat_alt max_def)
qed

lemma Resume_loop_steady:
  assumes "threads_ok K v"
  shows "Resume_loop K ps d s = (x, s') \<Longrightarrow> steady v {} (world s) (world s') \<and> attached v (world s') = attached v (world s) - set ps"
proof (induction ps arbitrary: d s)
  case (Cons p ps)
  obtain rc s1 where 1: "sys_ptrace_detach K p s = (rc, s1)" by (metis surj_pair)
  then have "steady v {} (world s1) (world s') \<and> attached v (world s') = attached v (world s1) - set ps"
    using Cons.IH [of "d \<or> rc \<ge> 0" s1] Cons.prems by simp
  then show ?case using steady_trans detach_steady [OF assms 1, of "{}"] by auto
qed simp

definition found_all :: "'w view \<Rightarrow> lister \<Rightarrow> 'w \<Rightarrow> bool" where
  "found_all v l w \<longleftrightarrow> attached v w = set (pids l) \<and> set (pids l) \<subseteq> stopped v w \<and> distinct (pids l) \<and>
     set (pids l) \<subseteq> all_pids v - {self_pid v} \<and> live v w \<subseteq> set (pids l) \<and> found_parent l"

text \<open>Before a round: no thread is attached, and a search in \<open>/proc\<close> begins only when there is no other thread.\<close>

definition round_start :: "'w view \<Rightarrow> bool \<Rightarrow> lister \<Rightarrow> 'w \<Rightarrow> bool" where
  "round_start v task l w \<longleftrightarrow> pids l = [] \<and> attached v w = {} \<and> (task \<or> live v w = {parent_pid v}) \<and>
     0 \<le> max_threads l \<and> max_threads l \<le> 2 ^ 30 + (if task then 200 else 300)"

lemma open_dir:
  assumes ok: "search_ok K q v" and "path \<in> {task_dir v, str ''/proc/''}" "round_start v (path = task_dir v) l (world s)"
  shows "\<exists>s'. c_open K path O_DIRECTORY 0 s = Some (dir_fd v, s') \<and> listed v (path = task_dir v) (world s') \<and>
     live v (world s') \<subseteq> pend v (world s') \<and> attached v (world s') = {}"
proof -
  have oks: "calm K q" "threads_ok K v" "listing_ok K v" "pids_ok v" using ok by (simp_all add: search_ok_def)
  let ?Q = "\<lambda>w. holds v {} (world s) w \<and> attached v w = {}"
  have step: "?Q w'" if "?Q w" "K (NR_open path O_DIRECTORY 0) w = (r, w')" for w r w'
    using that holds_call [OF oks(2) that(2), of "{}"] by (auto intro: holds_trans)
  have start: "?Q (world s)" "int_call (NR_open path O_DIRECTORY 0)" using assms(3) by (simp_all add: round_start_def)
  have "\<exists>r s' w. NO_INTR (sys_int K (NR_open path O_DIRECTORY 0)) s = Some ((if sint (kret r) < 0 then -1 else sint (kret r), r), s') \<and>
    ?Q w \<and> K (NR_open path O_DIRECTORY 0) w = (r, world s') \<and> sint (kret r) \<noteq> - EINTR"
    by (rule NO_INTR_call [OF calm_bounded [OF oks(1)] plain_int [OF oks(1) start(2)], where P = ?Q, OF start(1)]) (rule step)
  then obtain r s' w where c: "NO_INTR (sys_int K (NR_open path O_DIRECTORY 0)) s = Some ((if sint (kret r) < 0 then -1 else sint (kret r), r), s')"
    "?Q w" "K (NR_open path O_DIRECTORY 0) w = (r, world s')" "sint (kret r) \<noteq> - EINTR" by blast
  have o: "sint (kret r) = dir_fd v" "in_task v (world s') = (path = task_dir v)" "shown v (world s') \<subseteq> pend v (world s')" "0 \<le> dir_fd v"
    using oks(3) c(3,4) assms(2) unfolding listing_ok_def by blast+
  have li: "listed v (path = task_dir v) (world s')"
    using step [OF c(2,3)] o(2) assms(3) alone_holds [OF oks(4), of "world s" "{}" "world s'"] by (auto simp: listed_def round_start_def)
  then show ?thesis using c(1) o step [OF c(2,3)] listed_shown [OF li] by (simp add: c_open_def sys_open_def)
qed

lemma Next_alone:
  assumes "pids_ok v" "live v w \<subseteq> set ps" "\<not> 1 < length ps"
  shows "live v w = {parent_pid v}"
proof -
  have "parent_pid v \<in> live v w" using assms(1) by (simp add: pids_ok_def)
  moreover have "length ps \<le> 1" using assms(3) by simp
  ultimately show ?thesis using assms(2) by (cases ps) auto
qed

lemma scanned_found:
  assumes "pids_ok v" "search_inv v l w" "live v w \<subseteq> set (pids l)" "idles v w w'"
  shows "found_all v (l\<lparr>sig_proc := f\<rparr>) w'"
proof -
  have "set (pids l) \<subseteq> stopped v w" "parent_pid v \<in> live v w" using assms(1,2) by (simp_all add: search_inv_def pids_ok_def)
  moreover have "holds v (set (pids l)) w w'" "attached v w' = attached v w" using assms(4) by (simp_all add: idles_def)
  ultimately show ?thesis using assms(2,3) by (auto simp: found_all_def search_inv_def holds_def)
qed

lemma resumed_round:
  assumes "search_ok K q v" "attached v (world s) = set (pids l)" "ResumeAllProcessThreads K (pids l) s = (x, s')"
    "task \<or> live v (world s) = {parent_pid v}" "0 \<le> max_threads l" "max_threads l + 100 \<le> 2 ^ 30 + (if task then 200 else 300)"
  shows "round_start v task (l\<lparr>sig_pids := False, pids := [], sig_num_threads := 0, max_threads := max_threads l + 100\<rparr>) (world s')"
proof -
  have "threads_ok K v" "pids_ok v" using assms(1) by (simp_all add: search_ok_def)
  moreover from this(1) have "steady v {} (world s) (world s') \<and> attached v (world s') = attached v (world s) - set (rev (pids l))"
    using assms(3) by (intro Resume_loop_steady) (simp_all add: ResumeAllProcessThreads_def)
  ultimately show ?thesis using assms(2,4-6) alone_holds [of v "world s" "{}" "world s'"]
    by (auto simp: round_start_def steady_def)
qed

text \<open>A round up to the end of its scan.\<close>

lemma round_scan:
  assumes ok: "search_ok K q v" and path: "path \<in> {task_dir v, str ''/proc/''}"
    and start: "round_start v (path = task_dir v) l (world s)"
  shows "\<exists>res l' s'. search_dir K (view_env v addr) path last_path l s = (do {
         (l, s) \<leftarrow> (if res = Scan_full then Some (l', s')
                    else do { (_, s) \<leftarrow> NO_INTR (sys_close K (dir_fd v)) s'; Some (l'\<lparr>sig_proc := -1\<rparr>, s) });
         if res = Scanned \<and> (num_threads l > 1 \<or> last_path) then Some (Found, l, s)
         else let (_, s) = ResumeAllProcessThreads K (pids l) s
              in Some (if res = Scan_full then Retry else Next,
                   l\<lparr>sig_pids := False, pids := [], sig_num_threads := 0, max_threads := max_threads l + 100\<rparr>, s) }) \<and>
     scan_done v (path = task_dir v) l' res l' (world s') \<and> max_threads l \<le> max_threads l' \<and>
     max_threads l' \<le> 2 ^ 30 + (if path = task_dir v then 200 else 300)"
proof -
  let ?task = "path = task_dir v"
  have oks: "threads_ok K v" "listing_ok K v" "pids_ok v" using ok by (simp_all add: search_ok_def)
  obtain s1 where 1: "c_open K path O_DIRECTORY 0 s = Some (dir_fd v, s1)" "listed v ?task (world s1)"
    "live v (world s1) \<subseteq> pend v (world s1)" "attached v (world s1) = {}" using open_dir [OF ok path start] by blast
  obtain rc r s2 where 2: "sys_int K (NR_fstat (dir_fd v)) s1 = ((rc, r), s2)" by (metis surj_pair)
  have f: "kret r = 0" "unat (stat_nlink r) < 2 ^ 30" "0 \<le> dir_fd v" using oks(2) sys_world(1) [OF 2] unfolding listing_ok_def by blast+
  have rc: "rc = 0" using 2 f(1) by (auto simp: sys_int_def lss_syscall_def LSS_RETURN_int_def split: prod.splits)
  have i2: "idles v (world s1) (world s2)" using idles_sys(1) [OF oks(1) 2] by simp
  have mx: "0 \<le> max_threads l" "max_threads l \<le> 2 ^ 30 + (if ?task then 200 else 300)" "pids l = []" using start by (simp_all add: round_start_def)
  define l2 where "l2 = l\<lparr>sig_proc := dir_fd v, max_threads := grow_threads (stat_nlink r) (max_threads l), added_entries := 0,
    sig_num_threads := num_threads l, sig_pids := True\<rparr>"
  obtain N where N: "unat (stat_nlink r) = N" "N < 2 ^ 30" using f(2) by blast
  have g: "max_threads l2 = max (max_threads l) (int N + 100)"
    using grow_threads_max [OF mx(1) _ f(2), unfolded N(1)] mx(2) by (simp add: l2_def split: if_splits)
  then have pos: "0 \<le> max_threads l2" by simp
  have inv: "search_inv v l2 (world s2)" using i2 1(4) mx(3) pos by (simp add: search_inv_def idles_def l2_def)
  have li: "listed v ?task (world s2)" using listed_holds [OF oks(3) 1(2), of "{}"] i2 by (simp add: idles_def same_dir_def)
  have "covers v (live v (world s1)) l2 (world s2)"
    using i2 1(3) oks(3) mx(3) by (auto simp: covers_def idles_def holds_def same_dir_def l2_def pids_ok_def)
  then obtain res l3 s3 where 3: "scan_proc K (view_env v addr) l2 s2 = Some (res, l3, s3)" "scan_done v ?task l2 res l3 (world s3)"
    using scan_search [OF ok inv li] by blast
  have dn: "scan_done v ?task l3 res l3 (world s3)" "max_threads l3 = max_threads l2" "res \<noteq> Scan_failed"
    using 3(2) by (auto simp: scan_done_def)
  moreover have "max_threads l \<le> max_threads l2" "max_threads l2 \<le> 2 ^ 30 + (if ?task then 200 else 300)"
    using g mx N(2) by (auto simp: max_def split: if_splits)
  ultimately show ?thesis using 1(1) 2 rc 3(1) f(3)
    by (intro exI [of _ res] exI [of _ l3] exI [of _ s3]) (simp add: search_dir_def Let_def l2_def)
qed

lemma search_dir_complete:
  assumes ok: "search_ok K q v" and path: "path \<in> {task_dir v, str ''/proc/''}"
    and start: "round_start v (path = task_dir v) l (world s)"
  shows "\<exists>res l' s'. search_dir K (view_env v addr) path last_path l s = Some (res, l', s') \<and>
     (res = Found \<and> found_all v l' (world s') \<or>
      res = Retry \<and> round_start v (path = task_dir v) l' (world s') \<and> max_threads l + 100 \<le> max_threads l' \<and>
        max_threads l' \<le> int (card (all_pids v)) + 100 \<or>
      res = Next \<and> \<not> last_path \<and> (path = task_dir v \<longrightarrow> round_start v False l' (world s')))"
proof -
  let ?task = "path = task_dir v" and ?cleared = "\<lambda>l. l\<lparr>sig_pids := False, pids := [], sig_num_threads := 0, max_threads := max_threads l + 100\<rparr>"
  have oks: "calm K q" "threads_ok K v" "pids_ok v" using ok by (simp_all add: search_ok_def)
  obtain res l3 s3 where run: "search_dir K (view_env v addr) path last_path l s = (do {
         (l, s) \<leftarrow> (if res = Scan_full then Some (l3, s3)
                    else do { (_, s) \<leftarrow> NO_INTR (sys_close K (dir_fd v)) s3; Some (l3\<lparr>sig_proc := -1\<rparr>, s) });
         if res = Scanned \<and> (num_threads l > 1 \<or> last_path) then Some (Found, l, s)
         else let (_, s) = ResumeAllProcessThreads K (pids l) s in Some (if res = Scan_full then Retry else Next, ?cleared l, s) })"
    and dn: "scan_done v ?task l3 res l3 (world s3)" and bound: "max_threads l \<le> max_threads l3" "max_threads l3 \<le> 2 ^ 30 + (if ?task then 200 else 300)"
    using round_scan [OF ok path start, of addr last_path] by blast
  have d: "search_inv v l3 (world s3)" "?task \<or> live v (world s3) = {parent_pid v}" "0 \<le> max_threads l3" "attached v (world s3) = set (pids l3)"
    using dn start bound(1) by (auto simp: scan_done_def listed_def round_start_def search_inv_def)
  show ?thesis
  proof (cases "res = Scan_full")
    case True
    obtain x s4 where 4: "ResumeAllProcessThreads K (pids l3) s3 = (x, s4)" by (metis surj_pair)
    have "set (pids l3) \<subseteq> all_pids v" "distinct (pids l3)" "finite (all_pids v)" using d(1) oks(3) by (auto simp: search_inv_def pids_ok_def)
    then have "length (pids l3) \<le> card (all_pids v)" using card_mono [of "all_pids v" "set (pids l3)"] by (simp add: distinct_card)
    then have n: "max_threads l3 \<le> int (card (all_pids v))" "int (card (all_pids v)) < 2 ^ 30"
      using dn True oks(3) by (auto simp: scan_done_def pids_ok_def)
    then have "round_start v ?task (?cleared l3) (world s4)" by (intro resumed_round [OF ok d(4) 4 d(2,3)]) simp
    then show ?thesis using run True 4 n bound by simp
  next
    case False
    then have sc: "res = Scanned" "live v (world s3) \<subseteq> set (pids l3)" using dn by (auto simp: scan_done_def)
    obtain x s4 w4 where 4: "NO_INTR (sys_close K (dir_fd v)) s3 = Some (x, s4)" "idles v (world s3) w4" "K (NR_close (dir_fd v)) w4 = (snd x, world s4)"
      using idles_NO_INTR [OF oks(1,2), of "NR_close (dir_fd v)" s3] by (auto simp: sys_close_def)
    have i4: "idles v (world s3) (world s4)" by (rule idles_trans [OF 4(2) idles_call [OF oks(2) 4(3)]]) simp
    show ?thesis
    proof (cases "1 < num_threads l3 \<or> last_path")
      case True
      then have "search_dir K (view_env v addr) path last_path l s = Some (Found, l3\<lparr>sig_proc := -1\<rparr>, s4)" using run sc(1) 4(1) by simp
      then show ?thesis using scanned_found [OF oks(3) d(1) sc(2) i4] by blast
    next
      case nf: False
      obtain y s5 where 5: "ResumeAllProcessThreads K (pids l3) s4 = (y, s5)" by (metis surj_pair)
      have "live v (world s3) = {parent_pid v}" using Next_alone [OF oks(3) sc(2)] nf by simp
      then have al: "live v (world s4) = {parent_pid v}" using alone_holds [OF oks(3), of "world s3" "{}" "world s4"] i4 by (simp add: idles_def)
      have "round_start v False (?cleared (l3\<lparr>sig_proc := -1\<rparr>)) (world s5)" if ?task
        using resumed_round [OF ok, of s4 "l3\<lparr>sig_proc := -1\<rparr>" y s5 False] 5 al d(3,4) i4 bound that by (simp add: idles_def)
      then show ?thesis using run sc(1) 4(1) 5 nf by simp
    qed
  qed
qed

lemma task_not_proc: "str ''/proc/'' \<noteq> task_dir v"
  by (simp add: proc_dir_def)

lemma find_rounds:
  assumes ok: "search_ok K q v" and path: "path \<in> {task_dir v, str ''/proc/''}" "rest \<noteq> [] \<longrightarrow> path = task_dir v"
    and others: "\<And>l s. rest \<noteq> [] \<Longrightarrow> round_start v False l (world s) \<Longrightarrow>
      \<exists>l' s'. find_threads K (view_env v addr) rest l s = Some (True, l', s') \<and> found_all v l' (world s')"
  shows "round_start v (path = task_dir v) l (world s) \<Longrightarrow>
    \<exists>l' s'. find_threads K (view_env v addr) (path # rest) l s = Some (True, l', s') \<and> found_all v l' (world s')"
proof (induction "nat (int (card (all_pids v)) + 200 - max_threads l)" arbitrary: l s rule: less_induct)
  case less
  obtain res l1 s1 where r: "search_dir K (view_env v addr) path (rest = []) l s = Some (res, l1, s1)"
     "res = Found \<and> found_all v l1 (world s1) \<or>
      res = Retry \<and> round_start v (path = task_dir v) l1 (world s1) \<and> max_threads l + 100 \<le> max_threads l1 \<and>
        max_threads l1 \<le> int (card (all_pids v)) + 100 \<or>
      res = Next \<and> rest \<noteq> [] \<and> (path = task_dir v \<longrightarrow> round_start v False l1 (world s1))"
    using search_dir_complete [OF ok path(1) less.prems, of addr "rest = []"] by blast
  have "find_threads K (view_env v addr) (path # rest) l s =
      (if res = Found then Some (True, l1, s1) else if res = Failed then Some (False, l1, s1)
       else if res = Retry then find_threads K (view_env v addr) (path # rest) l1 s1 else find_threads K (view_env v addr) rest l1 s1)"
    using r(1) by (subst find_threads.simps) simp
  with r(2) show ?case
  proof (elim disjE conjE, goal_cases)
    case 2
    then show ?case using less.hyps [of l1 s1] by simp
  next
    case 3
    then show ?case using others [of l1 s1] path(2) by simp
  qed simp
qed

lemma find_threads_complete:
  assumes "search_ok K q v" "round_start v True l (world s)"
  shows "\<exists>l' s'. find_threads K (view_env v addr) [task_dir v, str ''/proc/''] l s = Some (True, l', s') \<and> found_all v l' (world s')"
proof (rule find_rounds [OF assms(1)])
  fix l and s :: "'a st"
  assume "round_start v False l (world s)"
  then show "\<exists>l' s'. find_threads K (view_env v addr) [str ''/proc/''] l s = Some (True, l', s') \<and> found_all v l' (world s')"
    using task_not_proc [of v] by (intro find_rounds [OF assms(1)]) simp_all
qed (use assms(2) in simp_all)

end
