(* ===== verification/Search_Complete.thy ===== *)
theory Search_Complete
  imports Thread_Search
begin

text \<open>
  The thread lister finds every thread: the search inside \<open>ListerThread\<close> and the function
  \<open>ListAllProcessThreads\<close> that waits for it, on a process whose threads go on creating threads.
\<close>

subsection \<open>The lister\<close>

text \<open>What the lister asks for before it begins to search.\<close>

definition prologue_ok :: "'w kern \<Rightarrow> 'w view \<Rightarrow> bool" where
  "prologue_ok K v \<longleftrightarrow> 0 < self_pid v \<and> self_pid v < 2 ^ 31 \<and> parent_pid v < 2 ^ 31 \<and> 0 \<le> mark_fd v \<and> mark_fd v < 2 ^ 31 \<and>
     (\<forall>w. sint (kret (fst (K NR_gettid w))) = self_pid v \<and> sint (kret (fst (K NR_getppid w))) = parent_pid v \<and>
        sint (kret (fst (K (NR_socket 1 2 0) w))) = mark_fd v \<and> 0 \<le> sint (kret (fst (K (NR_fcntl (mark_fd v) F_SETFD FD_CLOEXEC) w))))"

lemma sys_int_result:
  assumes "sint (kret (fst (K c (world s)))) = n" "0 \<le> n" "n < 2 ^ 31"
  shows "\<exists>r s'. sys_int K c s = ((n, r), s') \<and> K c (world s) = (r, world s')"
proof -
  obtain r w where c: "K c (world s) = (r, w)" by (metis surj_pair)
  then have "LSS_RETURN_int (kret r) (errno s) = (n, errno s)" using assms LSS_RETURN_int_small [of "kret r"] by simp
  then show ?thesis using c by (simp add: sys_int_def lss_syscall_def)
qed

lemma install_handlers_idles:
  assumes "threads_ok K v"
  shows "idles v (world s) (world (install_handlers K sgs s))"
proof (induction sgs arbitrary: s)
  case (Cons sg sgs)
  obtain x s1 where 1: "sys_int K (NR_rt_sigaction sg 0x88000004 (sys_sigfillset \<lparr>sig = [0]\<rparr>) 8) s = (x, s1)" by (metis surj_pair)
  have "idles v (world s) (world s1)" using idles_sys(1) [OF assms 1] by simp
  moreover have "install_handlers K (sg # sgs) s = install_handlers K sgs s1" using 1 by simp
  ultimately show ?case using idles_trans [OF _ Cons.IH [of s1]] by simp
qed simp

text \<open>The array that the callback is given: all threads of the process, stopped and attached.\<close>

definition all_found :: "'w view \<Rightarrow> int list \<Rightarrow> 'w \<Rightarrow> bool" where
  "all_found v ps w \<longleftrightarrow> live v w \<subseteq> set ps \<and> set ps \<subseteq> stopped v w \<and> attached v w = set ps \<and> distinct ps \<and>
    set ps \<subseteq> all_pids v - {self_pid v}"

lemma run_callback_found:
  assumes "search_ok K q v" "found_all v l (world s)"
  shows "\<exists>s1. all_found v (pids l) (world s1) \<and> (\<forall>callback. run_callback K callback (view_env v addr) args l s =
    (case callback (pids l) s1 of None \<Rightarrow> None
     | Some (rc, s2) \<Rightarrow> case ResumeAllProcessThreads K (pids l) s2 of (resumed, s3) \<Rightarrow>
         Some ((0, if resumed then \<lparr>lp_result = -1, lp_err = EINVAL\<rparr> else \<lparr>lp_result = rc, lp_err = errno s2\<rparr>), sys_exit K 0 s3)))"
proof -
  have oks: "calm K q" "threads_ok K v" using assms(1) by (simp_all add: search_ok_def)
  obtain x s1 w1 where 1: "NO_INTR (sys_close K (mark_fd v)) s = Some (x, s1)" "idles v (world s) w1" "K (NR_close (mark_fd v)) w1 = (snd x, world s1)"
    using idles_NO_INTR [OF oks, of "NR_close (mark_fd v)" s] by (auto simp: sys_close_def)
  have i: "idles v (world s) (world s1)" by (rule idles_trans [OF 1(2) idles_call [OF oks(2) 1(3)]]) simp
  then have "holds v (set (pids l)) (world s) (world s1)" "attached v (world s1) = attached v (world s)" by (simp_all add: idles_def)
  then have "all_found v (pids l) (world s1)"
    using assms(2) by (auto simp: all_found_def found_all_def holds_def)
  moreover have "run_callback K callback (view_env v addr) args l s =
    (case callback (pids l) s1 of None \<Rightarrow> None
     | Some (rc, s2) \<Rightarrow> case ResumeAllProcessThreads K (pids l) s2 of (resumed, s3) \<Rightarrow>
         Some ((0, if resumed then \<lparr>lp_result = -1, lp_err = EINVAL\<rparr> else \<lparr>lp_result = rc, lp_err = errno s2\<rparr>), sys_exit K 0 s3))" for callback
    using assms(2) 1(1) by (auto simp: run_callback_def found_all_def Let_def split: option.splits prod.splits)
  ultimately show ?thesis by blast
qed

lemma ListerThread_complete:
  assumes ok: "search_ok K q v" and pro: "prologue_ok K v" and start: "attached v (world s) = {}"
  shows "\<exists>ps s1. all_found v ps (world s1) \<and> (\<forall>callback. ListerThread K callback addr args s =
    (case callback ps s1 of None \<Rightarrow> None
     | Some (rc, s2) \<Rightarrow> case ResumeAllProcessThreads K ps s2 of (resumed, s3) \<Rightarrow>
         Some ((0, if resumed then \<lparr>lp_result = -1, lp_err = EINVAL\<rparr> else \<lparr>lp_result = rc, lp_err = errno s2\<rparr>), sys_exit K 0 s3)))"
proof -
  have oks: "calm K q" "threads_ok K v" "thread_calls_ok K v" "pids_ok v" using ok by (simp_all add: search_ok_def)
  have live: "parent_pid v \<in> live v w" "0 < parent_pid v" for w using oks(4) unfolding pids_ok_def by blast+
  obtain r1 s1 where 1: "sys_int K NR_gettid s = ((self_pid v, r1), s1)" "K NR_gettid (world s) = (r1, world s1)"
    using sys_int_result [of K NR_gettid s "self_pid v"] pro by (auto simp: prologue_ok_def)
  obtain r2 s2 where 2: "sys_int K NR_getppid s1 = ((parent_pid v, r2), s2)" "K NR_getppid (world s1) = (r2, world s2)"
    using sys_int_result [of K NR_getppid s1 "parent_pid v"] pro live by (auto simp: prologue_ok_def)
  obtain r3 s3 where 3: "sys_int K (NR_socket 1 2 0) s2 = ((mark_fd v, r3), s3)" "K (NR_socket 1 2 0) (world s2) = (r3, world s3)"
    using sys_int_result [of K "NR_socket 1 2 0" s2 "mark_fd v"] pro by (auto simp: prologue_ok_def)
  obtain rc4 r4 s4 where 4: "sys_fcntl K (mark_fd v) F_SETFD FD_CLOEXEC s3 = ((rc4, r4), s4)" by (metis surj_pair)
  note c4 = sys_world(1) [OF 4 [unfolded sys_fcntl_def]]
  have rc4: "0 \<le> rc4"
  proof -
    have "0 \<le> sint (kret (fst (K (NR_fcntl (mark_fd v) F_SETFD FD_CLOEXEC) (world s3))))" using pro by (simp only: prologue_ok_def)
    then have "0 \<le> sint (kret r4)" by (simp only: c4 fst_conv)
    then show ?thesis using plain_callD [OF plain_int [OF oks(1)] 4 [unfolded sys_fcntl_def]] by simp
  qed
  have path: "proc_dir (parent_pid v) @ marker_suffix (mark_fd v) = str ''/proc/'' @ local_itoa (parent_pid v) @ marker_suffix (mark_fd v)"
    by (simp add: proc_dir_def)
  obtain rc5 r5 s5 where 5: "sys_int K (NR_stat (proc_dir (parent_pid v) @ marker_suffix (mark_fd v))) s4 = ((rc5, r5), s5)" by (metis surj_pair)
  have st: "kret r5 = 0" "stat_ino r5 = mark_ino v"
    using stat_marker(1) [OF oks(3) sys_world(1) [OF 5 [unfolded path]] live(1) refl] by simp_all
  have rc5: "rc5 = 0" using 5 st(1) by (auto simp: sys_int_def lss_syscall_def LSS_RETURN_int_def split: prod.splits)
  obtain x6 s6 where 6: "sys_int K NR_sigaltstack s5 = (x6, s6)" by (metis surj_pair)
  define s7 where "s7 = install_handlers K sync_signals s6"
  have "idles v (world s) (world s1)" "idles v (world s1) (world s2)" "idles v (world s2) (world s3)" "idles v (world s3) (world s4)"
    "idles v (world s4) (world s5)" "idles v (world s5) (world s6)" "idles v (world s6) (world s7)"
    using idles_sys(1) [OF oks(2) 1(1)] idles_sys(1) [OF oks(2) 2(1)] idles_sys(1) [OF oks(2) 3(1)] idles_sys(1) [OF oks(2) 4 [unfolded sys_fcntl_def]]
      idles_sys(1) [OF oks(2) 5] idles_sys(1) [OF oks(2) 6] install_handlers_idles [OF oks(2), of s6 sync_signals, folded s7_def] by simp_all
  then have "attached v (world s7) = {}" using start unfolding idles_def by metis
  then have "round_start v True (lister_init (mark_fd v)) (world s7)" by (simp add: round_start_def lister_init_def)
  then obtain l s8 where 8: "find_threads K (view_env v addr) [task_dir v, str ''/proc/''] (lister_init (mark_fd v)) s7 = Some (True, l, s8)" "found_all v l (world s8)"
    using find_threads_complete [OF ok] by blast
  have env: "\<lparr>clone_pid = self_pid v, ppid = parent_pid v, marker = mark_fd v, marker_path = marker_suffix (mark_fd v),
     marker_ino = stat_ino r5, addr_i = addr\<rparr> = view_env v addr" by (simp add: view_env_def st(2))
  have self: "sys_gettid K s = (self_pid v, s1)" using 1(1) pro by (auto simp: sys_gettid_def prologue_ok_def)
  have "0 \<le> mark_fd v" using pro by (simp add: prologue_ok_def)
  then have "ListerThread K callback addr args s = run_callback K callback (view_env v addr) args l s8" for callback
    using self 2(1) 3(1) 4 rc4 5 rc5 6 8(1) env by (simp add: ListerThread_def Let_def s7_def)
  then show ?thesis using run_callback_found [OF ok 8(2)] by fastforce
qed

subsection \<open>The caller of the lister\<close>

text \<open>The caller can block signals, create the lister and learn how it exited.\<close>

definition caller_ok :: "'w kern \<Rightarrow> 'w view \<Rightarrow> bool" where
  "caller_ok K v \<longleftrightarrow>
     (\<forall>ms w. kret (fst (K (NR_rt_sigprocmask SIG_BLOCK ms 8) w)) = 0) \<and>
     (\<forall>w. sint (kret (fst (K (NR_clone 0x800700) w))) = self_pid v) \<and>
     (\<forall>code w r w'. K (NR_exit code) w = (r, w') \<longrightarrow> exit_code v w' = code) \<and>
     (\<forall>w r w'. K (NR_wait4 (self_pid v) WALL) w = (r, w') \<longrightarrow>
        sint (kret r) = - EINTR \<and> exit_code v w' = exit_code v w \<or> 0 \<le> sint (kret r) \<and> kints r = [256 * exit_code v w])"

lemma wait_for_lister:
  assumes "calm K q" "caller_ok K v" "exit_code v (world s) = 0"
  shows "\<exists>rc r e s'. MY_NO_INTR (sys0_int K (NR_wait4 (self_pid v) WALL) 0) s = Some ((rc, r, e), s') \<and> 0 \<le> rc \<and> kints r = [0]"
proof -
  have w: "sint (kret r) = - EINTR \<and> exit_code v w' = exit_code v w \<or> 0 \<le> sint (kret r) \<and> kints r = [256 * exit_code v w]"
    if "K (NR_wait4 (self_pid v) WALL) w = (r, w')" for w r w' using assms(2) that unfolding caller_ok_def by blast
  have ic: "int_call (NR_wait4 (self_pid v) WALL)" by simp
  have "\<exists>r e s' w. MY_NO_INTR (sys0_int K (NR_wait4 (self_pid v) WALL) 0) s = Some ((if sint (kret r) < 0 then -1 else sint (kret r), r, e), s') \<and>
      exit_code v w = 0 \<and> K (NR_wait4 (self_pid v) WALL) w = (r, world s') \<and> sint (kret r) \<noteq> - EINTR"
    by (rule MY_NO_INTR_int_call [OF assms(1) ic, where P = "\<lambda>w. exit_code v w = 0", OF assms(3)]) (use w in force)
  then obtain r e s' w where "MY_NO_INTR (sys0_int K (NR_wait4 (self_pid v) WALL) 0) s = Some ((if sint (kret r) < 0 then -1 else sint (kret r), r, e), s')"
     "exit_code v w = 0" "K (NR_wait4 (self_pid v) WALL) w = (r, world s')" "sint (kret r) \<noteq> - EINTR" by blast
  then show ?thesis using w by force
qed

definition lister_result :: "'w kern \<Rightarrow> int list \<Rightarrow> int \<times> 'w st \<Rightarrow> ListerParams" where
  "lister_result K ps = (\<lambda>(rc, s). if fst (ResumeAllProcessThreads K ps s) then \<lparr>lp_result = -1, lp_err = EINVAL\<rparr>
     else \<lparr>lp_result = rc, lp_err = errno s\<rparr>)"

definition threads_kernel :: "'w kern \<Rightarrow> ('w \<Rightarrow> nat) \<Rightarrow> 'w view \<Rightarrow> bool" where
  "threads_kernel K q v \<longleftrightarrow> search_ok K q v \<and> prologue_ok K v \<and> caller_ok K v"

lemma run_lister_complete:
  assumes ok: "threads_kernel K q v" and start: "attached v (world s) = {}"
  shows "\<exists>ps s1. all_found v ps (world s1) \<and>
    (\<forall>callback. run_lister K callback addr old s = callback ps s1 \<bind> (\<lambda>x. run_lister K (\<lambda>_ _. Some x) addr old s)) \<and>
    (\<forall>x. \<exists>s'. run_lister K (\<lambda>_ _. Some x) addr old s = Some (lister_result K ps x, s'))"
proof -
  have oks: "search_ok K q v" "prologue_ok K v" "caller_ok K v" "calm K q" "threads_ok K v"
    using ok by (simp_all add: threads_kernel_def search_ok_def)
  have pid: "sint (kret (fst (K (NR_clone 0x800700) (world s)))) = self_pid v" "0 < self_pid v" "self_pid v < 2 ^ 31"
    using oks(2,3) by (simp_all add: caller_ok_def prologue_ok_def)
  then obtain r1 s1 where 1: "local_clone K s = ((self_pid v, r1), s1)"
    using sys_int_result [of K "NR_clone 0x800700" s "self_pid v"] by (auto simp: local_clone_def)
  obtain x2 s2 where 2: "sys_int K (NR_prctl PR_SET_PTRACER (self_pid v)) s1 = (x2, s2)" by (metis surj_pair)
  obtain x3 s3 where 3: "sys_int K (NR_rt_sigprocmask SIG_SETMASK (Some old) 8) s2 = (x3, s3)" by (metis surj_pair)
  have "attached v (world s3) = {}"
    using idles_sys(1) [OF oks(5) 1 [unfolded local_clone_def]] idles_sys(1) [OF oks(5) 2] idles_sys(1) [OF oks(5) 3] start by (simp add: idles_def)
  from ListerThread_complete [OF oks(1,2) this, of addr "\<lparr>lp_result = -1, lp_err = 0\<rparr>"]
  obtain ps s4 where 4: "all_found v ps (world s4)" "\<And>callback. ListerThread K callback addr \<lparr>lp_result = -1, lp_err = 0\<rparr> s3 =
    (case callback ps s4 of None \<Rightarrow> None
     | Some (rc, s2) \<Rightarrow> case ResumeAllProcessThreads K ps s2 of (resumed, s3) \<Rightarrow>
         Some ((0, if resumed then \<lparr>lp_result = -1, lp_err = EINVAL\<rparr> else \<lparr>lp_result = rc, lp_err = errno s2\<rparr>), sys_exit K 0 s3))" by blast
  have "run_lister K callback addr old s = callback ps s4 \<bind> (\<lambda>x. run_lister K (\<lambda>_ _. Some x) addr old s)" for callback
    using 1 2 3 4(2) pid(2) by (cases "callback ps s4") (simp_all add: run_lister_def)
  moreover have "\<exists>s'. run_lister K (\<lambda>_ _. Some x) addr old s = Some (lister_result K ps x, s')" for x
  proof -
    obtain rc s5 resumed s6 where x: "x = (rc, s5)" "ResumeAllProcessThreads K ps s5 = (resumed, s6)" by (metis surj_pair)
    obtain r7 w7 where "K (NR_exit 0) (world s6) = (r7, w7)" by (metis surj_pair)
    moreover from this have "exit_code v w7 = 0" using oks(3) unfolding caller_ok_def by blast
    ultimately have "exit_code v (world (sys_exit K 0 s6)) = 0" by (simp add: sys_exit_def sys_defs split: prod.splits)
    from wait_for_lister [OF oks(4,3) this] obtain wrc r e s8 where
      "MY_NO_INTR (sys0_int K (NR_wait4 (self_pid v) WALL) 0) (sys_exit K 0 s6) = Some ((wrc, r, e), s8)" "0 \<le> wrc" "kints r = [0]" by blast
    then show ?thesis using x 1 2 3 4(2) pid(2)
      by (simp add: run_lister_def Let_def lister_result_def exit_result_def WIFEXITED_def WEXITSTATUS_def)
  qed
  ultimately show ?thesis using 4(1) by blast
qed

lemma ListAll_complete:
  assumes ok: "threads_kernel K q v" and start: "attached v (world s) = {}"
  shows "\<exists>ps s1. all_found v ps (world s1) \<and>
    (\<forall>callback. ListAllProcessThreads K callback addr s = callback ps s1 \<bind> (\<lambda>x. ListAllProcessThreads K (\<lambda>_ _. Some x) addr s)) \<and>
    (\<forall>x. \<exists>s'. ListAllProcessThreads K (\<lambda>_ _. Some x) addr s = Some (lp_result (lister_result K ps x), s') \<and> errno s' = lp_err (lister_result K ps x))"
proof -
  have oks: "caller_ok K v" "threads_ok K v" using ok by (simp_all add: threads_kernel_def search_ok_def)
  obtain x1 s1 where 1: "sys_read K (-1) 32768 s = (x1, s1)" by (metis surj_pair)
  obtain d r2 s2 where 2: "sys_int K (NR_prctl PR_GET_DUMPABLE 0) s1 = ((d, r2), s2)" by (metis surj_pair)
  obtain x3 s3' where 3: "sys_int K (NR_prctl PR_SET_DUMPABLE 1) s2 = (x3, s3')" by (metis surj_pair)
  define s3 where "s3 = (if d = 0 then s3' else s2)"
  obtain blk e where b: "unblock_sync sync_signals (sys_sigfillset \<lparr>sig = [0]\<rparr>, errno s3) = (blk, e)" by (metis surj_pair)
  obtain rc r4 s4 where 4: "sys_int K (NR_rt_sigprocmask SIG_BLOCK (Some blk) 8) (s3\<lparr>errno := e\<rparr>) = ((rc, r4), s4)" by (metis surj_pair)
  let ?old = "\<lparr>sig = [of_le64 (stored 8 (kbytes r4))]\<rparr>"
  have "kret (fst (K (NR_rt_sigprocmask SIG_BLOCK (Some blk) 8) (world s3))) = 0" using oks(1) unfolding caller_ok_def by blast
  then have rc: "rc = 0" using 4 by (auto simp: sys_int_def lss_syscall_def LSS_RETURN_int_def split: prod.splits)
  have "idles v (world s) (world s1)" "idles v (world s1) (world s2)" "idles v (world s2) (world s3)" "idles v (world s3) (world s4)"
    using idles_sys(2) [OF oks(2) 1 [unfolded sys_read_def]] idles_sys(1) [OF oks(2) 2] idles_sys(1) [OF oks(2) 3] idles_sys(1) [OF oks(2) 4]
    by (simp_all add: s3_def)
  then have "attached v (world s4) = {}" using start unfolding idles_def by metis
  from run_lister_complete [OF ok this, of addr ?old] obtain ps s5 where 5: "all_found v ps (world s5)"
    "\<And>callback. run_lister K callback addr ?old s4 = callback ps s5 \<bind> (\<lambda>x. run_lister K (\<lambda>_ _. Some x) addr ?old s4)"
    "\<And>x. \<exists>s'. run_lister K (\<lambda>_ _. Some x) addr ?old s4 = Some (lister_result K ps x, s')" by blast
  have run: "ListAllProcessThreads K callback addr s = run_lister K callback addr ?old s4 \<bind>
      (\<lambda>(args, t). Some (lp_result args, (if d = 0 then snd (sys_int K (NR_prctl PR_SET_DUMPABLE d) t) else t)\<lparr>errno := lp_err args\<rparr>))" for callback
    using 1 2 3 b 4 rc by (cases "d = 0") (simp_all add: ListAllProcessThreads_def DirtyStack_def s3_def Let_def)
  have "ListAllProcessThreads K callback addr s = callback ps s5 \<bind> (\<lambda>x. ListAllProcessThreads K (\<lambda>_ _. Some x) addr s)" for callback
    unfolding run by (subst 5(2)) (cases "callback ps s5"; simp)
  moreover have "\<exists>s'. ListAllProcessThreads K (\<lambda>_ _. Some x) addr s = Some (lp_result (lister_result K ps x), s') \<and> errno s' = lp_err (lister_result K ps x)" for x
    using 5(3) [of x] by (auto simp: run)
  ultimately show ?thesis using 5(1) by blast
qed

subsection \<open>A process that creates a thread during the search\<close>

text \<open>
  The threads 7, the caller, and 8; while the first directory is read, thread 8 creates thread 9 unless it is
  stopped. The lister is 5, its marker descriptor 3, and directories are opened as descriptor 4.
\<close>

record threads_world =
  tw_new  :: bool
  tw_att  :: "int set"
  tw_pend :: "int set"
  tw_task :: bool
  tw_exit :: int

definition tw_live :: "threads_world \<Rightarrow> int set" where
  "tw_live w = (if tw_new w then {7, 8, 9} else {7, 8})"

definition tw_listing :: "threads_world \<Rightarrow> int list" where
  "tw_listing w = filter (\<lambda>p. p \<in> tw_pend w) [7, 8, 9]"

definition tw_entry :: "int \<Rightarrow> dir_entry" where
  "tw_entry p = \<lparr>d_ino = 1, d_reclen = 19 + length (local_itoa p), d_name = local_itoa p, d_off = 0, d_pad = []\<rparr>"

definition threads_demo :: "threads_world kern" where
  "threads_demo c w =
     (case c of
        NR_ptrace req p a \<Rightarrow>
          if req = PTRACE_ATTACH then
            if p \<in> {7, 8, 9} then (ret 0, w\<lparr>tw_att := insert p (tw_att w)\<rparr>) else (ret (- 3), w)
          else if req = PTRACE_DETACH then
            (if p \<in> tw_att w then ret 0 else ret (- 3), w\<lparr>tw_att := tw_att w - {p}\<rparr>)
          else (ret 0, w)
      | NR_wait4 p opts \<Rightarrow>
          if p = 5 then (\<lparr>kret = 5, kbytes = [], kints = [256 * tw_exit w]\<rparr>, w)
          else if p \<in> {7, 8, 9} then (ret (of_int p), w) else (ret (- 10), w)
      | NR_peekdata p a i \<Rightarrow> (ret_word i, w)
      | NR_stat path \<Rightarrow>
          if \<exists>p\<in>{7, 8, 9}. path = str ''/proc/'' @ local_itoa p @ marker_suffix 3 then (ret_stat, w) else (ret (- 2), w)
      | NR_open p fl md \<Rightarrow>
          if p = proc_dir 7 @ str ''/task/'' then (ret 4, w\<lparr>tw_task := True, tw_pend := tw_live w\<rparr>)
          else if p = str ''/proc/'' then (ret 4, w\<lparr>tw_task := False, tw_pend := {7}\<rparr>) else (ret (- 2), w)
      | NR_lseek f off wh \<Rightarrow> (ret 0, if f = 4 then w\<lparr>tw_pend := if tw_task w then tw_live w else {7}\<rparr> else w)
      | NR_getdents f n \<Rightarrow>
          if f = 4 then
            let bs = concat (map (enc_dirent \<circ> tw_entry) (tw_listing w))
            in (\<lparr>kret = of_nat (length bs), kbytes = bs, kints = []\<rparr>,
                w\<lparr>tw_pend := {}, tw_new := tw_new w \<or> 8 \<notin> tw_att w\<rparr>)
          else (ret 0, w)
      | NR_gettid \<Rightarrow> (ret 5, w)
      | NR_getppid \<Rightarrow> (ret 7, w)
      | NR_socket d t x \<Rightarrow> (ret 3, w)
      | NR_clone fl \<Rightarrow> (ret 5, w)
      | NR_exit code \<Rightarrow> (ret 0, w\<lparr>tw_exit := code\<rparr>)
      | _ \<Rightarrow> (ret 0, w))"

definition threads_view :: "threads_world view" where
  "threads_view = \<lparr>live = tw_live, attached = tw_att, stopped = tw_att, pend = \<lambda>w. set (tw_listing w),
     passes = \<lambda>w. length (tw_listing w), in_task = tw_task, exit_code = tw_exit, self_pid = 5, parent_pid = 7, caller_pid = 7,
     mark_fd = 3, mark_ino = 42, dir_fd = 4, all_pids = {7, 8, 9}\<rparr>"

lemma threads_view_simps [simp]:
  "live threads_view = tw_live" "attached threads_view = tw_att" "stopped threads_view = tw_att"
  "pend threads_view = (\<lambda>w. set (tw_listing w))" "passes threads_view = (\<lambda>w. length (tw_listing w))" "in_task threads_view = tw_task"
  "exit_code threads_view = tw_exit" "self_pid threads_view = 5" "parent_pid threads_view = 7" "caller_pid threads_view = 7"
  "mark_fd threads_view = 3" "mark_ino threads_view = 42" "dir_fd threads_view = 4" "all_pids threads_view = {7, 8, 9}"
  by (simp_all add: threads_view_def)

lemma call_ok_simps: "call_ok (ret 0)" "\<not> call_ok (ret (- 3))"
  by (simp_all add: call_ok_def LSS_RETURN_def)

lemma itoa_demo: "local_itoa 7 = [55]" "local_itoa 8 = [56]" "local_itoa 9 = [57]"
  by code_simp+

lemma listing_length: "length (concat (map (enc_dirent \<circ> tw_entry) (tw_listing w))) = 20 * length (tw_listing w)" "length (tw_listing w) \<le> 3"
  by (simp_all add: tw_listing_def tw_entry_def itoa_demo)

lemma threads_demo_calm: "calm threads_demo (\<lambda>_. 0)"
  unfolding calm_def intr_bounded_def
proof (intro conjI allI impI)
  fix c w r w'
  assume K: "threads_demo c w = (r, w')"
  have len: "sint (of_nat (20 * length (tw_listing w)) :: u64) = int (20 * length (tw_listing w))"
    using listing_length(2) [of w] by (intro sint_small) simp
  { assume e: "sint (kret r) = - EINTR"
    show "(0::nat) < 0" using K e len
      by (cases c) (auto simp: threads_demo_def Let_def listing_length(1) split: if_splits) }
  { assume i: "int_call c"
    show "- 4095 \<le> sint (kret r)" using K i by (cases c) (auto simp: threads_demo_def Let_def split: if_splits)
    show "sint (kret r) < 2 ^ 31" using K i by (cases c) (auto simp: threads_demo_def Let_def split: if_splits) }
qed simp

lemma threads_demo_threads: "threads_ok threads_demo threads_view"
  unfolding threads_ok_def threads_view_simps
proof (intro allI impI conjI)
  fix c w r w'
  assume K: "threads_demo c w = (r, w')"
  show "tw_live w \<subseteq> tw_live w'" using K by (cases c) (auto simp: threads_demo_def tw_live_def Let_def split: if_splits)
  show "tw_att w' = trace_step (c, r) (tw_att w)" using K by (cases c) (auto simp: threads_demo_def Let_def call_ok_simps split: if_splits)
  show "\<forall>p\<in>tw_att w. releases p c \<or> p \<in> tw_att w'" using K by (cases c) (auto simp: threads_demo_def Let_def split: if_splits)
  show "moves_dir c \<or> set (tw_listing w') = set (tw_listing w) \<and> tw_task w' = tw_task w \<and> length (tw_listing w') = length (tw_listing w)"
    using K by (cases c) (auto simp: threads_demo_def tw_listing_def Let_def split: if_splits)
next
  fix c w r w'
  assume K: "threads_demo c w = (r, w')" and "tw_live w \<subseteq> insert 7 (tw_att w)"
  moreover from this(2) have "8 \<in> tw_att w" by (auto simp: tw_live_def split: if_splits)
  ultimately show "tw_live w' = tw_live w" by (cases c) (auto simp: threads_demo_def tw_live_def Let_def split: if_splits)
qed

lemma threads_demo_calls: "thread_calls_ok threads_demo threads_view"
proof -
  have live: "p \<in> {7, 8, 9}" if "p \<in> tw_live w" for p w using that by (auto simp: tw_live_def split: if_splits)
  have "can_attach threads_demo threads_view"
    unfolding can_attach_def threads_view_simps by (auto simp: threads_demo_def dest!: live split: if_splits)
  moreover have "can_wait threads_demo threads_view"
    unfolding can_wait_def threads_view_simps by (auto simp: threads_demo_def dest!: live split: if_splits)
  moreover have "can_peek threads_demo threads_view"
    unfolding can_peek_def threads_view_simps by (auto simp: threads_demo_def)
  moreover have "has_marker threads_demo threads_view"
    unfolding has_marker_def threads_view_simps
  proof (intro allI impI conjI ballI)
    fix name w r w' p
    assume K: "threads_demo (NR_stat (str ''/proc/'' @ name @ marker_suffix 3)) w = (r, w')"
    { assume "p \<in> tw_live w" "name = local_itoa p"
      then have "\<exists>p\<in>{7, 8, 9}. str ''/proc/'' @ name @ marker_suffix 3 = str ''/proc/'' @ local_itoa p @ marker_suffix 3" using live by blast
      then have "r = ret_stat" using K by (simp add: threads_demo_def split: if_splits)
      then show "kret r = 0" "stat_ino r = 42" by simp_all }
    { assume "entry_pid name = Some p"
      moreover have "entry_pid (local_itoa 7) = Some 7" "entry_pid (local_itoa 8) = Some 8" "entry_pid (local_itoa 9) = Some 9"
        by (simp_all add: entry_pid_itoa)
      ultimately show "- 4095 \<le> sint (kret r) \<and> sint (kret r) < 0 \<or> p \<in> {7, 8, 9}"
        using K by (auto simp: threads_demo_def split: if_splits) }
  qed
  ultimately show ?thesis by (simp add: thread_calls_ok_def)
qed

lemma nlink_ret: "stat_nlink (ret 0) = 0"
  by code_simp

lemma threads_demo_listing: "listing_ok threads_demo threads_view"
  unfolding listing_ok_def threads_view_simps
proof (intro allI impI conjI, goal_cases)
  case (2 p w r w')
  then show ?case by (auto simp: threads_demo_def shown_def tw_listing_def tw_live_def task_not_proc proc_dir_def split: if_splits)
next
  case (3 w r w')
  then show ?case by (auto simp: threads_demo_def)
next
  case (4 w r w')
  then show ?case by (auto simp: threads_demo_def nlink_ret)
next
  case (5 w r w')
  then show ?case by (auto simp: threads_demo_def)
next
  case (6 w r w')
  then show ?case by (auto simp: threads_demo_def shown_def tw_listing_def tw_live_def split: if_splits)
next
  case (7 w r w')
  then show ?case by (auto simp: threads_demo_def Let_def)
next
  case (8 w r w')
  have len: "sint (of_nat (20 * length (tw_listing w)) :: u64) = int (20 * length (tw_listing w))"
    using listing_length(2) [of w] by (intro sint_small) simp
  have r: "kbytes r = concat (map enc_dirent (map tw_entry (tw_listing w)))" "kret r = of_nat (length (kbytes r))" "tw_listing w' = []"
    using 8 by (auto simp: threads_demo_def Let_def tw_listing_def)
  have wf: "\<forall>d\<in>set (map tw_entry (tw_listing w)). wf_dirent d"
    by (auto simp: tw_listing_def tw_entry_def wf_dirent_def itoa_demo)
  have pd: "\<forall>p\<in>set (tw_listing w). \<exists>d\<in>set (map tw_entry (tw_listing w)). d_ino d \<noteq> 0 \<and> d_name d = local_itoa p"
    by (auto simp: tw_entry_def)
  show ?case
    using r wf pd len listing_length [of w] by (intro exI [of _ "map tw_entry (tw_listing w)"]) (auto simp: comp_def)
qed simp_all

lemma threads_demo_kernel: "threads_kernel threads_demo (\<lambda>_. 0) threads_view"
proof -
  have "pids_ok threads_view" by (auto simp: pids_ok_def tw_live_def)
  moreover have "prologue_ok threads_demo threads_view" by (simp add: prologue_ok_def threads_demo_def)
  moreover have "caller_ok threads_demo threads_view" by (auto simp: caller_ok_def threads_demo_def)
  ultimately show ?thesis
    using threads_demo_calm threads_demo_threads threads_demo_calls threads_demo_listing by (simp add: threads_kernel_def search_ok_def)
qed

definition threads_start :: "threads_world st" where
  "threads_start = \<lparr>errno = 0, calls = [], world = \<lparr>tw_new = False, tw_att = {}, tw_pend = {}, tw_task = False, tw_exit = 0\<rparr>\<rparr>"

subsection \<open>The search is complete\<close>

text \<open>
  C7: the lister stops every thread of the process. Threads may go on creating threads until they are
  stopped: as long as the number of threads is bounded, none ends and none is traced by somebody else,
  \<open>ListAllProcessThreads\<close> comes to its callback with an array that holds every thread of the process,
  stopped and once. It returns whenever the callback does: with its result and \<open>errno\<close>, or with -1
  and \<open>EINVAL\<close> when the callback did not resume the threads.
\<close>

theorem ListAllProcessThreads_finds_all:
  assumes "threads_kernel K q v" "attached v (world s) = {}"
  shows "\<exists>ps s1. live v (world s1) \<subseteq> set ps \<and> set ps \<subseteq> stopped v (world s1) \<and> distinct ps \<and> self_pid v \<notin> set ps \<and>
    (\<forall>callback. case callback ps s1 of
      None \<Rightarrow> ListAllProcessThreads K callback addr s = None
    | Some (rc, s2) \<Rightarrow> \<exists>s'. if fst (ResumeAllProcessThreads K ps s2)
        then ListAllProcessThreads K callback addr s = Some (-1, s') \<and> errno s' = EINVAL
        else ListAllProcessThreads K callback addr s = Some (rc, s') \<and> errno s' = errno s2)"
proof -
  obtain ps s1 where f: "all_found v ps (world s1)"
    "\<And>callback. ListAllProcessThreads K callback addr s = callback ps s1 \<bind> (\<lambda>x. ListAllProcessThreads K (\<lambda>_ _. Some x) addr s)"
    "\<And>x. \<exists>s'. ListAllProcessThreads K (\<lambda>_ _. Some x) addr s = Some (lp_result (lister_result K ps x), s') \<and> errno s' = lp_err (lister_result K ps x)"
    using ListAll_complete [OF assms] by blast
  have "case callback ps s1 of
      None \<Rightarrow> ListAllProcessThreads K callback addr s = None
    | Some (rc, s2) \<Rightarrow> \<exists>s'. if fst (ResumeAllProcessThreads K ps s2)
        then ListAllProcessThreads K callback addr s = Some (-1, s') \<and> errno s' = EINVAL
        else ListAllProcessThreads K callback addr s = Some (rc, s') \<and> errno s' = errno s2" for callback
  proof (cases "callback ps s1")
    case (Some x)
    then show ?thesis using f(2) [of callback] f(3) [of x] by (cases x) (auto simp: lister_result_def)
  qed (simp add: f(2) [of callback])
  then show ?thesis using f(1) unfolding all_found_def by blast
qed

theorem ListAllProcessThreads_finds_all_witness:
  "\<exists>ps s1. {7, 8} \<subseteq> set ps \<and> distinct ps \<and>
     (\<exists>s'. if fst (ResumeAllProcessThreads threads_demo ps s1)
        then ListAllProcessThreads threads_demo (\<lambda>ps s. Some (2, s)) 1000 threads_start = Some (-1, s') \<and> errno s' = EINVAL
        else ListAllProcessThreads threads_demo (\<lambda>ps s. Some (2, s)) 1000 threads_start = Some (2, s') \<and> errno s' = errno s1)"
proof -
  have "attached threads_view (world threads_start) = {}" by (simp add: threads_start_def)
  from ListAllProcessThreads_finds_all [OF threads_demo_kernel this, of 1000] obtain ps s1 where
    p: "tw_live (world s1) \<subseteq> set ps" "distinct ps"
    "\<And>callback. case callback ps s1 of
      None \<Rightarrow> ListAllProcessThreads threads_demo callback 1000 threads_start = None
    | Some (rc, s2) \<Rightarrow> \<exists>s'. if fst (ResumeAllProcessThreads threads_demo ps s2)
        then ListAllProcessThreads threads_demo callback 1000 threads_start = Some (-1, s') \<and> errno s' = EINVAL
        else ListAllProcessThreads threads_demo callback 1000 threads_start = Some (rc, s') \<and> errno s' = errno s2"
    by (auto simp: threads_view_simps)
  have "{7, 8} \<subseteq> set ps" using p(1) by (auto simp: tw_live_def split: if_splits)
  then show ?thesis using p(2) p(3) [of "\<lambda>ps s. Some (2, s)"] by (intro exI [of _ ps] exI [of _ s1]) simp
qed

end
