(* ===== verification/Dump_Complete.thy ===== *)
theory Dump_Complete
  imports Process_Dump Dump_Info Search_Complete
begin

text \<open>
  A dump that succeeds: the whole way of \<open>WriteCoreDump\<close>, from the snapshot of the caller's registers over
  the search for threads to the last byte of the file, against a kernel that shows a process.
\<close>

subsection \<open>Collecting process information\<close>

text \<open>The registers of a stopped thread can be read.\<close>

definition regs_readable :: "'w kern \<Rightarrow> 'w view \<Rightarrow> bool" where
  "regs_readable K v \<longleftrightarrow> (\<forall>req p a w r w'. K (NR_ptrace req p a) w = (r, w') \<longrightarrow>
     req \<in> {PTRACE_GETREGS, PTRACE_GETFPREGS, PTRACE_GETREGSET} \<longrightarrow> p \<in> stopped v w \<longrightarrow> kret r = 0)"

lemma ptrace_read:
  assumes "threads_ok K v" "regs_readable K v" "req \<in> {PTRACE_GETREGS, PTRACE_GETFPREGS, PTRACE_GETREGSET}" "P \<subseteq> stopped v (world s)" "p \<in> P"
  shows "\<exists>r s'. sys_ptrace K req p a s = ((0, r), s') \<and> P \<subseteq> stopped v (world s')"
proof -
  obtain rc r s' where c: "sys_ptrace K req p a s = ((rc, r), s')" by (metis surj_pair)
  note k = sys_world(2) [OF c [unfolded sys_ptrace_def]]
  have "kret r = 0" using assms(2-5) k unfolding regs_readable_def by blast
  then have "rc = 0" using c by (auto simp: sys_ptrace_def sys_long_def lss_syscall_def LSS_RETURN_def split: prod.splits)
  moreover have "holds v P (world s) (world s')" by (rule holds_call(1) [OF assms(1) k]) (use assms(3) in auto)
  ultimately show ?thesis using c assms(4) by (auto simp: holds_def)
qed

lemma read_thread_complete:
  assumes "threads_ok K v" "regs_readable K v" "P \<subseteq> stopped v (world s)" "p \<in> P"
  shows "\<exists>t s'. read_thread K a fr p s = (Some t, s') \<and> t_pid t = p \<and> P \<subseteq> stopped v (world s')"
proof -
  have "\<exists>bs s1. get_regs K a p s = (Some bs, s1) \<and> P \<subseteq> stopped v (world s1)"
    using ptrace_read [OF assms(1,2) _ assms(3,4), of PTRACE_GETREGS 0] ptrace_read [OF assms(1,2) _ assms(3,4), of PTRACE_GETREGSET 1]
    by (cases a) auto
  then obtain bs s1 where 1: "get_regs K a p s = (Some bs, s1)" "P \<subseteq> stopped v (world s1)" by blast
  obtain rs s2 where 2: "(if f_tid fr = p then SET_FRAME a fr (dec_regs a bs) s1 else (dec_regs a bs, s1)) = (rs, s2)" by (metis surj_pair)
  have w2: "world s2 = world s1" using 2 by (auto simp: SET_FRAME_def split: if_splits)
  have "\<exists>bs s3. get_fpregs K a p s2 = (Some bs, s3) \<and> P \<subseteq> stopped v (world s3)"
    using ptrace_read [OF assms(1,2) _ _ assms(4), of PTRACE_GETFPREGS s2 0] ptrace_read [OF assms(1,2) _ _ assms(4), of PTRACE_GETREGSET s2 2] 1(2) w2
    by (cases a) auto
  then show ?thesis using 1(1) 2 by (auto simp: read_thread_def)
qed

lemma read_threads_complete:
  assumes "threads_ok K v" "regs_readable K v"
  shows "P \<subseteq> stopped v (world s) \<Longrightarrow> set ps \<subseteq> P \<Longrightarrow> \<exists>ts s'. read_threads K a fr ps s = (Some ts, s') \<and> map t_pid ts = ps"
proof (induction ps arbitrary: s)
  case (Cons p ps)
  obtain t s1 where 1: "read_thread K a fr p s = (Some t, s1)" "t_pid t = p" "P \<subseteq> stopped v (world s1)"
    using read_thread_complete [OF assms Cons.prems(1), of p a fr] Cons.prems(2) by auto
  obtain ts s' where "read_threads K a fr ps s1 = (Some ts, s')" "map t_pid ts = ps"
    using Cons.IH [OF 1(3)] Cons.prems(2) by auto
  then show ?case using 1 by simp
qed simp

lemma read_small_file:
  assumes "calm K q"
  shows "\<exists>x s1. NO_INTR (sys_open K p 0 0) s = Some (x, s1)" "\<exists>x s1. c_read K fd n s = Some (x, s1)"
proof -
  show "\<exists>x s1. NO_INTR (sys_open K p 0 0) s = Some (x, s1)" using NO_INTR_int [OF assms, of "NR_open p 0 0" s] by (auto simp: sys_open_def)
  show "\<exists>x s1. c_read K fd n s = Some (x, s1)"
    using MY_NO_INTR_returns [OF calm_bounded [OF assms], of 0 "NR_read fd n" s] by (auto simp: c_read_def)
qed

lemma read_prpsinfo_returns:
  assumes "calm K q"
  shows "\<exists>pi s'. read_prpsinfo K pid s = Some (pi, s')"
proof -
  have cmdline: "\<exists>x s'. read_cmdline K s = Some (x, s')" for s
  proof -
    obtain fd r s1 where 1: "NO_INTR (sys_open K (str ''/proc/self/cmdline'') 0 0) s = Some ((fd, r), s1)"
      using read_small_file(1) [OF assms] by (metis surj_pair)
    obtain n bs s2 where 2: "c_read K fd 80 s1 = Some ((n, bs), s2)" using read_small_file(2) [OF assms] by (metis surj_pair)
    obtain x s3 where "NO_INTR (sys_close K fd) s2 = Some (x, s3)" using close_any [OF assms] by blast
    with 1 2 show ?thesis by (simp add: read_cmdline_def)
  qed
  have "\<exists>g. \<forall>s. read_cmdline K s = Some (g s)" using cmdline by (intro choice) auto
  then obtain g where "\<And>s. read_cmdline K s = Some (g s)" by blast
  then show ?thesis by (simp add: read_prpsinfo_def Let_def split: prod.splits)
qed

lemma read_prstatus_returns:
  assumes "calm K q"
  shows "\<exists>p s'. read_prstatus K a ps s = Some (p, s')"
proof -
  obtain fd r s1 where 1: "NO_INTR (sys_open K (str ''/proc/self/stat'') 0 0) s = Some ((fd, r), s1)"
    using read_small_file(1) [OF assms] by (metis surj_pair)
  obtain n bs s2 where 2: "c_read K fd 4095 s1 = Some ((n, bs), s2)" using read_small_file(2) [OF assms] by (metis surj_pair)
  obtain x s3 where "NO_INTR (sys_close K fd) s2 = Some (x, s3)" using close_any [OF assms] by blast
  with 1 2 show ?thesis by (simp add: read_prstatus_def Let_def)
qed

lemma collect_info_complete:
  assumes "calm K q" "threads_ok K v" "regs_readable K v" "set ps \<subseteq> stopped v (world s)"
  shows "\<exists>d s'. collect_info K env fr ps s = Some (Some d, s') \<and> map t_pid (di_threads d) = ps"
proof -
  obtain ts s1 where 1: "read_threads K (de_arch env) fr ps s = (Some ts, s1)" "map t_pid ts = ps"
    using read_threads_complete [OF assms(2-4) order_refl] by blast
  obtain u s2 where 2: "read_core_user K (de_arch env) ps ts s1 = (u, s2)" by (metis surj_pair)
  obtain pi s3 where 3: "read_prpsinfo K (f_tid fr) s2 = Some (pi, s3)" using read_prpsinfo_returns [OF assms(1)] by blast
  obtain pst s4 where 4: "read_prstatus K (de_arch env) pi s3 = Some (pst, s4)" using read_prstatus_returns [OF assms(1)] by blast
  show ?thesis using 1 2 3 4 by (simp add: collect_info_def)
qed

subsection \<open>Writing the file\<close>

definition opens_output :: "'w kern \<Rightarrow> byte list \<Rightarrow> int \<Rightarrow> bool" where
  "opens_output K name f \<longleftrightarrow> 0 \<le> f \<and>
     (\<forall>fl md w r w'. K (NR_open name fl md) w = (r, w') \<longrightarrow> sint (kret r) = - EINTR \<or> sint (kret r) = f)"

lemma open_output_complete:
  assumes "calm K q" "opens_output K name f"
  shows "\<exists>s'. open_output K name s = Some (f, s')"
proof -
  let ?c = "NR_open name (O_CREAT_TRUNC + O_LARGEFILE) 0x180"
  obtain r s' w where "NO_INTR (sys_int K ?c) s = Some ((if sint (kret r) < 0 then -1 else sint (kret r), r), s')" "K ?c w = (r, world s')" "sint (kret r) \<noteq> - EINTR"
    using NO_INTR_call [OF calm_bounded [OF assms(1)] plain_int [OF assms(1)], of ?c "\<lambda>_. True" s] by auto
  moreover have "sint (kret r) = f" "0 \<le> f" using assms(2) calculation(2,3) unfolding opens_output_def by blast+
  ultimately show ?thesis by (simp add: open_output_def sys_open_def)
qed

lemma close_fd_returns: "calm K q \<Longrightarrow> \<exists>s'. close_fd K g s = Some s'"
  using close_any [of K q g s] by (auto simp: close_fd_def)

abbreviation dump_image :: "'w dump_env \<Rightarrow> (u64 \<Rightarrow> bool) \<Rightarrow> smaps_segment list \<Rightarrow> auxv_t list \<Rightarrow> core_args \<Rightarrow> byte list" where
  "dump_image env readable segs av args \<equiv> process_image (de_memory env) (de_arch env) args readable segs av"

lemma write_file_complete:
  assumes p: "process_kernel K q (de_memory env) readable f out fp frest content lb pipe (2 ^ k)" and o: "opens_output K name f"
    and k: "k < 64" "de_pagesize env = 2 ^ k" and pr: "shows_process content (2 ^ k) segs av"
    and params: "GetCoreDumpParameter F_compressors cp_compressors params = 0"
      "GetCoreDumpParameter F_flags cp_flags params AND COREDUMPER_FLAG_LIMITED_BY_PRIORITY = 0"
      "GetCoreDumpParameter F_max_length cp_max_length params = n" "0 < n"
    and fit: "length (dump_image env readable segs av (dump_args env params fr d 0)) \<le> unat n"
  shows "\<exists>sel' s'. write_file K env params fr d name selp sel s = Some ((0, sel'), s') \<and>
    out (world s') = out (world s) @ dump_image env readable segs av (dump_args env params fr d 0)"
proof -
  have c: "calm K q" "sink_ok K (de_memory env) f out frest" "output_only K f out" "proc_ok K fp frest content"
     "smaps_ok K (de_memory env) readable lb (2 ^ k) pipe frest fp" "pipe_only K lb pipe" "0 \<le> fst lb" "0 \<le> snd lb" "snd lb \<noteq> f"
     "\<And>w. pipe_next K lb pipe w"
    using p by (simp_all add: process_kernel_def process_files_def)
  let ?h = "\<lparr>max_length = unat n, write_fd = -1, compressed_fd = -1, out_fd = f\<rparr>"
  obtain s1 where 1: "open_output K name s = Some (f, s1)" using open_output_complete [OF c(1) o] by blast
  have o1: "out (world s1) = out (world s)"
    using 1 io_observer.obs_silent(1) [OF out_observer [OF c(3)]] by (fastforce simp: open_output_def split: bind_splits if_splits)
  have pg: "c_pagesize (dump_args env params fr d 0) = 2 ^ k" using k(2) by (simp add: dump_args_def)
  note run = CreateElfCore_process [OF limit_full.full_writer_axioms [where K = K and q = q] unit_observer c(1,4,3,7,8,9,5,6) k(1) pg pr c(10), where n = 0 and h = ?h]
  obtain h' s2 where 2: "CreateElfCore K (LimitWriter K) PipeDone (de_arch env) (de_memory env) (dump_args env params fr d 0) (?h, s1) = Some (0, h', s2)"
     "out (world s2) = out (world s1) @ dump_image env readable segs av (dump_args env params fr d 0)"
    using run c(2) calm_bounded [OF c(1)] fit by fastforce
  obtain s3 where 3: "close_fd K f s2 = Some s3" using close_fd_returns [OF c(1)] by blast
  have o3: "out (world s3) = out (world s2)" by (rule input_observer.obs_close_open_fd [OF out_input_observer [OF c(3)] 3])
  have "0 \<le> f" using o by (simp add: opens_output_def)
  then show ?thesis using 1 2 3 o1 o3 params
    by (simp add: write_file_def write_output_def GetParentRegs_def Let_def close_fd_def [of K "-1"])
qed

subsection \<open>The callback\<close>

text \<open>A thread that is not attached cannot be detached: this tells the lister that its callback resumed all threads.\<close>

definition detach_fails :: "'w kern \<Rightarrow> 'w view \<Rightarrow> bool" where
  "detach_fails K v \<longleftrightarrow> (\<forall>p w r w'. K (NR_ptrace PTRACE_DETACH p 0) w = (r, w') \<longrightarrow> p \<notin> attached v w \<longrightarrow>
     - 4095 \<le> sint (kret r) \<and> sint (kret r) < 0)"

lemma Resume_again:
  assumes "threads_ok K v" "detach_fails K v"
  shows "attached v (world s) \<inter> set ps = {} \<Longrightarrow> fst (Resume_loop K ps d s) = d"
proof (induction ps arbitrary: s)
  case (Cons p ps)
  obtain x1 s1 where 1: "sys_int K NR_sched_yield s = (x1, s1)" by (metis surj_pair)
  obtain rc r s2 where 2: "sys_ptrace K PTRACE_DETACH p 0 s1 = ((rc, r), s2)" by (metis surj_pair)
  have "attached v (world s1) = attached v (world s)" using idles_sys(1) [OF assms(1) 1] by (simp add: idles_def)
  then have "p \<notin> attached v (world s1)" using Cons.prems by auto
  then have "- 4095 \<le> sint (kret r)" "sint (kret r) < 0"
    using assms(2) sys_world(2) [OF 2 [unfolded sys_ptrace_def]] unfolding detach_fails_def by blast+
  then have rc: "rc = -1" using 2 by (auto simp: sys_ptrace_def sys_long_def lss_syscall_def LSS_RETURN_def LSS_error_range split: prod.splits if_splits)
  have "fst (sys_ptrace_detach K p s) = -1" using 1 2 rc by (simp add: sys_ptrace_detach_def Let_def case_prod_unfold)
  then obtain s3 where 3: "sys_ptrace_detach K p s = (-1, s3)" by (metis prod.collapse)
  have "attached v (world s3) = attached v (world s) - {p}" by (rule detach_steady(2) [OF assms(1) 3, of "{}"]) simp
  then have "attached v (world s3) \<inter> set ps = {}" using Cons.prems by auto
  then show ?case using Cons.IH 3 by simp
qed simp

text \<open>The lister started in \<open>s\<close> calls its callback once, with the threads \<open>ps\<close> in the state \<open>t\<close>.\<close>

definition lister_calls :: "'w kern \<Rightarrow> u64 \<Rightarrow> 'w st \<Rightarrow> int list \<Rightarrow> 'w st \<Rightarrow> bool" where
  "lister_calls K addr s ps t \<longleftrightarrow>
     (\<forall>callback. ListAllProcessThreads K callback addr s = callback ps t \<bind> (\<lambda>x. ListAllProcessThreads K (\<lambda>_ _. Some x) addr s))"

lemma lister_calls_start:
  assumes "threads_kernel K q v" "detach_fails K v" "attached v (world s) = {}"
  shows "\<exists>ps t. all_found v ps (world t) \<and> lister_calls K addr s ps t \<and>
    (\<forall>rc u. attached v (world u) \<inter> set ps = {} \<longrightarrow> (\<exists>s'. ListAllProcessThreads K (\<lambda>_ _. Some (rc, u)) addr s = Some (rc, s')))"
proof -
  obtain ps t where l: "all_found v ps (world t)" "lister_calls K addr s ps t"
    "\<And>x. \<exists>s'. ListAllProcessThreads K (\<lambda>_ _. Some x) addr s = Some (lp_result (lister_result K ps x), s')"
    using ListAll_complete [OF assms(1,3), of addr] unfolding lister_calls_def by blast
  have t: "threads_ok K v" using assms(1) by (simp add: threads_kernel_def search_ok_def)
  have "lp_result (lister_result K ps (rc, u)) = rc" if "attached v (world u) \<inter> set ps = {}" for rc u
    using Resume_again [OF t assms(2), of u "rev ps" False] that by (simp add: ResumeAllProcessThreads_def lister_result_def)
  then show ?thesis using l by metis
qed

lemma lister_calls_seen:
  assumes "input_observer K allowed obs" "lister_calls K addr s ps t"
    and "ListAllProcessThreads K (\<lambda>_ _. Some x) addr s = Some (rc, s')" "rc \<noteq> -1"
  shows "obs t = obs s" "obs s' = obs (snd x)"
proof -
  let ?once = "\<lambda>ps' t'. if ps' = ps \<and> t' = t then Some x else None"
  have "ListAllProcessThreads K ?once addr s = Some (rc, s')"
    using assms(2) [unfolded lister_calls_def, rule_format, of ?once] assms(3) by simp
  from input_observer.one_call_ListAll [OF assms(1) this] assms(4)
  show "obs t = obs s" "obs s' = obs (snd x)"
    unfolding input_observer.one_call_def [OF assms(1)] by (auto split: if_splits)
qed

text \<open>Nothing is seen on the way from the caller to the callback.\<close>

lemma lister_calls_before:
  assumes "threads_kernel K q v" "detach_fails K v" "input_observer K allowed obs" "lister_calls K addr s ps t"
    and run: "\<And>rc u. attached v (world u) \<inter> set ps = {} \<Longrightarrow> \<exists>s'. ListAllProcessThreads K (\<lambda>_ _. Some (rc, u)) addr s = Some (rc, s')"
  shows "obs t = obs s"
proof -
  have ok: "threads_ok K v" using assms(1) by (simp add: threads_kernel_def search_ok_def)
  obtain x u where r: "Resume_loop K ps False t = (x, u)" by (metis surj_pair)
  have "attached v (world u) \<inter> set ps = {}" using Resume_loop_steady [OF ok r] by auto
  from run [OF this, of 0] lister_calls_seen(1) [OF assms(3,4), of "(0, u)" 0] show ?thesis by auto
qed

lemma FRAME_seen:
  assumes "FRAME K lab mc s = (fr, s1)" "input_observer K allowed obs"
  shows "obs s1 = obs s"
  using assms(1) input_observer.obs_gettid [OF assms(2), of s] by (auto simp: FRAME_def split: prod.splits)

lemma FRAME_attached:
  assumes "threads_ok K v" "FRAME K lab mc s = (fr, s1)"
  shows "attached v (world s1) = attached v (world s)"
proof -
  have "idles v (world s) (world s1)"
    using assms(2) by (auto simp: FRAME_def sys_gettid_def split: prod.splits if_splits dest!: idles_sys(1) [OF assms(1)] intro: idles_trans)
  then show ?thesis by (simp add: idles_def)
qed

lemma InternalGetCoreDump_file:
  assumes "user_callback env params s = Some (0, s)" "GetCoreDumpParameter F_selected_compressor cp_selected_compressor params = 0"
    "collect_info K env fr ps s = Some (Some d, t)" "write_file K env params fr d name 0 sel t = Some ((rc, sel'), u)"
  shows "InternalGetCoreDump K env params (Some name) sel fr ps s = Some (Inr (rc, sel'), snd (ResumeAllProcessThreads K ps u))"
  using assms by (simp add: InternalGetCoreDump_def)

text \<open>Everything a dump relies on.\<close>

definition dump_kernel ::
    "'w kern \<Rightarrow> ('w \<Rightarrow> nat) \<Rightarrow> 'w view \<Rightarrow> 'w dump_env \<Rightarrow> byte list \<Rightarrow> int \<Rightarrow> ('w \<Rightarrow> byte list) \<Rightarrow> (u64 \<Rightarrow> bool) \<Rightarrow>
     smaps_segment list \<Rightarrow> auxv_t list \<Rightarrow> bool" where
  "dump_kernel K q v env name f out readable segs av \<longleftrightarrow> threads_kernel K q v \<and> regs_readable K v \<and> detach_fails K v \<and> opens_output K name f \<and>
     (\<exists>fp frest content lb pipe k. k < 64 \<and> de_pagesize env = 2 ^ k \<and> shows_process content (2 ^ k) segs av \<and>
        process_kernel K q (de_memory env) readable f out fp frest content lb pipe (2 ^ k))"

lemma dump_callback_complete:
  assumes k: "dump_kernel K q v env name f out readable segs av" and found: "all_found v ps (world s)"
    and params: "GetCoreDumpParameter F_compressors cp_compressors params = 0" "GetCoreDumpParameter F_callback_fn cp_callback_fn params = 0"
      "GetCoreDumpParameter F_selected_compressor cp_selected_compressor params = 0"
      "GetCoreDumpParameter F_flags cp_flags params AND COREDUMPER_FLAG_LIMITED_BY_PRIORITY = 0"
      "GetCoreDumpParameter F_max_length cp_max_length params = n" "0 < n"
  shows "\<exists>d t. collect_info K env fr ps s = Some (Some d, t) \<and> map t_pid (di_threads d) = ps \<and>
    (length (dump_image env readable segs av (dump_args env params fr d 0)) \<le> unat n \<longrightarrow>
     (\<exists>s'. dump_callback K env params (Some name) fr ps s = Some (0, s') \<and> attached v (world s') \<inter> set ps = {} \<and>
        out (world s') = out (world s) @ dump_image env readable segs av (dump_args env params fr d 0)))"
proof -
  obtain fp frest content lb pipe k where p: "process_kernel K q (de_memory env) readable f out fp frest content lb pipe (2 ^ k)"
    "k < 64" "de_pagesize env = 2 ^ k" "shows_process content (2 ^ k) segs av" "opens_output K name f"
    and t: "calm K q" "threads_ok K v" "regs_readable K v" "detach_fails K v"
    using k unfolding dump_kernel_def threads_kernel_def search_ok_def by blast
  have o: "input_observer K (\<lambda>c. \<forall>b. c \<noteq> NR_write f b) (\<lambda>s. out (world s))"
    using p(1) by (intro out_input_observer) (simp add: process_kernel_def process_files_def)
  have st: "set ps \<subseteq> stopped v (world s)" using found by (simp add: all_found_def)
  obtain d t where c: "collect_info K env fr ps s = Some (Some d, t)" "map t_pid (di_threads d) = ps"
    using collect_info_complete [OF t(1-3) st] by blast
  have "\<exists>s'. dump_callback K env params (Some name) fr ps s = Some (0, s') \<and> attached v (world s') \<inter> set ps = {} \<and>
      out (world s') = out (world s) @ dump_image env readable segs av (dump_args env params fr d 0)"
    if fit: "length (dump_image env readable segs av (dump_args env params fr d 0)) \<le> unat n"
  proof -
    obtain sel' u where w: "write_file K env params fr d name 0 0 t = Some ((0, sel'), u)"
      "out (world u) = out (world t) @ dump_image env readable segs av (dump_args env params fr d 0)"
      using write_file_complete [OF p(1,5,2,3,4) params(1,4-6) fit] by blast
    have "user_callback env params s = Some (0, s)" using params(2) by (simp add: user_callback_def)
    from InternalGetCoreDump_file [OF this params(3) c(1) w(1)]
    have run: "dump_callback K env params (Some name) fr ps s = Some (0, snd (ResumeAllProcessThreads K ps u))" by (simp add: dump_callback_def)
    obtain x s' where r: "Resume_loop K (rev ps) False u = (x, s')" by (metis surj_pair)
    have "attached v (world s') \<inter> set ps = {}" using Resume_loop_steady [OF t(2) r] by auto
    moreover have "out (world s') = out (world u)" "out (world t) = out (world s)"
      using input_observer.obs_Resume_loop [OF o, of "rev ps" False u] r input_observer.obs_collect_info [OF o c(1)] by simp_all
    ultimately show ?thesis using run r w(2) by (simp add: ResumeAllProcessThreads_def)
  qed
  then show ?thesis using c by blast
qed

lemma WriteCoreDumpFunction_complete:
  assumes k: "dump_kernel K q v env name f out readable segs av" and start: "attached v (world s) = {}"
    and params: "GetCoreDumpParameter F_compressors cp_compressors params = 0" "GetCoreDumpParameter F_callback_fn cp_callback_fn params = 0"
      "GetCoreDumpParameter F_selected_compressor cp_selected_compressor params = 0"
      "GetCoreDumpParameter F_flags cp_flags params AND COREDUMPER_FLAG_LIMITED_BY_PRIORITY = 0"
      "GetCoreDumpParameter F_max_length cp_max_length params = n" "0 < n"
  shows "\<exists>ps t d t'. all_found v ps (world t) \<and> collect_info K env fr ps t = Some (Some d, t') \<and> map t_pid (di_threads d) = ps \<and>
    (length (dump_image env readable segs av (dump_args env params fr d 0)) \<le> unat n \<longrightarrow>
     (\<exists>s'. WriteCoreDumpFunction K env addr fr params name s = Some (0, s') \<and>
        out (world s') = out (world s) @ dump_image env readable segs av (dump_args env params fr d 0)))"
proof -
  have t: "threads_kernel K q v" "threads_ok K v" "detach_fails K v"
    using k unfolding dump_kernel_def threads_kernel_def search_ok_def by blast+
  have o: "input_observer K (\<lambda>c. \<forall>b. c \<noteq> NR_write f b) (\<lambda>s. out (world s))"
    using k by (intro out_input_observer) (auto simp: dump_kernel_def process_kernel_def process_files_def)
  obtain ps s1 where l: "all_found v ps (world s1)" "lister_calls K addr s ps s1"
    "\<And>rc u. attached v (world u) \<inter> set ps = {} \<Longrightarrow> \<exists>s'. ListAllProcessThreads K (\<lambda>_ _. Some (rc, u)) addr s = Some (rc, s')"
    using lister_calls_start [OF t(1,3) start] by blast
  obtain d t' where c: "collect_info K env fr ps s1 = Some (Some d, t')" "map t_pid (di_threads d) = ps"
    "length (dump_image env readable segs av (dump_args env params fr d 0)) \<le> unat n \<longrightarrow>
     (\<exists>s'. dump_callback K env params (Some name) fr ps s1 = Some (0, s') \<and> attached v (world s') \<inter> set ps = {} \<and>
        out (world s') = out (world s1) @ dump_image env readable segs av (dump_args env params fr d 0))"
    using dump_callback_complete [OF k l(1) params] by blast
  have "\<exists>s'. WriteCoreDumpFunction K env addr fr params name s = Some (0, s') \<and>
      out (world s') = out (world s) @ dump_image env readable segs av (dump_args env params fr d 0)"
    if fit: "length (dump_image env readable segs av (dump_args env params fr d 0)) \<le> unat n"
  proof -
    let ?cb = "dump_callback K env params (Some name) fr"
    obtain s2 where 2: "?cb ps s1 = Some (0, s2)" "attached v (world s2) \<inter> set ps = {}"
      "out (world s2) = out (world s1) @ dump_image env readable segs av (dump_args env params fr d 0)" using c(3) fit by blast
    obtain s' where r: "ListAllProcessThreads K (\<lambda>_ _. Some (0, s2)) addr s = Some (0, s')" using l(3) [OF 2(2)] by blast
    have run: "ListAllProcessThreads K ?cb addr s = Some (0, s')"
      using l(2) [unfolded lister_calls_def, THEN spec, of ?cb] 2(1) r by simp
    have "out (world s1) = out (world s)" "out (world s') = out (world s2)" using lister_calls_seen [OF o l(2) r] by simp_all
    then show ?thesis using run 2(3) by (simp add: WriteCoreDumpFunction_def)
  qed
  then show ?thesis using l(1) c(1,2) by blast
qed

subsection \<open>A process with two threads and one segment\<close>

text \<open>
  The threads of \<open>threads_demo\<close> and the files of \<open>core_kernel\<close>: descriptors are read and written there, and the
  output file \<open>core\<close> is descriptor 1.
\<close>

fun file_call :: "syscall \<Rightarrow> bool" where
  "file_call (NR_write f b) = True"
| "file_call (NR_read f n) = True"
| "file_call NR_pipe = True"
| "file_call (NR_open p fl md) = (fl \<noteq> O_DIRECTORY)"
| "file_call _ = False"

definition process_demo :: "(threads_world \<times> core_world) kern" where
  "process_demo c w =
     (case c of
        NR_open p fl md \<Rightarrow>
          if p = str ''core'' then (ret 1, w)
          else if fl \<noteq> O_DIRECTORY then (case core_kernel demo_memory demo_proc c (snd w) of (r, x) \<Rightarrow> (r, fst w, x))
          else (case threads_demo c (fst w) of (r, x) \<Rightarrow> (r, x, snd w))
      | _ \<Rightarrow>
          if file_call c then (case core_kernel demo_memory demo_proc c (snd w) of (r, x) \<Rightarrow> (r, fst w, x))
          else (case threads_demo c (fst w) of (r, x) \<Rightarrow> (r, x, snd w)))"

definition process_view :: "(threads_world \<times> core_world) view" where
  "process_view = \<lparr>live = tw_live \<circ> fst, attached = tw_att \<circ> fst, stopped = tw_att \<circ> fst, pend = \<lambda>w. set (tw_listing (fst w)),
     passes = \<lambda>w. length (tw_listing (fst w)), in_task = tw_task \<circ> fst, exit_code = tw_exit \<circ> fst, self_pid = 5, parent_pid = 7, caller_pid = 7,
     mark_fd = 3, mark_ino = 42, dir_fd = 4, all_pids = {7, 8, 9}\<rparr>"

lemma process_view_simps [simp]:
  "live process_view w = tw_live (fst w)" "attached process_view w = tw_att (fst w)" "stopped process_view w = tw_att (fst w)"
  "pend process_view w = set (tw_listing (fst w))" "passes process_view w = length (tw_listing (fst w))" "in_task process_view w = tw_task (fst w)"
  "exit_code process_view w = tw_exit (fst w)" "self_pid process_view = 5" "parent_pid process_view = 7" "caller_pid process_view = 7"
  "mark_fd process_view = 3" "mark_ino process_view = 42" "dir_fd process_view = 4" "all_pids process_view = {7, 8, 9}"
  by (simp_all add: process_view_def)

lemma process_demo_cases:
  assumes "process_demo c w = (r, w')"
  obtains (opened) fl md where "c = NR_open (str ''core'') fl md" "r = ret 1" "w' = w"
  | (io) "file_call c" "core_kernel demo_memory demo_proc c (snd w) = (r, snd w')" "fst w' = fst w"
  | (other) "\<not> file_call c" "threads_demo c (fst w) = (r, fst w')" "snd w' = snd w"
proof (cases "\<exists>p fl md. c = NR_open p fl md")
  case True
  then show thesis using assms that by (auto simp: process_demo_def split: if_splits prod.splits)
next
  case False
  then have "process_demo c w = (if file_call c then (case core_kernel demo_memory demo_proc c (snd w) of (r, x) \<Rightarrow> (r, fst w, x))
      else (case threads_demo c (fst w) of (r, x) \<Rightarrow> (r, x, snd w)))" by (cases c) (simp_all add: process_demo_def)
  then show thesis using assms that(2,3) by (cases "file_call c") (auto split: prod.splits)
qed

lemma process_demo_thread: "\<not> file_call c \<Longrightarrow> \<forall>fl md. c \<noteq> NR_open (str ''core'') fl md \<Longrightarrow>
    process_demo c w = (case threads_demo c (fst w) of (r, x) \<Rightarrow> (r, x, snd w))"
  by (cases c) (auto simp: process_demo_def)

lemma process_demo_calm: "calm process_demo (\<lambda>_. 0)"
  unfolding calm_def intr_bounded_def
proof (intro conjI allI impI)
  fix c w r w'
  assume K: "process_demo c w = (r, w')"
  note cc = core_calm [of demo_memory demo_proc, unfolded calm_def intr_bounded_def]
    and tc = threads_demo_calm [unfolded calm_def intr_bounded_def]
  { assume "sint (kret r) = - EINTR"
    with K show "(0::nat) < 0" by (cases rule: process_demo_cases) (use cc tc in \<open>force+\<close>) }
  { assume "int_call c"
    with K show "- 4095 \<le> sint (kret r)" by (cases rule: process_demo_cases) (use cc tc in \<open>force+\<close>) }
  { assume "int_call c"
    with K show "sint (kret r) < 2 ^ 31" by (cases rule: process_demo_cases) (use cc tc in \<open>force+\<close>) }
qed simp

lemma process_demo_threads: "threads_ok process_demo process_view"
  unfolding threads_ok_def
proof (intro allI impI)
  fix c w r w'
  assume "process_demo c w = (r, w')"
  then show "live process_view w \<subseteq> live process_view w' \<and>
      (live process_view w \<subseteq> insert (caller_pid process_view) (stopped process_view w) \<longrightarrow> live process_view w' = live process_view w) \<and>
      attached process_view w' = trace_step (c, r) (attached process_view w) \<and>
      (\<forall>p\<in>stopped process_view w. releases p c \<or> p \<in> stopped process_view w') \<and>
      (moves_dir c \<or> pend process_view w' = pend process_view w \<and> in_task process_view w' = in_task process_view w \<and> passes process_view w' = passes process_view w)"
  proof (cases rule: process_demo_cases)
    case io
    then show ?thesis by (cases c) simp_all
  next
    case other
    from threads_demo_threads [unfolded threads_ok_def, rule_format, OF other(2)] show ?thesis
      unfolding threads_view_simps process_view_simps .
  qed simp
qed

lemma process_demo_calls: "thread_calls_ok process_demo process_view" "regs_readable process_demo process_view" "detach_fails process_demo process_view"
proof -
  have K: "\<exists>x. threads_demo c (fst w) = (r, x) \<and> w' = (x, snd w)"
    if "process_demo c w = (r, w')" "\<not> file_call c" "\<forall>fl md. c \<noteq> NR_open (str ''core'') fl md" for c w r w'
    using that process_demo_thread [of c w] by (auto split: prod.splits)
  note t = threads_demo_calls [unfolded thread_calls_ok_def can_attach_def can_wait_def can_peek_def has_marker_def threads_view_simps]
  have "can_attach process_demo process_view"
    unfolding can_attach_def by (auto dest!: K) (use t in blast)
  moreover have "can_wait process_demo process_view"
    unfolding can_wait_def by (auto dest!: K) (use t in blast)+
  moreover have "can_peek process_demo process_view"
    unfolding can_peek_def by (auto dest!: K) (use t in blast)+
  moreover have "has_marker process_demo process_view"
    unfolding has_marker_def process_view_simps
  proof (intro allI impI)
    fix name w r w'
    assume "process_demo (NR_stat (str ''/proc/'' @ name @ marker_suffix 3)) w = (r, w')"
    from K [OF this] obtain x where "threads_demo (NR_stat (str ''/proc/'' @ name @ marker_suffix 3)) (fst w) = (r, x)" by auto
    with t show "(\<forall>p\<in>tw_live (fst w). name = local_itoa p \<longrightarrow> kret r = 0 \<and> stat_ino r = 42) \<and>
       (\<forall>p. entry_pid name = Some p \<longrightarrow> stat_ino r = 42 \<longrightarrow> - 4095 \<le> sint (kret r) \<and> sint (kret r) < 0 \<or> p \<in> {7, 8, 9})" by blast
  qed
  ultimately show "thread_calls_ok process_demo process_view" by (simp add: thread_calls_ok_def)
  show "regs_readable process_demo process_view"
    unfolding regs_readable_def by (auto dest!: K simp: threads_demo_def)
  show "detach_fails process_demo process_view"
    unfolding detach_fails_def by (auto dest!: K simp: threads_demo_def)
qed

lemma process_demo_listing: "listing_ok process_demo process_view"
proof -
  have K: "\<exists>x. threads_demo c (fst w) = (r, x) \<and> w' = (x, snd w)"
    if "process_demo c w = (r, w')" "\<not> file_call c" "\<forall>fl md. c \<noteq> NR_open (str ''core'') fl md" for c w r w'
    using that process_demo_thread [of c w] by (auto split: prod.splits)
  have sh: "shown process_view w = shown threads_view (fst w)" for w by (simp add: shown_def)
  note t = threads_demo_listing [unfolded listing_ok_def threads_view_simps]
  note opens = t [THEN conjunct2, THEN conjunct1, rule_format] and stats = t [THEN conjunct2, THEN conjunct2, THEN conjunct1, rule_format]
    and seeks = t [THEN conjunct2, THEN conjunct2, THEN conjunct2, THEN conjunct1, rule_format]
    and lists = t [THEN conjunct2, THEN conjunct2, THEN conjunct2, THEN conjunct2, rule_format]
  have core: "str ''core'' \<noteq> proc_dir 7 @ str ''/task/''" "str ''core'' \<noteq> str ''/proc/''" by (simp_all add: proc_dir_def)
  show ?thesis
    unfolding listing_ok_def process_view_simps sh
  proof (intro conjI allI impI)
    fix p w r w'
    assume a: "process_demo (NR_open p O_DIRECTORY 0) w = (r, w')" "p \<in> {proc_dir 7 @ str ''/task/'', str ''/proc/''}"
    with core have "\<forall>fl md. NR_open p O_DIRECTORY 0 \<noteq> NR_open (str ''core'') fl md" by auto
    with K [OF a(1)] obtain x where "threads_demo (NR_open p O_DIRECTORY 0) (fst w) = (r, x)" "w' = (x, snd w)" by auto
    from opens [OF this(1) a(2)] this(2)
    show "sint (kret r) = - EINTR \<or> sint (kret r) = 4 \<and> tw_task (fst w') = (p = proc_dir 7 @ str ''/task/'') \<and>
        shown threads_view (fst w') \<subseteq> set (tw_listing (fst w'))" by simp
  next
    fix w r w'
    assume "process_demo (NR_fstat 4) w = (r, w')"
    with K [OF this] stats show "kret r = 0" "unat (stat_nlink r) < 2 ^ 30" by auto
  next
    fix w r w'
    assume "process_demo (NR_lseek 4 0 0) w = (r, w')"
    with K [OF this] seeks show "tw_task (fst w') = tw_task (fst w)" "shown threads_view (fst w') \<subseteq> set (tw_listing (fst w'))" by fastforce+
  next
    fix w r w'
    assume "process_demo (NR_getdents 4 4096) w = (r, w')"
    from K [OF this] obtain x where x: "threads_demo (NR_getdents 4 4096) (fst w) = (r, x)" "w' = (x, snd w)" by auto
    from lists [OF x(1)] show "tw_task (fst w') = tw_task (fst w)"
      "\<exists>ds. kbytes r = concat (map enc_dirent ds) \<and> sint (kret r) = int (length (kbytes r)) \<and> length (kbytes r) \<le> 4096 \<and>
         (\<forall>d\<in>set ds. wf_dirent d) \<and> (if ds = [] then set (tw_listing (fst w)) = {} else length (tw_listing (fst w')) < length (tw_listing (fst w))) \<and>
         (\<forall>p\<in>set (tw_listing (fst w)). p \<in> set (tw_listing (fst w')) \<or> (\<exists>d\<in>set ds. d_ino d \<noteq> 0 \<and> d_name d = local_itoa p))"
      unfolding x(2) fst_conv by blast+
  qed simp
qed

lemma process_demo_kernel: "threads_kernel process_demo (\<lambda>_. 0) process_view"
proof -
  have "pids_ok process_view" by (auto simp: pids_ok_def tw_live_def)
  moreover have "prologue_ok process_demo process_view" by (simp add: prologue_ok_def process_demo_def threads_demo_def)
  moreover have "caller_ok process_demo process_view" by (auto simp: caller_ok_def process_demo_def threads_demo_def)
  ultimately show ?thesis
    using process_demo_calm process_demo_threads process_demo_calls(1) process_demo_listing by (simp add: threads_kernel_def search_ok_def)
qed

lemma process_demo_files:
  "process_kernel process_demo (\<lambda>_. 0) demo_memory (\<lambda>_. True) 1 (cw_out \<circ> snd) 3 (cw_rest \<circ> snd) demo_proc (4, 5) (cw_pipe \<circ> snd) (2 ^ 4)"
proof -
  have out: "output_only process_demo 1 (cw_out \<circ> snd)"
    unfolding output_only_def
  proof (intro allI impI)
    fix c w r w'
    assume K: "process_demo c w = (r, w')" and c: "\<forall>b. c \<noteq> NR_write 1 b"
    from K show "(cw_out \<circ> snd) w' = (cw_out \<circ> snd) w"
    proof (cases rule: process_demo_cases)
      case io
      from core_output_only [unfolded output_only_def, rule_format, OF io(2)] c show ?thesis by simp
    qed simp_all
  qed
  have rd: "read_ok process_demo 3 (cw_rest \<circ> snd)"
    unfolding read_ok_def by (auto simp: process_demo_def core_kernel_def Let_def min_def split: if_splits)
  have sink: "sink_ok process_demo demo_memory 1 (cw_out \<circ> snd) (cw_rest \<circ> snd)"
    unfolding sink_ok_def write_ok_def by (auto simp: process_demo_def core_kernel_def Let_def split: if_splits)
  have proc: "proc_ok process_demo 3 (cw_rest \<circ> snd) demo_proc"
    using rd unfolding proc_ok_def by (auto simp: process_demo_def core_kernel_def Let_def min_def split: if_splits)
  have smaps: "smaps_ok process_demo demo_memory (\<lambda>_. True) (4, 5) (2 ^ 4) (cw_pipe \<circ> snd) (cw_rest \<circ> snd) 3"
    using rd unfolding smaps_ok_def read_keeps_def loopback_ok_def
    by (auto simp: process_demo_def core_kernel_def Let_def min_def split: if_splits)
  have pipe: "pipe_only process_demo (4, 5) (cw_pipe \<circ> snd)"
    unfolding pipe_only_def
  proof (intro allI impI)
    fix c w r w'
    assume c: "\<not> touches_pipe (4, 5) c" and K: "process_demo c w = (r, w')"
    from K show "(cw_pipe \<circ> snd) w' = (cw_pipe \<circ> snd) w"
    proof (cases rule: process_demo_cases)
      case io
      from core_pipe_only [of demo_memory demo_proc, unfolded pipe_only_def, rule_format, OF c io(2)] show ?thesis by simp
    qed simp_all
  qed
  have fresh: "pipe_next process_demo (4, 5) (cw_pipe \<circ> snd) w" for w
    by (auto simp: pipe_next_def process_demo_def core_kernel_def)
  show ?thesis using process_demo_calm out sink proc smaps pipe fresh by (simp add: process_kernel_def process_files_def)
qed

definition process_env :: "(threads_world \<times> core_world) dump_env" where
  "process_env = \<lparr>de_arch = X86_64, de_memory = demo_memory, de_compressors = (\<lambda>_. end_entry),
     de_notes = (\<lambda>_. \<lparr>note_name = [], note_type = 0, description = []\<rparr>), de_callback = (\<lambda>_ _ _. None), de_openmax = 0,
     de_pagesize = 16, de_PATH = None\<rparr>"

lemma process_env_simps:
  "de_arch process_env = X86_64" "de_memory process_env = demo_memory" "de_pagesize process_env = 16"
  by (simp_all add: process_env_def)

lemma process_demo_dump:
  "dump_kernel process_demo (\<lambda>_. 0) process_view process_env (str ''core'') 1 (cw_out \<circ> snd) (\<lambda>_. True) [demo_segment] demo_auxv"
proof -
  have pg: "de_pagesize process_env = 2 ^ 4" "de_memory process_env = demo_memory" "(4::nat) < 64" by (simp_all add: process_env_simps)
  have "opens_output process_demo (str ''core'') 1" by (auto simp: opens_output_def process_demo_def)
  then show ?thesis unfolding dump_kernel_def
    using process_demo_kernel process_demo_calls(2,3) pg demo_shows_process process_demo_files [folded pg(2)] by blast
qed

definition process_start :: "(threads_world \<times> core_world) st" where
  "process_start = \<lparr>errno = 0, calls = [], world = (world threads_start, world core_state)\<rparr>"

subsection \<open>The dump succeeds\<close>

text \<open>The parameters of \<open>WriteCoreDump\<close>.\<close>

definition default_params :: CoreDumpParameters where
  "default_params = \<lparr>cp_size = 72, cp_flags = 0, cp_max_length = - 1, cp_compressors = 0, cp_selected_compressor = 0,
     cp_notes = 0, cp_note_count = 0, cp_callback_fn = 0, cp_callback_arg = 0\<rparr>"

lemma default_params_get:
  "GetCoreDumpParameter F_compressors cp_compressors default_params = 0" "GetCoreDumpParameter F_callback_fn cp_callback_fn default_params = 0"
  "GetCoreDumpParameter F_selected_compressor cp_selected_compressor default_params = 0"
  "GetCoreDumpParameter F_flags cp_flags default_params AND COREDUMPER_FLAG_LIMITED_BY_PRIORITY = 0"
  "GetCoreDumpParameter F_max_length cp_max_length default_params = - 1"
  by (simp_all add: GetCoreDumpParameter_def CoreDumpParametersHas_def default_params_def)

lemma default_params_notes: "sint (GetCoreDumpParameter F_note_count cp_note_count default_params) = 0"
  by (simp add: GetCoreDumpParameter_def CoreDumpParametersHas_def default_params_def)

lemma largest_u64: "(0 :: u64) < - 1" "unat (- 1 :: u64) = 2 ^ 64 - 1"
  by (simp_all add: word_gt_0 unsigned_minus_1_eq_mask mask_eq_exp_minus_1)


lemma exec_instr_length: "length (frame (exec_instr i m)) = length (frame m)"
  by (cases i) (simp_all add: set_reg_def set_flags_def Let_def split: list.split)

lemma FRAME_asm_length: "length (frame (FRAME_asm labels m)) = length (frame m)"
proof -
  have "length (frame (fold exec_instr is m)) = length (frame m)" for "is" m
    by (induction "is" arbitrary: m) (simp_all add: exec_instr_length)
  then show ?thesis by (simp add: FRAME_asm_def)
qed

lemma demo_process_image:
  assumes "args_ok X86_64 args" "length (c_threads args) \<le> 3" "c_pagesize args = 16" "c_prioritize args = 0" "c_extra_notes args = []"
  shows "length (process_image demo_memory X86_64 args (\<lambda>_. True) [demo_segment] demo_auxv) \<le> 20000"
proof -
  define mp where "mp = \<lparr>start_address = 4112, end_address = 4128, moffset = 0, write_size = (16::u64), mflags = 6,
    is_anon = True, mname = str ''[heap]''\<rparr>"
  have ms: "process_mappings X86_64 demo_memory (\<lambda>_. True) (unat (c_pagesize args)) [demo_segment] = [mp]"
    by (simp add: process_mappings_def assms(3) is_aarch64_def demo_segment_kept map_filter_simps mp_def)
  have "auxv_vdso 0 demo_auxv = 0" by (simp add: demo_auxv_def auxv_vdso_def)
  then have img: "process_image demo_memory X86_64 args (\<lambda>_. True) [demo_segment] demo_auxv = core_image demo_memory X86_64 args demo_auxv [] [mp]"
    by (simp add: process_image_def ms find_vdso_def vdso_extra_def)
  have "l_mappings (core_layout_of X86_64 args n [] [mp]) = [mp]" for n
    by (simp add: core_layout_of_def limited_mappings_def assms(4) Let_def split: prod.splits)
  moreover have "length (notes_bytes X86_64 args demo_auxv [mp]) \<le> 10000"
    unfolding notes_bytes_def note_bufs_def bufs_bytes_simps length_append note_parts_length [OF assms(1)]
    using assms(2) by (simp add: assms(5) demo_auxv_def nt_file_bufs_def file_mappings_def mp_def sizeof_prstatus_def split: option.splits)
  moreover have "pad_to 16 (176 + length (notes_bytes X86_64 args demo_auxv [mp])) < 16" by (rule pad_to_less) simp
  moreover have "seg_offset X86_64 args demo_auxv [] [mp] = 176 + length (notes_bytes X86_64 args demo_auxv [mp]) +
      pad_to 16 (176 + length (notes_bytes X86_64 args demo_auxv [mp]))"
    by (simp add: seg_offset_def hdr_size_def num_phdrs_def Let_def assms(3))
  moreover have "unat (write_size mp) = 16" by (simp add: mp_def)
  ultimately show ?thesis unfolding img core_image_length [OF assms(1)] sizes_sum_def by simp
qed


end
