(* ===== verification/Proc_Props.thy ===== *)
theory Proc_Props
  imports Proc_Info
begin

text \<open>
  What the collected process information is worth: the snapshot of the caller's registers, the
  walk over \<open>/proc/self/stat\<close> and the name of the executable.
\<close>

unbundle bit_operations_syntax

subsection \<open>Registers\<close>

lemma low_half: "ucast (ucast x :: u32) = (x AND 0xFFFFFFFF :: u64)"
proof -
  have m: "(0xFFFFFFFF :: u64) = mask 32" by (simp add: mask_eq_exp_minus_1)
  show ?thesis unfolding m by (rule bit_word_eqI) (auto simp: bit_simps)
qed

lemma add_flags_other: "add_flags a b AND NOT arithmetic_flags = 0"
  by (simp add: add_flags_def Let_def bit.conj_disj_distrib2)

lemma other_flags_kept: "(fl AND NOT m OR add_flags a b) AND NOT arithmetic_flags = fl AND NOT arithmetic_flags"
  if "m = arithmetic_flags"
  using add_flags_other [of a b] that by (simp add: bit.conj_disj_distrib2 and.assoc)

text \<open>
  C28: the assembly of \<open>FRAME\<close> changes no general register, segment register or stack slot, and
  records all of them but \<open>rsp\<close> exactly: of \<open>rsp\<close> it keeps the low 32 bits only. The recorded
  instruction pointer is the address behind the assembly, and the recorded flags are the
  caller's up to the arithmetic ones.
\<close>

theorem FRAME_snapshot:
  assumes "length (frame m) = 27"
  shows "let m' = FRAME_asm labels m; f = frame m' in
    gpr m' = gpr m \<and> segr m' = segr m \<and> stack m' = stack m \<and> length f = 27 \<and>
    map ((!) f) [0, 1, 2, 3, 4, 5, 6, 7, 8, 9, 10, 11, 12, 13, 14] = map (gpr m) [R15, R14, R13, R12, RBP, RBX, R11, R10, R9, R8, RAX, RCX, RDX, RSI, RDI] \<and>
    f ! 16 = snd labels \<and> f ! 17 = segr m CS \<and> f ! 20 = segr m SS \<and>
    map ((!) f) [23, 24, 25, 26] = map (segr m) [DS, ES, FS, GS] \<and>
    f ! 18 AND NOT arithmetic_flags = rflags m AND NOT arithmetic_flags \<and>
    f ! 19 = gpr m RSP AND 0xFFFFFFFF"
  using assms other_flags_kept [of arithmetic_flags "rflags m" "fst labels" "snd labels - fst labels"]
  by (simp add: FRAME_asm_def FRAME_code_def set_reg_def set_flags_def Let_def fun_eq_iff low_half)

theorem FRAME_snapshot_witness:
  "let m = \<lparr>gpr = (\<lambda>r. if r = RSP then 0x7FFF00001000 else 5), segr = (\<lambda>_. 51), rflags = 0x246, stack = [1, 2], frame = replicate 27 0\<rparr>;
     f = frame (FRAME_asm (0x401000, 0x401030) m)
   in f ! 16 = 0x401030 \<and> f ! 19 = 0x1000 \<and> f ! 19 \<noteq> gpr m RSP"
  using FRAME_snapshot [of "\<lparr>gpr = (\<lambda>r. if r = RSP then 0x7FFF00001000 else 5), segr = (\<lambda>_. 51), rflags = 0x246,
    stack = [1, 2], frame = replicate 27 0\<rparr>" "(0x401000, 0x401030)"]
  by (simp add: Let_def)

subsection \<open>\<open>/proc/self/stat\<close>\<close>

text \<open>Words of a line, each followed by a blank.\<close>

definition blanked :: "byte list list \<Rightarrow> byte list" where
  "blanked ws = concat (map (\<lambda>w. w @ [32]) ws)"

lemma skip_word: "32 \<notin> set w \<Longrightarrow> skip_words (Suc n) (w @ 32 # cs) = skip_words n cs"
  by (induction w) auto

lemma skip_blanked:
  "\<forall>w\<in>set ws. 32 \<notin> set w \<Longrightarrow> skip_words (length ws) (blanked ws @ cs) = cs"
  by (induction ws) (auto simp: blanked_def skip_word)

text \<open>The walk reads a decimal number, and continues one that it has already begun.\<close>

lemma digit_value:
  assumes "0 \<le> d" "d < 10"
  shows "scast (of_int (d + 48) :: byte) = (of_int (d + 48) :: u64)" "(of_int (d + 48) :: byte) \<noteq> 32"
proof -
  have u: "uint (of_int (d + 48) :: byte) = d + 48"
    using assms by (simp add: uint_word_of_int take_bit_eq_mod del: of_int_add)
  have "sint (of_int (d + 48) :: byte) = d + 48"
    using assms by (simp add: sint_sbintrunc' signed_take_bit_int_eq_self del: of_int_add)
  then show "scast (of_int (d + 48) :: byte) = (of_int (d + 48) :: u64)" by (metis of_int_sint)
  show "(of_int (d + 48) :: byte) \<noteq> 32" using u assms(1) by (auto dest: arg_cong [of _ _ uint] simp del: of_int_add)
qed

lemma read_number_itoa:
  "0 \<le> i \<Longrightarrow> read_number n (local_itoa i @ cs) = read_number (n * 10 ^ length (local_itoa i) + of_int i) cs"
proof (induction i arbitrary: n cs rule: local_itoa.induct)
  case (1 i)
  define d where "d = (of_int (i mod 10 + 48) :: byte)"
  have d: "scast d = (of_int (i mod 10) + 48 :: u64)" "d \<noteq> 32" using digit_value [of "i mod 10"] by (simp_all add: d_def)
  show ?case
  proof (cases "i \<ge> 10")
    case True
    then have IH: "read_number n (local_itoa (i div 10) @ d # cs) =
        read_number (n * 10 ^ length (local_itoa (i div 10)) + of_int (i div 10)) (d # cs)" for n cs
      using 1 by (simp add: pos_imp_zdiv_nonneg_iff)
    have it: "local_itoa i = local_itoa (i div 10) @ [d]" using True by (subst local_itoa.simps) (simp add: d_def)
    have "(of_int i :: u64) = of_int (10 * (i div 10) + i mod 10)" by simp
    then have "(of_int i :: u64) = 10 * of_int (i div 10) + of_int (i mod 10)" by (simp only: of_int_add of_int_mult of_int_numeral)
    then show ?thesis using d by (simp add: it IH algebra_simps)
  next
    case False
    then have "local_itoa i = [d]" using 1(3) by (subst local_itoa.simps) (simp add: d_def)
    with d False 1(3) show ?thesis by (simp add: algebra_simps)
  qed
qed

lemma read_field: "read_number n (local_itoa (uint v) @ 32 # cs) = (n * 10 ^ length (local_itoa (uint v)) + v, 32 # cs)"
  by (simp add: read_number_itoa)

text \<open>A line of \<open>/proc/self/stat\<close>: fields 14 to 17 are times, fields 31 and 32 signal sets.\<close>

definition stat_line :: "byte list list \<Rightarrow> u64 list \<Rightarrow> byte list list \<Rightarrow> u64 list \<Rightarrow> byte list \<Rightarrow> byte list" where
  "stat_line fields1 tms fields18 sigs rest =
     blanked fields1 @ blanked (map (\<lambda>v. local_itoa (uint v)) tms) @ blanked fields18 @
     blanked (map (\<lambda>v. local_itoa (uint v)) sigs) @ rest"

text \<open>
  C38: from a line of \<open>/proc/self/stat\<close> without blanks inside a field, the code takes the four times
  of the process, split at 1000 units to the second; the pending signals it stores are the digits of
  the pending and of the held signals written one after the other, and the held signals are not
  stored at all.
\<close>

theorem parse_stat_line:
  assumes "length fields1 = 13" "length fields18 = 13" "\<forall>w\<in>set (fields1 @ fields18). 32 \<notin> set w" "pr_sigpend p = 0"
  shows "parse_stat (stat_line fields1 [ut, st, chut, chst] fields18 [pend, held] rest) p =
    p\<lparr>pr_utime := \<lparr>tv_sec = ut div 1000, tv_usec = (ut mod 1000) * 1000\<rparr>,
      pr_stime := \<lparr>tv_sec = st div 1000, tv_usec = (st mod 1000) * 1000\<rparr>,
      pr_cutime := \<lparr>tv_sec = chut div 1000, tv_usec = (chut mod 1000) * 1000\<rparr>,
      pr_cstime := \<lparr>tv_sec = chst div 1000, tv_usec = (chst mod 1000) * 1000\<rparr>,
      pr_sigpend := pend * 10 ^ length (local_itoa (uint held)) + held\<rparr>"
proof -
  have "skip_words 13 (blanked fields1 @ cs) = cs" "skip_words 14 (32 # blanked fields18 @ cs) = cs" for cs
    using skip_blanked [of fields1 cs] skip_blanked [of fields18 cs] assms(1-3)
    by (auto simp: eval_nat_numeral)
  then show ?thesis
    using assms(4) by (simp add: parse_stat_def stat_line_def blanked_def [of "_ # _"] blanked_def [of "[]"] read_field skip_one_def ms_timeval_def)
qed

theorem parse_stat_line_witness:
  "let p = init_prstatus X86_64 \<lparr>ps_state = 0, ps_sname = 82, ps_zomb = 0, ps_nice = 0, ps_flag = 0, ps_uid = 0, ps_gid = 0,
        ps_pid = 1, ps_ppid = 0, ps_pgrp = 0, ps_sid = 0, ps_fname = [], ps_psargs = []\<rparr>;
      p' = parse_stat (stat_line (replicate 13 [48]) [1500, 20, 0, 0] (replicate 13 [48]) [2, 512] [10]) p
   in tv_sec (pr_utime p') = 1 \<and> tv_usec (pr_utime p') = 500000 \<and> pr_sigpend p' = 2512 \<and> pr_sighold p' = 0"
  using parse_stat_line [of "replicate 13 [48]" "replicate 13 [48]" "init_prstatus X86_64 \<lparr>ps_state = 0, ps_sname = 82,
    ps_zomb = 0, ps_nice = 0, ps_flag = 0, ps_uid = 0, ps_gid = 0, ps_pid = 1, ps_ppid = 0, ps_pgrp = 0, ps_sid = 0, ps_fname = [],
    ps_psargs = []\<rparr>" 1500 20 0 0 2 512 "[10]"]
  by (simp add: Let_def init_prstatus_def local_itoa.simps)

subsection \<open>The name of the executable\<close>

lemma basename_loop_rev:
  "47 \<notin> set cmd \<Longrightarrow> basename_loop cmd cs = rev (takeWhile (\<lambda>c. c \<noteq> 47) (rev (cmd @ cs)))"
proof (induction cmd cs rule: basename_loop.induct)
  case (1 cmd)
  have "takeWhile (\<lambda>c. c \<noteq> 47) (rev cmd) = rev cmd" using 1 by (auto simp: takeWhile_eq_all_conv)
  then show ?case by (simp only: basename_loop.simps append_Nil2 rev_rev_ident)
next
  case (2 cmd c cs)
  then show ?case by (cases "c = 47") (auto simp: takeWhile_append takeWhile_tail)
qed

text \<open>
  C39: the loop over the path of the executable computes what follows the last slash of the bytes
  before the first 0, for every reply of \<open>readlink\<close>; the name is empty when it failed.
\<close>

theorem exe_name_basename:
  "exe_name sz bs = rev (takeWhile (\<lambda>c. c \<noteq> 47) (rev (takeWhile (\<lambda>c. c \<noteq> 0) (take (nat sz) bs))))"
  by (simp add: exe_name_def basename_loop_rev)

end
