(* ===== verification/Machine_Frames.thy ===== *)
theory Machine_Frames
  imports Proc_Props
begin

text \<open>
  The register structures and the macros \<open>FRAME\<close> and \<open>SET_FRAME\<close> of \<open>coredumper/elfcore.h\<close> for the
  machines other than x86\_64: i386, ARM, aarch64 and MIPS, and the version for all others. The
  preprocessor picks one of them; the version for x86\_64 is in \<open>Proc_Info\<close>.
\<close>

subsection \<open>i386\<close>

text \<open>
  The segment registers have 16 bits; each lies in a word of its own, whose upper half is a field
  named after it with two underscores (here with the suffix \<open>_hi\<close>).
\<close>

record i386_regs =
  reg_ebx :: u32
  reg_ecx :: u32
  reg_edx :: u32
  reg_esi :: u32
  reg_edi :: u32
  reg_ebp :: u32
  reg_eax :: u32
  reg_ds :: u16
  reg_ds_hi :: u16
  reg_es :: u16
  reg_es_hi :: u16
  reg_fs :: u16
  reg_fs_hi :: u16
  reg_gs :: u16
  reg_gs_hi :: u16
  reg_orig_eax :: u32
  reg_eip :: u32
  reg_cs :: u16
  reg_cs_hi :: u16
  reg_eflags :: u32
  reg_esp :: u32
  reg_ss :: u16
  reg_ss_hi :: u16

text \<open>The structure that lies in 17 words of memory.\<close>

definition i386_regs_of :: "u32 list \<Rightarrow> i386_regs" where
  "i386_regs_of w =
     \<lparr>reg_ebx = w ! 0, reg_ecx = w ! 1, reg_edx = w ! 2, reg_esi = w ! 3, reg_edi = w ! 4, reg_ebp = w ! 5, reg_eax = w ! 6,
      reg_ds = ucast (w ! 7), reg_ds_hi = ucast (drop_bit 16 (w ! 7)), reg_es = ucast (w ! 8), reg_es_hi = ucast (drop_bit 16 (w ! 8)),
      reg_fs = ucast (w ! 9), reg_fs_hi = ucast (drop_bit 16 (w ! 9)), reg_gs = ucast (w ! 10), reg_gs_hi = ucast (drop_bit 16 (w ! 10)),
      reg_orig_eax = w ! 11, reg_eip = w ! 12, reg_cs = ucast (w ! 13), reg_cs_hi = ucast (drop_bit 16 (w ! 13)),
      reg_eflags = w ! 14, reg_esp = w ! 15, reg_ss = ucast (w ! 16), reg_ss_hi = ucast (drop_bit 16 (w ! 16))\<rparr>"

datatype reg32 = EBX | ECX | EDX | ESI | EDI | EBP | EAX | ESP

record machine32 =
  gpr32    :: "reg32 \<Rightarrow> u32"
  segr32   :: "seg \<Rightarrow> u16"
  flags32  :: u32
  stack32  :: "u32 list"       \<comment> \<open>top first, below the address in \<open>ESP\<close>\<close>
  frame32  :: "u32 list"       \<comment> \<open>the object \<open>f.uregs\<close>, addressed through \<open>eax\<close>\<close>

datatype instr32 =
  Push32 reg32 | Pop32 reg32 | Store32 reg32 nat | Mov_seg32 seg reg32 | Mov32 reg32 reg32
| Call_pop32 reg32 u32         \<comment> \<open>\<open>call 0f; 0: pop r\<close> with the address of the label 0\<close>
| Pushf_pop32 reg32
| Addl reg32 u32

definition set_reg32 :: "reg32 \<Rightarrow> u32 \<Rightarrow> machine32 \<Rightarrow> machine32" where
  "set_reg32 r v m = m\<lparr>gpr32 := (gpr32 m)(r := v)\<rparr>"

fun exec_instr32 :: "instr32 \<Rightarrow> machine32 \<Rightarrow> machine32" where
  "exec_instr32 (Push32 r) m = (set_reg32 ESP (gpr32 m ESP - 4) m)\<lparr>stack32 := gpr32 m r # stack32 m\<rparr>"
| "exec_instr32 (Pop32 r) m =
     (case stack32 m of v # st \<Rightarrow> set_reg32 r v ((set_reg32 ESP (gpr32 m ESP + 4) m)\<lparr>stack32 := st\<rparr>) | [] \<Rightarrow> m)"
| "exec_instr32 (Store32 r off) m = m\<lparr>frame32 := (frame32 m)[off div 4 := gpr32 m r]\<rparr>"
| "exec_instr32 (Mov_seg32 sg r) m = set_reg32 r (ucast (segr32 m sg)) m"
| "exec_instr32 (Mov32 r1 r2) m = set_reg32 r2 (gpr32 m r1) m"
| "exec_instr32 (Call_pop32 r ip) m = set_reg32 r ip m"
| "exec_instr32 (Pushf_pop32 r) m = set_reg32 r (flags32 m) m"
| "exec_instr32 (Addl r n) m =
     (set_reg32 r (gpr32 m r + n) m)\<lparr>flags32 := (flags32 m AND NOT 0x8D5) OR ucast (add_flags (gpr32 m r) n)\<rparr>"

text \<open>The assembly, with the addresses of its labels 0 and 1.\<close>

definition FRAME_code32 :: "u32 \<times> u32 \<Rightarrow> instr32 list" where
  "FRAME_code32 labels =
     [Push32 EBP, Push32 EBX,
      Store32 EBX 0, Store32 ECX 4, Store32 EDX 8, Store32 ESI 12, Store32 EDI 16, Store32 EBP 20, Store32 EAX 24,
      Mov_seg32 DS EBX, Store32 EBX 28, Mov_seg32 ES EBX, Store32 EBX 32, Mov_seg32 FS EBX, Store32 EBX 36,
      Mov_seg32 GS EBX, Store32 EBX 40,
      Call_pop32 EBX (fst labels), Addl EBX (snd labels - fst labels), Store32 EBX 48, Mov_seg32 CS EBX, Store32 EBX 52,
      Pushf_pop32 EBX, Store32 EBX 56, Mov32 ESP EBX, Addl EBX 8, Store32 EBX 60, Mov_seg32 SS EBX, Store32 EBX 64,
      Pop32 EBX, Pop32 EBP]"

definition FRAME_asm32 :: "u32 \<times> u32 \<Rightarrow> machine32 \<Rightarrow> machine32" where
  "FRAME_asm32 labels = fold exec_instr32 (FRAME_code32 labels)"

record Frame_i386 =
  i386_uregs :: "u32 list"
  i386_errno :: int
  i386_tid   :: int

definition FRAME_i386 :: "'w kern \<Rightarrow> u32 \<times> u32 \<Rightarrow> machine32 \<Rightarrow> 'w st \<Rightarrow> Frame_i386 \<times> 'w st" where
  "FRAME_i386 K labels m s =
     (let e = errno s; (tid, s) = sys_gettid K s
      in (\<lparr>i386_uregs = frame32 (FRAME_asm32 labels m), i386_errno = e, i386_tid = tid\<rparr>, s))"

definition SET_FRAME_i386 :: "Frame_i386 \<Rightarrow> u32 list \<Rightarrow> 'w st \<Rightarrow> u32 list \<times> 'w st" where
  "SET_FRAME_i386 f r s = (i386_uregs f, s\<lparr>errno := i386_errno f\<rparr>)"

subsection \<open>ARM\<close>

text \<open>
  \<open>struct arm_regs\<close> is an array of 18 words. The state of the processor: the values that a store of
  \<open>r0\<close> to \<open>r15\<close> delivers, and the register \<open>cpsr\<close>.
\<close>

record arm_machine =
  arm_r :: "nat \<Rightarrow> u32"
  cpsr  :: u32

record Frame_arm =
  arm_uregs :: "u32 list"
  arm_errno :: int
  arm_tid   :: int

text \<open>\<open>stmia\<close> writes \<open>r0\<close> to \<open>r15\<close> into consecutive words of the frame, which is not initialised before.\<close>

definition stmia :: "arm_machine \<Rightarrow> u32 list \<Rightarrow> u32 list" where
  "stmia m mem = map (arm_r m) [0..<16] @ drop 16 mem"

definition FRAME_arm :: "'w kern \<Rightarrow> arm_machine \<Rightarrow> u32 list \<Rightarrow> 'w st \<Rightarrow> Frame_arm \<times> 'w st" where
  "FRAME_arm K m mem s =
     (let e = errno s; (tid, s) = sys_gettid K s; u = stmia m mem; u = u[16 := 0]; u = u[17 := cpsr m]
      in (\<lparr>arm_uregs = u, arm_errno = e, arm_tid = tid\<rparr>, s))"

definition SET_FRAME_arm :: "Frame_arm \<Rightarrow> u32 list \<Rightarrow> 'w st \<Rightarrow> u32 list \<times> 'w st" where
  "SET_FRAME_arm f r s =
     (let fps = arm_uregs f ! 16; s = s\<lparr>errno := arm_errno f\<rparr>; r = arm_uregs f; r = r[16 := fps] in (r, s))"

subsection \<open>aarch64\<close>

text \<open>
  The C library's \<open>getcontext\<close> stores the registers; what it stores of the state \<open>m\<close> of the processor is
  the parameter \<open>getcontext\<close>. The part of \<open>mcontext_t\<close> from \<open>regs\<close> on has the layout of \<open>arm64_regs\<close>.
\<close>

record mcontext_t =
  fault_address :: u64
  mc_regs   :: "u64 list"
  mc_sp     :: u64
  mc_pc     :: u64
  mc_pstate :: u64

definition FRAME_aarch64 :: "'w kern \<Rightarrow> ('m \<Rightarrow> mcontext_t) \<Rightarrow> 'm \<Rightarrow> 'w st \<Rightarrow> Frame \<times> 'w st" where
  "FRAME_aarch64 K getcontext m s =
     (let e = errno s; (tid, s) = sys_gettid K s; context = getcontext m
      in (\<lparr>f_uregs = take 34 (mc_regs context @ [mc_sp context, mc_pc context, mc_pstate context]), f_errno = e, f_tid = tid\<rparr>, s))"

subsection \<open>MIPS\<close>

record mips_regs =
  mips_pad     :: "u32 list"
  mips_uregs   :: "u32 list"
  mips_hi      :: u32
  mips_lo      :: u32
  cp0_epc      :: u32
  cp0_badvaddr :: u32
  cp0_status   :: u32
  cp0_cause    :: u32
  mips_unused  :: u32

text \<open>
  The state of the processor when the macro starts: the general registers, the results of the last
  multiplication, and the address of the instruction \<open>jal\<close>, which leaves the address behind its delay
  slot in \<open>$31\<close>.
\<close>

record mips_machine =
  MIPSREG :: "nat \<Rightarrow> u32"
  hi_reg  :: u32
  lo_reg  :: u32
  jal_at  :: u32

record Frame_mips =
  frame_mips_regs :: mips_regs
  mips_errno :: int
  mips_tid   :: int

text \<open>\<open>Frame f = {0}\<close>\<close>

definition zero_mips_regs :: mips_regs where
  "zero_mips_regs = \<lparr>mips_pad = replicate 6 0, mips_uregs = replicate 32 0, mips_hi = 0, mips_lo = 0, cp0_epc = 0,
     cp0_badvaddr = 0, cp0_status = 0, cp0_cause = 0, mips_unused = 0\<rparr>"

definition FRAME_mips :: "'w kern \<Rightarrow> mips_machine \<Rightarrow> 'w st \<Rightarrow> Frame_mips \<times> 'w st" where
  "FRAME_mips K m s =
     (let r = zero_mips_regs\<lparr>mips_uregs := map (MIPSREG m) [0..<32]\<rparr>; pc = jal_at m + 8;
          r = r\<lparr>mips_hi := hi_reg m, mips_lo := lo_reg m, cp0_epc := pc\<rparr>; e = errno s; (tid, s) = sys_gettid K s
      in (\<lparr>frame_mips_regs = r, mips_errno = e, mips_tid = tid\<rparr>, s))"

definition SET_FRAME_mips :: "Frame_mips \<Rightarrow> mips_regs \<Rightarrow> 'w st \<Rightarrow> mips_regs \<times> 'w st" where
  "SET_FRAME_mips f r s =
     (let s = s\<lparr>errno := mips_errno f\<rparr>; g = frame_mips_regs f;
          r = r\<lparr>mips_uregs := take 32 (mips_uregs g) @ drop 32 (mips_uregs r)\<rparr>
      in (r\<lparr>mips_hi := mips_hi g, mips_lo := mips_lo g, cp0_epc := cp0_epc g\<rparr>, s))"

subsection \<open>Other machines\<close>

record Frame_other =
  other_tid :: int

definition FRAME_other :: "'w kern \<Rightarrow> 'w st \<Rightarrow> Frame_other \<times> 'w st" where
  "FRAME_other K s = (let (tid, s) = sys_gettid K s in (\<lparr>other_tid = tid\<rparr>, s))"

definition SET_FRAME_other :: "Frame_other \<Rightarrow> 'r \<Rightarrow> 'w st \<Rightarrow> 'r \<times> 'w st" where
  "SET_FRAME_other f r s = (r, s)"

subsection \<open>Properties\<close>

lemma word_halves: "ucast (ucast (x :: u16) :: u32) = x" "ucast (drop_bit 16 (ucast (x :: u16) :: u32)) = (0 :: u16)"
proof -
  show "ucast (ucast (x :: u16) :: u32) = x" by (rule bit_word_eqI) (simp add: bit_simps)
  show "ucast (drop_bit 16 (ucast (x :: u16) :: u32)) = (0 :: u16)" by (rule bit_word_eqI) (auto simp: bit_simps dest: bit_imp_le_length)
qed

lemma other_flags_kept32: "(fl AND NOT 0x8D5 OR ucast (add_flags a b)) AND NOT 0x8D5 = fl AND NOT (0x8D5 :: u32)"
proof -
  have "ucast (add_flags a b) AND NOT (0x8D5 :: u32) = ucast (add_flags a b AND NOT (0x8D5 :: u64))"
    by (rule bit_word_eqI) (simp add: bit_simps)
  then show ?thesis using add_flags_other [of a b] by (simp add: bit.conj_disj_distrib2 and.assoc)
qed

text \<open>
  C29: on i386 the snapshot is exact. The assembly leaves the general registers and the stack as they were;
  the structure holds the general registers, the stack pointer of the caller, all segment registers
  with clear upper halves, the address behind the assembly as \<open>eip\<close> and the flags up to the arithmetic
  ones, which an addition has changed before they are read; \<open>orig_eax\<close> keeps what was in the memory.
\<close>

theorem FRAME_i386_snapshot:
  assumes "length (frame32 m) = 17"
  shows "let m' = FRAME_asm32 labels m; r = i386_regs_of (frame32 m') in
    gpr32 m' = gpr32 m \<and> segr32 m' = segr32 m \<and> stack32 m' = stack32 m \<and> length (frame32 m') = 17 \<and>
    map (gpr32 m) [EBX, ECX, EDX, ESI, EDI, EBP, EAX, ESP] = [reg_ebx r, reg_ecx r, reg_edx r, reg_esi r, reg_edi r, reg_ebp r, reg_eax r, reg_esp r] \<and>
    map (segr32 m) [DS, ES, FS, GS, CS, SS] = [reg_ds r, reg_es r, reg_fs r, reg_gs r, reg_cs r, reg_ss r] \<and>
    [reg_ds_hi r, reg_es_hi r, reg_fs_hi r, reg_gs_hi r, reg_cs_hi r, reg_ss_hi r] = [0, 0, 0, 0, 0, 0] \<and>
    reg_eip r = snd labels \<and> reg_orig_eax r = frame32 m ! 11 \<and> reg_eflags r AND NOT 0x8D5 = flags32 m AND NOT 0x8D5"
  using assms other_flags_kept32 [of "flags32 m" "fst labels" "snd labels - fst labels"]
  by (simp add: FRAME_asm32_def FRAME_code32_def set_reg32_def i386_regs_of_def Let_def fun_eq_iff word_halves)

theorem FRAME_i386_snapshot_witness:
  "let m = \<lparr>gpr32 = (\<lambda>r. if r = ESP then 0xBFFF1000 else 5), segr32 = (\<lambda>_. 0x7B), flags32 = 0x246, stack32 = [1, 2], frame32 = replicate 17 0\<rparr>;
     r = i386_regs_of (frame32 (FRAME_asm32 (0x8048000, 0x8048030) m))
   in reg_esp r = 0xBFFF1000 \<and> reg_eip r = 0x8048030 \<and> reg_ds r = 0x7B \<and> reg_edi r = 5"
  using FRAME_i386_snapshot [of "\<lparr>gpr32 = (\<lambda>r. if r = ESP then 0xBFFF1000 else 5), segr32 = (\<lambda>_. 0x7B), flags32 = 0x246,
    stack32 = [1, 2], frame32 = replicate 17 0\<rparr>" "(0x8048000, 0x8048030)"]
  by (simp add: Let_def)

text \<open>
  What the macros put into the registers \<open>r\<close> that \<open>ptrace\<close> reported for the calling thread. On i386,
  ARM and aarch64 they replace all of \<open>r\<close> by the snapshot; on MIPS they keep the padding and the
  registers of coprocessor 0 other than the program counter. On ARM the word 16 is 0 whatever \<open>ptrace\<close>
  reported. Everywhere \<open>errno\<close> becomes what it was when the snapshot was taken.
\<close>

lemma SET_FRAME_result:
  assumes "length mem = 18" "length (mips_uregs rm) = 32" "length (mc_regs (getcontext m)) = 31"
  shows "fst (SET_FRAME_i386 (fst (FRAME_i386 K labels x s)) ri t) = frame32 (FRAME_asm32 labels x) \<and>
    fst (SET_FRAME_arm (fst (FRAME_arm K a mem s)) ra t) = map (arm_r a) [0..<16] @ [0, cpsr a] \<and>
    fst (SET_FRAME AARCH64 (fst (FRAME_aarch64 K getcontext m s)) rx t) =
      mc_regs (getcontext m) @ [mc_sp (getcontext m), mc_pc (getcontext m), mc_pstate (getcontext m)] \<and>
    fst (SET_FRAME_mips (fst (FRAME_mips K p s)) rm t) =
      rm\<lparr>mips_uregs := map (MIPSREG p) [0..<32], mips_hi := hi_reg p, mips_lo := lo_reg p, cp0_epc := jal_at p + 8\<rparr> \<and>
    (\<forall>u\<in>{snd (SET_FRAME_i386 (fst (FRAME_i386 K labels x s)) ri t), snd (SET_FRAME_arm (fst (FRAME_arm K a mem s)) ra t),
       snd (SET_FRAME AARCH64 (fst (FRAME_aarch64 K getcontext m s)) rx t), snd (SET_FRAME_mips (fst (FRAME_mips K p s)) rm t)}.
     u = t\<lparr>errno := errno s\<rparr>)"
proof -
  obtain tid s1 where "sys_gettid K s = (tid, s1)" by fastforce
  moreover obtain y z where "drop 16 mem = [y, z]" using assms(1) by (auto simp: numeral_eq_Suc length_Suc_conv Cons_nth_drop_Suc)
  ultimately show ?thesis using assms
    by (simp add: SET_FRAME_i386_def FRAME_i386_def SET_FRAME_arm_def FRAME_arm_def stmia_def SET_FRAME_def FRAME_aarch64_def
        SET_FRAME_mips_def FRAME_mips_def Let_def zero_mips_regs_def list_update_append nth_append)
qed

end
