(* ===== verification/Syscall_Compat.thy ===== *)
theory Syscall_Compat
  imports Syscall_Support
begin

text \<open>
  The wrappers of \<open>coredumper/linux_syscall_support.h\<close> that hide differences between kernels: calls
  that aarch64 lacks and that are made from newer ones, and, on 32-bit machines (the i386
  configuration), calls that fall back to an older version when the kernel answers \<open>ENOSYS\<close>, and
  calls with 64-bit arguments.
\<close>

unbundle bit_operations_syntax

subsection \<open>Calls that aarch64 lacks\<close>

text \<open>\<open>struct kernel_timespec\<close>, and the calls the wrappers are made from.\<close>

record kernel_timespec =
  ts_sec  :: int
  ts_nsec :: int

abbreviation (input) "AT_FDCWD \<equiv> (- 100 :: int)"
abbreviation (input) "AT_SYMLINK_NOFOLLOW \<equiv> (0x100 :: int)"

datatype aarch64_call =
  NR_dup3 int int int
| NR_openat int "byte list" int int
| NR_unlinkat int "byte list" int
| NR_readlinkat int "byte list" nat
| NR_pipe2 int
| NR_ppoll "(int \<times> int) list" "kernel_timespec option"
| NR_newfstatat int "byte list" int
| NR_clone_child int           \<comment> \<open>\<open>clone\<close> with these flags and no stack\<close>
| Common syscall               \<comment> \<open>a call both kernels have\<close>

type_synonym 'w aarch64_kern = "aarch64_call \<Rightarrow> 'w \<Rightarrow> kreply \<times> 'w"

text \<open>A call: the error number is the first part of the state.\<close>

definition trap_int :: "'w aarch64_kern \<Rightarrow> aarch64_call \<Rightarrow> int \<times> 'w \<Rightarrow> (int \<times> kreply) \<times> int \<times> 'w" where
  "trap_int K c = (\<lambda>(e, w). case K c w of (r, w) \<Rightarrow> case LSS_RETURN_int (kret r) e of (rc, e) \<Rightarrow> ((rc, r), e, w))"

definition dup2_poly :: "'w aarch64_kern \<Rightarrow> int \<Rightarrow> int \<Rightarrow> int \<times> 'w \<Rightarrow> (int \<times> kreply) \<times> int \<times> 'w" where
  "dup2_poly K s d = trap_int K (NR_dup3 s d 0)"

definition open_poly :: "'w aarch64_kern \<Rightarrow> byte list \<Rightarrow> int \<Rightarrow> int \<Rightarrow> int \<times> 'w \<Rightarrow> (int \<times> kreply) \<times> int \<times> 'w" where
  "open_poly K pathname flags mode = trap_int K (NR_openat AT_FDCWD pathname flags mode)"

definition unlink_poly :: "'w aarch64_kern \<Rightarrow> byte list \<Rightarrow> int \<times> 'w \<Rightarrow> (int \<times> kreply) \<times> int \<times> 'w" where
  "unlink_poly K pathname = trap_int K (NR_unlinkat AT_FDCWD pathname 0)"

definition readlink_poly :: "'w aarch64_kern \<Rightarrow> byte list \<Rightarrow> nat \<Rightarrow> int \<times> 'w \<Rightarrow> (int \<times> kreply) \<times> int \<times> 'w" where
  "readlink_poly K pathname n = trap_int K (NR_readlinkat AT_FDCWD pathname n)"

definition pipe_poly :: "'w aarch64_kern \<Rightarrow> int \<times> 'w \<Rightarrow> (int \<times> kreply) \<times> int \<times> 'w" where
  "pipe_poly K = trap_int K (NR_pipe2 0)"

definition poll_timeout :: "int \<Rightarrow> kernel_timespec option" where
  "poll_timeout timeout =
     (if timeout \<ge> 0 then Some \<lparr>ts_sec = timeout div 1000, ts_nsec = (timeout mod 1000) * 1000000\<rparr> else None)"

definition poll_poly :: "'w aarch64_kern \<Rightarrow> (int \<times> int) list \<Rightarrow> int \<Rightarrow> int \<times> 'w \<Rightarrow> (int \<times> kreply) \<times> int \<times> 'w" where
  "poll_poly K fds timeout = trap_int K (NR_ppoll fds (poll_timeout timeout))"

definition stat_poly :: "'w aarch64_kern \<Rightarrow> byte list \<Rightarrow> int \<times> 'w \<Rightarrow> (int \<times> kreply) \<times> int \<times> 'w" where
  "stat_poly K pathname = trap_int K (NR_newfstatat AT_FDCWD pathname 0)"

definition lstat_poly :: "'w aarch64_kern \<Rightarrow> byte list \<Rightarrow> int \<times> 'w \<Rightarrow> (int \<times> kreply) \<times> int \<times> 'w" where
  "lstat_poly K pathname = trap_int K (NR_newfstatat AT_FDCWD pathname AT_SYMLINK_NOFOLLOW)"

definition fork_poly :: "'w aarch64_kern \<Rightarrow> int \<times> 'w \<Rightarrow> (int \<times> kreply) \<times> int \<times> 'w" where
  "fork_poly K = trap_int K (NR_clone_child SIGCHLD)"

text \<open>
  The kernel that the program sees through these wrappers. The other theories are about an
  arbitrary kernel, so what they show holds on aarch64 for this one.
\<close>

fun polyfill :: "syscall \<Rightarrow> aarch64_call" where
  "polyfill (NR_dup2 s d) = NR_dup3 s d 0"
| "polyfill (NR_open p f m) = NR_openat AT_FDCWD p f m"
| "polyfill (NR_readlink p n) = NR_readlinkat AT_FDCWD p n"
| "polyfill NR_pipe = NR_pipe2 0"
| "polyfill (NR_poll fds t) = NR_ppoll fds (poll_timeout t)"
| "polyfill (NR_stat p) = NR_newfstatat AT_FDCWD p 0"
| "polyfill NR_fork = NR_clone_child SIGCHLD"
| "polyfill c = Common c"

definition polyfilled :: "'w aarch64_kern \<Rightarrow> 'w kern" where
  "polyfilled K c = K (polyfill c)"

lemma trap_int_polyfill:
  "sys_int (polyfilled K) c s = (x, s') \<Longrightarrow> trap_int K (polyfill c) (errno s, world s) = (x, errno s', world s')"
  by (auto simp: trap_int_def sys_int_def lss_syscall_def polyfilled_def split: prod.splits)

text \<open>A wrapper behaves as the call it replaces does on the kernel seen through the wrappers.\<close>

lemma polyfills:
  "sys_open (polyfilled K) p f m s = (x, s') \<Longrightarrow> open_poly K p f m (errno s, world s) = (x, errno s', world s')"
  "sys_pipe (polyfilled K) s = (x, s') \<Longrightarrow> pipe_poly K (errno s, world s) = (x, errno s', world s')"
  "sys_poll (polyfilled K) fds t s = (x, s') \<Longrightarrow> poll_poly K fds t (errno s, world s) = (x, errno s', world s')"
  "sys_int (polyfilled K) (NR_dup2 a b) s = (x, s') \<Longrightarrow> dup2_poly K a b (errno s, world s) = (x, errno s', world s')"
  "sys_int (polyfilled K) (NR_readlink p n) s = (x, s') \<Longrightarrow> readlink_poly K p n (errno s, world s) = (x, errno s', world s')"
  "sys_int (polyfilled K) (NR_stat p) s = (x, s') \<Longrightarrow> stat_poly K p (errno s, world s) = (x, errno s', world s')"
  "sys_int (polyfilled K) NR_fork s = (x, s') \<Longrightarrow> fork_poly K (errno s, world s) = (x, errno s', world s')"
  by (auto simp: sys_open_def open_poly_def sys_pipe_def pipe_poly_def sys_poll_def poll_poly_def dup2_poly_def readlink_poly_def
      stat_poly_def fork_poly_def dest!: trap_int_polyfill)

text \<open>The time limit of \<open>ppoll\<close> is well formed and the same as that of \<open>poll\<close>.\<close>

lemma poll_timeout_same:
  assumes "0 \<le> t"
  shows "\<exists>ts. poll_timeout t = Some ts \<and> 0 \<le> ts_nsec ts \<and> ts_nsec ts < 10 ^ 9 \<and> ts_sec ts * 10 ^ 9 + ts_nsec ts = t * 10 ^ 6"
proof -
  have "1000 * (t div 1000) + t mod 1000 = t" "0 \<le> t mod 1000" "t mod 1000 < 1000" by simp_all
  moreover from this have "t div 1000 * 1000000000 + t mod 1000 * 1000000 = t * 1000000" by linarith
  ultimately show ?thesis using assms by (simp add: poll_timeout_def)
qed

subsection \<open>Calls of 32-bit machines\<close>

text \<open>
  Pointers are words of 32 bits, and so is the register that holds the result. \<open>struct
  kernel_sigaction\<close> has a mask of two words, the old structure one of one word.
\<close>

record kernel_sigaction =
  sa_handler  :: u32
  sa_flags    :: u32
  sa_restorer :: u32
  sa_mask     :: "u32 list"

record kernel_old_sigaction =
  osa_handler  :: u32
  osa_mask     :: u32
  osa_flags    :: u32
  osa_restorer :: u32

datatype call32 =
  NR_getresgid32 | NR_getresgid | NR_getresuid32 | NR_getresuid
| NR_setfsgid32 "u32 list" | NR_setfsgid "u32 list" | NR_setfsuid32 "u32 list" | NR_setfsuid "u32 list"
| NR_setresgid32 "u32 list" | NR_setresgid "u32 list" | NR_setresuid32 "u32 list" | NR_setresuid "u32 list"
| NR_rt_sigaction_32 int "kernel_sigaction option" bool nat
| NR_sigaction int "kernel_old_sigaction option" bool
| NR_rt_sigpending nat | NR_sigpending
| NR_rt_sigsuspend "u32 list" nat | NR_sigsuspend "u32 list" int u32
| NR_mmap2 u32 u32 int int int u32
| NR_pread64 int nat u32 u32 | NR_pwrite64 int "byte list" u32 u32 | NR_readahead int u32 u32 int
| NR_fadvise64_64 int u32 u32 u32 u32 int | NR_fallocate int int u32 u32 u32 u32

record reply32 =
  ret32   :: u32
  words32 :: "u32 list"                \<comment> \<open>ids or signals stored for the caller\<close>
  act32   :: kernel_sigaction          \<comment> \<open>what is stored in the caller's structure\<close>
  oact32  :: kernel_old_sigaction

type_synonym 'w kern32 = "call32 \<Rightarrow> 'w \<Rightarrow> reply32 \<times> 'w"

record 'w st32 =
  errno32 :: int
  calls32 :: "call32 list"
  world32 :: 'w

definition LSS_RETURN32 :: "u32 \<Rightarrow> int \<Rightarrow> int \<times> int" where
  "LSS_RETURN32 res e = (if res \<ge> - 4095 then (-1, sint (- res)) else (sint res, e))"

definition trap32 :: "'w kern32 \<Rightarrow> call32 \<Rightarrow> 'w st32 \<Rightarrow> (int \<times> reply32) \<times> 'w st32" where
  "trap32 K c s =
     (case K c (world32 s) of (r, w) \<Rightarrow>
      case LSS_RETURN32 (ret32 r) (errno32 s) of (rc, e) \<Rightarrow>
        ((rc, r), s\<lparr>errno32 := e, calls32 := calls32 s @ [c], world32 := w\<rparr>))"

text \<open>
  The ids of the process. The three pointers of the caller may be \<open>NULL\<close> (\<open>None\<close>); otherwise the
  value is what they point to. The old call stores 16 bits.
\<close>

definition stored32 :: "int \<Rightarrow> reply32 \<Rightarrow> u32 option list \<Rightarrow> u32 option list" where
  "stored32 rc r ids = (if rc = 0 then map2 (map_option \<circ> (\<lambda>v _. v)) (words32 r) ids else ids)"

definition stored16 :: "int \<Rightarrow> reply32 \<Rightarrow> u32 option list \<Rightarrow> u32 option list" where
  "stored16 rc r ids =
     (if rc = 0 then map2 (map_option \<circ> (\<lambda>v old. (old AND NOT 0xFFFF) OR (v AND 0xFFFF))) (words32 r) ids else ids)"

definition getres32 ::
    "'w kern32 \<Rightarrow> call32 \<Rightarrow> call32 \<Rightarrow> u32 option list \<Rightarrow> 'w st32 \<Rightarrow> (int \<times> u32 option list) \<times> 'w st32" where
  "getres32 K new old ids s =
     (case trap32 K new s of ((rc, r), s) \<Rightarrow>
      if rc < 0 \<and> errno32 s = ENOSYS then
        (if None \<in> set ids then ((EFAULT, ids), s)
         else case trap32 K old s of ((rc, r), s) \<Rightarrow> ((rc, stored16 rc r (map (\<lambda>_. Some 0) ids)), s))
      else ((rc, stored32 rc r ids), s))"

definition getresgid32 :: "'w kern32 \<Rightarrow> u32 option list \<Rightarrow> 'w st32 \<Rightarrow> (int \<times> u32 option list) \<times> 'w st32" where
  "getresgid32 K = getres32 K NR_getresgid32 NR_getresgid"

definition getresuid32 :: "'w kern32 \<Rightarrow> u32 option list \<Rightarrow> 'w st32 \<Rightarrow> (int \<times> u32 option list) \<times> 'w st32" where
  "getresuid32 K = getres32 K NR_getresuid32 NR_getresuid"

text \<open>Setting ids; \<open>ids\<close> has one element for \<open>setfsuid\<close> and \<open>setfsgid\<close> and three for the others.\<close>

definition set_ids :: "'w kern32 \<Rightarrow> (u32 list \<Rightarrow> call32) \<Rightarrow> (u32 list \<Rightarrow> call32) \<Rightarrow> u32 list \<Rightarrow> 'w st32 \<Rightarrow> int \<times> 'w st32" where
  "set_ids K new old ids s =
     (case trap32 K (new ids) s of ((rc, _), s) \<Rightarrow>
      if rc < 0 \<and> errno32 s = ENOSYS then
        (if list_ex (\<lambda>i. i AND NOT 0xFFFF \<noteq> 0) ids then (EINVAL, s)
         else case trap32 K (old ids) s of ((rc, _), s) \<Rightarrow> (rc, s))
      else (rc, s))"

definition setfsgid32 :: "'w kern32 \<Rightarrow> u32 \<Rightarrow> 'w st32 \<Rightarrow> int \<times> 'w st32" where
  "setfsgid32 K gid = set_ids K NR_setfsgid32 NR_setfsgid [gid]"

definition setfsuid32 :: "'w kern32 \<Rightarrow> u32 \<Rightarrow> 'w st32 \<Rightarrow> int \<times> 'w st32" where
  "setfsuid32 K uid = set_ids K NR_setfsuid32 NR_setfsuid [uid]"

definition setresgid32 :: "'w kern32 \<Rightarrow> u32 \<Rightarrow> u32 \<Rightarrow> u32 \<Rightarrow> 'w st32 \<Rightarrow> int \<times> 'w st32" where
  "setresgid32 K r e s = set_ids K NR_setresgid32 NR_setresgid [r, e, s]"

definition setresuid32 :: "'w kern32 \<Rightarrow> u32 \<Rightarrow> u32 \<Rightarrow> u32 \<Rightarrow> 'w st32 \<Rightarrow> int \<times> 'w st32" where
  "setresuid32 K r e s = set_ids K NR_setresuid32 NR_setresuid [r, e, s]"

text \<open>
  Signal actions. \<open>restore_rt\<close> and \<open>restore\<close> are the addresses of the functions a handler returns
  to. \<open>act\<close> and \<open>oldact\<close> may be \<open>NULL\<close>; they point to different structures.
\<close>

abbreviation (input) "SA_RESTORER \<equiv> (0x04000000 :: u32)"
abbreviation (input) "SA_SIGINFO \<equiv> (4 :: u32)"

definition add_restorer :: "u32 \<Rightarrow> u32 \<Rightarrow> kernel_sigaction \<Rightarrow> kernel_sigaction" where
  "add_restorer restore_rt restore a =
     (if sa_flags a AND SA_RESTORER = 0
      then a\<lparr>sa_flags := sa_flags a OR SA_RESTORER,
             sa_restorer := (if (sa_flags a OR SA_RESTORER) AND SA_SIGINFO \<noteq> 0 then restore_rt else restore)\<rparr>
      else a)"

definition to_old :: "kernel_sigaction \<Rightarrow> kernel_old_sigaction" where
  "to_old act = \<lparr>osa_handler = sa_handler act, osa_mask = hd (sa_mask act), osa_flags = sa_flags act, osa_restorer = sa_restorer act\<rparr>"

definition zero_action :: kernel_sigaction where
  "zero_action = \<lparr>sa_handler = 0, sa_flags = 0, sa_restorer = 0, sa_mask = [0, 0]\<rparr>"

definition from_old :: "kernel_sigaction \<Rightarrow> kernel_old_sigaction \<Rightarrow> kernel_sigaction" where
  "from_old base oa =
     base\<lparr>sa_handler := osa_handler oa, sa_flags := osa_flags oa, sa_mask := (sa_mask base)[0 := osa_mask oa], sa_restorer := osa_restorer oa\<rparr>"

definition sigaction32 ::
    "'w kern32 \<Rightarrow> u32 \<Rightarrow> u32 \<Rightarrow> int \<Rightarrow> kernel_sigaction option \<Rightarrow> kernel_sigaction option \<Rightarrow> 'w st32 \<Rightarrow>
     (int \<times> kernel_sigaction option) \<times> 'w st32" where
  "sigaction32 K restore_rt restore signum act oldact s =
     (let old_errno = errno32 s; a = map_option (add_restorer restore_rt restore) act in
      case trap32 K (NR_rt_sigaction_32 signum a (oldact \<noteq> None) 8) s of ((rc, r), s) \<Rightarrow>
      if rc < 0 \<and> errno32 s = ENOSYS then
        (case trap32 K (NR_sigaction signum (map_option to_old act) (oldact \<noteq> None)) (s\<lparr>errno32 := old_errno\<rparr>) of ((rc, r), s) \<Rightarrow>
          ((rc, if rc = 0 \<and> oldact \<noteq> None
                then Some (from_old (case act of Some x \<Rightarrow> x | None \<Rightarrow> zero_action) (oact32 r)) else oldact), s))
      else ((rc, if rc = 0 \<and> oldact \<noteq> None then Some (act32 r) else oldact), s))"

definition sigpending32 :: "'w kern32 \<Rightarrow> u32 list \<Rightarrow> 'w st32 \<Rightarrow> (int \<times> u32 list) \<times> 'w st32" where
  "sigpending32 K st s =
     (let old_errno = errno32 s in
      case trap32 K (NR_rt_sigpending 8) s of ((rc, r), s) \<Rightarrow>
      if rc < 0 \<and> errno32 s = ENOSYS then
        (let st = map (\<lambda>_. 0) st in
         case trap32 K NR_sigpending (s\<lparr>errno32 := old_errno\<rparr>) of ((rc, r), s) \<Rightarrow>
           ((rc, if rc = 0 then st[0 := hd (words32 r)] else st), s))
      else ((rc, if rc = 0 then words32 r else st), s))"

definition sigsuspend32 :: "'w kern32 \<Rightarrow> u32 list \<Rightarrow> 'w st32 \<Rightarrow> int \<times> 'w st32" where
  "sigsuspend32 K st s =
     (let olderrno = errno32 s in
      case trap32 K (NR_rt_sigsuspend st 8) s of ((rc, _), s) \<Rightarrow>
      if rc < 0 \<and> errno32 s = ENOSYS then
        (case trap32 K (NR_sigsuspend st 0 (st ! 0)) (s\<lparr>errno32 := olderrno\<rparr>) of ((rc, _), s) \<Rightarrow> (rc, s))
      else (rc, s))"

text \<open>\<open>mmap\<close> is made from \<open>mmap2\<close>, which counts in pages; \<open>o % 4096\<close> is 0 exactly for the multiples.\<close>

definition mmap32 :: "'w kern32 \<Rightarrow> u32 \<Rightarrow> u32 \<Rightarrow> int \<Rightarrow> int \<Rightarrow> int \<Rightarrow> int \<Rightarrow> 'w st32 \<Rightarrow> int \<times> 'w st32" where
  "mmap32 K a l p f d off s =
     (if off mod 4096 \<noteq> 0 then (-1, s\<lparr>errno32 := EINVAL\<rparr>)
      else case trap32 K (NR_mmap2 a l p f d (of_int (off div 4096))) s of ((rc, _), s) \<Rightarrow> (rc, s))"

text \<open>The two words of a 64-bit argument, by a union and by shifting.\<close>

definition arg64 :: "int \<Rightarrow> nat \<Rightarrow> u32" where
  "arg64 off i = of_int (drop_bit (32 * i) off)"

definition pread64 :: "'w kern32 \<Rightarrow> int \<Rightarrow> nat \<Rightarrow> int \<Rightarrow> 'w st32 \<Rightarrow> (int \<times> reply32) \<times> 'w st32" where
  "pread64 K fd count off = trap32 K (NR_pread64 fd count (arg64 off 0) (arg64 off 1))"

definition pwrite64 :: "'w kern32 \<Rightarrow> int \<Rightarrow> byte list \<Rightarrow> int \<Rightarrow> 'w st32 \<Rightarrow> (int \<times> reply32) \<times> 'w st32" where
  "pwrite64 K fd buf off = trap32 K (NR_pwrite64 fd buf (arg64 off 0) (arg64 off 1))"

definition readahead :: "'w kern32 \<Rightarrow> int \<Rightarrow> int \<Rightarrow> int \<Rightarrow> 'w st32 \<Rightarrow> (int \<times> reply32) \<times> 'w st32" where
  "readahead K fd off len = trap32 K (NR_readahead fd (arg64 off 0) (arg64 off 1) len)"

definition fadvise64 :: "'w kern32 \<Rightarrow> int \<Rightarrow> int \<Rightarrow> int \<Rightarrow> int \<Rightarrow> 'w st32 \<Rightarrow> (int \<times> reply32) \<times> 'w st32" where
  "fadvise64 K fd offset len advice =
     trap32 K (NR_fadvise64_64 fd (of_int offset) (of_int (drop_bit 32 offset)) (of_int len) (of_int (drop_bit 32 len)) advice)"

definition fallocate :: "'w kern32 \<Rightarrow> int \<Rightarrow> int \<Rightarrow> int \<Rightarrow> int \<Rightarrow> 'w st32 \<Rightarrow> (int \<times> reply32) \<times> 'w st32" where
  "fallocate K fd mode offset len =
     trap32 K (NR_fallocate fd mode (arg64 offset 0) (arg64 offset 1) (arg64 len 0) (arg64 len 1))"

lemma arg64_join: "uint (arg64 off 0) + 2 ^ 32 * uint (arg64 off 1) = off mod 2 ^ 64"
proof -
  have "off mod 2 ^ 64 = off mod 2 ^ 32 + 2 ^ 32 * (off div 2 ^ 32 mod 2 ^ 32)"
    using zmod_zmult2_eq [of "2 ^ 32" off "2 ^ 32"] by simp
  then show ?thesis by (simp add: arg64_def uint_word_of_int drop_bit_eq_div take_bit_eq_mod)
qed

text \<open>The kernel maps at the offset asked for when this is below \<open>2 ^ 44\<close>; a page number is cut to 32 bits.\<close>

lemma mmap32_offset:
  assumes "4096 dvd off" "0 \<le> off"
  shows "uint (of_int (off div 4096) :: u32) * 4096 = off mod 2 ^ 44"
proof -
  obtain k where k: "off = 4096 * k" using assms(1) by blast
  have "4096 * k mod (4096 * 2 ^ 32) = 4096 * (k mod 2 ^ 32)" by (rule mult_mod_right [symmetric])
  then show ?thesis by (simp add: k uint_word_of_int)
qed

subsection \<open>Properties\<close>

lemma trap32_ENOSYS:
  assumes "K c (world32 s) = (r, w)" "ret32 r = - 38"
  shows "trap32 K c s = ((-1, r), s\<lparr>errno32 := ENOSYS, calls32 := calls32 s @ [c], world32 := w\<rparr>)"
  using assms by (simp add: trap32_def LSS_RETURN32_def word_le_nat_alt)

lemma trap32_call:
  assumes "K c (world32 s) = (r, w)"
  shows "trap32 K c s = ((fst (LSS_RETURN32 (ret32 r) (errno32 s)), r),
    s\<lparr>errno32 := snd (LSS_RETURN32 (ret32 r) (errno32 s)), calls32 := calls32 s @ [c], world32 := w\<rparr>)"
  using assms by (simp add: trap32_def split: prod.split)

lemma fits_16: "i AND - 0x10000 = 0 \<longleftrightarrow> i \<le> 0xFFFF" for i :: u32
proof -
  have m: "- 0x10000 = NOT (mask 16 :: u32)" by (simp add: mask_eq_exp_minus_1)
  have "i AND NOT (mask 16) = 0 \<longleftrightarrow> take_bit 16 i = i"
    unfolding take_bit_eq_mask by (auto simp: bit_eq_iff bit_simps)
  also have "\<dots> \<longleftrightarrow> unat i < 2 ^ 16"
    by (simp add: word_eq_iff_unsigned [where 'a = nat] unsigned_take_bit_eq take_bit_nat_eq_self_iff)
  also have "\<dots> \<longleftrightarrow> i \<le> 0xFFFF" by (auto simp: word_le_nat_alt)
  finally show ?thesis unfolding m .
qed

text \<open>
  Setting an id on a kernel without the 32-bit call. Ids of 16 bits are set by the old call, with
  its result; for a larger id no other call is made and the result is \<open>EINVAL\<close>: a positive number,
  where every other failure is reported as -1, and \<open>errno\<close> is \<open>ENOSYS\<close>.
\<close>

lemma set_ids_old_kernel:
  assumes "ret32 (fst (K (new ids) (world32 s))) = - 38" "set_ids K new old ids s = (rc, s')"
  shows "if \<forall>i\<in>set ids. i \<le> 0xFFFF
    then calls32 s' = calls32 s @ [new ids, old ids] \<and>
      (rc, errno32 s') = LSS_RETURN32 (ret32 (fst (K (old ids) (snd (K (new ids) (world32 s)))))) ENOSYS
    else calls32 s' = calls32 s @ [new ids] \<and> rc = 22 \<and> errno32 s' = ENOSYS"
proof -
  obtain r w where K: "K (new ids) (world32 s) = (r, w)" by fastforce
  with assms(1) have t: "trap32 K (new ids) s = ((-1, r), s\<lparr>errno32 := ENOSYS, calls32 := calls32 s @ [new ids], world32 := w\<rparr>)"
    by (intro trap32_ENOSYS) simp_all
  obtain r' w' where K': "K (old ids) w = (r', w')" by fastforce
  have t': "trap32 K (old ids) (s\<lparr>errno32 := ENOSYS, calls32 := calls32 s @ [new ids], world32 := w\<rparr>) =
     ((fst (LSS_RETURN32 (ret32 r') ENOSYS), r'), s\<lparr>errno32 := snd (LSS_RETURN32 (ret32 r') ENOSYS),
       calls32 := calls32 s @ [new ids, old ids], world32 := w'\<rparr>)"
    using K' by (subst trap32_call) simp_all
  show ?thesis using assms(2)
    by (auto simp: set_ids_def t t' K K' list_ex_iff fits_16 split: if_splits)
qed

text \<open>
  C40: \<open>sigaction\<close> on a kernel that has only the old call. It returns 0 with \<open>errno\<close> as it was; the kernel
  gets the handler, the flags and the first 32 signals of the mask. The old action that is reported
  has the handler, the flags and the first 32 signals of the kernel's answer, but signals 33 to 64 are
  those of the mask of the new action.
\<close>

theorem sigaction_old_kernel:
  assumes "ret32 (fst (K (NR_rt_sigaction_32 signum (map_option (add_restorer restore_rt restore) act) True 8) (world32 s))) = - 38"
    and "K (NR_sigaction signum (map_option to_old act) True)
      (snd (K (NR_rt_sigaction_32 signum (map_option (add_restorer restore_rt restore) act) True 8) (world32 s))) = (r, w)"
    and "ret32 r = 0" "\<forall>a. act = Some a \<longrightarrow> length (sa_mask a) = 2"
  shows "\<exists>s'. sigaction32 K restore_rt restore signum act (Some oldact) s =
    ((0, Some \<lparr>sa_handler = osa_handler (oact32 r), sa_flags = osa_flags (oact32 r), sa_restorer = osa_restorer (oact32 r),
       sa_mask = [osa_mask (oact32 r), case act of None \<Rightarrow> 0 | Some a \<Rightarrow> sa_mask a ! 1]\<rparr>), s') \<and>
    errno32 s' = errno32 s \<and> world32 s' = w \<and>
    (\<forall>a. act = Some a \<longrightarrow> (\<exists>oa. last (calls32 s') = NR_sigaction signum (Some oa) True \<and> osa_handler oa = sa_handler a \<and>
       osa_flags oa = sa_flags a \<and> osa_mask oa = sa_mask a ! 0))"
proof -
  let ?c = "NR_rt_sigaction_32 signum (map_option (add_restorer restore_rt restore) act) True 8"
  obtain r1 w1 where K: "K ?c (world32 s) = (r1, w1)" by fastforce
  with assms(1) have t: "trap32 K ?c s = ((-1, r1), s\<lparr>errno32 := ENOSYS, calls32 := calls32 s @ [?c], world32 := w1\<rparr>)"
    by (intro trap32_ENOSYS) simp_all
  have m: "\<exists>x y. sa_mask a = [x, y]" if "act = Some a" for a
    using assms(4) that by (auto simp: numeral_2_eq_2 length_Suc_conv)
  let ?d = "NR_sigaction signum (map_option to_old act) True"
  have ok: "LSS_RETURN32 (ret32 r) e = (0, e)" for e using assms(3) by (simp add: LSS_RETURN32_def word_le_nat_alt)
  have "K ?d w1 = (r, w)" using assms(2) K by simp
  then have t': "trap32 K ?d (s\<lparr>errno32 := errno32 s, calls32 := calls32 s @ [?c], world32 := w1\<rparr>) =
     ((0, r), s\<lparr>calls32 := calls32 s @ [?c, ?d], world32 := w\<rparr>)"
    using trap32_call [of K ?d "s\<lparr>errno32 := errno32 s, calls32 := calls32 s @ [?c], world32 := w1\<rparr>" r w] by (simp add: ok)
  show ?thesis
    using t t' by (cases act) (auto simp: sigaction32_def Let_def from_old_def zero_action_def to_old_def dest!: m)
qed

theorem sigaction_old_kernel_witness:
  "let K = (\<lambda>c w. (\<lparr>ret32 = (case c of NR_sigaction n a b \<Rightarrow> 0 | _ \<Rightarrow> - 38), words32 = [], act32 = zero_action,
          oact32 = \<lparr>osa_handler = 7, osa_mask = 5, osa_flags = 0, osa_restorer = 0\<rparr>\<rparr>, w));
       act = \<lparr>sa_handler = 9, sa_flags = 0, sa_restorer = 0, sa_mask = [1, 2]\<rparr>
   in \<exists>s'. sigaction32 K 100 200 10 (Some act) (Some zero_action) \<lparr>errno32 = 3, calls32 = [], world32 = ()\<rparr> =
     ((0, Some \<lparr>sa_handler = 7, sa_flags = 0, sa_restorer = 0, sa_mask = [5, 2]\<rparr>), s') \<and> errno32 s' = 3"
  using sigaction_old_kernel [of "\<lambda>c w. (\<lparr>ret32 = (case c of NR_sigaction n a b \<Rightarrow> 0 | _ \<Rightarrow> - 38), words32 = [], act32 = zero_action,
          oact32 = \<lparr>osa_handler = 7, osa_mask = 5, osa_flags = 0, osa_restorer = 0\<rparr>\<rparr>, w)" 10 100 200
      "Some \<lparr>sa_handler = 9, sa_flags = 0, sa_restorer = 0, sa_mask = [1, 2]\<rparr>" "\<lparr>errno32 = 3, calls32 = [], world32 = ()\<rparr>"
      _ _ zero_action]
  by (auto simp: Let_def)

end
