(* ===== verification/Parent_Regs.thy ===== *)
theory Parent_Regs
  imports Proc_Info Lister_Safety
begin

text \<open>
  The version of \<open>GetParentRegs\<close> (\<open>coredumper/elfcore.c\<close>) for builds without thread support. There the
  forked child attaches to its parent to read its registers, detaches again and forks once more; the
  process in the middle exits. \<open>Inl\<close> is the exit of the process, \<open>Inr\<close> the return value with what the
  pointers \<open>cpu\<close> and \<open>fp\<close> point to.
\<close>

definition attach_parent :: "'w kern \<Rightarrow> int \<Rightarrow> 'w st \<Rightarrow> bool \<times> 'w st" where
  "attach_parent K pid s =
     (case sys_ptrace K PTRACE_ATTACH pid 0 s of ((rc, _), s) \<Rightarrow>
      if rc = 0 then (case sys_waitpid K pid WALL s of ((rc, _), s) \<Rightarrow> (rc \<ge> 0, s)) else (False, s))"

definition read_parent ::
    "'w kern \<Rightarrow> arch \<Rightarrow> Frame \<Rightarrow> int \<Rightarrow> regs \<times> byte list \<Rightarrow> 'w st \<Rightarrow> (int \<times> regs \<times> byte list) \<times> 'w st" where
  "read_parent K a fr pid = (\<lambda>(cpu, fp) s.
     case sys_ptrace K PTRACE_GETREGS pid 0 s of ((rc, r), s) \<Rightarrow>
     if rc = 0 then
       (case SET_FRAME a fr (dec_regs a (scratch_bytes (8 * nregs a) r)) s of (cpu, s) \<Rightarrow>
        case sys_ptrace K PTRACE_GETFPREGS pid 0 s of ((rc, r), s) \<Rightarrow>
        if rc = 0 then ((1, cpu, scratch_bytes (sizeof_fpregs a) r), s) else ((0, cpu, fp), s))
     else ((0, cpu, fp), s))"

definition GetParentRegs_single ::
    "'w kern \<Rightarrow> arch \<Rightarrow> Frame \<Rightarrow> regs \<times> byte list \<Rightarrow> 'w st \<Rightarrow> (int + int \<times> regs \<times> byte list) \<times> 'w st" where
  "GetParentRegs_single K a fr cf s =
     (let ((pid, _), s) = sys_int K NR_getppid s;
          (attached, s) = attach_parent K pid s;
          (res, s) = (if attached then read_parent K a fr pid cf s else ((0, cf), s));
          (_, s) = sys_ptrace_detach K pid s;
          ((child, _), s) = sys_int K NR_fork s
      in if child = -1 then (Inr (0, snd res), s)
         else if child = 0 then (Inr res, s)
         else (Inl 0, sys_exit K 0 s))"

text \<open>The parent is detached on every path, and no other process is touched.\<close>

lemma traced_attach_parent: "attach_parent K pid s = (b, s') \<Longrightarrow> traced (calls s') \<subseteq> insert pid (traced (calls s))"
  by (auto simp: attach_parent_def sys_ptrace_def sys_waitpid_def split: prod.splits if_splits
      dest!: traced_sys_long quiet_sys_int)

lemma traced_read_parent: "read_parent K a fr pid cf s = (x, s') \<Longrightarrow> traced (calls s') = traced (calls s)"
proof -
  assume run: "read_parent K a fr pid cf s = (x, s')"
  have q: "traced (calls t') = traced (calls t)" if "sys_ptrace K req pid 0 t = (y, t')" "req = PTRACE_GETREGS \<or> req = PTRACE_GETFPREGS" for req t t' y
    using that by (auto simp: sys_ptrace_def quiet_ptrace dest: quiet_sys_long)
  obtain rc1 r1 s1 where 1: "sys_ptrace K PTRACE_GETREGS pid 0 s = ((rc1, r1), s1)" by (metis surj_pair)
  obtain cpu s2 where 2: "SET_FRAME a fr (dec_regs a (scratch_bytes (8 * nregs a) r1)) s1 = (cpu, s2)" by (metis surj_pair)
  obtain rc3 r3 s3 where 3: "sys_ptrace K PTRACE_GETFPREGS pid 0 s2 = ((rc3, r3), s3)" by (metis surj_pair)
  have "traced (calls s2) = traced (calls s1)" using 2 by (auto simp: SET_FRAME_def)
  then show ?thesis using run 1 2 3 q [OF 1] q [OF 3] by (cases cf) (auto simp: read_parent_def split: if_splits)
qed

lemma GetParentRegs_single_releases:
  assumes "GetParentRegs_single K a fr cf s = (x, s')" "traced (calls s) = {}"
  shows "traced (calls s') = {}"
proof -
  obtain pid r1 s1 where 1: "sys_int K NR_getppid s = ((pid, r1), s1)" by (metis surj_pair)
  obtain b s2 where 2: "attach_parent K pid s1 = (b, s2)" by (metis surj_pair)
  obtain y s3 where 3: "(if b then read_parent K a fr pid cf s2 else ((0, cf), s2)) = (y, s3)" by (metis surj_pair)
  obtain z s4 where 4: "sys_ptrace_detach K pid s3 = (z, s4)" by (metis surj_pair)
  obtain child r5 s5 where 5: "sys_int K NR_fork s4 = ((child, r5), s5)" by (metis surj_pair)
  have "traced (calls s2) \<subseteq> {pid}" using traced_attach_parent [OF 2] quiet_sys_int [OF 1] assms(2) by simp
  moreover have "traced (calls s3) = traced (calls s2)" using 3 traced_read_parent [of K a fr pid cf s2 y s3] by (auto split: if_splits)
  ultimately have "traced (calls s4) = {}" using traced_detach [of K pid s3] 4 by auto
  moreover have "traced (calls s5) = traced (calls s4)" using calls_sys_int [OF 5] by simp
  ultimately show ?thesis using assms(1) 1 2 3 4 5 by (auto simp: GetParentRegs_single_def split: if_splits)
qed

text \<open>When it returns 1, the registers are those the parent reported, with those of the snapshot put into them.\<close>

lemma GetParentRegs_single_result:
  assumes "GetParentRegs_single K a fr cf s = (Inr (rc, cpu, fp), s')"
  shows "rc = 0 \<or> rc = 1 \<and> length fp = sizeof_fpregs a \<and> (\<exists>r. cpu = set_frame_regs a fr (dec_regs a r))"
  using assms
  by (auto simp: GetParentRegs_single_def read_parent_def SET_FRAME_def scratch_bytes_def split: prod.splits if_splits)

end
