(* ===== verification/Kernel_Extension.thy ===== *)
theory Kernel_Extension
  imports Dump_Complete
begin

text \<open>
  Larger kernels: what the development asks of a kernel for the search for threads and for the files of a process still
  holds of a kernel that answers the calls of a snapshot as well.
\<close>

subsection \<open>Extensions\<close>

text \<open>
  A kernel that answers more calls than another, with a larger world: the calls in \<open>sp\<close> may be new, and then leave the
  first part of the world as it is.
\<close>

definition extends :: "('w \<times> 'x) kern \<Rightarrow> 'w kern \<Rightarrow> (syscall \<Rightarrow> bool) \<Rightarrow> bool" where
  "extends K' K sp \<longleftrightarrow> (\<forall>c w r w'. K' c w = (r, w') \<longrightarrow> sp c \<and> fst w' = fst w \<or> K c (fst w) = (r, fst w'))"

definition lift_view :: "'w view \<Rightarrow> ('w \<times> 'x) view" where
  "lift_view v = \<lparr>live = live v \<circ> fst, attached = attached v \<circ> fst, stopped = stopped v \<circ> fst, pend = pend v \<circ> fst, passes = passes v \<circ> fst,
     in_task = in_task v \<circ> fst, exit_code = exit_code v \<circ> fst, self_pid = self_pid v, parent_pid = parent_pid v, caller_pid = caller_pid v,
     mark_fd = mark_fd v, mark_ino = mark_ino v, dir_fd = dir_fd v, all_pids = all_pids v\<rparr>"

lemma lift_view_simps [simp]:
  "live (lift_view v) w = live v (fst w)" "attached (lift_view v) w = attached v (fst w)" "stopped (lift_view v) w = stopped v (fst w)"
  "pend (lift_view v) w = pend v (fst w)" "passes (lift_view v) w = passes v (fst w)" "in_task (lift_view v) w = in_task v (fst w)"
  "exit_code (lift_view v) w = exit_code v (fst w)" "self_pid (lift_view v) = self_pid v" "parent_pid (lift_view v) = parent_pid v"
  "caller_pid (lift_view v) = caller_pid v" "mark_fd (lift_view v) = mark_fd v" "mark_ino (lift_view v) = mark_ino v"
  "dir_fd (lift_view v) = dir_fd v" "all_pids (lift_view v) = all_pids v" "shown (lift_view v) w = shown v (fst w)" 
  by (simp_all add: lift_view_def shown_def)

text \<open>The calls that are new in a snapshot.\<close>

fun snapshot_call :: "syscall \<Rightarrow> bool" where
  "snapshot_call NR_fork = True"
| "snapshot_call NR_pipe = True"
| "snapshot_call (NR_socketpair d t p) = True"
| "snapshot_call (NR_recvmsg f n) = True"
| "snapshot_call _ = False"

lemma extends_old:
  assumes "extends K' K snapshot_call" "K' c w = (r, w')" "\<not> snapshot_call c"
  shows "K c (fst w) = (r, fst w')"
  using assms(1) [unfolded extends_def, THEN spec, THEN spec, THEN spec, THEN spec, THEN mp, OF assms(2)] assms(3) by simp

lemma extends_new:
  assumes "extends K' K snapshot_call" "K' c w = (r, w')" "snapshot_call c"
  shows "fst w' = fst w \<or> K c (fst w) = (r, fst w')"
  using assms(1) [unfolded extends_def, THEN spec, THEN spec, THEN spec, THEN spec, THEN mp, OF assms(2)] assms(3) by simp

lemma extends_call:
  assumes "extends K' K snapshot_call"
  shows "K' (NR_ptrace req p a) w = (r, w') \<Longrightarrow> K (NR_ptrace req p a) (fst w) = (r, fst w')"
    "K' (NR_wait4 p opts) w = (r, w') \<Longrightarrow> K (NR_wait4 p opts) (fst w) = (r, fst w')"
    "K' (NR_peekdata p a i) w = (r, w') \<Longrightarrow> K (NR_peekdata p a i) (fst w) = (r, fst w')"
    "K' (NR_stat path) w = (r, w') \<Longrightarrow> K (NR_stat path) (fst w) = (r, fst w')"
    "K' (NR_open path fl md) w = (r, w') \<Longrightarrow> K (NR_open path fl md) (fst w) = (r, fst w')"
    "K' (NR_fstat f) w = (r, w') \<Longrightarrow> K (NR_fstat f) (fst w) = (r, fst w')"
    "K' (NR_lseek f off wh) w = (r, w') \<Longrightarrow> K (NR_lseek f off wh) (fst w) = (r, fst w')"
    "K' (NR_getdents f n) w = (r, w') \<Longrightarrow> K (NR_getdents f n) (fst w) = (r, fst w')"
    "K' (NR_exit code) w = (r, w') \<Longrightarrow> K (NR_exit code) (fst w) = (r, fst w')"
    "K' (NR_read f n) w = (r, w') \<Longrightarrow> K (NR_read f n) (fst w) = (r, fst w')"
    "K' (NR_write f b) w = (r, w') \<Longrightarrow> K (NR_write f b) (fst w) = (r, fst w')"
    "K' (NR_sendmsg f bs d) w = (r, w') \<Longrightarrow> K (NR_sendmsg f bs d) (fst w) = (r, fst w')"
    "K' (NR_shutdown f how) w = (r, w') \<Longrightarrow> K (NR_shutdown f how) (fst w) = (r, fst w')"
  by (erule extends_old [OF assms]; simp)+

lemma extends_fst: "extends K' K snapshot_call \<Longrightarrow> \<not> snapshot_call c \<Longrightarrow> fst (K' c w) = fst (K c (fst w))"
  using extends_old [of K' K c w "fst (K' c w)" "snd (K' c w)"] by simp

lemma extends_calm:
  assumes "extends K' K snapshot_call" "calm K q"
    and "\<And>c w r w'. K' c w = (r, w') \<Longrightarrow> snapshot_call c \<Longrightarrow> - 4 < sint (kret r) \<and> sint (kret r) < 2 ^ 31"
  shows "calm K' (q \<circ> fst)"
  unfolding calm_def intr_bounded_def
proof (intro conjI allI impI)
  fix c w r w'
  assume K: "K' c w = (r, w')"
  { assume e: "sint (kret r) = - EINTR"
    then have "\<not> snapshot_call c" using assms(3) [OF K] by auto
    then show "(q \<circ> fst) w' < (q \<circ> fst) w" using assms(2) extends_old [OF assms(1) K] e unfolding calm_def intr_bounded_def by auto }
  show "(q \<circ> fst) w' \<le> (q \<circ> fst) w"
    using assms(2) extends_old [OF assms(1) K] extends_new [OF assms(1) K] unfolding calm_def by (cases "snapshot_call c") fastforce+
  assume i: "int_call c"
  have "- 4095 \<le> sint (kret r) \<and> sint (kret r) < 2 ^ 31"
  proof (cases "snapshot_call c")
    case True
    then show ?thesis using assms(3) [OF K] by simp
  next
    case False
    then show ?thesis using assms(2) extends_old [OF assms(1) K] i unfolding calm_def by blast
  qed
  then show "- 4095 \<le> sint (kret r)" "sint (kret r) < 2 ^ 31" by simp_all
qed

lemma snapshot_call_inert: "snapshot_call c \<Longrightarrow> \<not> moves_dir c" "snapshot_call c \<Longrightarrow> \<not> releases p c" "snapshot_call c \<Longrightarrow> trace_step (c, r) T = T"
  by (cases c; simp)+

lemma extends_threads:
  assumes "extends K' K snapshot_call" "threads_ok K v"
  shows "threads_ok K' (lift_view v)"
  unfolding threads_ok_def
proof (intro allI impI)
  fix c w r w'
  assume K: "K' c w = (r, w')"
  show "live (lift_view v) w \<subseteq> live (lift_view v) w' \<and>
      (live (lift_view v) w \<subseteq> insert (caller_pid (lift_view v)) (stopped (lift_view v) w) \<longrightarrow> live (lift_view v) w' = live (lift_view v) w) \<and>
      attached (lift_view v) w' = trace_step (c, r) (attached (lift_view v) w) \<and>
      (\<forall>p\<in>stopped (lift_view v) w. releases p c \<or> p \<in> stopped (lift_view v) w') \<and>
      (moves_dir c \<or> pend (lift_view v) w' = pend (lift_view v) w \<and> in_task (lift_view v) w' = in_task (lift_view v) w \<and> passes (lift_view v) w' = passes (lift_view v) w)"
  proof (cases "K c (fst w) = (r, fst w')")
    case True
    from assms(2) [unfolded threads_ok_def, rule_format, OF True] show ?thesis unfolding lift_view_simps .
  next
    case False
    then have "snapshot_call c" "fst w' = fst w" using extends_old [OF assms(1) K] extends_new [OF assms(1) K] by blast+
    then show ?thesis by (simp add: snapshot_call_inert)
  qed
qed

lemma extends_thread_calls:
  assumes "extends K' K snapshot_call"
  shows "thread_calls_ok K v \<Longrightarrow> thread_calls_ok K' (lift_view v)" "regs_readable K v \<Longrightarrow> regs_readable K' (lift_view v)"
    "detach_fails K v \<Longrightarrow> detach_fails K' (lift_view v)"
proof -
  note K = extends_call [OF assms]
  show "regs_readable K' (lift_view v)" if "regs_readable K v"
    using K(1) that [unfolded regs_readable_def, rule_format] unfolding regs_readable_def lift_view_simps by blast
  show "detach_fails K' (lift_view v)" if "detach_fails K v"
    using K(1) that [unfolded detach_fails_def, rule_format] unfolding detach_fails_def lift_view_simps by blast
  assume "thread_calls_ok K v"
  then have t: "can_attach K v" "can_wait K v" "can_peek K v" "has_marker K v" by (simp_all add: thread_calls_ok_def)
  have "can_attach K' (lift_view v)" unfolding can_attach_def lift_view_simps
    by (intro allI impI) (rule t(1) [unfolded can_attach_def, rule_format, OF K(1)])
  moreover have "can_wait K' (lift_view v)" unfolding can_wait_def lift_view_simps
    by (intro allI impI) (rule t(2) [unfolded can_wait_def, THEN spec, THEN spec, THEN spec, THEN spec, THEN mp, THEN mp, OF K(2)])
  moreover have "can_peek K' (lift_view v)" unfolding can_peek_def lift_view_simps
    by (intro allI impI) (rule t(3) [unfolded can_peek_def, rule_format, OF K(3)])
  moreover have "has_marker K' (lift_view v)" unfolding has_marker_def lift_view_simps
    by (intro allI impI) (rule t(4) [unfolded has_marker_def, THEN spec, THEN spec, THEN spec, THEN spec, THEN mp, OF K(4)])
  ultimately show "thread_calls_ok K' (lift_view v)" by (simp add: thread_calls_ok_def)
qed

lemma extends_listing:
  assumes "extends K' K snapshot_call" "listing_ok K v"
  shows "listing_ok K' (lift_view v)"
proof -
  note K = extends_call [OF assms(1)] and l = assms(2) [unfolded listing_ok_def]
  note opens = l [THEN conjunct2, THEN conjunct1, rule_format] and stats = l [THEN conjunct2, THEN conjunct2, THEN conjunct1, rule_format]
    and seeks = l [THEN conjunct2, THEN conjunct2, THEN conjunct2, THEN conjunct1, rule_format]
    and lists = l [THEN conjunct2, THEN conjunct2, THEN conjunct2, THEN conjunct2, rule_format]
  show ?thesis
    unfolding listing_ok_def lift_view_simps
    by (intro conjI l [THEN conjunct1]; intro allI impI; rule opens [OF K(5)] stats [OF K(6)] seeks [OF K(7)] lists [OF K(8)]; assumption)
qed

lemma extends_kernel:
  assumes "extends K' K snapshot_call" "threads_kernel K q v"
    and "\<And>c w r w'. K' c w = (r, w') \<Longrightarrow> snapshot_call c \<Longrightarrow> - 4 < sint (kret r) \<and> sint (kret r) < 2 ^ 31"
  shows "threads_kernel K' (q \<circ> fst) (lift_view v)"
proof -
  have "prologue_ok K' (lift_view v)" using assms(2) by (simp add: threads_kernel_def prologue_ok_def extends_fst [OF assms(1)])
  moreover have "caller_ok K' (lift_view v)"
  proof -
    note o = assms(2) [unfolded threads_kernel_def caller_ok_def, THEN conjunct2, THEN conjunct2] and K = extends_call [OF assms(1)]
    note e = o [THEN conjunct2, THEN conjunct2, THEN conjunct1, rule_format, OF K(9)]
      and wt = o [THEN conjunct2, THEN conjunct2, THEN conjunct2, rule_format, OF K(2)]
    show ?thesis unfolding caller_ok_def lift_view_simps
      using o by (intro conjI; intro allI impI) (simp_all add: extends_fst [OF assms(1)] e wt)
  qed
  moreover have "pids_ok (lift_view v)" using assms(2) by (simp add: threads_kernel_def search_ok_def pids_ok_def)
  ultimately show ?thesis
    using assms extends_calm extends_threads extends_thread_calls(1) extends_listing unfolding threads_kernel_def search_ok_def by blast
qed

lemma extends_files:
  assumes e: "extends K' K snapshot_call" and p: "process_files K q m readable f out fp frest content lb pipe P" and c: "calm K' (q \<circ> fst)"
  shows "process_files K' (q \<circ> fst) m readable f (out \<circ> fst) fp (frest \<circ> fst) content lb (pipe \<circ> fst) P"
proof -
  note K = extends_call [OF e]
  have k: "sink_ok K m f out frest" "output_only K f out" "proc_ok K fp frest content" "smaps_ok K m readable lb P pipe frest fp" "pipe_only K lb pipe"
    using p by (simp_all add: process_files_def)
  have w: "write_ok K' m f (out \<circ> fst)"
    unfolding write_ok_def comp_def using k(1) [unfolded sink_ok_def write_ok_def, THEN conjunct1, rule_format, OF K(11)] by blast
  have "sink_ok K' m f (out \<circ> fst) (frest \<circ> fst)"
    using w k(1) [unfolded sink_ok_def, THEN conjunct2, rule_format, OF K(11)] unfolding sink_ok_def comp_def by blast
  moreover have "output_only K' f (out \<circ> fst)"
    unfolding output_only_def comp_def
  proof (intro allI impI)
    fix c w r w'
    assume K': "K' c w = (r, w')" and c: "\<forall>b. c \<noteq> NR_write f b"
    show "out (fst w') = out (fst w)"
      using extends_old [OF e K'] extends_new [OF e K'] k(2) [unfolded output_only_def] c by metis
  qed
  moreover have r: "read_ok K' fp (frest \<circ> fst)"
    using k(3) [unfolded proc_ok_def, THEN conjunct2, THEN conjunct1, unfolded read_ok_def, rule_format, OF _ K(10)] unfolding read_ok_def comp_def by blast
  moreover have "proc_ok K' fp (frest \<circ> fst) content"
    using r k(3) [unfolded proc_ok_def, THEN conjunct1] k(3) [unfolded proc_ok_def, THEN conjunct2, THEN conjunct2, THEN conjunct1, rule_format, OF K(5)]
      k(3) [unfolded proc_ok_def, THEN conjunct2, THEN conjunct2, THEN conjunct2, rule_format, OF K(10)] unfolding proc_ok_def comp_def by blast
  moreover have "smaps_ok K' m readable lb P (pipe \<circ> fst) (frest \<circ> fst) fp"
  proof -
    have l: "loopback_ok K m readable lb P pipe frest" and rk: "read_keeps K fp pipe" using k(4) by (simp_all add: smaps_ok_def)
    note wr = l [unfolded loopback_ok_def, THEN conjunct1, THEN spec, THEN spec, THEN spec, THEN spec, THEN mp, THEN mp, OF _ K(11)]
      and rd = l [unfolded loopback_ok_def, THEN conjunct2, THEN spec, THEN spec, THEN spec, THEN mp, THEN mp, OF _ K(10)]
    have "loopback_ok K' m readable lb P (pipe \<circ> fst) (frest \<circ> fst)"
      unfolding loopback_ok_def comp_def by (intro conjI; intro allI impI; rule wr rd; assumption)
    moreover have "read_keeps K' fp (pipe \<circ> fst)"
      unfolding read_keeps_def comp_def by (intro allI impI) (rule rk [unfolded read_keeps_def, rule_format, OF K(10)])
    ultimately show ?thesis using r by (simp add: smaps_ok_def)
  qed
  moreover have "pipe_only K' lb (pipe \<circ> fst)"
    unfolding pipe_only_def comp_def
  proof (intro allI impI)
    fix c w r w'
    assume c: "\<not> touches_pipe lb c" and K': "K' c w = (r, w')"
    show "pipe (fst w') = pipe (fst w)"
      using extends_old [OF e K'] extends_new [OF e K'] k(5) [unfolded pipe_only_def, rule_format, OF c] by metis
  qed
  ultimately show ?thesis using p c by (simp add: process_files_def)
qed

end
