(* ===== verification/Snapshot.thy ===== *)
theory Snapshot
  imports Kernel_Extension
begin

text \<open>
  A dump through a pipe: \<open>GetCoreDump\<close> on a kernel that shows a process. Its two sides are the child that
  \<open>fork\<close> makes, which sends the read end of a pipe over a socket and writes the core file into the pipe, and the
  parent, which returns the descriptor it receives and releases the threads.
\<close>

subsection \<open>Calls\<close>

definition makes_socket :: "'w kern \<Rightarrow> int \<Rightarrow> int \<Rightarrow> bool" where
  "makes_socket K x y \<longleftrightarrow> (\<forall>w r w'. K (NR_socketpair 1 1 0) w = (r, w') \<longrightarrow> kret r = 0 \<and> kints r = [x, y])"

text \<open>The first pipe of the process is \<open>(g, f)\<close>; \<open>used\<close> says that it has been made.\<close>

definition first_pipe :: "'w kern \<Rightarrow> ('w \<Rightarrow> bool) \<Rightarrow> int \<Rightarrow> int \<Rightarrow> bool" where
  "first_pipe K used g f \<longleftrightarrow> 0 \<le> g \<and>
     (\<forall>w r w'. K NR_pipe w = (r, w') \<longrightarrow> \<not> used w \<longrightarrow> kret r = 0 \<and> kints r = [g, f] \<and> used w') \<and>
     (\<forall>c w r w'. K c w = (r, w') \<longrightarrow> c \<noteq> NR_pipe \<longrightarrow> used w' = used w)"

definition sends_ok :: "'w kern \<Rightarrow> int \<Rightarrow> bool" where
  "sends_ok K y \<longleftrightarrow>
     (\<forall>b d w r w'. K (NR_sendmsg y b d) w = (r, w') \<longrightarrow> sint (kret r) = - EINTR \<or> 0 \<le> sint (kret r)) \<and>
     (\<forall>w r w'. K (NR_shutdown y 2) w = (r, w') \<longrightarrow> sint (kret r) = - EINTR \<or> 0 \<le> sint (kret r))"

lemma used_observer:
  assumes "first_pipe K used g f"
  shows "input_observer K (\<lambda>c. c \<noteq> NR_pipe) (\<lambda>s. used (world s))"
  using assms unfolding first_pipe_def
  by unfold_locales (auto simp: lss_syscall_def split: prod.splits)

text \<open>The messages that were sent, with the kernel's answers.\<close>

abbreviation (input) messages :: "'w st \<Rightarrow> (syscall \<times> kreply) list" where
  "messages s \<equiv> filter (\<lambda>(c, _). \<exists>y b d. c = NR_sendmsg y b d) (calls s)"

lemma messages_observer: "writing_observer K (\<lambda>c. \<forall>y b d. c \<noteq> NR_sendmsg y b d) (\<lambda>s. messages s)"
  by unfold_locales (auto simp: lss_syscall_def split: prod.splits)

lemma NO_INTR_answered:
  assumes "calm K q" "int_call c" "\<And>w r w'. K c w = (r, w') \<Longrightarrow> sint (kret r) = - EINTR \<or> 0 \<le> sint (kret r)"
  shows "\<exists>rc r s'. NO_INTR (sys_int K c) s = Some ((rc, r), s') \<and> 0 \<le> rc \<and> rc = sint (kret r)"
  using NO_INTR_call [OF calm_bounded [OF assms(1)] plain_int [OF assms(1,2)], of "\<lambda>_. True" s] assms(3) by force

lemma NO_INTR_logged:
  assumes "NO_INTR (sys_int K c) s = Some ((rc, r), s')"
  shows "(c, r) \<in> set (calls s')"
proof -
  have "\<exists>s0. True \<and> sys_int K c s0 = ((rc, r), s') \<and> \<not> (\<lambda>(rc, _) s. rc < 0 \<and> errno s = EINTR) (rc, r) s'"
    by (rule no_intr_result [OF assms [unfolded NO_INTR_def], where P = "\<lambda>_. True"]) auto
  then show ?thesis by (auto simp: sys_int_def lss_syscall_def split: prod.splits if_splits)
qed

lemma close_rest_returns:
  assumes "calm K q"
  shows "\<exists>s'. close_others (sys_close_all K) keep fs s = Some s'"
proof (induction fs arbitrary: s)
  case (Cons f fs)
  obtain x t where "NO_INTR (sys_close K f) s = Some (x, t)" using close_any [OF assms] by blast
  with Cons show ?case by (cases "f = keep") (auto simp: sys_close_all_def no_close_def)
qed simp

subsection \<open>The child\<close>

lemma new_pipe_first:
  assumes "first_pipe K used g f" "\<not> used (world s)"
  shows "\<exists>s'. new_pipe K s = (Some (g, f), s') \<and> used (world s')"
proof -
  obtain rc r s' where 1: "sys_pipe K s = ((rc, r), s')" by (metis surj_pair)
  then have "K NR_pipe (world s) = (r, world s')" by (auto simp: sys_pipe_def sys_defs split: prod.splits)
  then have r: "kret r = 0" "kints r = [g, f]" "used (world s')" using assms unfolding first_pipe_def by blast+
  have "rc = 0" using 1 r(1) by (auto simp: sys_pipe_def sys_defs LSS_RETURN_int_def split: prod.splits)
  then show ?thesis using 1 r by (simp add: new_pipe_def)
qed

lemma close_others_keep:
  assumes "\<And>s i s'. cl s i = Some s' \<Longrightarrow> obs s' = obs s" "close_others cl kept fs s = Some s'"
  shows "obs s' = obs s"
  using assms(2) by (induction fs arbitrary: s) (fastforce split: if_splits bind_splits dest: assms(1))+

lemma snapshot_child_complete:
  assumes p: "process_files K q (de_memory env) readable f out fp frest content lb pipe (2 ^ k)"
    and k: "k < 64" "de_pagesize env = 2 ^ k" and pr: "shows_process content (2 ^ k) segs av"
    and fp: "first_pipe K used g f" "\<And>w. used w \<Longrightarrow> pipe_next K lb pipe w" and sn: "sends_ok K (snd pair)" and start: "\<not> used (world s)"
  shows "\<exists>s'. snapshot_child K env params fr d pair 0 s = Some (0, s') \<and>
    out (world s') = out (world s) @ dump_image env readable segs av (dump_args env params fr d 0) \<and>
    (\<exists>r. (NR_sendmsg (snd pair) (le64 0) g, r) \<in> set (calls s') \<and> 0 \<le> sint (kret r))"
proof -
  have c: "calm K q" "sink_ok K (de_memory env) f out frest" "output_only K f out" "proc_ok K fp frest content"
     "smaps_ok K (de_memory env) readable lb (2 ^ k) pipe frest fp" "pipe_only K lb pipe" "0 \<le> fst lb" "0 \<le> snd lb" "snd lb \<noteq> f"
    using p by (simp_all add: process_files_def)
  let ?obs = "\<lambda>s. (out (world s), used (world s), messages s)" and ?al = "\<lambda>c. c \<noteq> NR_pipe \<and> (\<forall>b. c \<noteq> NR_write f b) \<and> (\<forall>y b d. c \<noteq> NR_sendmsg y b d)"
  have ob: "observer K ?al ?obs"
    using c(3) fp(1) unfolding output_only_def first_pipe_def by unfold_locales (auto simp: lss_syscall_def split: prod.splits)
  have cl: "?obs t' = ?obs t" if "sys_close_all K t i = Some t'" for t i t'
    using that observer.obs_NO_INTR(1) [OF ob, of "NR_close i" t] by (auto simp: sys_close_all_def no_close_def sys_close_def split: bind_splits)
  obtain s1 where 1: "new_pipe K s = (Some (g, f), s1)" "used (world s1)" using new_pipe_first [OF fp(1) start] by blast
  have o1: "out (world s1) = out (world s)"
    using 1(1) observer.obs_sys_int [OF io_observer.axioms(1) [OF out_observer [OF c(3)]], of NR_pipe s]
    by (auto simp: new_pipe_def sys_pipe_def split: prod.splits)
  have g: "0 \<le> g" using fp(1) by (simp add: first_pipe_def)
  obtain rc2 r2 s2 where 2: "NO_INTR (sys_int K (NR_sendmsg (snd pair) (le64 0) g)) s1 = Some ((rc2, r2), s2)" "0 \<le> rc2" "rc2 = sint (kret r2)"
    using NO_INTR_answered [OF c(1), of "NR_sendmsg (snd pair) (le64 0) g" s1] sn unfolding sends_ok_def by fastforce
  obtain rc3 r3 s3 where 3: "NO_INTR (sys_int K (NR_shutdown (snd pair) 2)) s2 = Some ((rc3, r3), s3)" "0 \<le> rc3"
    using NO_INTR_answered [OF c(1), of "NR_shutdown (snd pair) 2" s2] sn unfolding sends_ok_def by fastforce
  obtain s4 where 4: "close_others (sys_close_all K) f (map int [0..<de_openmax env]) s3 = Some s4"
    using close_rest_returns [OF c(1)] by blast
  have "?obs s4 = ?obs s3" by (rule close_others_keep [OF cl 4])
  then have e: "out (world s4) = out (world s2)" "used (world s4) = used (world s2)" "messages s4 = messages s2"
    using observer.obs_NO_INTR(1) [OF ob 3(1)] by simp_all
  have u4: "used (world s4)" and o4: "out (world s4) = out (world s)"
    using e(1,2) input_observer.obs_any(3) [OF used_observer [OF fp(1)] 2(1)] input_observer.obs_any(3) [OF out_input_observer [OF c(3)] 2(1)] 1(2) o1
    by simp_all
  have pg: "c_pagesize (dump_args env params fr d 0) = 2 ^ k" using k(2) by (simp add: dump_args_def)
  obtain h5 s5 where 5: "CreateElfCore K (SimpleWriter K) SimpleDone (de_arch env) (de_memory env) (dump_args env params fr d 0) (f, s4) = Some (0, h5, s5)"
     "out (world s5) = out (world s4) @ dump_image env readable segs av (dump_args env params fr d 0)"
    using CreateElfCore_process [OF simple_full.full_writer_axioms [where K = K and q = q] unit_observer c(1,4,3,7,8,9,5,6) k(1) pg pr fp(2) [OF u4], where h = f]
      c(2) calm_bounded [OF c(1)] by blast
  obtain x6 s6 where 6: "NO_INTR (sys_close K f) s5 = Some (x6, s6)" using close_any [OF c(1)] by blast
  have e6: "?obs (sys_exit K 0 s6) = ?obs s5"
    using observer.obs_NO_INTR(1) [OF ob 6 [unfolded sys_close_def]] observer.obs_snd_sys_int [OF ob, of "NR_exit 0" s6]
    by (simp add: sys_exit_def)
  have m5: "messages s5 = messages s4"
    by (rule writing_observer.obs_CreateElfCore [OF messages_observer 5(1) writing_observer.unseen_writers(1) [OF messages_observer]])
  have "(NR_sendmsg (snd pair) (le64 0) g, r2) \<in> set (messages s2)" using NO_INTR_logged [OF 2(1)] by simp
  moreover have "messages (sys_exit K 0 s6) = messages s2" using e(3) e6 m5 by simp
  ultimately have "(NR_sendmsg (snd pair) (le64 0) g, r2) \<in> set (messages (sys_exit K 0 s6))" by simp
  then have "(NR_sendmsg (snd pair) (le64 0) g, r2) \<in> set (calls (sys_exit K 0 s6))" by simp
  moreover have "snapshot_child K env params fr d pair 0 s = Some (0, sys_exit K 0 s6)"
    using 1(1) 2 3 4 5(1) 6 g by (simp add: snapshot_child_def CreatePipeline_def GetParentRegs_def no_close_def)
  ultimately show ?thesis using 2(2,3) 5(2) e6 o4 by auto
qed

text \<open>What the child relies on, and the threads before it.\<close>

definition child_kernel ::
    "'w kern \<Rightarrow> ('w \<Rightarrow> nat) \<Rightarrow> 'w view \<Rightarrow> 'w dump_env \<Rightarrow> int \<times> int \<Rightarrow> ('w \<Rightarrow> bool) \<Rightarrow> int \<times> int \<Rightarrow> ('w \<Rightarrow> byte list) \<Rightarrow> (u64 \<Rightarrow> bool) \<Rightarrow>
     smaps_segment list \<Rightarrow> auxv_t list \<Rightarrow> bool" where
  "child_kernel K q v env pair used fds out readable segs av \<longleftrightarrow> threads_kernel K q v \<and> regs_readable K v \<and> detach_fails K v \<and>
     makes_socket K (fst pair) (snd pair) \<and> (\<forall>w r w'. K NR_fork w = (r, w') \<longrightarrow> kret r = 0) \<and> sends_ok K (snd pair) \<and>
     first_pipe K used (fst fds) (snd fds) \<and>
     (\<exists>fp frest content lb pipe k. k < 64 \<and> de_pagesize env = 2 ^ k \<and> shows_process content (2 ^ k) segs av \<and>
        process_files K q (de_memory env) readable (snd fds) out fp frest content lb pipe (2 ^ k) \<and>
        (\<forall>w. used w \<longrightarrow> pipe_next K lb pipe w))"

lemma zero_result: "sys_int K c s = ((rc, r), s') \<Longrightarrow> kret r = 0 \<Longrightarrow> rc = 0"
  by (auto simp: sys_int_def lss_syscall_def LSS_RETURN_int_def split: prod.splits)

lemma get_snapshot_child:
  assumes k: "child_kernel K q v env pair used fds out readable segs av" and start: "\<not> used (world s)"
    and params: "GetCoreDumpParameter F_compressors cp_compressors params = 0"
  shows "\<exists>s'. get_snapshot K env params fr d selp sel s = Some (Inl 0, s') \<and>
    out (world s') = out (world s) @ dump_image env readable segs av (dump_args env params fr d 0) \<and>
    (\<exists>r. (NR_sendmsg (snd pair) (le64 0) (fst fds), r) \<in> set (calls s') \<and> 0 \<le> sint (kret r))"
proof -
  obtain fp frest content lb pipe k where p: "process_files K q (de_memory env) readable (snd fds) out fp frest content lb pipe (2 ^ k)"
    "k < 64" "de_pagesize env = 2 ^ k" "shows_process content (2 ^ k) segs av" "\<And>w. used w \<Longrightarrow> pipe_next K lb pipe w"
    and t: "makes_socket K (fst pair) (snd pair)" "\<And>w r w'. K NR_fork w = (r, w') \<Longrightarrow> kret r = 0" "sends_ok K (snd pair)" "first_pipe K used (fst fds) (snd fds)"
    using k unfolding child_kernel_def by blast
  have oo: "output_only K (snd fds) out" using p(1) by (simp add: process_files_def)
  note out = input_observer.obs_any(1) [OF out_input_observer [OF oo]] and usd = input_observer.obs_any(1) [OF used_observer [OF t(4)]]
  obtain rc1 r1 s1 where 1: "sys_int K (NR_socketpair 1 1 0) s = ((rc1, r1), s1)" by (metis surj_pair)
  have r1: "kret r1 = 0" "kints r1 = [fst pair, snd pair]" using t(1) sys_world(1) [OF 1] unfolding makes_socket_def by blast+
  obtain x2 r2 s2 where 2: "sys_int K (NR_rt_sigprocmask SIG_BLOCK (Some (sys_sigfillset \<lparr>sig = [0]\<rparr>)) 8) s1 = ((x2, r2), s2)" by (metis surj_pair)
  obtain rc3 r3 s3 where 3: "sys_int K NR_fork s2 = ((rc3, r3), s3)" by (metis surj_pair)
  have rc: "rc1 = 0" "rc3 = 0" using zero_result [OF 1 r1(1)] zero_result [OF 3 t(2) [OF sys_world(1) [OF 3]]] by simp_all
  have s3: "\<not> used (world s3)" "out (world s3) = out (world s)"
    using start usd [OF 1] usd [OF 2] usd [OF 3] out [OF 1] out [OF 2] out [OF 3] by simp_all
  from snapshot_child_complete [OF p(1-4) t(4) p(5), of pair s3 params fr d] t(3) s3
  obtain s' where "snapshot_child K env params fr d pair 0 s3 = Some (0, s')"
    "out (world s') = out (world s) @ dump_image env readable segs av (dump_args env params fr d 0)"
    "\<exists>r. (NR_sendmsg (snd pair) (le64 0) (fst fds), r) \<in> set (calls s') \<and> 0 \<le> sint (kret r)" by auto
  then show ?thesis using 1 2 3 rc r1(2) params by (simp add: get_snapshot_def)
qed

lemma InternalGetCoreDump_snapshot:
  assumes "user_callback env params s = Some (0, s)" "GetCoreDumpParameter F_selected_compressor cp_selected_compressor params = 0"
    "collect_info K env fr ps s = Some (Some d, t)" "get_snapshot K env params fr d 0 sel t = Some (res, u)"
  shows "InternalGetCoreDump K env params None sel fr ps s =
    Some (res, case res of Inl _ \<Rightarrow> u | Inr _ \<Rightarrow> snd (ResumeAllProcessThreads K ps u))"
  using assms by (simp add: InternalGetCoreDump_def split: sum.split)

subsection \<open>The core file in the pipe\<close>


subsection \<open>The descriptor in the parent\<close>

definition parent_kernel :: "'w kern \<Rightarrow> ('w \<Rightarrow> nat) \<Rightarrow> 'w view \<Rightarrow> int \<times> int \<Rightarrow> int \<Rightarrow> bool" where
  "parent_kernel K q v pair g \<longleftrightarrow> threads_kernel K q v \<and> regs_readable K v \<and> detach_fails K v \<and> makes_socket K (fst pair) (snd pair) \<and>
     (\<forall>w r w'. K NR_fork w = (r, w') \<longrightarrow> 0 < sint (kret r) \<and> sint (kret r) < 2 ^ 31) \<and>
     (\<forall>w r w'. K (NR_recvmsg (fst pair) 8) w = (r, w') \<longrightarrow> sint (kret r) = - EINTR \<or> 0 < sint (kret r) \<and> kints r = [g])"

lemma receive_pipe_complete:
  assumes "calm K q" "\<And>w r w'. K (NR_recvmsg x 8) w = (r, w') \<Longrightarrow> sint (kret r) = - EINTR \<or> 0 < sint (kret r) \<and> kints r = [g]"
  shows "\<exists>sel' s'. receive_pipe K x selp sel s = Some ((g, sel'), s')"
proof -
  obtain r s1 w where 1: "NO_INTR (sys_int K (NR_recvmsg x 8)) s = Some ((if sint (kret r) < 0 then -1 else sint (kret r), r), s1)"
      "K (NR_recvmsg x 8) w = (r, world s1)" "sint (kret r) \<noteq> - EINTR"
    using NO_INTR_call [OF calm_bounded [OF assms(1)] plain_int [OF assms(1)], of "NR_recvmsg x 8" "\<lambda>_. True" s] by auto
  then have r: "0 < sint (kret r)" "kints r = [g]" using assms(2) by blast+
  obtain x2 s2 where 2: "sys_int K (NR_shutdown x 2) s1 = (x2, s2)" by (metis surj_pair)
  obtain x3 s3 where "NO_INTR (sys_close K x) s2 = Some (x3, s3)" using close_any [OF assms(1)] by blast
  then show ?thesis using 1(1) 2 r by (simp add: receive_pipe_def no_close_def Let_def)
qed

lemma get_snapshot_parent:
  assumes "parent_kernel K q v pair g"
  shows "\<exists>sel' s'. get_snapshot K env params fr d selp sel s = Some (Inr (g, sel'), s')"
proof -
  have t: "makes_socket K (fst pair) (snd pair)" "\<And>w r w'. K NR_fork w = (r, w') \<Longrightarrow> 0 < sint (kret r) \<and> sint (kret r) < 2 ^ 31"
    "\<And>w r w'. K (NR_recvmsg (fst pair) 8) w = (r, w') \<Longrightarrow> sint (kret r) = - EINTR \<or> 0 < sint (kret r) \<and> kints r = [g]"
    and c: "calm K q" using assms unfolding parent_kernel_def threads_kernel_def search_ok_def by blast+
  obtain rc1 r1 s1 where 1: "sys_int K (NR_socketpair 1 1 0) s = ((rc1, r1), s1)" by (metis surj_pair)
  have r1: "kret r1 = 0" "kints r1 = [fst pair, snd pair]" using t(1) sys_world(1) [OF 1] unfolding makes_socket_def by blast+
  obtain x2 r2 s2 where 2: "sys_int K (NR_rt_sigprocmask SIG_BLOCK (Some (sys_sigfillset \<lparr>sig = [0]\<rparr>)) 8) s1 = ((x2, r2), s2)" by (metis surj_pair)
  obtain rc3 r3 s3 where 3: "sys_int K NR_fork s2 = ((rc3, r3), s3)" by (metis surj_pair)
  have "0 < sint (kret r3)" "sint (kret r3) < 2 ^ 31" using t(2) [OF sys_world(1) [OF 3]] by simp_all
  then have rc3: "rc3 \<noteq> 0" using 3 LSS_RETURN_int_small [of "kret r3"] by (auto simp: sys_int_def lss_syscall_def split: prod.splits)
  let ?old = "\<lparr>sig = [of_le64 (stored 8 (kbytes r2))]\<rparr>"
  obtain x4 s4 where 4: "sys_int K (NR_rt_sigprocmask SIG_SETMASK (Some ?old) 8) s3 = (x4, s4)" by (metis surj_pair)
  obtain x5 s5 where 5: "NO_INTR (sys_close K (snd pair)) s4 = Some (x5, s5)" using close_any [OF c] by blast
  obtain sel' s6 where "receive_pipe K (fst pair) selp sel s5 = Some ((g, sel'), s6)" using receive_pipe_complete [OF c, of "fst pair" g selp sel s5] t(3) by blast
  then show ?thesis using 1 2 3 4 5 zero_result [OF 1 r1(1)] r1(2) rc3 by (simp add: get_snapshot_def no_close_def)
qed


subsection \<open>A process that makes a snapshot\<close>

text \<open>The process of \<open>process_demo\<close>, with the calls of a snapshot; \<open>child\<close> says on which side of the \<open>fork\<close> it goes on.\<close>

definition snapshot_demo :: "bool \<Rightarrow> ((threads_world \<times> core_world) \<times> bool) kern" where
  "snapshot_demo child c w =
     (case c of
        NR_fork \<Rightarrow> (ret (if child then 0 else 77), w)
      | NR_socketpair d t p \<Rightarrow> (\<lparr>kret = 0, kbytes = [], kints = [20, 21]\<rparr>, w)
      | NR_recvmsg f n \<Rightarrow> (\<lparr>kret = 8, kbytes = le64 0, kints = [10]\<rparr>, w)
      | NR_pipe \<Rightarrow> if snd w then (case process_demo NR_pipe (fst w) of (r, x) \<Rightarrow> (r, x, True))
                   else (\<lparr>kret = 0, kbytes = [], kints = [10, 1]\<rparr>, fst w, True)
      | _ \<Rightarrow> (case process_demo c (fst w) of (r, x) \<Rightarrow> (r, x, snd w)))"

lemma snapshot_demo_extends: "extends (snapshot_demo child) process_demo snapshot_call"
  unfolding extends_def
proof (intro allI impI)
  fix c w r w'
  assume "snapshot_demo child c w = (r, w')"
  then show "snapshot_call c \<and> fst w' = fst w \<or> process_demo c (fst w) = (r, fst w')"
    by (cases c) (auto simp: snapshot_demo_def split: prod.splits if_splits)
qed

lemma snapshot_demo_replies:
  assumes "snapshot_demo child c w = (r, w')" "snapshot_call c"
  shows "- 4 < sint (kret r) \<and> sint (kret r) < 2 ^ 31"
  using assms by (cases c) (auto simp: snapshot_demo_def process_demo_def core_kernel_def split: prod.splits if_splits)

lemma snapshot_demo_threads:
  "threads_kernel (snapshot_demo child) ((\<lambda>_. 0) \<circ> fst) (lift_view process_view)"
  "regs_readable (snapshot_demo child) (lift_view process_view)" "detach_fails (snapshot_demo child) (lift_view process_view)"
proof -
  note e = snapshot_demo_extends [of child]
  show "threads_kernel (snapshot_demo child) ((\<lambda>_. 0) \<circ> fst) (lift_view process_view)"
    by (rule extends_kernel [OF e process_demo_kernel]) (rule snapshot_demo_replies)
  show "regs_readable (snapshot_demo child) (lift_view process_view)" "detach_fails (snapshot_demo child) (lift_view process_view)"
    using extends_thread_calls(2,3) [OF e] process_demo_calls(2,3) by blast+
qed

definition snapshot_env :: "((threads_world \<times> core_world) \<times> bool) dump_env" where
  "snapshot_env = \<lparr>de_arch = X86_64, de_memory = demo_memory, de_compressors = (\<lambda>_. end_entry),
     de_notes = (\<lambda>_. \<lparr>note_name = [], note_type = 0, description = []\<rparr>), de_callback = (\<lambda>_ _ _. None), de_openmax = 64,
     de_pagesize = 16, de_PATH = None\<rparr>"

definition snapshot_start :: "((threads_world \<times> core_world) \<times> bool) st" where
  "snapshot_start = \<lparr>errno = 0, calls = [], world = (world process_start, False)\<rparr>"

lemma snapshot_child_demo:
  "child_kernel (snapshot_demo True) ((\<lambda>_. 0) \<circ> fst) (lift_view process_view) snapshot_env (20, 21) snd (10, 1) ((cw_out \<circ> snd) \<circ> fst) (\<lambda>_. True)
     [demo_segment] demo_auxv"
proof -
  have f: "process_files (snapshot_demo True) ((\<lambda>_. 0) \<circ> fst) demo_memory (\<lambda>_. True) 1 ((cw_out \<circ> snd) \<circ> fst) 3 ((cw_rest \<circ> snd) \<circ> fst) demo_proc (4, 5)
      ((cw_pipe \<circ> snd) \<circ> fst) (2 ^ 4)"
    using process_demo_files snapshot_demo_threads(1) [of True]
    by (intro extends_files [OF snapshot_demo_extends]) (simp_all add: process_kernel_def threads_kernel_def search_ok_def)
  have fp: "first_pipe (snapshot_demo True) snd 10 1"
    unfolding first_pipe_def
  proof (intro conjI allI impI)
    fix c w r w'
    assume "snapshot_demo True c w = (r, w')" "c \<noteq> NR_pipe"
    then show "snd w' = snd w" by (cases c) (auto simp: snapshot_demo_def split: prod.splits)
  qed (auto simp: snapshot_demo_def)
  have so: "makes_socket (snapshot_demo True) 20 21" by (auto simp: makes_socket_def snapshot_demo_def)
  have sn: "sends_ok (snapshot_demo True) 21"
    by (auto simp: sends_ok_def snapshot_demo_def process_demo_def threads_demo_def split: prod.splits)
  have fk: "\<forall>w r w'. snapshot_demo True NR_fork w = (r, w') \<longrightarrow> kret r = 0" by (auto simp: snapshot_demo_def)
  have pf: "\<forall>w. snd w \<longrightarrow> pipe_next (snapshot_demo True) (4, 5) ((cw_pipe \<circ> snd) \<circ> fst) w"
    by (auto simp: pipe_next_def snapshot_demo_def process_demo_def core_kernel_def)
  have env: "de_pagesize snapshot_env = 2 ^ 4" "de_memory snapshot_env = demo_memory" "(4::nat) < 64" by (simp_all add: snapshot_env_def)
  show ?thesis
    unfolding child_kernel_def fst_conv snd_conv env(2)
    by (intro conjI snapshot_demo_threads so fk sn fp exI) (rule env(3) env(1) demo_shows_process f pf)+
qed

lemma snapshot_parent_demo: "parent_kernel (snapshot_demo False) ((\<lambda>_. 0) \<circ> fst) (lift_view process_view) (20, 21) 10"
proof -
  have "makes_socket (snapshot_demo False) 20 21" by (auto simp: makes_socket_def snapshot_demo_def)
  then show ?thesis using snapshot_demo_threads [of False] by (auto simp: parent_kernel_def snapshot_demo_def)
qed

lemma snapshot_start_simps:
  "attached (lift_view process_view) (world snapshot_start) = {}" "\<not> snd (world snapshot_start)" "cw_out (snd (fst (world snapshot_start))) = []"
  by (simp_all add: snapshot_start_def process_start_def threads_start_def core_state_out)



end
