(* ===== verification/Compressed_Dump.thy ===== *)
theory Compressed_Dump
  imports Dump_Complete
begin

text \<open>
  A compressed dump: \<open>PipeWriter\<close> feeds the compressor and copies what it returns to the file, \<open>FlushPipe\<close> copies
  the rest. The compressor is described by what can be seen of it through its two pipes.
\<close>

subsection \<open>A compressor\<close>

text \<open>
  \<open>z_in\<close> is what was written to the compressor, \<open>z_got\<close> what was read from it; \<open>z_room\<close> says that it takes at least one more
  byte, \<open>z_data\<close> that there is something to read, \<open>z_closed\<close> that its input has been closed and \<open>z_blocks\<close> that reads wait
  for data. \<open>z_file\<close> is what was written to the output file.
\<close>

record 'w zview =
  z_in     :: "'w \<Rightarrow> byte list"
  z_got    :: "'w \<Rightarrow> byte list"
  z_file   :: "'w \<Rightarrow> byte list"
  z_room   :: "'w \<Rightarrow> bool"
  z_data   :: "'w \<Rightarrow> bool"
  z_closed :: "'w \<Rightarrow> bool"
  z_blocks :: "'w \<Rightarrow> bool"

definition z_state :: "'w zview \<Rightarrow> 'w \<Rightarrow> byte list \<times> byte list \<times> byte list \<times> bool \<times> bool" where
  "z_state v w = (z_in v w, z_got v w, z_file v w, z_closed v w, z_blocks v w)"

text \<open>Its three ends: output \<open>cfd\<close>, input \<open>wfd\<close>, and the file \<open>ofd\<close>. Calls on other descriptors do not change its state.\<close>

fun z_call :: "int \<Rightarrow> int \<Rightarrow> int \<Rightarrow> syscall \<Rightarrow> bool" where
  "z_call cfd wfd ofd (NR_write g b) = (g \<in> {wfd, ofd})"
| "z_call cfd wfd ofd (NR_read g n) = (g = cfd)"
| "z_call cfd wfd ofd (NR_close g) = (g = wfd)"
| "z_call cfd wfd ofd (NR_fcntl g cmd x) = (g = cfd \<and> cmd = F_SETFL)"
| "z_call cfd wfd ofd _ = False"

text \<open>\<open>poll\<close> waits for one of the two events, and tells how many there are.\<close>

definition z_polls :: "'w kern \<Rightarrow> int \<Rightarrow> int \<Rightarrow> 'w zview \<Rightarrow> bool" where
  "z_polls K cfd wfd v \<longleftrightarrow> (\<forall>w r w'. K (NR_poll [(cfd, POLLIN), (wfd, POLLOUT)] (-1)) w = (r, w') \<longrightarrow>
     (\<exists>a b. (a \<or> b) \<and> kret r = of_bool a + of_bool b \<and> kints r = [if a then POLLIN else 0, if b then POLLOUT else 0] \<and>
        (a \<longrightarrow> z_data v w') \<and> (b \<longrightarrow> z_room v w')))"

definition z_writes :: "'w kern \<Rightarrow> memory \<Rightarrow> int \<Rightarrow> 'w zview \<Rightarrow> bool" where
  "z_writes K m wfd v \<longleftrightarrow> (\<forall>b w r w'. K (NR_write wfd b) w = (r, w') \<longrightarrow> - 4095 \<le> sint (kret r) \<and> (z_room v w \<longrightarrow> 0 < buf_len b \<longrightarrow>
     z_got v w' = z_got v w \<and> z_file v w' = z_file v w \<and> z_closed v w' = z_closed v w \<and> z_blocks v w' = z_blocks v w \<and>
     (sint (kret r) = - EINTR \<and> z_in v w' = z_in v w \<and> z_room v w' \<or>
      0 < sint (kret r) \<and> sint (kret r) \<le> int (buf_len b) \<and> z_in v w' = z_in v w @ take (nat (sint (kret r))) (buf_bytes m b))))"

text \<open>
  A read returns what the compressor has produced; nothing when there is nothing yet and reads do not wait; the end of
  the file when its input is closed and everything was read. Nothing is said of a read that would wait for data that does
  not come.
\<close>

definition z_reads :: "'w kern \<Rightarrow> int \<Rightarrow> 'w zview \<Rightarrow> (byte list \<Rightarrow> byte list) \<Rightarrow> bool" where
  "z_reads K cfd v press \<longleftrightarrow> (\<forall>n w r w'. K (NR_read cfd n) w = (r, w') \<longrightarrow> - 4095 \<le> sint (kret r) \<and>
     z_in v w' = z_in v w \<and> z_file v w' = z_file v w \<and> z_closed v w' = z_closed v w \<and> z_blocks v w' = z_blocks v w \<and> (z_room v w \<longrightarrow> z_room v w') \<and>
     (0 < n \<longrightarrow> z_closed v w \<or> \<not> z_blocks v w \<longrightarrow> sint (kret r) = - EINTR \<and> z_got v w' = z_got v w \<and> (z_data v w \<longrightarrow> z_data v w') \<or>
      sint (kret r) = - EAGAIN \<and> z_got v w' = z_got v w \<and> \<not> z_data v w \<and> \<not> z_blocks v w \<or>
      0 < sint (kret r) \<and> sint (kret r) \<le> int n \<and> int (length (kbytes r)) = sint (kret r) \<and> z_got v w' = z_got v w @ kbytes r \<or>
      kret r = 0 \<and> z_got v w' = z_got v w \<and> z_closed v w \<and> z_got v w = press (z_in v w)))"

definition z_ends :: "'w kern \<Rightarrow> int \<Rightarrow> int \<Rightarrow> 'w zview \<Rightarrow> bool" where
  "z_ends K cfd wfd v \<longleftrightarrow>
     (\<forall>w r w'. K (NR_close wfd) w = (r, w') \<longrightarrow> z_closed v w' \<and> z_in v w' = z_in v w \<and> z_got v w' = z_got v w \<and> z_file v w' = z_file v w) \<and>
     (\<forall>x w r w'. K (NR_fcntl cfd F_SETFL x) w = (r, w') \<longrightarrow> z_in v w' = z_in v w \<and> z_got v w' = z_got v w \<and> z_file v w' = z_file v w \<and>
        z_closed v w' = z_closed v w \<and> (sint (kret r) = - EINTR \<or> z_blocks v w' = (x AND O_NONBLOCK = 0)))"

text \<open>\<open>bound n\<close>: how many bytes it can have produced at most from \<open>n\<close> bytes.\<close>

definition compressor_ok ::
    "'w kern \<Rightarrow> memory \<Rightarrow> int \<Rightarrow> int \<Rightarrow> int \<Rightarrow> 'w zview \<Rightarrow> (byte list \<Rightarrow> byte list) \<Rightarrow> (nat \<Rightarrow> nat) \<Rightarrow> ('w \<Rightarrow> 'k) \<Rightarrow> bool" where
  "compressor_ok K m cfd wfd ofd v press bound keep \<longleftrightarrow>
     z_polls K cfd wfd v \<and> z_writes K m wfd v \<and> z_reads K cfd v press \<and> z_ends K cfd wfd v \<and>
     (\<forall>c w r w'. K c w = (r, w') \<longrightarrow> \<not> z_call cfd wfd ofd c \<longrightarrow> z_state v w' = z_state v w) \<and>
     (\<forall>b w r w'. K (NR_write wfd b) w = (r, w') \<longrightarrow> keep w' = keep w) \<and>
     (\<forall>n w r w'. K (NR_read cfd n) w = (r, w') \<longrightarrow> keep w' = keep w) \<and>
     (\<forall>ps t w r w'. K (NR_poll ps t) w = (r, w') \<longrightarrow> keep w' = keep w) \<and>
     sink_ok K m ofd (z_file v) (\<lambda>w. (keep w, z_in v w, z_got v w, z_closed v w, z_room v w, z_blocks v w)) \<and>
     mono bound \<and> (\<forall>w. length (z_got v w) \<le> bound (length (z_in v w))) \<and> cfd \<noteq> wfd \<and> ofd \<noteq> wfd"

lemma compressor_okD:
  assumes "compressor_ok K m cfd wfd ofd v press bound keep"
  shows "z_polls K cfd wfd v" "z_writes K m wfd v" "z_reads K cfd v press" "z_ends K cfd wfd v"
    "K c w = (r, w') \<Longrightarrow> \<not> z_call cfd wfd ofd c \<Longrightarrow> z_state v w' = z_state v w"
    "K (NR_write wfd b) w = (r, w') \<Longrightarrow> keep w' = keep w"
    "K (NR_read cfd n) w = (r, w') \<Longrightarrow> keep w' = keep w"
    "K (NR_poll ps t) w = (r, w') \<Longrightarrow> keep w' = keep w"
    "sink_ok K m ofd (z_file v) (\<lambda>w. (keep w, z_in v w, z_got v w, z_closed v w, z_room v w, z_blocks v w))"
    "mono bound" "length (z_got v w) \<le> bound (length (z_in v w))"
  using assms unfolding compressor_ok_def by blast+

lemma z_readsD:
  assumes "z_reads K cfd v press" "K (NR_read cfd n) w = (r, w')" "0 < n" "z_closed v w \<or> \<not> z_blocks v w"
  shows "z_in v w' = z_in v w \<and> z_file v w' = z_file v w \<and> z_closed v w' = z_closed v w \<and> z_blocks v w' = z_blocks v w \<and> (z_room v w \<longrightarrow> z_room v w')"
    "sint (kret r) = - EINTR \<and> z_got v w' = z_got v w \<and> (z_data v w \<longrightarrow> z_data v w') \<or>
      sint (kret r) = - EAGAIN \<and> z_got v w' = z_got v w \<and> \<not> z_data v w \<and> \<not> z_blocks v w \<or>
      0 < sint (kret r) \<and> sint (kret r) \<le> int n \<and> int (length (kbytes r)) = sint (kret r) \<and> z_got v w' = z_got v w @ kbytes r \<or>
      kret r = 0 \<and> z_got v w' = z_got v w \<and> z_closed v w \<and> z_got v w = press (z_in v w)"
  using assms(1) [unfolded z_reads_def, THEN spec, THEN spec, THEN spec, THEN spec, THEN mp, OF assms(2)] assms(3,4) by blast+

lemma z_read:
  assumes k: "compressor_ok K m cfd wfd ofd v press bound keep" and q: "intr_bounded K q" and n: "0 < n"
    and b: "z_closed v (world s) \<or> \<not> z_blocks v (world s)"
  shows "\<exists>r s'. NO_INTR (sys_read K cfd n) s = Some ((if sint (kret r) < 0 then -1 else sint (kret r), r), s') \<and>
    z_in v (world s') = z_in v (world s) \<and> z_file v (world s') = z_file v (world s) \<and> z_closed v (world s') = z_closed v (world s) \<and>
    z_blocks v (world s') = z_blocks v (world s) \<and> (z_room v (world s) \<longrightarrow> z_room v (world s')) \<and> keep (world s') = keep (world s) \<and>
    (sint (kret r) = - EAGAIN \<and> errno s' = EAGAIN \<and> z_got v (world s') = z_got v (world s) \<and> \<not> z_data v (world s) \<and> \<not> z_blocks v (world s) \<or>
     0 < sint (kret r) \<and> sint (kret r) \<le> int n \<and> int (length (kbytes r)) = sint (kret r) \<and> z_got v (world s') = z_got v (world s) @ kbytes r \<or>
     kret r = 0 \<and> z_got v (world s') = z_got v (world s) \<and> z_closed v (world s) \<and> z_got v (world s) = press (z_in v (world s)))"
proof -
  note rd = z_readsD [OF compressor_okD(3) [OF k] _ n]
  have range: "- 4095 \<le> sint (kret r)" if "K (NR_read cfd n) w = (r, w')" for w r w'
    using compressor_okD(3) [OF k] that unfolding z_reads_def by blast
  let ?P = "\<lambda>w. z_in v w = z_in v (world s) \<and> z_file v w = z_file v (world s) \<and> z_closed v w = z_closed v (world s) \<and> z_got v w = z_got v (world s) \<and>
    z_blocks v w = z_blocks v (world s) \<and> (z_room v (world s) \<longrightarrow> z_room v w) \<and> (z_data v (world s) \<longrightarrow> z_data v w) \<and> keep w = keep (world s)"
  have pl: "plain_call K (NR_read cfd n) (sys_long K (NR_read cfd n))" by (rule plain_long) (rule range)
  have kp: "?P w'" if "?P w" "K (NR_read cfd n) w = (r, w')" "sint (kret r) = - EINTR" for w r w'
    using rd [OF that(2)] that(1,3) b compressor_okD(7) [OF k that(2)] by auto
  have p0: "?P (world s)" by simp
  have "\<exists>r s' w. NO_INTR (sys_long K (NR_read cfd n)) s = Some ((if sint (kret r) < 0 then -1 else sint (kret r), r), s') \<and> ?P w \<and>
    K (NR_read cfd n) w = (r, world s') \<and> sint (kret r) \<noteq> - EINTR \<and> (sint (kret r) < 0 \<longrightarrow> errno s' = - sint (kret r))"
    by (rule NO_INTR_result [where P = ?P, OF q pl p0]) (rule kp)
  then obtain r s' w where c: "NO_INTR (sys_long K (NR_read cfd n)) s = Some ((if sint (kret r) < 0 then -1 else sint (kret r), r), s')" "?P w"
    "K (NR_read cfd n) w = (r, world s')" "sint (kret r) \<noteq> - EINTR" "sint (kret r) < 0 \<longrightarrow> errno s' = - sint (kret r)"
    by blast
  show ?thesis
    using c(1,2,4,5) rd [OF c(3)] b compressor_okD(7) [OF k c(3)] unfolding sys_read_def
    by (intro exI [of _ r] exI [of _ s']) auto
qed

lemma z_write:
  assumes k: "compressor_ok K m cfd wfd ofd v press bound keep" and q: "intr_bounded K q" and b: "0 < buf_len b" "z_room v (world s)"
  shows "\<exists>rc r s'. NO_INTR (sys_write K wfd b) s = Some ((rc, r), s') \<and> 0 < rc \<and> rc \<le> int (buf_len b) \<and>
    z_in v (world s') = z_in v (world s) @ take (nat rc) (buf_bytes m b) \<and> z_got v (world s') = z_got v (world s) \<and>
    z_file v (world s') = z_file v (world s) \<and> z_closed v (world s') = z_closed v (world s) \<and> z_blocks v (world s') = z_blocks v (world s) \<and>
    keep (world s') = keep (world s)"
proof -
  let ?c = "NR_write wfd b"
  let ?P = "\<lambda>w. z_in v w = z_in v (world s) \<and> z_file v w = z_file v (world s) \<and> z_closed v w = z_closed v (world s) \<and> z_got v w = z_got v (world s) \<and>
    z_blocks v w = z_blocks v (world s) \<and> z_room v w \<and> keep w = keep (world s)"
  note zw = compressor_okD(2) [OF k, unfolded z_writes_def, THEN spec, THEN spec, THEN spec, THEN spec, THEN mp]
  have wr: "z_got v w' = z_got v w \<and> z_file v w' = z_file v w \<and> z_closed v w' = z_closed v w \<and> z_blocks v w' = z_blocks v w \<and> keep w' = keep w \<and>
     (sint (kret r) = - EINTR \<and> z_in v w' = z_in v w \<and> z_room v w' \<or>
      0 < sint (kret r) \<and> sint (kret r) \<le> int (buf_len b) \<and> z_in v w' = z_in v w @ take (nat (sint (kret r))) (buf_bytes m b))"
    if "K ?c w = (r, w')" "z_room v w" for w r w'
    using zw [OF that(1)] that(2) b(1) compressor_okD(6) [OF k that(1)] by blast
  have kp: "?P w'" if "?P w" "K ?c w = (r, w')" "sint (kret r) = - EINTR" for w r w'
    using wr [OF that(2)] that(1,3) by auto
  have pl: "plain_call K ?c (sys_long K ?c)" by (rule plain_long) (rule zw [THEN conjunct1])
  have p0: "?P (world s)" using b(2) by simp
  have "\<exists>r s' w. NO_INTR (sys_long K ?c) s = Some ((if sint (kret r) < 0 then -1 else sint (kret r), r), s') \<and> ?P w \<and>
    K ?c w = (r, world s') \<and> sint (kret r) \<noteq> - EINTR \<and> (sint (kret r) < 0 \<longrightarrow> errno s' = - sint (kret r))"
    by (rule NO_INTR_result [where P = ?P, OF q pl p0]) (rule kp)
  then obtain r s' w where c: "NO_INTR (sys_long K ?c) s = Some ((if sint (kret r) < 0 then -1 else sint (kret r), r), s')" "?P w"
    "K ?c w = (r, world s')" "sint (kret r) \<noteq> - EINTR" by blast
  with wr [OF c(3)] show ?thesis unfolding sys_write_def
    by (intro exI [of _ "sint (kret r)"] exI [of _ r] exI [of _ s']) auto
qed

subsection \<open>Copying what it has produced\<close>

text \<open>Between the calls of \<open>PipeWriter\<close>: everything read has been written to the file, and taken off the limit \<open>L\<close>.\<close>

definition z_inv :: "'w zview \<Rightarrow> nat \<Rightarrow> byte list \<Rightarrow> WriterFds \<Rightarrow> 'w \<Rightarrow> bool" where
  "z_inv v L F h w \<longleftrightarrow> max_length h + length (z_got v w) = L \<and> z_file v w = F @ z_got v w"

definition z_fds :: "int \<Rightarrow> int \<Rightarrow> int \<Rightarrow> WriterFds \<Rightarrow> bool" where
  "z_fds cfd wfd ofd h \<longleftrightarrow> compressed_fd h = cfd \<and> write_fd h = wfd \<and> out_fd h = ofd"

text \<open>While it is fed, its input is open and reads do not wait.\<close>

definition z_open :: "'w zview \<Rightarrow> 'w \<Rightarrow> bool" where
  "z_open v w \<longleftrightarrow> \<not> z_closed v w \<and> \<not> z_blocks v w"

lemma z_inv_positive:
  "compressor_ok K m cfd wfd ofd v press bound keep \<Longrightarrow> z_inv v L F h w \<Longrightarrow> bound (length (z_in v w)) < L \<Longrightarrow> 0 < max_length h"
  using compressor_okD(11) [of K m cfd wfd ofd v press bound keep w] by (simp add: z_inv_def)

lemma z_copy_chunk:
  assumes k: "compressor_ok K m cfd wfd ofd v press bound keep" and q: "intr_bounded K q"
    and r: "z_inv v L F h w0" "z_got v (world s) = z_got v w0 @ bs" "z_file v (world s) = z_file v w0" "length bs \<le> max_length h"
  shows "\<exists>s'. c_write K ofd (Local bs) s = Some (int (length bs), s') \<and> z_inv v L F (h\<lparr>max_length := max_length h - length bs\<rparr>) (world s') \<and>
    z_in v (world s') = z_in v (world s) \<and> z_closed v (world s') = z_closed v (world s) \<and> z_got v (world s') = z_got v (world s) \<and>
    z_room v (world s') = z_room v (world s) \<and> z_blocks v (world s') = z_blocks v (world s) \<and> keep (world s') = keep (world s)"
proof -
  obtain s' where "c_write K ofd (Local bs) s = Some (int (length bs), s')" "z_file v (world s') = z_file v (world s) @ bs"
    "(keep (world s'), z_in v (world s'), z_got v (world s'), z_closed v (world s'), z_room v (world s'), z_blocks v (world s')) =
     (keep (world s), z_in v (world s), z_got v (world s), z_closed v (world s), z_room v (world s), z_blocks v (world s))"
    using sink_c_write [OF compressor_okD(9) [OF k] q, of "Local bs" s] by auto
  with r show ?thesis by (intro exI [of _ s']) (auto simp: z_inv_def)
qed

lemma PipeWriter_copy_complete:
  assumes k: "compressor_ok K m cfd wfd ofd v press bound keep" and q: "intr_bounded K q"
  shows "z_inv v L F h (world s) \<Longrightarrow> z_fds cfd wfd ofd h \<Longrightarrow> z_open v (world s) \<Longrightarrow> bound (length (z_in v (world s))) < L \<Longrightarrow>
    \<exists>l s'. PipeWriter_copy K h s = Some ((False, h\<lparr>max_length := l\<rparr>), s') \<and> z_inv v L F (h\<lparr>max_length := l\<rparr>) (world s') \<and>
      z_in v (world s') = z_in v (world s) \<and> z_open v (world s') \<and> (z_room v (world s) \<longrightarrow> z_room v (world s')) \<and> keep (world s') = keep (world s) \<and>
      l \<le> max_length h \<and> (z_data v (world s) \<longrightarrow> l < max_length h)"
proof (induction "max_length h" arbitrary: h s rule: less_induct)
  case less
  let ?n = "if 4096 > max_length h then max_length h else 4096"
  have n: "0 < ?n" using z_inv_positive [OF k less.prems(1,4)] by simp
  have fds: "compressed_fd h = cfd" "out_fd h = ofd" using less.prems(2) by (simp_all add: z_fds_def)
  let ?s = "s\<lparr>errno := -1\<rparr>"
  obtain r s1 where rd: "NO_INTR (sys_read K cfd ?n) ?s = Some ((if sint (kret r) < 0 then -1 else sint (kret r), r), s1)"
    "z_in v (world s1) = z_in v (world s)" "z_file v (world s1) = z_file v (world s)" "z_open v (world s1)"
    "z_room v (world s) \<longrightarrow> z_room v (world s1)" "keep (world s1) = keep (world s)"
    and cases: "sint (kret r) = - EAGAIN \<and> errno s1 = EAGAIN \<and> z_got v (world s1) = z_got v (world s) \<and> \<not> z_data v (world s) \<or>
     0 < sint (kret r) \<and> sint (kret r) \<le> int ?n \<and> int (length (kbytes r)) = sint (kret r) \<and> z_got v (world s1) = z_got v (world s) @ kbytes r"
    using z_read [OF k q n, of ?s] less.prems(3) by (auto simp: z_open_def)
  from cases show ?case
  proof
    assume e: "sint (kret r) = - EAGAIN \<and> errno s1 = EAGAIN \<and> z_got v (world s1) = z_got v (world s) \<and> \<not> z_data v (world s)"
    then have "PipeWriter_copy K h s = Some ((False, h), s1)"
      using rd(1) fds by (subst PipeWriter_copy.simps) (simp add: Let_def)
    moreover have "z_inv v L F h (world s1)" using less.prems(1) e rd by (simp add: z_inv_def)
    ultimately show ?thesis using e rd less.prems(3) by (intro exI [of _ "max_length h"] exI [of _ s1]) auto
  next
    assume g: "0 < sint (kret r) \<and> sint (kret r) \<le> int ?n \<and> int (length (kbytes r)) = sint (kret r) \<and> z_got v (world s1) = z_got v (world s) @ kbytes r"
    let ?h = "h\<lparr>max_length := max_length h - length (kbytes r)\<rparr>"
    have len: "length (kbytes r) \<le> max_length h" "length (kbytes r) > 0" using g by (auto split: if_splits)
    obtain s2 where w: "c_write K ofd (Local (kbytes r)) s1 = Some (int (length (kbytes r)), s2)" "z_inv v L F ?h (world s2)"
      "z_in v (world s2) = z_in v (world s1)" "z_open v (world s2)" "z_room v (world s2) = z_room v (world s1)" "keep (world s2) = keep (world s1)"
      using z_copy_chunk [OF k q less.prems(1), of s1 "kbytes r"] g rd(3,4) len(1) by (auto simp: z_open_def)
    have "max_length h - length (kbytes r) < max_length h" using len by linarith
    then have pre: "max_length ?h < max_length h" "z_fds cfd wfd ofd ?h" "z_open v (world s2)" "bound (length (z_in v (world s2))) < L"
      using len less.prems rd w by (simp_all add: z_fds_def)
    from less.hyps [OF pre(1) w(2) pre(2-4)]
    obtain l s' where ih: "PipeWriter_copy K ?h s2 = Some ((False, h\<lparr>max_length := l\<rparr>), s')" "z_inv v L F (h\<lparr>max_length := l\<rparr>) (world s')"
      "z_in v (world s') = z_in v (world s2)" "z_open v (world s')" "z_room v (world s2) \<longrightarrow> z_room v (world s')" "keep (world s') = keep (world s2)"
      "l \<le> max_length ?h" by auto
    have st: "stored (sint (kret r)) (kbytes r) = kbytes r" "nat (sint (kret r)) = length (kbytes r)" using g by (auto intro!: stored_exact)
    have "PipeWriter_copy K h s = PipeWriter_copy K ?h s2"
      using rd(1) fds g w(1) len st by (subst PipeWriter_copy.simps) (simp add: Let_def)
    then show ?thesis using ih rd w pre(1) by (intro exI [of _ l] exI [of _ s']) auto
  qed
qed

subsection \<open>Feeding it\<close>

lemma buf_at_drop: "0 \<le> pos \<Longrightarrow> buf_at b pos = buf_drop (nat pos) b"
  by (cases b) (auto simp: nat_diff_distrib' intro: arg_cong [of _ _ of_int])

lemma z_poll:
  assumes k: "compressor_ok K m cfd wfd ofd v press bound keep" and q: "intr_bounded K q"
  shows "\<exists>nfds r s' i x. sys_poll K [(cfd, POLLIN), (wfd, POLLOUT)] (-1) s = ((nfds, r), s') \<and> (i \<or> x) \<and> nfds = of_bool i + of_bool x \<and>
    bit (revents r 0) 0 = i \<and> bit (revents r 1) 2 = x \<and> (i \<longrightarrow> z_data v (world s')) \<and> (x \<longrightarrow> z_room v (world s')) \<and>
    z_state v (world s') = z_state v (world s) \<and> keep (world s') = keep (world s)"
proof -
  obtain nfds r s' where p: "sys_poll K [(cfd, POLLIN), (wfd, POLLOUT)] (-1) s = ((nfds, r), s')" by (metis surj_pair)
  note K = sys_world(1) [OF p [unfolded sys_poll_def]]
  from compressor_okD(1) [OF k, unfolded z_polls_def, rule_format, OF K] obtain i x where
    r: "i \<or> x" "kret r = of_bool i + of_bool x" "kints r = [if i then POLLIN else 0, if x then POLLOUT else 0]"
      "i \<longrightarrow> z_data v (world s')" "x \<longrightarrow> z_room v (world s')" by blast
  have "sint (kret r) = of_bool i + of_bool x" unfolding r(2) by (cases i; cases x) simp_all
  then have "nfds = of_bool i + of_bool x"
    using p LSS_RETURN_int_small [of "kret r"] by (cases i; cases x) (auto simp: sys_poll_def sys_int_def lss_syscall_def split: prod.splits)
  moreover have "bit (revents r 0) 0 = i" "bit (revents r 1) 2 = x" using r(3) by (auto simp: revents_def bit_0)
  moreover have "z_state v (world s') = z_state v (world s)" using compressor_okD(5) [OF k K] by simp
  ultimately show ?thesis using p r(1,4,5) compressor_okD(8) [OF k K] by blast
qed

text \<open>One round of the loop up to the write: \<open>x\<close> says that \<open>poll\<close> has found room.\<close>

lemma PipeWriter_round:
  assumes k: "compressor_ok K m cfd wfd ofd v press bound keep" and q: "intr_bounded K q"
    and z: "z_inv v L F h (world s)" "z_fds cfd wfd ofd h" "z_open v (world s)" "bound (length (z_in v (world s))) < L"
    and lt: "pos < int (buf_len b)"
  shows "\<exists>x l s'. PipeWriter_loop K b pos h s =
       (if x then NO_INTR (sys_write K wfd (buf_at b pos)) s' \<bind> (\<lambda>((rc, _), s).
          if rc < 0 \<and> errno s \<noteq> EAGAIN then Some ((-1, h\<lparr>max_length := l\<rparr>), s) else PipeWriter_loop K b (pos + rc) (h\<lparr>max_length := l\<rparr>) s)
        else PipeWriter_loop K b pos (h\<lparr>max_length := l\<rparr>) s') \<and>
     z_inv v L F (h\<lparr>max_length := l\<rparr>) (world s') \<and> z_in v (world s') = z_in v (world s) \<and> z_open v (world s') \<and>
     (x \<longrightarrow> z_room v (world s')) \<and> keep (world s') = keep (world s) \<and> l \<le> max_length h \<and> (\<not> x \<longrightarrow> l < max_length h)"
proof -
  have pos: "0 < max_length h" by (rule z_inv_positive [OF k z(1,4)])
  have fds: "compressed_fd h = cfd" "write_fd h = wfd" using z(2) by (simp_all add: z_fds_def)
  obtain nfds r s1 i x where p: "sys_poll K [(cfd, POLLIN), (wfd, POLLOUT)] (-1) s = ((nfds, r), s1)" "i \<or> x" "nfds = of_bool i + of_bool x"
    "bit (revents r 0) 0 = i" "bit (revents r 1) 2 = x" "i \<longrightarrow> z_data v (world s1)" "x \<longrightarrow> z_room v (world s1)"
    "z_state v (world s1) = z_state v (world s)" "keep (world s1) = keep (world s)" using z_poll [OF k q, of s] by blast
  have z1: "z_in v (world s1) = z_in v (world s)" "z_open v (world s1)" "z_inv v L F h (world s1)"
    using p(8) z(1,3) by (auto simp: z_state_def z_inv_def z_open_def)
  obtain l s2 where c: "(if i then PipeWriter_copy K h s1 else Some ((False, h), s1)) = Some ((False, h\<lparr>max_length := l\<rparr>), s2)"
    "z_inv v L F (h\<lparr>max_length := l\<rparr>) (world s2)" "z_in v (world s2) = z_in v (world s)" "z_open v (world s2)"
    "x \<longrightarrow> z_room v (world s2)" "keep (world s2) = keep (world s)" "l \<le> max_length h" "i \<longrightarrow> l < max_length h"
  proof (cases i)
    case True
    from PipeWriter_copy_complete [OF k q z1(3) z(2) z1(2)] z(4) z1(1)
    obtain l s2 where "PipeWriter_copy K h s1 = Some ((False, h\<lparr>max_length := l\<rparr>), s2)"
      "z_inv v L F (h\<lparr>max_length := l\<rparr>) (world s2)" "z_in v (world s2) = z_in v (world s1)" "z_open v (world s2)"
      "z_room v (world s1) \<longrightarrow> z_room v (world s2)" "keep (world s2) = keep (world s1)" "l \<le> max_length h" "z_data v (world s1) \<longrightarrow> l < max_length h" by auto
    with True p z1 show ?thesis by (intro that [of l s2]) auto
  next
    case False
    with p z1 show ?thesis by (intro that [of "max_length h" s1]) auto
  qed
  let ?h = "h\<lparr>max_length := l\<rparr>"
  have fh: "write_fd ?h = wfd" using z(2) by (simp add: z_fds_def)
  obtain h2 where h2: "(if i then PipeWriter_copy K h s1 else Some ((False, h), s1)) = Some ((False, h2), s2)" "?h = h2" using c(1) by blast
  have "PipeWriter_loop K b pos h s =
     (if x then NO_INTR (sys_write K wfd (buf_at b pos)) s2 \<bind> (\<lambda>((rc, _), s).
        if rc < 0 \<and> errno s \<noteq> EAGAIN then Some ((-1, ?h), s) else PipeWriter_loop K b (pos + rc) ?h s)
      else PipeWriter_loop K b pos ?h s2)"
    using pos lt p fds h2(1) fh unfolding h2(2) by (subst PipeWriter_loop.simps) (cases i; cases x; simp)
  then show ?thesis using c p(2) by (intro exI [of _ x] exI [of _ l] exI [of _ s2]) blast
qed

lemma z_write_at:
  assumes k: "compressor_ok K m cfd wfd ofd v press bound keep" and q: "intr_bounded K q"
    and z: "z_inv v L F h (world s)" "z_open v (world s)" "z_room v (world s)" and pos: "0 \<le> pos" "pos < int (buf_len b)"
  shows "\<exists>rc r s'. NO_INTR (sys_write K wfd (buf_at b pos)) s = Some ((rc, r), s') \<and> 0 < rc \<and> rc \<le> int (buf_len b) - pos \<and>
    length (z_in v (world s')) = length (z_in v (world s)) + nat rc \<and>
    z_in v (world s') @ drop (nat (pos + rc)) (buf_bytes m b) = z_in v (world s) @ drop (nat pos) (buf_bytes m b) \<and>
    z_inv v L F h (world s') \<and> z_open v (world s') \<and> keep (world s') = keep (world s)"
proof -
  have bl: "0 < buf_len (buf_at b pos)" "buf_len (buf_at b pos) = buf_len b - nat pos" "buf_bytes m (buf_at b pos) = drop (nat pos) (buf_bytes m b)"
    using pos by (simp_all add: buf_at_drop)
  obtain rc r s' where w: "NO_INTR (sys_write K wfd (buf_at b pos)) s = Some ((rc, r), s')" "0 < rc" "rc \<le> int (buf_len (buf_at b pos))"
    "z_in v (world s') = z_in v (world s) @ take (nat rc) (buf_bytes m (buf_at b pos))" "z_got v (world s') = z_got v (world s)"
    "z_file v (world s') = z_file v (world s)" "z_open v (world s')" "keep (world s') = keep (world s)"
    using z_write [OF k q bl(1) z(3)] z(2) by (auto simp: z_open_def)
  have rc: "rc \<le> int (buf_len b) - pos" "length (take (nat rc) (buf_bytes m (buf_at b pos))) = nat rc" using w(2,3) bl(2) pos by simp_all
  have "take (nat rc) (drop (nat pos) (buf_bytes m b)) @ drop (nat (pos + rc)) (buf_bytes m b) = drop (nat pos) (buf_bytes m b)"
    using append_take_drop_id [of "nat rc" "drop (nat pos) (buf_bytes m b)"] w(2) pos(1) by (simp add: nat_add_distrib add.commute)
  then have "z_in v (world s') @ drop (nat (pos + rc)) (buf_bytes m b) = z_in v (world s) @ drop (nat pos) (buf_bytes m b)"
    using w(4) bl(3) by simp
  moreover have "length (z_in v (world s')) = length (z_in v (world s)) + nat rc" using w(4) rc(2) by simp
  moreover have "z_inv v L F h (world s')" using z(1) w(5,6) by (simp add: z_inv_def)
  ultimately show ?thesis using w(1,2,7,8) rc(1) by blast
qed

lemma PipeWriter_loop_complete:
  assumes k: "compressor_ok K m cfd wfd ofd v press bound keep" and q: "intr_bounded K q"
  shows "0 \<le> pos \<Longrightarrow> pos \<le> int (buf_len b) \<Longrightarrow> z_inv v L F h (world s) \<Longrightarrow> z_fds cfd wfd ofd h \<Longrightarrow> z_open v (world s) \<Longrightarrow>
    bound (length (z_in v (world s)) + nat (int (buf_len b) - pos)) < L \<Longrightarrow>
    \<exists>l s'. PipeWriter_loop K b pos h s = Some ((int (buf_len b), h\<lparr>max_length := l\<rparr>), s') \<and> z_inv v L F (h\<lparr>max_length := l\<rparr>) (world s') \<and>
      z_in v (world s') = z_in v (world s) @ drop (nat pos) (buf_bytes m b) \<and> z_open v (world s') \<and> keep (world s') = keep (world s)"
proof (induction "nat (int (buf_len b) - pos) + max_length h" arbitrary: pos h s rule: less_induct)
  case less
  have "mono bound" using compressor_okD(10) [OF k] .
  then have b: "bound (length (z_in v (world s))) < L" using less.prems(6) monoD [of bound "length (z_in v (world s))"] by (meson le_add1 le_less_trans)
  show ?case
  proof (cases "pos = int (buf_len b)")
    case True
    then show ?thesis using less.prems by (subst PipeWriter_loop.simps) (auto intro!: exI [of _ "max_length h"])
  next
    case False
    then have lt: "pos < int (buf_len b)" using less.prems(2) by simp
    obtain x l s2 where step: "PipeWriter_loop K b pos h s =
       (if x then NO_INTR (sys_write K wfd (buf_at b pos)) s2 \<bind> (\<lambda>((rc, _), s).
          if rc < 0 \<and> errno s \<noteq> EAGAIN then Some ((-1, h\<lparr>max_length := l\<rparr>), s) else PipeWriter_loop K b (pos + rc) (h\<lparr>max_length := l\<rparr>) s)
        else PipeWriter_loop K b pos (h\<lparr>max_length := l\<rparr>) s2)"
      and c: "z_inv v L F (h\<lparr>max_length := l\<rparr>) (world s2)" "z_in v (world s2) = z_in v (world s)" "z_open v (world s2)"
        "x \<longrightarrow> z_room v (world s2)" "keep (world s2) = keep (world s)" "l \<le> max_length h" "\<not> x \<longrightarrow> l < max_length h"
      using PipeWriter_round [OF k q less.prems(3-5) b lt] by blast
    let ?h = "h\<lparr>max_length := l\<rparr>"
    have fh: "z_fds cfd wfd ofd ?h" using less.prems(4) by (simp add: z_fds_def)
    show ?thesis
    proof (cases x)
      case True
      obtain rc r s3 where w: "NO_INTR (sys_write K wfd (buf_at b pos)) s2 = Some ((rc, r), s3)" "0 < rc" "rc \<le> int (buf_len b) - pos"
        "length (z_in v (world s3)) = length (z_in v (world s2)) + nat rc"
        "z_in v (world s3) @ drop (nat (pos + rc)) (buf_bytes m b) = z_in v (world s2) @ drop (nat pos) (buf_bytes m b)"
        "z_inv v L F ?h (world s3)" "z_open v (world s3)" "keep (world s3) = keep (world s2)"
        using z_write_at [OF k q c(1,3) _ less.prems(1) lt] True c(4) by blast
      have pre: "nat (int (buf_len b) - (pos + rc)) + max_length ?h < nat (int (buf_len b) - pos) + max_length h"
          "0 \<le> pos + rc" "pos + rc \<le> int (buf_len b)"
          "length (z_in v (world s3)) + nat (int (buf_len b) - (pos + rc)) = length (z_in v (world s)) + nat (int (buf_len b) - pos)"
        using w(2-4) c(2,6) less.prems(1) by auto
      have "PipeWriter_loop K b pos h s = PipeWriter_loop K b (pos + rc) ?h s3" using step True w(1,2) by simp
      then show ?thesis using less.hyps [OF pre(1-3) w(6) fh w(7)] less.prems(6) pre(4) w(5,8) c(2,5) by simp
    next
      case False
      then have "nat (int (buf_len b) - pos) + max_length ?h < nat (int (buf_len b) - pos) + max_length h" using c(7) by simp
      from less.hyps [OF this less.prems(1,2) c(1) fh c(3)] less.prems(6) c(2,5) step False show ?thesis by simp
    qed
  qed
qed

text \<open>Hence \<open>PipeWriter\<close> takes everything, as long as the compressor cannot reach the limit with it.\<close>

interpretation pipe_full: full_writer "PipeWriter K"
    "\<lambda>n h (zi, zg, zf, zc, zb). compressor_ok K m cfd wfd ofd v press bound keep \<and> intr_bounded K q \<and> z_fds cfd wfd ofd h \<and>
       max_length h + length zg = L \<and> zf = F @ zg \<and> \<not> zc \<and> \<not> zb \<and> bound (length zi + n) < L"
    m "z_in v" keep "z_state v"
  for K :: "'w kern" and m cfd wfd ofd v press bound q L F and keep :: "'w \<Rightarrow> 'k"
proof
  fix b :: buf and n :: nat and h :: WriterFds and s :: "'w st"
  assume "case z_state v (world s) of (zi, zg, zf, zc, zb) \<Rightarrow> compressor_ok K m cfd wfd ofd v press bound keep \<and> intr_bounded K q \<and> z_fds cfd wfd ofd h \<and>
       max_length h + length zg = L \<and> zf = F @ zg \<and> \<not> zc \<and> \<not> zb \<and> bound (length zi + (buf_len b + n)) < L"
  then have k: "compressor_ok K m cfd wfd ofd v press bound keep" "intr_bounded K q" "z_fds cfd wfd ofd h" "z_inv v L F h (world s)"
    "z_open v (world s)" "bound (length (z_in v (world s)) + (buf_len b + n)) < L" by (auto simp: z_state_def z_inv_def z_open_def)
  have "bound (length (z_in v (world s)) + buf_len b) \<le> bound (length (z_in v (world s)) + (buf_len b + n))"
    using compressor_okD(10) [OF k(1)] by (rule monoD) simp
  with k(6) have b: "bound (length (z_in v (world s)) + nat (int (buf_len b) - 0)) < L" by simp
  from PipeWriter_loop_complete [OF k(1,2) _ _ k(4,3,5) b]
  obtain l s' where w: "PipeWriter_loop K b 0 h s = Some ((int (buf_len b), h\<lparr>max_length := l\<rparr>), s')" "z_inv v L F (h\<lparr>max_length := l\<rparr>) (world s')"
      "z_in v (world s') = z_in v (world s) @ buf_bytes m b" "z_open v (world s')" "keep (world s') = keep (world s)" by auto
  have "z_fds cfd wfd ofd (h\<lparr>max_length := l\<rparr>)" using k(3) by (simp add: z_fds_def)
  then show "\<exists>h' s'. PipeWriter K h b s = Some ((int (buf_len b), h'), s') \<and>
      (case z_state v (world s') of (zi, zg, zf, zc, zb) \<Rightarrow> compressor_ok K m cfd wfd ofd v press bound keep \<and> intr_bounded K q \<and> z_fds cfd wfd ofd h' \<and>
         max_length h' + length zg = L \<and> zf = F @ zg \<and> \<not> zc \<and> \<not> zb \<and> bound (length zi + n) < L) \<and>
      z_in v (world s') = z_in v (world s) @ buf_bytes m b \<and> keep (world s') = keep (world s)"
    using w k(1,2,6) by (intro exI [of _ "h\<lparr>max_length := l\<rparr>"] exI [of _ s']) (auto simp: PipeWriter_def z_state_def z_inv_def z_open_def add.assoc)
qed

subsection \<open>The rest\<close>

lemma FlushPipe_loop_complete:
  assumes k: "compressor_ok K m cfd wfd ofd v press bound keep" and q: "intr_bounded K q"
  shows "z_inv v L F h (world s) \<Longrightarrow> z_fds cfd wfd ofd h \<Longrightarrow> z_closed v (world s) \<Longrightarrow> z_blocks v (world s) \<Longrightarrow> bound (length (z_in v (world s))) < L \<Longrightarrow>
    \<exists>h' s'. FlushPipe_loop K h s = Some ((0, h'), s') \<and> z_file v (world s') = F @ press (z_in v (world s))"
proof (induction "max_length h" arbitrary: h s rule: less_induct)
  case less
  let ?n = "if 4096 > max_length h then max_length h else 4096"
  have n: "0 < max_length h" "0 < ?n" using z_inv_positive [OF k less.prems(1,5)] by simp_all
  have fds: "compressed_fd h = cfd" "out_fd h = ofd" using less.prems(2) by (simp_all add: z_fds_def)
  obtain r s1 where rd: "NO_INTR (sys_read K cfd ?n) s = Some ((if sint (kret r) < 0 then -1 else sint (kret r), r), s1)"
    "z_in v (world s1) = z_in v (world s)" "z_file v (world s1) = z_file v (world s)" "z_closed v (world s1)" "z_blocks v (world s1)"
    and cases: "0 < sint (kret r) \<and> sint (kret r) \<le> int ?n \<and> int (length (kbytes r)) = sint (kret r) \<and> z_got v (world s1) = z_got v (world s) @ kbytes r \<or>
     kret r = 0 \<and> z_got v (world s) = press (z_in v (world s))"
    using z_read [OF k q n(2), of s] less.prems(3,4) by auto
  from cases show ?case
  proof
    assume e: "kret r = 0 \<and> z_got v (world s) = press (z_in v (world s))"
    then have "FlushPipe_loop K h s = Some ((0, h), s1)" using rd(1) fds n(1) by (subst FlushPipe_loop.simps) (simp add: Let_def)
    moreover have "z_file v (world s1) = F @ press (z_in v (world s))" using e rd(3) less.prems(1) by (simp add: z_inv_def)
    ultimately show ?thesis by blast
  next
    assume g: "0 < sint (kret r) \<and> sint (kret r) \<le> int ?n \<and> int (length (kbytes r)) = sint (kret r) \<and> z_got v (world s1) = z_got v (world s) @ kbytes r"
    let ?h = "h\<lparr>max_length := max_length h - length (kbytes r)\<rparr>"
    have len: "length (kbytes r) \<le> max_length h" "length (kbytes r) > 0" using g by (auto split: if_splits)
    obtain s2 where w: "c_write K ofd (Local (kbytes r)) s1 = Some (int (length (kbytes r)), s2)" "z_inv v L F ?h (world s2)"
      "z_in v (world s2) = z_in v (world s1)" "z_closed v (world s2) = z_closed v (world s1)" "z_blocks v (world s2) = z_blocks v (world s1)"
      using z_copy_chunk [OF k q less.prems(1), of s1 "kbytes r"] g rd(3) len(1) by auto
    have "max_length h - length (kbytes r) < max_length h" using len by linarith
    then have pre: "max_length ?h < max_length h" "z_fds cfd wfd ofd ?h" "z_closed v (world s2)" "z_blocks v (world s2)" "bound (length (z_in v (world s2))) < L"
      using less.prems rd w by (simp_all add: z_fds_def)
    have st: "stored (sint (kret r)) (kbytes r) = kbytes r" "nat (sint (kret r)) = length (kbytes r)" using g by (auto intro!: stored_exact)
    have "FlushPipe_loop K h s = FlushPipe_loop K ?h s2"
      using rd(1) fds g w(1) len st n(1) by (subst FlushPipe_loop.simps) (simp add: Let_def)
    then show ?thesis using less.hyps [OF pre(1) w(2) pre(2-5)] w(3) rd(2) by simp
  qed
qed

lemma observer_weaken: "observer K al obs \<Longrightarrow> (\<And>c. al' c \<Longrightarrow> al c) \<Longrightarrow> observer K al' obs"
  unfolding observer_def by blast

lemma z_observer: "compressor_ok K m cfd wfd ofd v press bound keep \<Longrightarrow> observer K (\<lambda>c. \<not> z_call cfd wfd ofd c) (\<lambda>s. z_state v (world s))"
  using compressor_okD(5) [of K m cfd wfd ofd v press bound keep] by unfold_locales (auto simp: lss_syscall_def split: prod.splits)

lemma z_fcntl:
  assumes k: "compressor_ok K m cfd wfd ofd v press bound keep" and c: "calm K q"
  shows "\<exists>x r s'. NO_INTR (sys_fcntl K f F_GETFL y) s = Some ((x, r), s') \<and> z_state v (world s') = z_state v (world s)"
    "f \<noteq> cfd \<Longrightarrow> \<exists>x r s'. NO_INTR (sys_fcntl K f cmd y) s = Some ((x, r), s') \<and> z_state v (world s') = z_state v (world s)"
    "\<exists>x r s'. NO_INTR (sys_fcntl K cfd F_SETFL y) s = Some ((x, r), s') \<and>
       z_state v (world s') = (z_in v (world s), z_got v (world s), z_file v (world s), z_closed v (world s), y AND O_NONBLOCK = 0)"
proof -
  have quiet: "\<exists>x r s'. NO_INTR (sys_fcntl K f cmd y) s = Some ((x, r), s') \<and> z_state v (world s') = z_state v (world s)" if "f \<noteq> cfd \<or> cmd \<noteq> F_SETFL" for cmd
  proof -
    obtain x r s' where n: "NO_INTR (sys_int K (NR_fcntl f cmd y)) s = Some ((x, r), s')" using NO_INTR_int [OF c, of "NR_fcntl f cmd y" s] by auto
    have "z_state v (world s') = z_state v (world s)" using observer.obs_NO_INTR(1) [OF z_observer [OF k] n] that by simp
    with n show ?thesis by (auto simp: sys_fcntl_def)
  qed
  show "\<exists>x r s'. NO_INTR (sys_fcntl K f F_GETFL y) s = Some ((x, r), s') \<and> z_state v (world s') = z_state v (world s)" using quiet by simp
  show "\<exists>x r s'. NO_INTR (sys_fcntl K f cmd y) s = Some ((x, r), s') \<and> z_state v (world s') = z_state v (world s)" if "f \<noteq> cfd" using quiet that by simp
  let ?c = "NR_fcntl cfd F_SETFL y"
  let ?P = "\<lambda>w. z_in v w = z_in v (world s) \<and> z_got v w = z_got v (world s) \<and> z_file v w = z_file v (world s) \<and> z_closed v w = z_closed v (world s)"
  note st = compressor_okD(4) [OF k, unfolded z_ends_def, THEN conjunct2, THEN spec, THEN spec, THEN spec, THEN spec, THEN mp]
  have p0: "?P (world s)" by simp
  have kp: "?P w'" if "?P w" "K ?c w = (r, w')" "sint (kret r) = - EINTR" for w r w' using st [OF that(2)] that(1) by simp
  have pl: "plain_call K ?c (sys_int K ?c)" by (rule plain_int [OF c]) simp
  have "\<exists>r s' w. NO_INTR (sys_int K ?c) s = Some ((if sint (kret r) < 0 then -1 else sint (kret r), r), s') \<and> ?P w \<and>
    K ?c w = (r, world s') \<and> sint (kret r) \<noteq> - EINTR"
    by (rule NO_INTR_call [where P = ?P, OF calm_bounded [OF c] pl p0]) (rule kp)
  then obtain x r s' w where n: "NO_INTR (sys_int K ?c) s = Some ((x, r), s')" "?P w" "K ?c w = (r, world s')" "sint (kret r) \<noteq> - EINTR" by blast
  then show "\<exists>x r s'. NO_INTR (sys_fcntl K cfd F_SETFL y) s = Some ((x, r), s') \<and>
       z_state v (world s') = (z_in v (world s), z_got v (world s), z_file v (world s), z_closed v (world s), y AND O_NONBLOCK = 0)"
    using st [OF n(3)] by (intro exI [of _ x] exI [of _ r] exI [of _ s']) (auto simp: sys_fcntl_def z_state_def)
qed

lemma FlushPipe_complete:
  assumes k: "compressor_ok K m cfd wfd ofd v press bound keep" and c: "calm K q"
    and h: "z_inv v L F h (world s)" "z_fds cfd wfd ofd h" "z_closed v (world s)" "bound (length (z_in v (world s))) < L"
  shows "\<exists>h' s'. FlushPipe K h s = Some ((0, h'), s') \<and> z_file v (world s') = F @ press (z_in v (world s))"
proof -
  obtain flags r1 s1 where 1: "NO_INTR (sys_fcntl K cfd F_GETFL 0) s = Some ((flags, r1), s1)" "z_state v (world s1) = z_state v (world s)"
    using z_fcntl(1) [OF k c] by blast
  have b: "(flags AND NOT O_NONBLOCK) AND O_NONBLOCK = 0" by (simp add: and.assoc)
  obtain x r2 s2 where 2: "NO_INTR (sys_fcntl K cfd F_SETFL (flags AND NOT O_NONBLOCK)) s1 = Some ((x, r2), s2)"
    "z_state v (world s2) = (z_in v (world s1), z_got v (world s1), z_file v (world s1), z_closed v (world s1), True)"
    using z_fcntl(3) [OF k c, of "flags AND NOT O_NONBLOCK" s1] b by auto
  have e: "z_in v (world s2) = z_in v (world s)" "z_closed v (world s2) = z_closed v (world s)" "z_inv v L F h (world s2) = z_inv v L F h (world s)" "z_blocks v (world s2)"
    using 1(2) 2(2) by (auto simp: z_state_def z_inv_def)
  from FlushPipe_loop_complete [OF k calm_bounded [OF c], of L F h s2] h
  obtain h' s' where "FlushPipe_loop K h s2 = Some ((0, h'), s')" "z_file v (world s') = F @ press (z_in v (world s))"
    by (auto simp: e)
  moreover have "compressed_fd h = cfd" using h(2) by (simp add: z_fds_def)
  ultimately show ?thesis using 1(1) 2(1) by (simp add: FlushPipe_def)
qed

subsection \<open>The compressed file\<close>

definition compressing_kernel ::
    "'w kern \<Rightarrow> ('w \<Rightarrow> nat) \<Rightarrow> 'w dump_env \<Rightarrow> int \<times> int \<Rightarrow> int \<Rightarrow> 'w zview \<Rightarrow> (byte list \<Rightarrow> byte list) \<Rightarrow> (nat \<Rightarrow> nat) \<Rightarrow> (u64 \<Rightarrow> bool) \<Rightarrow>
     smaps_segment list \<Rightarrow> auxv_t list \<Rightarrow> bool" where
  "compressing_kernel K q env fds ofd v press bound readable segs av \<longleftrightarrow> calm K q \<and> 0 \<le> fst fds \<and> 0 \<le> snd fds \<and>
     (\<exists>fp frest content lb pipe k. k < 64 \<and> de_pagesize env = 2 ^ k \<and> shows_process content (2 ^ k) segs av \<and>
        compressor_ok K (de_memory env) (fst fds) (snd fds) ofd v press bound frest \<and> proc_ok K fp frest content \<and>
        smaps_ok K (de_memory env) readable lb (2 ^ k) pipe frest fp \<and> pipe_only K lb pipe \<and> (\<forall>w. pipe_next K lb pipe w) \<and>
        0 \<le> fst lb \<and> 0 \<le> snd lb \<and> snd lb \<noteq> ofd \<and> fst fds \<notin> {fp, fst lb} \<and> snd fds \<notin> {fp, fst lb, snd lb})"

lemma z_output_only:
  assumes k: "compressor_ok K m cfd wfd ofd v press bound keep"
  shows "output_only K wfd (z_in v)"
  unfolding output_only_def
proof (intro allI impI)
  fix c w r w'
  assume K: "K c w = (r, w')" and c: "\<forall>b. c \<noteq> NR_write wfd b"
  show "z_in v w' = z_in v w"
  proof (cases "z_call cfd wfd ofd c")
    case False
    then show ?thesis using compressor_okD(5) [OF k K] by (simp add: z_state_def)
  next
    case True
    then consider (out) b where "c = NR_write ofd b" | (inp) n where "c = NR_read cfd n" | (cl) "c = NR_close wfd" | (fc) x where "c = NR_fcntl cfd F_SETFL x"
      using c by (cases c) auto
    then show ?thesis
    proof cases
      case out
      then show ?thesis using compressor_okD(9) [OF k] K unfolding sink_ok_def by blast
    next
      case inp
      then show ?thesis using compressor_okD(3) [OF k] K unfolding z_reads_def by blast
    next
      case cl
      then show ?thesis using compressor_okD(4) [OF k] K unfolding z_ends_def by blast
    next
      case fc
      then show ?thesis using compressor_okD(4) [OF k] K unfolding z_ends_def by blast
    qed
  qed
qed

lemma z_close:
  assumes k: "compressor_ok K m cfd wfd ofd v press bound keep" and c: "calm K q" "0 \<le> wfd"
  shows "\<exists>s'. close_fd K wfd s = Some s' \<and> z_closed v (world s') \<and> z_in v (world s') = z_in v (world s) \<and> z_inv v L F h (world s') = z_inv v L F h (world s)"
proof -
  note cl = compressor_okD(4) [OF k, unfolded z_ends_def, THEN conjunct1, rule_format]
  let ?P = "\<lambda>w. z_in v w = z_in v (world s) \<and> z_got v w = z_got v (world s) \<and> z_file v w = z_file v (world s)"
  have p0: "?P (world s)" by simp
  have kp: "?P w'" if "?P w" "K (NR_close wfd) w = (r, w')" "sint (kret r) = - EINTR" for w r w' using cl [OF that(2)] that(1) by simp
  have pl: "plain_call K (NR_close wfd) (sys_int K (NR_close wfd))" by (rule plain_int [OF c(1)]) simp
  have "\<exists>r s' w. NO_INTR (sys_int K (NR_close wfd)) s = Some ((if sint (kret r) < 0 then -1 else sint (kret r), r), s') \<and> ?P w \<and>
    K (NR_close wfd) w = (r, world s') \<and> sint (kret r) \<noteq> - EINTR"
    by (rule NO_INTR_call [where P = ?P, OF calm_bounded [OF c(1)] pl p0]) (rule kp)
  then obtain x r s' w where n: "NO_INTR (sys_int K (NR_close wfd)) s = Some (x, s')" "?P w" "K (NR_close wfd) w = (r, world s')" by blast
  then show ?thesis using cl [OF n(3)] c(2) by (simp add: close_fd_def sys_close_def z_inv_def)
qed

lemma z_set_nonblock:
  assumes k: "compressor_ok K m cfd wfd ofd v press bound keep" and c: "calm K q"
  shows "\<exists>s'. set_nonblock K cfd s = Some s' \<and> z_state v (world s') = (z_in v (world s), z_got v (world s), z_file v (world s), z_closed v (world s), False)"
    "f \<noteq> cfd \<Longrightarrow> \<exists>s'. set_nonblock K f s = Some s' \<and> z_state v (world s') = z_state v (world s)"
proof -
  obtain flags r1 s1 where 1: "NO_INTR (sys_fcntl K cfd F_GETFL 0) s = Some ((flags, r1), s1)" "z_state v (world s1) = z_state v (world s)"
    using z_fcntl(1) [OF k c] by blast
  have "bit ((flags OR O_NONBLOCK) AND O_NONBLOCK) 11" by (simp add: bit_simps)
  then have b: "(flags OR O_NONBLOCK) AND O_NONBLOCK \<noteq> 0" by auto
  obtain x r2 s2 where "NO_INTR (sys_fcntl K cfd F_SETFL (flags OR O_NONBLOCK)) s1 = Some ((x, r2), s2)"
    "z_state v (world s2) = (z_in v (world s1), z_got v (world s1), z_file v (world s1), z_closed v (world s1), False)"
    using z_fcntl(3) [OF k c, of "flags OR O_NONBLOCK" s1] b by auto
  with 1 show "\<exists>s'. set_nonblock K cfd s = Some s' \<and> z_state v (world s') = (z_in v (world s), z_got v (world s), z_file v (world s), z_closed v (world s), False)"
    by (auto simp: set_nonblock_def z_state_def)
next
  assume f: "f \<noteq> cfd"
  obtain flags r1 s1 where 1: "NO_INTR (sys_fcntl K f F_GETFL 0) s = Some ((flags, r1), s1)" "z_state v (world s1) = z_state v (world s)"
    using z_fcntl(1) [OF k c] by blast
  obtain x r2 s2 where "NO_INTR (sys_fcntl K f F_SETFL (flags OR O_NONBLOCK)) s1 = Some ((x, r2), s2)" "z_state v (world s2) = z_state v (world s1)"
    using z_fcntl(2) [OF k c f] by blast
  with 1 show "\<exists>s'. set_nonblock K f s = Some s' \<and> z_state v (world s') = z_state v (world s)" by (simp add: set_nonblock_def)
qed

text \<open>
  C4: a compressed dump is complete. \<open>CreateElfCore\<close> through \<open>PipeWriter\<close>, the closing of the compressor's input and
  \<open>FlushPipe\<close> succeed, however the compressor splits what it takes and returns, and the output file has got exactly
  what the compressor makes of the core file, provided that the compressor's output for a core file of this size cannot reach the limit.
\<close>

theorem write_output_compressed:
  assumes "compressing_kernel K q env fds ofd v press bound readable segs av" "c_pagesize args = de_pagesize env"
    and start: "z_in v (world s) = []" "z_got v (world s) = []" "\<not> z_closed v (world s)"
    and fit: "bound (length (process_image (de_memory env) (de_arch env) args readable segs av)) < unat max_len"
  shows "\<exists>s'. write_output K env args max_len fds ofd s = Some ((0, (fst fds, -1)), s') \<and>
    z_file v (world s') = z_file v (world s) @ press (process_image (de_memory env) (de_arch env) args readable segs av)"
proof -
  let ?img = "process_image (de_memory env) (de_arch env) args readable segs av" and ?L = "unat max_len" and ?F = "z_file v (world s)"
  let ?h = "\<lparr>max_length = ?L, write_fd = snd fds, compressed_fd = fst fds, out_fd = ofd\<rparr>"
  obtain fp frest content lb pipe k where c: "calm K q" and f: "0 \<le> fst fds" "0 \<le> snd fds" and kk: "k < 64" "de_pagesize env = 2 ^ k"
    and pr: "shows_process content (2 ^ k) segs av" and z: "compressor_ok K (de_memory env) (fst fds) (snd fds) ofd v press bound frest"
    and pk: "proc_ok K fp frest content" and sm: "smaps_ok K (de_memory env) readable lb (2 ^ k) pipe frest fp" "pipe_only K lb pipe"
    and fr: "\<And>w. pipe_next K lb pipe w" and lb: "0 \<le> fst lb" "0 \<le> snd lb" "snd lb \<noteq> ofd" "fst fds \<notin> {fp, fst lb}" "snd fds \<notin> {fp, fst lb, snd lb}"
    using assms(1) unfolding compressing_kernel_def by blast
  have "\<not> z_call (fst fds) (snd fds) ofd c" if "dump_call fp lb c" for c using that lb by (cases c) auto
  from observer_weaken [OF z_observer [OF z] this] have lo: "observer K (dump_call fp lb) (\<lambda>s. z_state v (world s))" .
  have "snd fds \<noteq> fst fds" using z by (auto simp: compressor_ok_def)
  obtain s1 where 1: "set_nonblock K (fst fds) s = Some s1" "z_state v (world s1) = ([], [], ?F, False, False)"
    using z_set_nonblock(1) [OF z c, of s] start by auto
  obtain s2 where 2: "set_nonblock K (snd fds) s1 = Some s2" "z_state v (world s2) = ([], [], ?F, False, False)"
    using z_set_nonblock(2) [OF z c \<open>snd fds \<noteq> fst fds\<close>, of s1] 1(2) by auto
  have pg: "c_pagesize args = 2 ^ k" "snd lb \<noteq> snd fds" using assms(2) kk lb(5) by auto
  have fits: "case z_state v (world s2) of (zi, zg, zf, zc, zb) \<Rightarrow> compressor_ok K (de_memory env) (fst fds) (snd fds) ofd v press bound frest \<and> intr_bounded K q \<and>
      z_fds (fst fds) (snd fds) ofd ?h \<and> max_length ?h + length zg = ?L \<and> zf = ?F @ zg \<and> \<not> zc \<and> \<not> zb \<and> bound (length zi + (length ?img + 0)) < ?L"
    unfolding 2(2) using z fit calm_bounded [OF c] by (simp add: z_fds_def)
  note fw = pipe_full.full_writer_axioms [where K = K and m = "de_memory env" and cfd = "fst fds" and wfd = "snd fds" and ofd = ofd and v = v and press = press and
      bound = bound and keep = frest and q = q and L = ?L and F = ?F]
  note run = CreateElfCore_process [OF fw lo c pk z_output_only [OF z] lb(1,2) pg(2) sm kk(1) pg(1) pr fr, where n = 0 and h = ?h and s = s2 and
      is_done = PipeDone and a = "de_arch env"]
  from run [OF fits] obtain h3 s3 where 3: "CreateElfCore K (PipeWriter K) PipeDone (de_arch env) (de_memory env) args (?h, s2) = Some (0, h3, s3)"
    "z_fds (fst fds) (snd fds) ofd h3" "z_inv v ?L ?F h3 (world s3)" "bound (length (z_in v (world s3))) < ?L" "z_in v (world s3) = z_in v (world s2) @ ?img"
    by (auto simp: z_state_def z_inv_def)
  have i3: "z_in v (world s3) = ?img" using 3(5) 2(2) by (simp add: z_state_def)
  obtain s4 where 4: "close_fd K (snd fds) s3 = Some s4" "z_closed v (world s4)" "z_in v (world s4) = z_in v (world s3)"
    "z_inv v ?L ?F h3 (world s4)" using z_close [OF z c f(2), of s3 ?L ?F h3] 3(3) by blast
  obtain h5 s5 where 5: "FlushPipe K h3 s4 = Some ((0, h5), s5)" "z_file v (world s5) = ?F @ press (z_in v (world s4))"
    using FlushPipe_complete [OF z c 4(4) 3(2) 4(2)] 3(4) 4(3) by auto
  then show ?thesis using 1(1) 2(1) 3(1) 4(1,3) i3 f by (simp add: write_output_def Let_def)
qed

subsection \<open>A process with one segment, and a compressor\<close>

text \<open>
  The files of \<open>core_kernel\<close>, and a program that returns its input as it is, some bytes at a time: it takes its input
  from descriptor 11, its output is read from descriptor 10.
\<close>

record zip_world =
  zw_got  :: "byte list"
  zw_rest :: "byte list"
  zw_shut :: bool
  zw_wait :: bool

definition zip_demo :: "(core_world \<times> zip_world) kern" where
  "zip_demo c w =
     (let z = snd w; core = (case core_kernel demo_memory demo_proc c (fst w) of (r, x) \<Rightarrow> (r, x, z)) in
      case c of
        NR_write f b \<Rightarrow>
          if f = 11 then (ret (of_nat (min 1000 (buf_len b))), fst w, z\<lparr>zw_rest := zw_rest z @ take (min 1000 (buf_len b)) (buf_bytes demo_memory b)\<rparr>)
          else core
      | NR_read f n \<Rightarrow>
          if f = 10 then
            if zw_rest z = [] \<and> \<not> zw_shut z then (ret (- 11), w)
            else (\<lparr>kret = of_nat (min (min 1000 n) (length (zw_rest z))), kbytes = take (min 1000 n) (zw_rest z), kints = []\<rparr>,
                  fst w, z\<lparr>zw_got := zw_got z @ take (min 1000 n) (zw_rest z), zw_rest := drop (min 1000 n) (zw_rest z)\<rparr>)
          else core
      | NR_close f \<Rightarrow> if f = 11 then (ret 0, fst w, z\<lparr>zw_shut := True\<rparr>) else core
      | NR_fcntl f cmd x \<Rightarrow> (ret 0, fst w, if f = 10 \<and> cmd = F_SETFL then z\<lparr>zw_wait := (x AND O_NONBLOCK = 0)\<rparr> else z)
      | NR_poll fds t \<Rightarrow>
          (\<lparr>kret = of_bool (zw_rest z \<noteq> []) + 1, kbytes = [], kints = [if zw_rest z \<noteq> [] then POLLIN else 0, POLLOUT]\<rparr>, w)
      | _ \<Rightarrow> core)"

definition zip_view :: "(core_world \<times> zip_world) zview" where
  "zip_view = \<lparr>z_in = (\<lambda>w. zw_got (snd w) @ zw_rest (snd w)), z_got = (\<lambda>w. zw_got (snd w)), z_file = (\<lambda>w. cw_out (fst w)), z_room = (\<lambda>_. True),
     z_data = (\<lambda>w. zw_rest (snd w) \<noteq> []), z_closed = (\<lambda>w. zw_shut (snd w)), z_blocks = (\<lambda>w. zw_wait (snd w))\<rparr>"

lemma zip_view_simps [simp]:
  "z_in zip_view w = zw_got (snd w) @ zw_rest (snd w)" "z_got zip_view w = zw_got (snd w)" "z_file zip_view w = cw_out (fst w)" "z_room zip_view w"
  "z_data zip_view w \<longleftrightarrow> zw_rest (snd w) \<noteq> []" "z_closed zip_view w = zw_shut (snd w)" "z_blocks zip_view w = zw_wait (snd w)"
  by (simp_all add: zip_view_def)

lemma zip_demo_compressor: "compressor_ok zip_demo demo_memory 10 11 1 zip_view (\<lambda>bs. bs) (\<lambda>n. n) (\<lambda>w. cw_rest (fst w))"
proof -
  have "z_polls zip_demo 10 11 zip_view" by (auto simp: z_polls_def zip_demo_def Let_def)
  moreover have "z_writes zip_demo demo_memory 11 zip_view" by (auto simp: z_writes_def zip_demo_def Let_def min_def)
  moreover have "z_reads zip_demo 10 zip_view (\<lambda>bs. bs)" by (auto simp: z_reads_def zip_demo_def Let_def min_def split: if_splits)
  moreover have "z_ends zip_demo 10 11 zip_view" by (auto simp: z_ends_def zip_demo_def Let_def)
  moreover have "z_state zip_view w' = z_state zip_view w" if "zip_demo c w = (r, w')" "\<not> z_call 10 11 1 c" for c w r w'
    using that by (cases c) (auto simp: zip_demo_def z_state_def Let_def core_kernel_def split: if_splits prod.splits)
  moreover have "sink_ok zip_demo demo_memory 1 (z_file zip_view) (\<lambda>w. (cw_rest (fst w), z_in zip_view w, z_got zip_view w, z_closed zip_view w, z_room zip_view w, z_blocks zip_view w))"
    unfolding sink_ok_def write_ok_def by (auto simp: zip_demo_def core_kernel_def Let_def split: if_splits)
  moreover have "mono (\<lambda>n::nat. n)" by (simp add: mono_def)
  ultimately show ?thesis unfolding compressor_ok_def
    by (auto simp: zip_demo_def core_kernel_def Let_def split: if_splits)
qed

lemma zip_demo_calm: "calm zip_demo (\<lambda>_. 0)"
  unfolding calm_def intr_bounded_def
proof (intro conjI allI impI)
  fix c w r w'
  assume K: "zip_demo c w = (r, w')"
  note cc = core_calm [of demo_memory demo_proc, unfolded calm_def intr_bounded_def]
  { assume "sint (kret r) = - EINTR"
    with K show "(0::nat) < 0" by (cases c) (auto simp: zip_demo_def core_kernel_def Let_def split: if_splits) }
  { assume "int_call c"
    with K show "- 4095 \<le> sint (kret r)" by (cases c) (auto simp: zip_demo_def core_kernel_def Let_def split: if_splits) }
  { assume "int_call c"
    with K show "sint (kret r) < 2 ^ 31" by (cases c) (auto simp: zip_demo_def core_kernel_def Let_def split: if_splits) }
qed simp

definition zip_env :: "(core_world \<times> zip_world) dump_env" where
  "zip_env = \<lparr>de_arch = X86_64, de_memory = demo_memory, de_compressors = (\<lambda>_. end_entry),
     de_notes = (\<lambda>_. \<lparr>note_name = [], note_type = 0, description = []\<rparr>), de_callback = (\<lambda>_ _ _. None), de_openmax = 0,
     de_pagesize = 16, de_PATH = None\<rparr>"

lemma zip_env_simps: "de_arch zip_env = X86_64" "de_memory zip_env = demo_memory" "de_pagesize zip_env = 2 ^ 4"
  by (simp_all add: zip_env_def)

lemma zip_demo_kernel: "compressing_kernel zip_demo (\<lambda>_. 0) zip_env (10, 11) 1 zip_view (\<lambda>bs. bs) (\<lambda>n. n) (\<lambda>_. True) [demo_segment] demo_auxv"
proof -
  let ?rest = "\<lambda>w. cw_rest (fst w)" and ?pipe = "\<lambda>w. cw_pipe (fst w)"
  have rd: "read_ok zip_demo 3 ?rest"
    unfolding read_ok_def by (auto simp: zip_demo_def core_kernel_def Let_def min_def split: if_splits)
  have pk: "proc_ok zip_demo 3 ?rest demo_proc"
    using rd unfolding proc_ok_def by (auto simp: zip_demo_def core_kernel_def Let_def min_def split: if_splits)
  have sm: "smaps_ok zip_demo demo_memory (\<lambda>_. True) (4, 5) (2 ^ 4) ?pipe ?rest 3"
    using rd unfolding smaps_ok_def read_keeps_def loopback_ok_def
    by (auto simp: zip_demo_def core_kernel_def Let_def min_def split: if_splits)
  have po: "pipe_only zip_demo (4, 5) ?pipe"
    unfolding pipe_only_def
  proof (intro allI impI)
    fix c w r w'
    assume "\<not> touches_pipe (4, 5) c" "zip_demo c w = (r, w')"
    then show "?pipe w' = ?pipe w" by (cases c) (auto simp: zip_demo_def core_kernel_def Let_def split: if_splits)
  qed
  have pf: "\<forall>w. pipe_next zip_demo (4, 5) ?pipe w" by (auto simp: pipe_next_def zip_demo_def core_kernel_def Let_def)
  show ?thesis
    unfolding compressing_kernel_def zip_env_simps fst_conv snd_conv
    by (intro conjI zip_demo_calm exI [of _ 3] exI [of _ ?rest] exI [of _ demo_proc] exI [of _ "(4, 5)"] exI [of _ ?pipe] exI [of _ 4]
      demo_shows_process zip_demo_compressor pk sm po pf) simp_all
qed

definition zip_start :: "(core_world \<times> zip_world) st" where
  "zip_start = \<lparr>errno = 0, calls = [], world = (world core_state, \<lparr>zw_got = [], zw_rest = [], zw_shut = False, zw_wait = True\<rparr>)\<rparr>"

definition zip_args :: core_args where
  "zip_args = demo_args\<lparr>c_extra_notes := []\<rparr>"

theorem write_output_compressed_witness:
  "\<exists>s'. write_output zip_demo zip_env zip_args (- 1) (10, 11) 1 zip_start = Some ((0, (10, -1)), s') \<and>
    cw_out (fst (world s')) = process_image demo_memory X86_64 zip_args (\<lambda>_. True) [demo_segment] demo_auxv"
proof -
  have "args_ok X86_64 zip_args" using demo_args_ok by (simp add: zip_args_def args_ok_def)
  moreover have a: "c_prioritize zip_args = 0" "c_extra_notes zip_args = []" "length (c_threads zip_args) \<le> 3" "c_pagesize zip_args = 16"
    by (simp_all add: zip_args_def demo_args_def)
  ultimately have "length (process_image demo_memory X86_64 zip_args (\<lambda>_. True) [demo_segment] demo_auxv) \<le> 20000" by (intro demo_process_image)
  also have "\<dots> < unat (- 1 :: u64)" unfolding largest_u64(2) by simp
  finally show ?thesis
    using write_output_compressed [OF zip_demo_kernel, of zip_args zip_start "- 1"] a(4)
    by (simp add: zip_env_simps zip_start_def core_state_out)
qed

end
