(* ===== verification/Example_Programs.thy ===== *)
theory Example_Programs
  imports Core_Dump
begin

text \<open>
  The two programs under \<open>ctests/\<close> that use the public interface: \<open>writecore_smoke.c\<close>, which dumps itself, and
  \<open>crash_handler.c\<close>, which does so from a handler for \<open>SIGSEGV\<close>. Both take \<open>WriteCoreDump\<close> through the header
  \<open>google/coredumper.h\<close>, whatever library they are linked with, so it is a parameter of the model: \<open>dump\<close> returns
  \<open>None\<close> when it does not come back. A run yields how the process ends and what it has printed.
\<close>

subsection \<open>Processes\<close>

text \<open>\<open>Stuck\<close>: the process does not leave \<open>WriteCoreDump\<close>, or is ended in it by a signal.\<close>

datatype ending = Exited int | Stuck

datatype message = Printed "byte list" | Reported "byte list" | Perror "byte list"

type_synonym 'w dumper = "byte list \<Rightarrow> 'w \<Rightarrow> (int \<times> 'w) option"

abbreviation (input) "SIGSEGV_no \<equiv> (11::int)"

text \<open>\<open>%d\<close>\<close>

fun print_nat :: "nat \<Rightarrow> byte list" where
  "print_nat n = (if n < 10 then [of_nat (48 + n)] else print_nat (n div 10) @ [of_nat (48 + n mod 10)])"

declare print_nat.simps [simp del]

definition print_d :: "int \<Rightarrow> byte list" where
  "print_d i = (if i < 0 then 45 # print_nat (nat (- i)) else print_nat (nat i))"

subsection \<open>\<open>writecore_smoke.c\<close>\<close>

text \<open>The argument vector is a list; \<open>argv[0]\<close> of an empty one is not printed.\<close>

definition smoke_main :: "'w dumper \<Rightarrow> byte list list \<Rightarrow> 'w \<Rightarrow> ending \<times> message list" where
  "smoke_main dump argv w =
     (if length argv < 2 then
        (Exited 2, [Reported (str ''usage: '' @ (case argv of [] \<Rightarrow> [] | a # _ \<Rightarrow> a) @ str '' <core-path>'' @ [10])])
      else case dump (argv ! 1) w of
          None \<Rightarrow> (Stuck, [])
        | Some (rc, _) \<Rightarrow>
            if rc \<noteq> 0 then (Exited 1, [Reported (str ''WriteCoreDump failed rc='' @ print_d rc @ [10])])
            else (Exited 0, [Printed (str ''wrote '' @ argv ! 1 @ [10])]))"

subsection \<open>\<open>crash_handler.c\<close>\<close>

text \<open>What the C library and the kernel answer.\<close>

record crash_os =
  os_pid         :: int
  os_SIGSTKSZ    :: int
  os_malloc      :: "nat \<Rightarrow> bool"        \<comment> \<open>whether \<open>malloc\<close> finds this much memory\<close>
  os_sigaltstack :: "nat \<Rightarrow> int"
  os_sigaction   :: "int \<Rightarrow> u64 \<Rightarrow> int"  \<comment> \<open>for a signal and \<open>sa_flags\<close>\<close>
  os_faults      :: bool                  \<comment> \<open>whether writing through a null pointer raises \<open>SIGSEGV\<close>\<close>

text \<open>\<open>g_core_path\<close>, which has 4096 bytes: \<open>snprintf\<close> cuts off what does not fit.\<close>

definition core_path :: "crash_os \<Rightarrow> byte list list \<Rightarrow> byte list" where
  "core_path os argv =
     take 4095 (if length argv \<ge> 2 then argv ! 1 else str ''/tmp/corus-crash-c-'' @ print_d (os_pid os) @ str ''.core'')"

text \<open>The handler. It was reset when it was called: a second fault inside \<open>WriteCoreDump\<close> ends the process.\<close>

definition on_sigsegv :: "'w dumper \<Rightarrow> byte list \<Rightarrow> 'w \<Rightarrow> ending \<times> message list" where
  "on_sigsegv dump path w =
     (case dump path w of
        None \<Rightarrow> (Stuck, [])
      | Some (rc, _) \<Rightarrow>
          if rc = 0 then (Exited 0, [Reported (str ''crash_handler: wrote core'' @ [10])])
          else (Exited 1, [Reported (str ''crash_handler: dump failed'' @ [10])]))"

abbreviation (input) "handler_flags \<equiv> (0xC8000000::u64)"  \<comment> \<open>\<open>SA_ONSTACK|SA_NODEFER|SA_RESETHAND\<close>\<close>

text \<open>\<open>Some\<close> the message when the handler could not be installed.\<close>

definition install_handler :: "crash_os \<Rightarrow> message option" where
  "install_handler os =
     (let ss_size = (if os_SIGSTKSZ os > 65536 then nat (os_SIGSTKSZ os) else 65536) in
      if \<not> os_malloc os ss_size \<or> os_sigaltstack os ss_size \<noteq> 0 then Some (Perror (str ''sigaltstack''))
      else if os_sigaction os SIGSEGV_no handler_flags \<noteq> 0 then Some (Perror (str ''sigaction''))
      else None)"

definition crash_main :: "crash_os \<Rightarrow> 'w dumper \<Rightarrow> byte list list \<Rightarrow> 'w \<Rightarrow> ending \<times> message list" where
  "crash_main os dump argv w =
     (let path = core_path os argv in
      case install_handler os of
        Some m \<Rightarrow> (Exited 1, [m])
      | None \<Rightarrow>
          let start = Printed (str ''crash_handler: process '' @ print_d (os_pid os) @ str '' will fault and dump to '' @ path @ [10])
          in if os_faults os then (case on_sigsegv dump path w of (e, ms) \<Rightarrow> (e, start # ms))
             else (Exited 2, [start, Reported (str ''crash_handler: fault did not trigger the handler'' @ [10])]))"

subsection \<open>What their exit codes say\<close>

text \<open>The exit code is 0 exactly when there is a dump: \<open>WriteCoreDump\<close> was called with the path and returned 0.\<close>

lemma smoke_main_exit: "fst (smoke_main dump argv w) = Exited 0 \<longleftrightarrow> length argv \<ge> 2 \<and> (\<exists>w'. dump (argv ! 1) w = Some (0, w'))"
  by (auto simp: smoke_main_def split: option.splits if_splits)

lemma crash_main_exit:
  "fst (crash_main os dump argv w) = Exited 0 \<longleftrightarrow>
     install_handler os = None \<and> os_faults os \<and> (\<exists>w'. dump (core_path os argv) w = Some (0, w'))"
  by (auto simp: crash_main_def on_sigsegv_def Let_def split: option.splits if_splits prod.splits)

text \<open>A path of 4096 bytes or more is not the path the dump goes to.\<close>

lemma core_path_argument: "length argv \<ge> 2 \<Longrightarrow> core_path os argv = argv ! 1 \<longleftrightarrow> length (argv ! 1) < 4096"
  by (auto simp: core_path_def min_def split: if_splits)

lemma print_nat_length: "n < 10 ^ Suc k \<Longrightarrow> length (print_nat n) \<le> Suc k"
proof (induction k arbitrary: n)
  case 0
  then show ?case by (subst print_nat.simps) simp
next
  case (Suc k)
  then have "n div 10 < 10 ^ Suc k" by (simp add: less_mult_imp_div_less)
  with Suc.IH [of "n div 10"] show ?case by (subst print_nat.simps) simp
qed

text \<open>The default path always fits.\<close>

lemma core_path_default:
  assumes "length argv < 2" "0 \<le> os_pid os" "os_pid os < 2 ^ 31"
  shows "core_path os argv = str ''/tmp/corus-crash-c-'' @ print_d (os_pid os) @ str ''.core''"
proof -
  have "length (print_nat (nat (os_pid os))) \<le> Suc 9" using assms by (intro print_nat_length) simp
  then show ?thesis using assms by (simp add: core_path_def print_d_def)
qed

subsection \<open>With this library\<close>

text \<open>
  Linked with the C library, a call of \<open>WriteCoreDump\<close> is the run of the model from the state the program is in.
\<close>

lemma smoke_main_WriteCoreDump:
  "fst (smoke_main (WriteCoreDump K env cs) [prog, path] s) = Exited 0 \<longleftrightarrow> (\<exists>s'. WriteCoreDump K env cs path s = Some (0, s'))"
  by (simp add: smoke_main_exit)

end
