(* ===== verification/Spec2Isabelle.thy ===== *)
theory Spec2Isabelle
  imports Core_Params Lister_Safety Core_Dump Pipeline_Fds Dump_Complete Machine_Frames Syscall_Compat Parent_Regs
    Snapshot Compressed_Dump Example_Programs
begin

text \<open>
  A verification of the C library under \<open>src/coredumper\<close>, which writes a core file of the running process
  without ending it, and of the two programs under \<open>src/ctests\<close> that use it. This theory collects the others and holds the properties of a whole dump.

  \<^bold>\<open>The program.\<close> An entry point of \<open>coredumper.c\<close> (\<open>WriteCoreDump\<close>, \<open>GetCoreDump\<close> and their variants) fills
  in \<open>struct CoreDumpParameters\<close>, takes a snapshot of its own registers (\<open>FRAME\<close>, \<open>elfcore.h\<close>) and calls
  \<open>ListAllProcessThreads\<close> (\<open>linuxthreads.c\<close>). This clones a lister, which finds all threads of the process
  under \<open>/proc\<close>, attaches to them with \<open>ptrace\<close> and calls \<open>InternalGetCoreDump\<close> (\<open>elfcore.c\<close>) while they are
  stopped. \<open>InternalGetCoreDump\<close> reads the registers of all threads and facts about the process, and either opens
  a file and writes the core file into it, possibly limited in size or through a compressor that
  \<open>CreatePipeline\<close> starts, or forks a child that writes it into a pipe whose read end is returned. \<open>CreateElfCore\<close>
  reads \<open>/proc/self/smaps\<close> and the auxiliary vector, computes the headers and passes everything to a writer
  function. Afterwards the threads are resumed. All system calls go through \<open>linux_syscall_support.h\<close>.

  \<^bold>\<open>State, kernel, errors.\<close> The kernel is a parameter \<open>K\<close>: a function from a system call and a world to a reply
  and a new world. The state \<open>'w st\<close> of the program is \<open>errno\<close>, the world and the list of calls made so far; the
  last is a ghost that no definition reads. Handles, tables and structures are passed explicitly. Return values
  and \<open>errno\<close> are those of the code. A loop that may run forever is a \<open>partial_function (option)\<close> and its result
  \<open>None\<close> means that it does not return (or that the program aborts); where a property says that something
  returns, the result is \<open>Some\<close>. No definition uses fuel; the other loops are terminating functions. Sizes, addresses and file offsets are
  64-bit words that wrap, \<open>e_phnum\<close> has 16 bits, and C \<open>int\<close> results are cut to 32 bits. A
  child that shares descriptors or memory with its parent runs to its end before the parent goes on, and the
  lister runs while its parent waits: this is the schedule that the code enforces with pipes and \<open>waitpid\<close>.
  The model follows x86\_64 with thread support, and aarch64 where the code differs (type \<open>arch\<close>).

  \<^bold>\<open>Theories\<close>, each with the code it models:

  \<^item> \<open>Corus_Prelude\<close>: words, bytes, little-endian numbers, buffers, lemmas on lists and the option monad.
  \<^item> \<open>Syscall_Support\<close>: \<open>linux_syscall_support.h\<close>; results and \<open>errno\<close> (\<open>LSS_RETURN\<close>), the macros \<open>NO_INTR\<close>, signal
    sets, \<open>ptrace_detach\<close>. \<open>Syscall_Compat\<close>: the calls aarch64 lacks and, for 32-bit machines, the fallbacks for
    old kernels and 64-bit arguments.
  \<^item> \<open>Core_Io\<close>: \<open>c_read\<close>, \<open>c_write\<close>, the writers, \<open>FlushPipe\<close>, \<open>GetChar\<close> of \<open>elfcore.c\<close>.
  \<^item> \<open>Smaps_Parser\<close>: the loops of \<open>CreateElfCore\<close> over \<open>smaps\<close>, \<open>GetHex\<close>, \<open>LeadingZeros\<close>. \<open>Smaps_Roundtrip\<close>: the text the
    kernel prints for a list of segments, and that the parser reads it back.
  \<^item> \<open>Elf_Layout\<close>, \<open>Vdso\<close>, \<open>Elf_Core\<close>: ELF structures with their bytes, the auxiliary vector and the vDSO, the headers
    and notes and \<open>CreateElfCore\<close> itself. \<open>Elf_File\<close>: the finished file as a debugger reads it. \<open>Elf_Dump\<close>:
    what a run of \<open>CreateElfCore\<close> writes.
  \<^item> \<open>Core_Params\<close>: \<open>struct CoreDumpParameters\<close>, its macros and setters, and the tables of compressors
    (\<open>google/coredumper.h\<close>, \<open>coredumper.c\<close>).
  \<^item> \<open>Thread_Lister\<close>: \<open>linuxthreads.c\<close> and the single-threaded \<open>thread_lister.c\<close>. \<open>Lister_Safety\<close>: threads are
    released. \<open>Thread_Search\<close>, \<open>Search_Complete\<close>: all threads are found.
  \<^item> \<open>Pipeline\<close>: \<open>CreatePipeline\<close> and \<open>CreatePipelineChild\<close>. \<open>Pipeline_Choice\<close>, \<open>Pipeline_Fds\<close>: the compressor that is
    chosen, and the descriptors that are closed.
  \<^item> \<open>Proc_Info\<close>: \<open>FRAME\<close> and \<open>SET_FRAME\<close> and the part of \<open>InternalGetCoreDump\<close> that collects registers and process
    information; \<open>Proc_Props\<close> and \<open>Dump_Info\<close> have its properties. \<open>Machine_Frames\<close>: the macros of the other machines.
  \<^item> \<open>Core_Dump\<close>: the rest of \<open>InternalGetCoreDump\<close> and the entry points. \<open>Parent_Regs\<close>: \<open>GetParentRegs\<close> of builds without
    thread support.
  \<^item> \<open>Call_Effects\<close>, \<open>Dump_Effects\<close>, \<open>Lister_Effects\<close>, \<open>Dump_Safety\<close>: what a run can change. \<open>Calm_Calls\<close>, \<open>Full_Writes\<close>,
    \<open>Process_Dump\<close>, \<open>Dump_Complete\<close>: runs that succeed. \<open>Kernel_Extension\<close>, \<open>Snapshot\<close>: dumps through a pipe that succeed,
    in the child and in the parent. \<open>Compressed_Dump\<close>: dumps through a compressor that succeed. \<open>Dump_Run\<close>: a run on a
    scripted kernel.
  \<^item> \<open>Example_Programs\<close>: \<open>writecore_smoke.c\<close> and \<open>crash_handler.c\<close> of \<open>ctests\<close>, with \<open>WriteCoreDump\<close> as a parameter, and
    what their exit codes say.

  \<^bold>\<open>Interfaces.\<close> \<open>core_writer\<close> (\<open>Core_Io\<close>) is what \<open>CreateElfCore\<close> relies on in a writer, interpreted for
  \<open>SimpleWriter\<close> and \<open>LimitWriter\<close>; \<open>full_writer\<close> (\<open>Full_Writes\<close>) is a writer that does not fail, with the same
  interpretations and one for \<open>PipeWriter\<close>. \<open>char_source\<close> is what the parsers rely on in \<open>GetChar\<close>; \<open>codec\<close> (\<open>Elf_Layout\<close>) an encoding of
  fixed size, interpreted for the ELF structures; \<open>observer\<close> (\<open>Call_Effects\<close>) and its extensions an observation that
  certain calls leave alone, interpreted for the set of stopped threads and the closed descriptors and used for
  the output file.

  \<^bold>\<open>What is shown\<close>, on two kinds of kernels:

  \<^item> On every kernel, whatever it answers: what is written is an initial part of a core file, all of it when 0 is
    returned, and at most \<open>max_length\<close> bytes; the callback of the lister runs while exactly the threads in its
    array are stopped; threads are released on all paths but one, which is reported as a finding; the data
    collected has the sizes of the C structures; parameters stay consistent. Where output or
    termination is concerned, hypotheses speak only about the calls on the descriptors in question: \<open>write_ok\<close>,
    \<open>read_ok\<close>, \<open>output_only\<close>, \<open>intr_bounded\<close> (calls are interrupted finitely often).
  \<^item> On kernels that behave as documented: \<open>calm\<close>, \<open>proc_ok\<close>, \<open>smaps_ok\<close>, \<open>sink_ok\<close>, \<open>pipe_only\<close> and \<open>pipe_next\<close>, together
    \<open>process_kernel\<close>, say that \<open>/proc/self\<close> shows the segments and the auxiliary vector of a process and that
    writing works; \<open>threads_kernel\<close> says that \<open>/proc\<close> lists the threads, that they can be attached to and that no thread ends
    during the search, while running threads may create others; \<open>dump_kernel\<close> combines both. Then the
    parser reads back the segments, the search ends and finds every thread, \<open>CreateElfCore\<close> returns 0 and
    writes exactly the file of these segments, and so does \<open>WriteCoreDump\<close> as a whole. \<open>child_kernel\<close> and \<open>parent_kernel\<close>
    say the same of the two processes of \<open>GetCoreDump\<close>: the child writes exactly this file into the pipe it has sent, and the
    parent returns the descriptor it received. \<open>compressing_kernel\<close> adds a compressor that takes its input and returns its
    output in parts of any size; then the output file has got what it makes of the core file.

  Pure facts about the file (\<open>Elf_File\<close>) connect this to a debugger: the headers lead to the memory of every mapping
  and to every note. Witnesses use concrete kernels: a scripted one that answers from a list
  (\<open>scripted\<close>), one with files and a pipe (\<open>core_kernel\<close>), one with threads, one of which starts another
  (\<open>threads_demo\<close>), the product of the last two (\<open>process_demo\<close>), and extensions of these by a socket and a fork
  (\<open>snapshot_demo\<close>) and by a compressor (\<open>zip_demo\<close>).

  \<^bold>\<open>Not modelled.\<close> The port of the library to Rust, a second implementation with its own system call layer. The unit
  tests, which start debuggers on the files the library writes and hold no logic of it. Of \<open>linux_syscall_support.h\<close>
  the trap instructions and system call numbers of each processor and the structures of calls that the program does not make:
  they are tables and assembly without behaviour above the level of the parameter \<open>K\<close>. The 32-bit ELF structures, and the C++
  class around the system calls (\<open>SysCalls\<close>). Interleavings of a parent and its child other than the one above. Signals other
  than those the lister handles. A whole dump in a build without thread support, of which only \<open>GetParentRegs\<close> and the
  lister of \<open>thread_lister.c\<close> are modelled. Of \<open>linuxthreads.c\<close>, \<open>elfcore.c\<close> and \<open>coredumper.c\<close> nothing else is left but
  comments and declarations.
\<close>

section \<open>Properties of a whole dump\<close>

text \<open>
  C5: no entry point leaves a thread stopped. Whatever the kernel answers and whichever call fails,
  when \<open>GetCoreDump\<close>, \<open>WriteCoreDump\<close> or one of their variants returns a value other than -1,
  every thread that was stopped for the dump has been detached, provided that a callback of the
  user stops no thread.
\<close>

theorem dump_releases_threads:
  assumes "traced (calls s) = {}" "callback_quiet env"
    "Some (rc, s') \<in> {GetCoreDump K env cs s, GetCoreDumpWith K env cs params s,
       GetCompressedCoreDump K env cs compressors selected s, WriteCoreDump K env cs name s,
       WriteCoreDumpWith K env cs params name s, WriteCoreDumpLimited K env cs name n s,
       WriteCoreDumpLimitedByPriority K env cs name n s,
       WriteCompressedCoreDump K env cs name n compressors selected s}"
  shows "rc = -1 \<or> traced (calls s') = {}"
proof -
  obtain fr s1 where fr: "FRAME K (cs_label cs) (cs_machine cs) s = (fr, s1)" by force
  then have t: "traced (calls s1) = {}" using FRAME_observed(1) assms(1) by metis
  have l: "rc = -1 \<or> traced (calls s') = {}"
    if "ListAllProcessThreads K (dump_callback K env p nm fr) (cs_addr cs) (s1\<lparr>errno := e\<rparr>) = Some (rc, s')" for p nm e
    by (rule ListAll_dump [OF that _ assms(2)]) (simp add: t)
  note l0 = ListAll_dump [OF _ t assms(2)]
  show ?thesis
    using assms(3) unfolding insert_iff empty_iff eq_commute [of "Some (rc, s')"]
    by (elim disjE)
      (auto simp: entry_defs fr simp del: traced_errno split: bind_splits if_splits dest!: l l0)
qed

theorem dump_releases_threads_witness:
  "\<exists>s'. WriteCoreDumpLimited scripted demo_env demo_site (str ''core'') 4 (script_start dump_script) = Some (0, s') \<and>
    traced (calls s') = {}"
proof -
  obtain cs' where run: "WriteCoreDumpLimited scripted demo_env demo_site (str ''core'') 4 (script_start dump_script) =
    Some (0, \<lparr>errno = 9, calls = cs', world = ([], elf_head)\<rparr>)" using dump_run by blast
  have "traced (calls (script_start dump_script)) = {}" "callback_quiet demo_env"
    by (simp_all add: script_start_def callback_quiet_def demo_env_def)
  from dump_releases_threads [OF this, where K = scripted and cs = demo_site and name = "str ''core''" and n = 4] run
  show ?thesis by fastforce
qed



end
